(* ===== verification/Prelude.thy ===== *)
theory Prelude
  imports Main "HOL-Library.AList" "HOL-Library.Word"
begin

unbundle bit_operations_syntax

text \<open>
  Shared vocabulary of the development: the types that stand for Go's machine integers,
  strings and maps, the collections of hints, and the facts on lists, sums and ring indices
  that several components use.

  A Go \<open>string\<close> or \<open>[]byte\<close> is a list of 8-bit characters, so \<open>length\<close> is Go's \<open>len\<close> and
  counts bytes. A Go \<open>map[string]string\<close> is an association list with at most one entry per
  key, written by \<open>AList.update\<close>. Instants are nanoseconds since the epoch and are
  arguments of the operations that call \<open>time.Now()\<close>.
\<close>

section \<open>Types and hint collections\<close>

type_synonym bytes = string
type_synonym instant = int
type_synonym header_map = "(string \<times> string) list"

named_theorems go_simps \<open>characteristic equations of the Go text helpers\<close>
named_theorems ring_simps \<open>index arithmetic of the ring buffers\<close>
named_theorems frame_simps \<open>fields an operation leaves alone\<close>

abbreviation char_code :: "char \<Rightarrow> nat" where
  "char_code c \<equiv> of_char c"

text \<open>Two's complement wrap-around of a 64-bit Go \<open>int\<close>.\<close>

definition wrap64 :: "int \<Rightarrow> int" where
  "wrap64 x = ((x + 2 ^ 63) mod 2 ^ 64) - 2 ^ 63"

lemma wrap64_id: "- (2 ^ 63) \<le> x \<Longrightarrow> x < 2 ^ 63 \<Longrightarrow> wrap64 x = x"
  by (simp add: wrap64_def)

lemma wrap64_bounds: "- (2 ^ 63) \<le> wrap64 x" "wrap64 x < 2 ^ 63"
  by (simp_all add: wrap64_def)

lemma wrap64_overflow:
  assumes "2 ^ 63 \<le> x" and "x < 2 ^ 64"
  shows "wrap64 x = x - 2 ^ 64"
proof -
  have "x + 2 ^ 63 = (x - 2 ^ 63) + 2 ^ 64" by simp
  then have "(x + 2 ^ 63) mod 2 ^ 64 = (x - 2 ^ 63) mod 2 ^ 64"
    by (simp only: mod_add_self2)
  also have "\<dots> = x - 2 ^ 63"
    using assms by (intro mod_pos_pos_trivial) simp_all
  finally have eq: "(x + 2 ^ 63) mod 2 ^ 64 = x - 2 ^ 63" .
  show ?thesis unfolding wrap64_def eq by simp
qed

section \<open>Lists\<close>

text \<open>Go's \<open>s[i:j]\<close> for \<open>0 \<le> i \<le> j \<le> len(s)\<close>.\<close>

definition slice :: "nat \<Rightarrow> nat \<Rightarrow> 'a list \<Rightarrow> 'a list" where
  "slice i j xs = take (j - i) (drop i xs)"

lemma length_slice [simp]: "length (slice i j xs) = min (j - i) (length xs - i)"
  by (simp add: slice_def)

lemma slice_0 [simp]: "slice 0 j xs = take j xs"
  by (simp add: slice_def)

text \<open>The index of the first element that satisfies a test.\<close>

fun index_where :: "('a \<Rightarrow> bool) \<Rightarrow> 'a list \<Rightarrow> nat option" where
  "index_where P [] = None"
| "index_where P (x # xs) = (if P x then Some 0 else map_option Suc (index_where P xs))"

lemma index_where_Some:
  "index_where P xs = Some i \<Longrightarrow> i < length xs \<and> P (xs ! i) \<and> (\<forall>x \<in> set (take i xs). \<not> P x)"
proof (induction xs arbitrary: i)
  case Nil
  then show ?case by simp
next
  case (Cons x xs)
  then show ?case by (cases i) (auto split: if_splits)
qed

lemma index_where_None: "index_where P xs = None \<longleftrightarrow> (\<forall>x \<in> set xs. \<not> P x)"
  by (induction xs) auto

lemma index_where_append:
  "index_where P (xs @ ys) =
     (case index_where P xs of Some i \<Rightarrow> Some i
      | None \<Rightarrow> map_option (\<lambda>i. length xs + i) (index_where P ys))"
proof (induction xs)
  case Nil
  then show ?case by (cases "index_where P ys") simp_all
next
  case (Cons x xs)
  then show ?case
    by (cases "index_where P xs"; cases "index_where P ys") auto
qed

lemma find_append: "find P (xs @ ys) = (case find P xs of Some x \<Rightarrow> Some x | None \<Rightarrow> find P ys)"
  by (induction xs) auto

section \<open>Ring indices\<close>

text \<open>
  \<open>x & mask\<close> with \<open>mask = 2 ^ k - 1\<close> is the remainder of \<open>x\<close> by the ring's size.
\<close>

lemma and_mask_mod [ring_simps]: "(x :: nat) AND (2 ^ k - 1) = x mod 2 ^ k"
  using take_bit_eq_mask [of k x] by (simp add: mask_eq_exp_minus_1 take_bit_eq_mod)

definition ring_index :: "nat \<Rightarrow> nat \<Rightarrow> nat \<Rightarrow> nat" where
  "ring_index n t i = (t + i) mod n"

definition ring_used :: "nat \<Rightarrow> nat \<Rightarrow> nat \<Rightarrow> nat" where
  "ring_used n h t = (if t \<le> h then h - t else n - t + h)"

text \<open>The elements between \<open>tail\<close> and \<open>head\<close>, oldest first.\<close>

definition ring_contents :: "'a list \<Rightarrow> nat \<Rightarrow> nat \<Rightarrow> 'a list" where
  "ring_contents b h t =
     map (\<lambda>i. b ! ring_index (length b) t i) [0..<ring_used (length b) h t]"

lemma length_ring_contents [ring_simps]:
  "length (ring_contents b h t) = ring_used (length b) h t"
  by (simp add: ring_contents_def)

lemma ring_used_less: "h < n \<Longrightarrow> t < n \<Longrightarrow> ring_used n h t < n"
  by (auto simp: ring_used_def)

lemma ring_used_0 [ring_simps]: "h < n \<Longrightarrow> t < n \<Longrightarrow> ring_used n h t = 0 \<longleftrightarrow> h = t"
  by (auto simp: ring_used_def)

lemma ring_contents_Nil: "h < length b \<Longrightarrow> t < length b \<Longrightarrow> ring_contents b h t = [] \<longleftrightarrow> h = t"
  by (auto simp: ring_used_0 simp flip: length_0_conv simp: length_ring_contents)

lemma ring_contents_same [simp]: "ring_contents b t t = []"
  by (simp add: ring_contents_def ring_used_def)

lemma Suc_mod_ring: "h < n \<Longrightarrow> Suc h mod n = (if Suc h = n then 0 else Suc h)"
  by (simp add: mod_Suc)

text \<open>The ring is full when advancing the head would meet the tail.\<close>

lemma ring_full_iff:
  "h < n \<Longrightarrow> t < n \<Longrightarrow> Suc h mod n = t \<longleftrightarrow> ring_used n h t = n - 1"
  by (auto simp: Suc_mod_ring ring_used_def)

lemma ring_used_Suc_head:
  "h < n \<Longrightarrow> t < n \<Longrightarrow> Suc h mod n \<noteq> t \<Longrightarrow> ring_used n (Suc h mod n) t = Suc (ring_used n h t)"
  by (auto simp: Suc_mod_ring ring_used_def)

lemma ring_used_Suc_tail:
  "h < n \<Longrightarrow> t < n \<Longrightarrow> h \<noteq> t \<Longrightarrow> ring_used n h (Suc t mod n) = ring_used n h t - 1"
  by (auto simp: Suc_mod_ring ring_used_def)

lemma ring_index_used: "h < n \<Longrightarrow> t < n \<Longrightarrow> ring_index n t (ring_used n h t) = h"
  by (cases "t \<le> h") (simp_all add: ring_index_def ring_used_def)

lemma ring_index_Suc_tail: "ring_index n (Suc t mod n) i = ring_index n t (Suc i)"
  by (simp add: ring_index_def mod_simps)

lemma ring_index_neq_head:
  assumes "h < n" and "t < n" and "i < ring_used n h t"
  shows "ring_index n t i \<noteq> h"
proof (cases "t + i < n")
  case True
  then show ?thesis using assms by (auto simp: ring_index_def ring_used_def split: if_splits)
next
  case False
  then have "(t + i) mod n = t + i - n"
    using assms by (auto simp: ring_used_def le_mod_geq split: if_splits)
  then show ?thesis using False assms by (auto simp: ring_index_def ring_used_def split: if_splits)
qed

text \<open>Dropping the oldest element advances the tail.\<close>

lemma ring_contents_drop:
  assumes "h < length b" and "t < length b" and "h \<noteq> t"
  shows "ring_contents b h (Suc t mod length b) = tl (ring_contents b h t)"
proof -
  let ?n = "length b"
  have u: "0 < ring_used ?n h t" using assms by (auto simp: ring_used_def)
  have "tl [0..<ring_used ?n h t] = map Suc [0..<ring_used ?n h t - 1]"
    using u by (simp add: upt_conv_Cons map_Suc_upt)
  then show ?thesis
    using ring_used_Suc_tail [OF assms]
    by (simp add: ring_contents_def map_tl [symmetric] ring_index_Suc_tail comp_def)
qed

text \<open>Writing the slot at the head and advancing it appends the element.\<close>

lemma ring_contents_write:
  assumes "h < length b" and "t < length b" and "Suc h mod length b \<noteq> t"
  shows "ring_contents (b[h := x]) (Suc h mod length b) t = ring_contents b h t @ [x]"
proof -
  let ?n = "length b"
  have "b[h := x] ! ring_index ?n t i = b ! ring_index ?n t i" if "i < ring_used ?n h t" for i
    using ring_index_neq_head [OF assms(1,2) that] by simp
  moreover have "b[h := x] ! ring_index ?n t (ring_used ?n h t) = x"
    using assms by (simp add: ring_index_used)
  ultimately show ?thesis
    using ring_used_Suc_head [OF assms] by (simp add: ring_contents_def)
qed

lemma ring_contents_hd:
  assumes "h < length b" and "t < length b" and "h \<noteq> t"
  shows "hd (ring_contents b h t) = b ! t"
  using assms by (auto simp: ring_contents_def ring_index_def ring_used_def hd_map upt_conv_Cons)

end
