(* ===== verification/Models.thy ===== *)
theory Models
  imports Prelude
begin

text \<open>
  The data model of \<^verbatim>\<open>internal/models\<close>: one record per struct, field by field. Field names
  carry a prefix per record, since record fields are global constants. Integers of the structs
  are \<open>int\<close>; instants are nanoseconds. A captured request is a pointer in the code; the
  operations that write through it return the updated value.
\<close>

section \<open>Captured requests\<close>

record captured_request =
  cr_ID :: int
  cr_Method :: string
  cr_URL :: string
  cr_Host :: string
  cr_Path :: string
  cr_Protocol :: string
  cr_IsHTTPS :: bool
  cr_ReqHeaders :: header_map
  cr_ReqBody :: string
  cr_StatusCode :: int
  cr_ResHeaders :: header_map
  cr_ResBody :: string
  cr_DurationMs :: int
  cr_SizeBytes :: int
  cr_Truncated :: bool
  cr_CapturedAt :: "instant option" \<comment> \<open>\<open>None\<close> is the zero \<open>time.Time\<close>\<close>
  cr_CaptureMode :: string
  cr_ProcessPID :: int
  cr_ProcessName :: string
  cr_IsSSE :: bool
  cr_SSEEvents :: string

text \<open>The zero value of the struct, from which the code's composite literals start.\<close>

definition zero_request :: captured_request where
  "zero_request = \<lparr>cr_ID = 0, cr_Method = [], cr_URL = [], cr_Host = [], cr_Path = [],
     cr_Protocol = [], cr_IsHTTPS = False, cr_ReqHeaders = [], cr_ReqBody = [],
     cr_StatusCode = 0, cr_ResHeaders = [], cr_ResBody = [], cr_DurationMs = 0,
     cr_SizeBytes = 0, cr_Truncated = False, cr_CapturedAt = None, cr_CaptureMode = [],
     cr_ProcessPID = 0, cr_ProcessName = [], cr_IsSSE = False, cr_SSEEvents = []\<rparr>"

record process_info =
  pi_PID :: int
  pi_Name :: string
  pi_Cmdline :: string

section \<open>Interception\<close>

record intercept_rule =
  ir_ID :: int
  ir_Pattern :: string
  ir_Method :: string
  ir_Action :: string
  ir_Enabled :: bool

record intercept_result =
  ires_RequestID :: string
  ires_Action :: string
  ires_Method :: string
  ires_URL :: string
  ires_NewHeaders :: header_map
  ires_NewBody :: string
  ires_StatusCode :: int

record intercept_log =
  il_Action :: string
  il_RequestURL :: string
  il_RequestMethod :: string
  il_RequestHost :: string
  il_RulePattern :: string
  il_Mode :: string

text \<open>The two values of \<open>PendingRequest.Kind\<close>.\<close>

definition PendingKindRequest :: string where "PendingKindRequest = ''request''"

definition PendingKindResponse :: string where "PendingKindResponse = ''response''"

record pending_request =
  pr_ID :: string
  pr_Method :: string
  pr_URL :: string
  pr_Host :: string
  pr_Path :: string
  pr_Headers :: header_map
  pr_Body :: string
  pr_Timestamp :: instant
  pr_Kind :: string
  pr_StatusCode :: int

end
