(* ===== verification/GoText.thy ===== *)
theory GoText
  imports Prelude "HOL-Library.Sublist" "HOL-Library.Char_ord"
begin

text \<open>
  The functions of Go's \<open>strings\<close>, \<open>bytes\<close>, \<open>fmt\<close> and \<open>net\<close> packages the program uses, on
  byte strings. Case folding and white space are those of ASCII: bytes from \<open>0x80\<close> up are
  neither letters nor spaces here, while Go folds and trims the Unicode code points they
  may encode.
\<close>

section \<open>Bytes\<close>

abbreviation CR :: char where "CR \<equiv> CHR 0x0D"

abbreviation LF :: char where "LF \<equiv> CHR 0x0A"

definition lower_char :: "char \<Rightarrow> char" where
  "lower_char c = (if 65 \<le> char_code c \<and> char_code c \<le> 90
                   then char_of (char_code c + 32 :: nat) else c)"

definition upper_char :: "char \<Rightarrow> char" where
  "upper_char c = (if 97 \<le> char_code c \<and> char_code c \<le> 122
                   then char_of (char_code c - 32 :: nat) else c)"

definition is_digit :: "char \<Rightarrow> bool" where
  "is_digit c \<longleftrightarrow> 48 \<le> char_code c \<and> char_code c \<le> 57"

definition is_space_char :: "char \<Rightarrow> bool" where
  "is_space_char c \<longleftrightarrow> char_code c \<in> {9, 10, 11, 12, 13, 32}"

definition digit_value :: "char \<Rightarrow> nat" where
  "digit_value c = char_code c - 48"

text \<open>The value of a hexadecimal digit.\<close>

definition hex_value :: "char \<Rightarrow> nat option" where
  "hex_value c = (let n = char_code c in
     if 48 \<le> n \<and> n \<le> 57 then Some (n - 48)
     else if 97 \<le> n \<and> n \<le> 102 then Some (n - 87)
     else if 65 \<le> n \<and> n \<le> 70 then Some (n - 55)
     else None)"

section \<open>Package strings\<close>

definition has_prefix :: "string \<Rightarrow> string \<Rightarrow> bool" where
  "has_prefix s p \<longleftrightarrow> length p \<le> length s \<and> take (length p) s = p"

definition has_suffix :: "string \<Rightarrow> string \<Rightarrow> bool" where
  "has_suffix s p \<longleftrightarrow> length p \<le> length s \<and> drop (length s - length p) s = p"

lemma has_prefix_iff [go_simps]: "has_prefix s p \<longleftrightarrow> (\<exists>t. s = p @ t)"
  by (auto simp: has_prefix_def intro: exI [of _ "drop (length p) s"])
     (metis append_take_drop_id)

lemma has_suffix_iff [go_simps]: "has_suffix s p \<longleftrightarrow> (\<exists>t. s = t @ p)"
  by (auto simp: has_suffix_def) (metis append_take_drop_id)

lemma has_prefix_append [simp]: "has_prefix (p @ t) p"
  by (auto simp: has_prefix_iff)

lemma has_suffix_append [simp]: "has_suffix (t @ p) p"
  by (auto simp: has_suffix_iff)

text \<open>\<open>strings.Index\<close>: the first position where \<open>p\<close> occurs.\<close>

fun index_str :: "string \<Rightarrow> string \<Rightarrow> nat option" where
  "index_str [] p = (if p = [] then Some 0 else None)"
| "index_str (c # s) p = (if has_prefix (c # s) p then Some 0 else map_option Suc (index_str s p))"

definition contains_str :: "string \<Rightarrow> string \<Rightarrow> bool" where
  "contains_str s p \<longleftrightarrow> index_str s p \<noteq> None"

lemma index_str_Some: "index_str s p = Some i \<Longrightarrow> i + length p \<le> length s \<and> slice i (i + length p) s = p"
proof (induction s arbitrary: i)
  case Nil
  then show ?case by (auto split: if_splits)
next
  case (Cons c s)
  show ?case
  proof (cases "has_prefix (c # s) p")
    case True
    with Cons.prems show ?thesis by (simp add: has_prefix_def)
  next
    case False
    with Cons.prems obtain j where "index_str s p = Some j" and "i = Suc j" by auto
    with Cons.IH show ?thesis by (simp add: slice_def)
  qed
qed

lemma index_str_None: "index_str s p = None \<longleftrightarrow> (\<forall>u v. s \<noteq> u @ p @ v)"
proof (induction s)
  case Nil
  then show ?case by auto
next
  case (Cons c s)
  show ?case
  proof (cases "has_prefix (c # s) p")
    case True
    then have "\<exists>u v. c # s = u @ p @ v" by (metis append_Nil has_prefix_iff)
    with True show ?thesis by auto
  next
    case False
    then have "(\<exists>u v. c # s = u @ p @ v) \<longleftrightarrow> (\<exists>u v. s = u @ p @ v)"
      by (metis append_Cons append_Nil has_prefix_iff list.exhaust list.inject)
    with False Cons.IH show ?thesis by auto
  qed
qed

lemma contains_str_iff [go_simps]: "contains_str s p \<longleftrightarrow> (\<exists>u v. s = u @ p @ v)"
  using index_str_None [of s p] by (auto simp: contains_str_def)

definition index_byte :: "string \<Rightarrow> char \<Rightarrow> nat option" where
  "index_byte s c = index_where (\<lambda>b. b = c) s"

definition last_index_byte :: "string \<Rightarrow> char \<Rightarrow> nat option" where
  "last_index_byte s c =
     map_option (\<lambda>i. length s - 1 - i) (index_where (\<lambda>b. b = c) (rev s))"

text \<open>\<open>strings.Split\<close> with a one-byte separator: never empty.\<close>

fun split_on :: "char \<Rightarrow> string \<Rightarrow> string list" where
  "split_on sep [] = [[]]"
| "split_on sep (c # s) =
     (if c = sep then [] # split_on sep s
      else (case split_on sep s of [] \<Rightarrow> [[c]] | w # ws \<Rightarrow> (c # w) # ws))"

lemma split_on_nonempty [simp]: "split_on sep s \<noteq> []"
  by (induction s) (auto split: list.splits)

fun join_with :: "char \<Rightarrow> string list \<Rightarrow> string" where
  "join_with sep [] = []"
| "join_with sep [w] = w"
| "join_with sep (w # ws) = w @ sep # join_with sep ws"

lemma join_split [simp]: "join_with sep (split_on sep s) = s"
proof (induction s)
  case Nil
  then show ?case by simp
next
  case (Cons c s)
  obtain w ws where w: "split_on sep s = w # ws" by (cases "split_on sep s") auto
  with Cons show ?case by (cases ws) auto
qed

lemma split_on_no_sep: "w \<in> set (split_on sep s) \<Longrightarrow> sep \<notin> set w"
  by (induction s arbitrary: w) (auto split: list.splits if_splits)

lemma split_on_none: "sep \<notin> set w \<Longrightarrow> split_on sep w = [w]"
  by (induction w) auto

lemma split_on_append: "sep \<notin> set w \<Longrightarrow> split_on sep (w @ sep # s) = w # split_on sep s"
  by (induction w) auto

lemma split_join:
  "ws \<noteq> [] \<Longrightarrow> \<forall>w \<in> set ws. sep \<notin> set w \<Longrightarrow> split_on sep (join_with sep ws) = ws"
  by (induction sep ws rule: join_with.induct) (auto simp: split_on_none split_on_append)

text \<open>\<open>strings.SplitN(s, sep, 3)\<close> with a one-byte separator.\<close>

fun split_n :: "nat \<Rightarrow> char \<Rightarrow> string \<Rightarrow> string list" where
  "split_n 0 sep s = []"
| "split_n (Suc 0) sep s = [s]"
| "split_n (Suc (Suc n)) sep s =
     (case index_byte s sep of None \<Rightarrow> [s]
      | Some i \<Rightarrow> take i s # split_n (Suc n) sep (drop (Suc i) s))"

definition trim_left :: "(char \<Rightarrow> bool) \<Rightarrow> string \<Rightarrow> string" where
  "trim_left P s = dropWhile P s"

definition trim_right :: "(char \<Rightarrow> bool) \<Rightarrow> string \<Rightarrow> string" where
  "trim_right P s = rev (dropWhile P (rev s))"

definition trim_space :: "string \<Rightarrow> string" where
  "trim_space s = trim_right is_space_char (trim_left is_space_char s)"

definition trim_char :: "char \<Rightarrow> string \<Rightarrow> string" where
  "trim_char c s = trim_right (\<lambda>x. x = c) (trim_left (\<lambda>x. x = c) s)"

definition to_lower :: "string \<Rightarrow> string" where
  "to_lower s = map lower_char s"

definition to_upper :: "string \<Rightarrow> string" where
  "to_upper s = map upper_char s"

definition equal_fold :: "string \<Rightarrow> string \<Rightarrow> bool" where
  "equal_fold s t \<longleftrightarrow> to_lower s = to_lower t"

definition trim_suffix :: "string \<Rightarrow> string \<Rightarrow> string" where
  "trim_suffix s p = (if has_suffix s p then take (length s - length p) s else s)"

definition count_byte :: "string \<Rightarrow> char \<Rightarrow> nat" where
  "count_byte s c = length (filter (\<lambda>b. b = c) s)"

text \<open>\<open>strings.ReplaceAll\<close> of a one-byte string.\<close>

definition replace_byte :: "char \<Rightarrow> string \<Rightarrow> string \<Rightarrow> string" where
  "replace_byte c r s = concat (map (\<lambda>b. if b = c then r else [b]) s)"

text \<open>Decimal rendering, as \<open>fmt\<close>'s \<open>%d\<close> and \<open>strconv.Itoa\<close>.\<close>

fun show_nat :: "nat \<Rightarrow> string" where
  "show_nat n = (if n < 10 then [char_of (48 + n)] else show_nat (n div 10) @ [char_of (48 + n mod 10)])"

declare show_nat.simps [simp del]

lemma digit_chars [simp]:
  "char_of (48 :: nat) = CHR ''0''" "char_of (49 :: nat) = CHR ''1''" "char_of (50 :: nat) = CHR ''2''"
  "char_of (51 :: nat) = CHR ''3''" "char_of (52 :: nat) = CHR ''4''" "char_of (53 :: nat) = CHR ''5''"
  "char_of (54 :: nat) = CHR ''6''" "char_of (55 :: nat) = CHR ''7''" "char_of (56 :: nat) = CHR ''8''"
  "char_of (57 :: nat) = CHR ''9''"
  by code_simp+

definition show_int :: "int \<Rightarrow> string" where
  "show_int i = (if i < 0 then CHR ''-'' # show_nat (nat (- i)) else show_nat (nat i))"

lemma index_byte_Some:
  "index_byte s c = Some i \<Longrightarrow> i < length s \<and> s ! i = c \<and> c \<notin> set (take i s)"
  using index_where_Some [of "\<lambda>b. b = c" s i] by (auto simp: index_byte_def)

lemma index_byte_None [go_simps]: "index_byte s c = None \<longleftrightarrow> c \<notin> set s"
  by (auto simp: index_byte_def index_where_None)

lemma index_byte_append: "c \<notin> set u \<Longrightarrow> index_byte (u @ c # v) c = Some (length u)"
  by (induction u) (auto simp: index_byte_def)

lemma last_index_byte_Some:
  assumes "last_index_byte s c = Some i"
  shows "i < length s \<and> s ! i = c \<and> c \<notin> set (drop (Suc i) s)"
proof -
  obtain j where j: "index_where (\<lambda>b. b = c) (rev s) = Some j" and i: "i = length s - 1 - j"
    using assms by (auto simp: last_index_byte_def)
  from index_where_Some [OF j] have "j < length s" "rev s ! j = c" "\<forall>x \<in> set (take j (rev s)). x \<noteq> c"
    by auto
  moreover from this have "take j (rev s) = rev (drop (Suc i) s)"
    by (simp add: i take_rev Suc_diff_Suc)
  ultimately show ?thesis by (auto simp: i rev_nth)
qed

lemma last_index_byte_None [go_simps]: "last_index_byte s c = None \<longleftrightarrow> c \<notin> set s"
  by (auto simp: last_index_byte_def index_where_None)

section \<open>The order of strings\<close>

text \<open>Go's order of strings: byte by byte, a prefix first.\<close>

fun str_less :: "string \<Rightarrow> string \<Rightarrow> bool" where
  "str_less _ [] = False"
| "str_less [] (_ # _) = True"
| "str_less (a # s) (b # t) = (char_code a < char_code b \<or> (a = b \<and> str_less s t))"

lemma str_less_linear: "str_less s t \<or> s = t \<or> str_less t s"
proof (induction s t rule: str_less.induct)
  case (1 s)
  then show ?case by (cases s) auto
next
  case (2 b t)
  then show ?case by simp
next
  case (3 a s b t)
  have "char_code a < char_code b \<or> a = b \<or> char_code b < char_code a"
    by (metis linorder_neqE_nat of_char_eq_iff)
  then show ?case using 3 by auto
qed

lemma str_less_asym: "str_less s t \<Longrightarrow> \<not> str_less t s \<and> s \<noteq> t"
  by (induction s t rule: str_less.induct) auto

lemma str_less_trans: "str_less s t \<Longrightarrow> str_less t u \<Longrightarrow> str_less s u"
proof (induction s t arbitrary: u rule: str_less.induct)
  case (2 b t)
  then show ?case by (cases u) auto
next
  case (3 a s b t)
  then show ?case by (cases u) auto
qed simp

text \<open>A table whose keys ascend has distinct keys; one comparison per entry decides it.\<close>

fun ascending :: "string list \<Rightarrow> bool" where
  "ascending (s # t # ss) \<longleftrightarrow> str_less s t \<and> ascending (t # ss)"
| "ascending _ \<longleftrightarrow> True"

lemma ascending_less: "ascending (s # ss) \<Longrightarrow> t \<in> set ss \<Longrightarrow> str_less s t"
  by (induction ss arbitrary: s) (auto intro: str_less_trans)

lemma ascending_distinct: "ascending ss \<Longrightarrow> distinct ss"
proof (induction ss)
  case (Cons s ss)
  have "ascending ss" using Cons.prems by (cases ss) auto
  moreover have "s \<notin> set ss" using ascending_less [OF Cons.prems] str_less_asym [of s s] by blast
  ultimately show ?case using Cons.IH by simp
qed simp

section \<open>fmt.Sscanf of one integer\<close>

text \<open>
  \<open>fmt.Sscanf(s, "%d", &v)\<close> skips blanks, takes an optional sign and the digits that follow,
  and fails when there is no digit, when a newline comes first or when the value does not fit
  64 bits; what follows the digits is left unread. \<open>None\<close> is an error, and the variable then
  keeps its old value.
\<close>

definition digits_value :: "nat \<Rightarrow> nat list \<Rightarrow> nat" where
  "digits_value base ds = foldl (\<lambda>n d. n * base + d) 0 ds"

definition skip_blanks :: "string \<Rightarrow> string" where
  "skip_blanks s = dropWhile (\<lambda>c. is_space_char c \<and> c \<noteq> LF) s"

definition sscanf_d :: "string \<Rightarrow> int option" where
  "sscanf_d s =
     (let t = skip_blanks s;
          neg = (t \<noteq> [] \<and> hd t = CHR ''-'');
          u = (if t \<noteq> [] \<and> hd t \<in> {CHR ''+'', CHR ''-''} then tl t else t);
          ds = takeWhile is_digit u;
          v = int (digits_value 10 (map digit_value ds))
      in if ds = [] then None
         else if neg then (if v \<le> 2 ^ 63 then Some (- v) else None)
         else if v < 2 ^ 63 then Some v else None)"

definition sscanf_x :: "string \<Rightarrow> nat option" where
  "sscanf_x s =
     (let t = skip_blanks s;
          ds = takeWhile (\<lambda>c. hex_value c \<noteq> None) t;
          v = digits_value 16 (map (\<lambda>c. the (hex_value c)) ds)
      in if ds = [] then None else if v < 2 ^ 64 then Some v else None)"

lemma sscanf_d_range: "sscanf_d s = Some v \<Longrightarrow> - (2 ^ 63) \<le> v \<and> v < 2 ^ 63"
  by (auto simp: sscanf_d_def Let_def split: if_splits)

section \<open>Decimal numbers read back\<close>

lemma code_digit: "n < (10 :: nat) \<Longrightarrow> char_code (char_of (48 + n)) = 48 + n"
  by (simp add: take_bit_eq_mod)

lemma is_digit_digit: "n < (10 :: nat) \<Longrightarrow> is_digit (char_of (48 + n))"
  unfolding is_digit_def code_digit by simp

lemma digit_value_digit: "n < (10 :: nat) \<Longrightarrow> digit_value (char_of (48 + n)) = n"
  unfolding digit_value_def code_digit by simp

lemma digits_value_snoc: "digits_value b (ds @ [d]) = digits_value b ds * b + d"
  by (simp add: digits_value_def)

lemma show_nat_nonempty [simp]: "show_nat n \<noteq> []"
  by (subst show_nat.simps) simp

lemma show_nat_digits: "c \<in> set (show_nat n) \<Longrightarrow> is_digit c"
proof (induction n arbitrary: c rule: show_nat.induct)
  case (1 n)
  show ?case
  proof (cases "n < 10")
    case True
    then have "show_nat n = [char_of (48 + n)]" by (subst show_nat.simps) (simp only: if_True)
    then show ?thesis using "1.prems" is_digit_digit [OF True] by simp
  next
    case False
    then have "show_nat n = show_nat (n div 10) @ [char_of (48 + n mod 10)]"
      by (subst show_nat.simps) (simp only: if_False)
    then show ?thesis
      using "1.prems" "1.IH" [OF False] is_digit_digit [of "n mod 10"] by auto
  qed
qed

lemma show_nat_value: "digits_value 10 (map digit_value (show_nat n)) = n"
proof (induction n rule: show_nat.induct)
  case (1 n)
  show ?case
  proof (cases "n < 10")
    case True
    then have "show_nat n = [char_of (48 + n)]" by (subst show_nat.simps) (simp only: if_True)
    then show ?thesis using digit_value_digit [OF True] by (simp add: digits_value_def)
  next
    case False
    then have "show_nat n = show_nat (n div 10) @ [char_of (48 + n mod 10)]"
      by (subst show_nat.simps) (simp only: if_False)
    then show ?thesis
      using "1.IH" [OF False] digit_value_digit [of "n mod 10"] by (simp add: digits_value_snoc)
  qed
qed

lemma digit_not_special: "is_digit c \<Longrightarrow> \<not> is_space_char c \<and> c \<notin> {CHR ''+'', CHR ''-'', CR, LF, CHR '' ''}"
  by (auto simp: is_digit_def is_space_char_def)

lemma sscanf_d_show_nat:
  assumes "n < 2 ^ 63"
  shows "sscanf_d (show_nat n) = Some (int n)"
proof -
  obtain c cs where c: "show_nat n = c # cs" by (cases "show_nat n") auto
  have d: "\<forall>x \<in> set (show_nat n). is_digit x" using show_nat_digits by blast
  then have s: "skip_blanks (show_nat n) = show_nat n" and h: "c \<notin> {CHR ''+'', CHR ''-''}"
    using digit_not_special [of c] by (auto simp: skip_blanks_def c)
  have t: "takeWhile is_digit (show_nat n) = show_nat n" using d by (simp add: takeWhile_eq_all_conv)
  show ?thesis
    using assms h by (simp add: sscanf_d_def Let_def s t show_nat_value) (simp add: c)
qed

section \<open>net.SplitHostPort\<close>

text \<open>\<open>None\<close> is an address error; the port is not needed by the callers but kept.\<close>

definition split_host_port :: "string \<Rightarrow> (string \<times> string) option" where
  "split_host_port hp =
     (case last_index_byte hp (CHR '':'') of
        None \<Rightarrow> None
      | Some i \<Rightarrow>
          if hp ! 0 = CHR ''['' then
            (case index_byte hp (CHR '']'') of
               None \<Rightarrow> None
             | Some e \<Rightarrow>
                 if e + 1 = length hp then None
                 else if e + 1 \<noteq> i then None
                 else if CHR ''['' \<in> set (drop 1 hp) then None
                 else if CHR '']'' \<in> set (drop (e + 1) hp) then None
                 else Some (slice 1 e hp, drop (i + 1) hp))
          else if CHR '':'' \<in> set (take i hp) then None
          else if CHR ''['' \<in> set hp then None
          else if CHR '']'' \<in> set hp then None
          else Some (take i hp, drop (i + 1) hp))"

lemma split_host_port_plain:
  assumes "set h \<inter> {CHR '':'', CHR ''['', CHR '']''} = {}"
    and "set p \<inter> {CHR '':'', CHR ''['', CHR '']''} = {}"
  shows "split_host_port (h @ CHR '':'' # p) = Some (h, p)"
proof -
  let ?s = "h @ CHR '':'' # p"
  obtain i where i: "last_index_byte ?s (CHR '':'') = Some i"
    by (cases "last_index_byte ?s (CHR '':'')") (auto simp: last_index_byte_None)
  have colon: "?s ! i = CHR '':''" and no: "CHR '':'' \<notin> set (drop (Suc i) ?s)"
    using last_index_byte_Some [OF i] by auto
  have "i = length h"
  proof (rule ccontr)
    assume "i \<noteq> length h"
    then consider "i < length h" | "length h < i" by linarith
    then show False
    proof cases
      case 1
      with colon have "CHR '':'' \<in> set h" by (metis nth_append nth_mem)
      with assms show False by auto
    next
      case 2
      then have "?s ! i = p ! (i - Suc (length h))"
        by (simp add: nth_append nth_Cons')
      moreover have "i - Suc (length h) < length p"
        using 2 last_index_byte_Some [OF i] by auto
      ultimately have "CHR '':'' \<in> set p" using colon by (metis nth_mem)
      with assms show False by auto
    qed
  qed
  moreover have "?s ! 0 \<noteq> CHR ''[''"
    using assms by (cases h) auto
  ultimately show ?thesis using assms i by (auto simp: split_host_port_def)
qed

lemma split_host_port_no_colon: "CHR '':'' \<notin> set h \<Longrightarrow> split_host_port h = None"
  by (simp add: split_host_port_def last_index_byte_None [THEN iffD2])

end
