(* ===== verification/StoreText.thy ===== *)
theory StoreText
  imports GoText
begin

unbundle bit_operations_syntax

text \<open>
  The text utilities of \<^verbatim>\<open>internal/store/store.go\<close>: byte-limited truncation that keeps UTF-8
  sequences whole, escaping of \<open>LIKE\<close> patterns, host and path splitting. The lemmas show that
  truncation returns a prefix within the limit, that it loses at most three bytes more than the
  limit asks for, and that it maps valid UTF-8 to valid UTF-8.
\<close>

section \<open>UTF-8\<close>

text \<open>The length of the sequence a lead byte announces, by the masks of \<open>truncateStr\<close>.\<close>

definition rune_len :: "char \<Rightarrow> nat option" where
  "rune_len c = (let b = char_code c in
     if b AND 0x80 = 0 then Some 1
     else if b AND 0xE0 = 0xC0 then Some 2
     else if b AND 0xF0 = 0xE0 then Some 3
     else if b AND 0xF8 = 0xF0 then Some 4
     else None)"

definition is_cont :: "char \<Rightarrow> bool" where
  "is_cont c \<longleftrightarrow> char_code c AND 0xC0 = 0x80"

text \<open>Well-formed sequences, with the ranges of \<open>unicode/utf8\<close>.\<close>

definition in_range :: "nat \<Rightarrow> nat \<Rightarrow> char \<Rightarrow> bool" where
  "in_range lo hi c \<longleftrightarrow> lo \<le> char_code c \<and> char_code c \<le> hi"

fun utf8_rune :: "string \<Rightarrow> bool" where
  "utf8_rune [a] = in_range 0 0x7F a"
| "utf8_rune [a, b] = (in_range 0xC2 0xDF a \<and> in_range 0x80 0xBF b)"
| "utf8_rune [a, b, c] =
     (in_range 0x80 0xBF c \<and>
      (in_range 0xE0 0xE0 a \<and> in_range 0xA0 0xBF b
       \<or> in_range 0xE1 0xEC a \<and> in_range 0x80 0xBF b
       \<or> in_range 0xED 0xED a \<and> in_range 0x80 0x9F b
       \<or> in_range 0xEE 0xEF a \<and> in_range 0x80 0xBF b))"
| "utf8_rune [a, b, c, d] =
     (in_range 0x80 0xBF c \<and> in_range 0x80 0xBF d \<and>
      (in_range 0xF0 0xF0 a \<and> in_range 0x90 0xBF b
       \<or> in_range 0xF1 0xF3 a \<and> in_range 0x80 0xBF b
       \<or> in_range 0xF4 0xF4 a \<and> in_range 0x80 0x8F b))"
| "utf8_rune _ = False"

definition valid_utf8 :: "string \<Rightarrow> bool" where
  "valid_utf8 s \<longleftrightarrow> (\<exists>rs. list_all utf8_rune rs \<and> s = concat rs)"

text \<open>
  The code points a range loop yields: the length of the sequence at the front, its value, and one
  U+FFFD for each byte that starts none.
\<close>

definition rune_at :: "string \<Rightarrow> nat option" where
  "rune_at s = find (\<lambda>n. utf8_rune (take n s)) [1, 2, 3, 4]"

fun rune_value :: "nat list \<Rightarrow> nat" where
  "rune_value [a] = a"
| "rune_value [a, b] = (a mod 32) * 64 + b mod 64"
| "rune_value [a, b, c] = (a mod 16) * 4096 + (b mod 64) * 64 + c mod 64"
| "rune_value [a, b, c, d] = (a mod 8) * 262144 + (b mod 64) * 4096 + (c mod 64) * 64 + d mod 64"
| "rune_value _ = 0xFFFD"

function runes :: "string \<Rightarrow> nat list" where
  "runes s =
     (if s = [] then []
      else case rune_at s of
        Some n \<Rightarrow> rune_value (map char_code (take n s)) # runes (drop (max 1 n) s)
      | None \<Rightarrow> 0xFFFD # runes (drop 1 s))"
  by pat_completeness auto
termination
  by (relation "measure length") auto

declare runes.simps [simp del]

text \<open>The sequence of a code point.\<close>

definition utf8_encode :: "nat \<Rightarrow> string" where
  "utf8_encode r = map char_of
     (if r < 0x80 then [r]
      else if r < 0x800 then [0xC0 + r div 64, 0x80 + r mod 64]
      else if r < 0x10000 then [0xE0 + r div 4096, 0x80 + r div 64 mod 64, 0x80 + r mod 64]
      else [0xF0 + r div 262144, 0x80 + r div 4096 mod 64, 0x80 + r div 64 mod 64, 0x80 + r mod 64])"

text \<open>Masking the high bits of a byte clears the low ones.\<close>

lemma and_high_bits:
  assumes "n < 2 ^ m" and "k \<le> m"
  shows "n AND (push_bit k (mask (m - k)) :: nat) = 2 ^ k * (n div 2 ^ k)"
proof -
  have "bit n j \<Longrightarrow> j < m" for j
    using assms(1) by (metis bit_take_bit_iff take_bit_nat_eq_self)
  then have "n AND push_bit k (mask (m - k)) = push_bit k (drop_bit k n)"
    using assms(2) by (intro bit_eqI) (auto simp: bit_simps intro: diff_less_mono)
  then show ?thesis by (simp add: push_bit_eq_mult drop_bit_eq_div mult.commute)
qed

lemma high_masks:
  "push_bit 6 (mask (8 - 6)) = (0xC0 :: nat)" "push_bit 7 (mask (8 - 7)) = (0x80 :: nat)"
  "push_bit 5 (mask (8 - 5)) = (0xE0 :: nat)" "push_bit 4 (mask (8 - 4)) = (0xF0 :: nat)"
  "push_bit 3 (mask (8 - 3)) = (0xF8 :: nat)"
  by (simp_all add: push_bit_eq_mult mask_eq_exp_minus_1)

lemma byte_masks:
  assumes "n < (256::nat)"
  shows "n AND 0xC0 = 0x80 \<longleftrightarrow> 128 \<le> n \<and> n < 192"
    and "n AND 0x80 = 0 \<longleftrightarrow> n < 128"
    and "n AND 0xE0 = 0xC0 \<longleftrightarrow> 192 \<le> n \<and> n < 224"
    and "n AND 0xF0 = 0xE0 \<longleftrightarrow> 224 \<le> n \<and> n < 240"
    and "n AND 0xF8 = 0xF0 \<longleftrightarrow> 240 \<le> n \<and> n < 248"
  using assms and_high_bits [of n 8 6] and_high_bits [of n 8 7] and_high_bits [of n 8 5]
    and_high_bits [of n 8 4] and_high_bits [of n 8 3]
  unfolding high_masks by auto

lemma is_cont_iff: "is_cont c \<longleftrightarrow> 128 \<le> char_code c \<and> char_code c < 192"
  unfolding is_cont_def by (rule byte_masks(1)) simp

lemma rune_len_iff:
  "rune_len c = (let b = char_code c in
     if b < 128 then Some 1 else if b < 192 then None else if b < 224 then Some 2
     else if b < 240 then Some 3 else if b < 248 then Some 4 else None)"
proof -
  note masks = byte_masks [OF nat_of_char_less_256 [of c]]
  show ?thesis unfolding rune_len_def Let_def masks by auto
qed

text \<open>What the truncation needs to know of a well-formed sequence.\<close>

lemma utf8_rune_shape:
  assumes "utf8_rune r"
  shows "r \<noteq> []" and "rune_len (hd r) = Some (length r)" and "\<not> is_cont (hd r)"
    and "\<forall>c \<in> set (tl r). is_cont c" and "length r \<le> 4"
  using assms
  by (induction r rule: utf8_rune.induct)
     (auto simp: rune_len_iff is_cont_iff in_range_def Let_def)

section \<open>truncateStr\<close>

text \<open>The loop that skips continuation bytes backwards from \<open>i\<close>.\<close>

function scan_back :: "string \<Rightarrow> int \<Rightarrow> int \<Rightarrow> int" where
  "scan_back s maxLen i =
     (if 0 \<le> i \<and> i > maxLen - 4 \<and> is_cont (s ! nat i) then scan_back s maxLen (i - 1) else i)"
  by pat_completeness auto
termination
  by (relation "measure (\<lambda>(s, maxLen, i). nat (i + 1))") auto

declare scan_back.simps [simp del]

definition truncateStr :: "string \<Rightarrow> nat \<Rightarrow> string" where
  "truncateStr s maxLen =
     (if length s \<le> maxLen then s
      else let i = scan_back s (int maxLen) (int maxLen - 1)
           in if i < 0 \<or> i \<le> int maxLen - 4 then take maxLen s
              else (case rune_len (s ! nat i) of
                      None \<Rightarrow> take maxLen s
                    | Some runeLen \<Rightarrow>
                        if i + int runeLen > int maxLen then take (nat i) s
                        else take maxLen s))"

lemma scan_back_stop:
  assumes "k \<le> i" and "0 \<le> k" and "maxLen - 4 \<le> k"
    and "\<not> is_cont (s ! nat k)" and "\<forall>j. k < j \<and> j \<le> i \<longrightarrow> is_cont (s ! nat j)"
  shows "scan_back s maxLen i = k"
  using assms
proof (induction "nat (i - k)" arbitrary: i)
  case 0
  then have "i = k" by simp
  with 0 show ?case by (subst scan_back.simps) simp
next
  case (Suc n)
  then have "k < i" by linarith
  with Suc have "scan_back s maxLen (i - 1) = k" by (intro Suc.hyps) auto
  moreover have "is_cont (s ! nat i)" using Suc.prems(5) \<open>k < i\<close> by auto
  ultimately show ?case using Suc.prems \<open>k < i\<close> by (subst scan_back.simps) auto
qed

lemma scan_back_le: "scan_back s maxLen i \<le> i"
  by (induction s maxLen i rule: scan_back.induct) (subst scan_back.simps, force)

lemma truncateStr_prefix: "prefix (truncateStr s n) s"
  by (auto simp: truncateStr_def Let_def take_is_prefix split: option.splits)

lemma truncateStr_length: "length (truncateStr s n) \<le> n"
proof -
  have "scan_back s (int n) (int n - 1) \<le> int n - 1" by (rule scan_back_le)
  then show ?thesis by (auto simp: truncateStr_def Let_def split: option.splits)
qed

lemma truncateStr_loses_few:
  assumes "n < length s"
  shows "n < length (truncateStr s n) + 4"
  using assms by (auto simp: truncateStr_def Let_def split: option.splits)

text \<open>The limit falls into one of the sequences, or between two.\<close>

lemma concat_split:
  assumes "n < length (concat rs)"
  obtains xs r ys where "rs = xs @ r # ys" "length (concat xs) \<le> n" "n < length (concat xs) + length r"
  using assms
proof (induction rs arbitrary: n thesis)
  case Nil
  then show ?case by simp
next
  case (Cons r rs)
  show ?case
  proof (cases "n < length r")
    case True
    then show ?thesis using Cons.prems(1) [of "[]" r rs] by simp
  next
    case False
    then have "n - length r < length (concat rs)" using Cons.prems(2) by auto
    then obtain xs q ys where "rs = xs @ q # ys" "length (concat xs) \<le> n - length r"
      "n - length r < length (concat xs) + length q"
      using Cons.IH by blast
    then show ?thesis using False Cons.prems(1) [of "r # xs" q ys] by auto
  qed
qed

text \<open>
  Reading a sequence \<open>r\<close> that starts at \<open>p\<close>: seen from any of its positions, or from just
  behind it, the backward scan stops at its lead byte.
\<close>

lemma scan_back_rune:
  assumes s: "s = u @ r @ v" and r: "utf8_rune r"
    and j: "0 < j" "j \<le> length r" and n: "n = length u + j"
  shows "scan_back s (int n) (int n - 1) = int (length u)"
proof (rule scan_back_stop)
  note sh = utf8_rune_shape [OF r]
  have at: "s ! k = r ! (k - length u)" if "length u \<le> k" "k < n" for k
  proof -
    have "k - length u < length r" using that j n by linarith
    with that show ?thesis by (simp add: s nth_append)
  qed
  show "\<not> is_cont (s ! nat (int (length u)))"
    using sh(1,3) at [of "length u"] j n by (simp add: hd_conv_nth)
  show "\<forall>i. int (length u) < i \<and> i \<le> int n - 1 \<longrightarrow> is_cont (s ! nat i)"
  proof (intro allI impI, elim conjE)
    fix i assume i: "int (length u) < i" "i \<le> int n - 1"
    then have "nat i - length u - 1 < length (tl r)" using j n by auto
    then have "is_cont (tl r ! (nat i - length u - 1))" using sh(4) nth_mem by blast
    moreover have "Suc (nat i - length u - 1) = nat i - length u" using i by linarith
    then have "tl r ! (nat i - length u - 1) = r ! (nat i - length u)"
      using i \<open>nat i - length u - 1 < length (tl r)\<close> by (simp add: nth_tl)
    ultimately show "is_cont (s ! nat i)" using at [of "nat i"] i by simp
  qed
qed (use j n utf8_rune_shape(5) [OF r] in auto)

text \<open>A limit inside a sequence drops it; a limit between two sequences keeps both sides whole.\<close>

lemma truncateStr_inside:
  assumes s: "s = u @ r @ v" and r: "utf8_rune r"
    and j: "0 < j" "j < length r" and n: "n = length u + j"
  shows "truncateStr s n = u"
proof -
  have "scan_back s (int n) (int n - 1) = int (length u)"
    using scan_back_rune [OF s r, of j n] j n by simp
  moreover have "s ! length u = hd r"
    using utf8_rune_shape(1) [OF r] by (simp add: s nth_append hd_conv_nth)
  moreover have "\<not> length s \<le> n" using s j n by simp
  moreover have "j \<le> 3" using utf8_rune_shape(5) [OF r] j by simp
  ultimately show ?thesis
    using utf8_rune_shape(2) [OF r] j n by (simp add: truncateStr_def s)
qed

lemma truncateStr_between:
  assumes s: "s = u @ r @ v" and r: "utf8_rune r" and n: "n = length u + length r" and "v \<noteq> []"
  shows "truncateStr s n = u @ r"
proof -
  have "scan_back s (int n) (int n - 1) = int (length u)"
    using scan_back_rune [OF s r, of "length r" n] utf8_rune_shape(1) [OF r] n by simp
  moreover have "s ! length u = hd r"
    using utf8_rune_shape(1) [OF r] by (simp add: s nth_append hd_conv_nth)
  moreover have "\<not> length s \<le> n" using s n \<open>v \<noteq> []\<close> by simp
  ultimately show ?thesis
    using utf8_rune_shape(2) [OF r] n by (simp add: truncateStr_def s Let_def)
qed

lemma truncateStr_zero: "s \<noteq> [] \<Longrightarrow> truncateStr s 0 = []"
  by (simp add: truncateStr_def Let_def scan_back.simps)

lemma valid_utf8_concat: "list_all utf8_rune rs \<Longrightarrow> valid_utf8 (concat rs)"
  by (auto simp: valid_utf8_def)

lemma truncateStr_concat:
  assumes "list_all utf8_rune rs" and "n < length (concat rs)"
  shows "\<exists>xs. list_all utf8_rune xs \<and> truncateStr (concat rs) n = concat xs"
proof -
  obtain xs r ys where rs: "rs = xs @ r # ys" and lo: "length (concat xs) \<le> n"
    and hi: "n < length (concat xs) + length r"
    using concat_split [OF assms(2)] .
  have xs: "list_all utf8_rune xs" and r: "utf8_rune r" using assms(1) rs by auto
  show ?thesis
  proof (cases "n = length (concat xs)")
    case False
    then have "truncateStr (concat rs) n = concat xs"
      using lo hi rs r
      by (intro truncateStr_inside [where r = r and v = "concat ys" and j = "n - length (concat xs)"]) auto
    with xs show ?thesis by blast
  next
    case True
    show ?thesis
    proof (cases xs rule: rev_cases)
      case Nil
      then have "truncateStr (concat rs) n = concat []"
        using True assms(2) by (simp add: truncateStr_zero)
      then show ?thesis by (metis list.pred_inject(1))
    next
      case (snoc zs q)
      then have "truncateStr (concat rs) n = concat zs @ q"
        using True rs xs utf8_rune_shape(1) [OF r]
        by (intro truncateStr_between [where v = "r @ concat ys"]) auto
      then have "truncateStr (concat rs) n = concat xs" by (simp add: snoc)
      with xs show ?thesis by blast
    qed
  qed
qed

lemma truncateStr_keeps_utf8: "valid_utf8 s \<Longrightarrow> valid_utf8 (truncateStr s n)"
proof (cases "length s \<le> n")
  case False
  assume "valid_utf8 s"
  then obtain rs where "list_all utf8_rune rs" "s = concat rs" by (auto simp: valid_utf8_def)
  with False truncateStr_concat [of rs n] show ?thesis by (auto simp: valid_utf8_def)
qed (simp add: truncateStr_def)

section \<open>escapeLike\<close>

text \<open>Three replacements, the escape character first.\<close>

definition escapeLike :: "string \<Rightarrow> string" where
  "escapeLike s =
     (let s = replace_byte (CHR 0x5C) [CHR 0x5C, CHR 0x5C] s;
          s = replace_byte (CHR ''%'') [CHR 0x5C, CHR ''%''] s;
          s = replace_byte (CHR ''_'') [CHR 0x5C, CHR ''_''] s
      in s)"

text \<open>
  What \<open>ESCAPE '\'\<close> means: an escaped character stands for itself, and \<open>%\<close> and \<open>_\<close> are
  wildcards otherwise. \<open>unescape\<close> reads a pattern without wildcards back, and fails on one.
\<close>

fun unescape_like :: "string \<Rightarrow> string option" where
  "unescape_like [] = Some []"
| "unescape_like [c] = (if c \<in> {CHR 0x5C, CHR ''%'', CHR ''_''} then None else Some [c])"
| "unescape_like (c # d # s) =
     (if c = CHR 0x5C then map_option ((#) d) (unescape_like s)
      else if c \<in> {CHR ''%'', CHR ''_''} then None
      else map_option ((#) c) (unescape_like (d # s)))"

definition like_char :: "char \<Rightarrow> string" where
  "like_char c = (if c \<in> {CHR 0x5C, CHR ''%'', CHR ''_''} then [CHR 0x5C, c] else [c])"

lemma replace_byte_concat: "replace_byte c r (concat ss) = concat (map (replace_byte c r) ss)"
  by (induction ss) (auto simp: replace_byte_def)

lemma escapeLike_chars: "escapeLike s = concat (map like_char s)"
  by (induction s) (auto simp: escapeLike_def replace_byte_def like_char_def)

lemma unescape_like_Cons:
  "c \<notin> {CHR 0x5C, CHR ''%'', CHR ''_''} \<Longrightarrow> unescape_like (c # s) = map_option ((#) c) (unescape_like s)"
  by (cases s) auto

lemma unescape_escapeLike: "unescape_like (escapeLike s) = Some s"
  by (induction s) (auto simp: escapeLike_chars like_char_def unescape_like_Cons)

section \<open>Hosts and paths\<close>

definition stripPort :: "string \<Rightarrow> string" where
  "stripPort host = (case split_host_port host of Some (h, _) \<Rightarrow> h | None \<Rightarrow> host)"

definition splitPath :: "string \<Rightarrow> string list" where
  "splitPath path =
     (let p = trim_char (CHR ''/'') path in if p = [] then [] else split_on (CHR ''/'') p)"

definition boolToInt :: "bool \<Rightarrow> int" where
  "boolToInt b = (if b then 1 else 0)"

definition intToBool :: "int \<Rightarrow> bool" where
  "intToBool v = (v \<noteq> 0)"

lemma intToBool_boolToInt [simp]: "intToBool (boolToInt b) = b"
  by (simp add: intToBool_def boolToInt_def)

text \<open>Stripping is idempotent on a plain host, with or without a port.\<close>

lemma stripPort_plain:
  "set h \<inter> {CHR '':'', CHR ''['', CHR '']''} = {} \<Longrightarrow>
   set p \<inter> {CHR '':'', CHR ''['', CHR '']''} = {} \<Longrightarrow> stripPort (h @ CHR '':'' # p) = h"
  by (simp add: stripPort_def split_host_port_plain)

lemma stripPort_no_colon: "CHR '':'' \<notin> set h \<Longrightarrow> stripPort h = h"
  by (simp add: stripPort_def split_host_port_no_colon)

section \<open>Properties\<close>

text \<open>truncation to \<open>n\<close> bytes returns a prefix of at most \<open>n\<close> bytes, loses less than four
  bytes more than it has to, and never splits a UTF-8 sequence: valid text stays valid.\<close>

theorem truncateStr_contract:
  "prefix (truncateStr s n) s \<and> length (truncateStr s n) \<le> n \<and>
   (length s \<le> n \<longrightarrow> truncateStr s n = s) \<and>
   (n < length s \<longrightarrow> n < length (truncateStr s n) + 4) \<and>
   (valid_utf8 s \<longrightarrow> valid_utf8 (truncateStr s n))"
  by (simp add: truncateStr_prefix truncateStr_length truncateStr_loses_few truncateStr_keeps_utf8)
     (simp add: truncateStr_def)

theorem truncateStr_contract_witness:
  "valid_utf8 (truncateStr [CHR ''a'', CHR 0xE4, CHR 0xBD, CHR 0xA0, CHR ''b''] 3) \<and>
   truncateStr [CHR ''a'', CHR 0xE4, CHR 0xBD, CHR 0xA0, CHR ''b''] 3 = ''a''"
proof -
  let ?s = "[CHR ''a'', CHR 0xE4, CHR 0xBD, CHR 0xA0, CHR ''b'']"
  have "valid_utf8 ?s"
    unfolding valid_utf8_def
    by (rule exI [of _ "[[CHR ''a''], [CHR 0xE4, CHR 0xBD, CHR 0xA0], [CHR ''b'']]"])
       (simp add: in_range_def)
  then have "valid_utf8 (truncateStr ?s 3)" using truncateStr_contract [of ?s 3] by blast
  moreover have "truncateStr ?s 3 = ''a''"
    by (simp add: truncateStr_def Let_def scan_back.simps is_cont_iff rune_len_iff)
  ultimately show ?thesis by simp
qed

text \<open>an escaped search text contains no live wildcard and means itself: reading the pattern
  under \<open>ESCAPE '\'\<close> gives the text back.\<close>

theorem escapeLike_roundtrip: "unescape_like (escapeLike s) = Some s"
  by (rule unescape_escapeLike)

end
