(* ===== verification/Store.thy ===== *)
theory Store
  imports Models StoreText
begin

text \<open>
  \<^verbatim>\<open>internal/store/store.go\<close> and \<^verbatim>\<open>internal/store/llm.go\<close>: the tables the program keeps in
  SQLite and the operations on them. A table is the list of its rows in insertion order and each
  operation performs the SQL statement its Go method executes. The driver is not modelled: whether
  a statement succeeds, the row id it assigns and whether the result accessor
  (\<open>LastInsertId\<close>, \<open>RowsAffected\<close>) works are replies that come with the state, one per call of
  the driver, so that every claim holds for every behaviour of the driver. Columns that hold
  JSON keep the value the JSON encodes; \<open>captured_at\<close> keeps whole seconds, as its RFC 3339 text
  does.
\<close>

section \<open>State\<close>

text \<open>
  A reply of the driver: the statement failed, or it worked with the row id it assigned (if it
  is an insert) and the error of the result accessor, if that fails.
\<close>

datatype reply = ExecErr string | ExecOk int "string option"

datatype store_error = DriverErr string | ErrRequestNotFound int

record request_row =
  row_id :: int
  row_req :: captured_request
  row_starred :: bool
  row_is_llm :: bool
  row_llm_data :: string

record hostCacheEntry =
  hc_hosts :: "string list"
  hc_total :: nat
  hc_at :: instant

record log_row =
  log_id :: int
  log_entry :: intercept_log
  log_created_at :: instant

record store =
  st_requests :: "request_row list"
  st_logs :: "log_row list"
  st_settings :: "(string \<times> string) list"
  st_rules :: "intercept_rule list"
  st_hostCache :: hostCacheEntry
  st_hostCacheTTL :: instant
  st_replies :: "reply list"

definition emptyHostCache :: hostCacheEntry where
  "emptyHostCache = \<lparr>hc_hosts = [], hc_total = 0, hc_at = 0\<rparr>"

text \<open>The next reply of the driver; a driver that has no more replies is gone.\<close>

definition next_reply :: "store \<Rightarrow> reply \<times> store" where
  "next_reply s = (case st_replies s of
      [] \<Rightarrow> (ExecErr ''driver: bad connection'', s)
    | r # rs \<Rightarrow> (r, s\<lparr>st_replies := rs\<rparr>))"

definition seconds :: instant where "seconds = 1000000000"

text \<open>\<open>t.UTC().Format(time.RFC3339)\<close> read back: the second \<open>t\<close> falls into.\<close>

definition whole_seconds :: "instant \<Rightarrow> instant" where
  "whole_seconds t = (t div seconds) * seconds"

section \<open>Saving requests\<close>

definition max_req_body :: nat where "max_req_body = 2 * 1024 * 1024"

definition max_res_body :: nat where "max_res_body = 4 * 1024 * 1024"

definition stamp :: "instant \<Rightarrow> captured_request \<Rightarrow> captured_request" where
  "stamp now req = (if cr_CapturedAt req = None then req\<lparr>cr_CapturedAt := Some now\<rparr> else req)"

text \<open>The column values of the insert statement, in the order of \<open>requestsInsertStmt\<close>.\<close>

definition insert_columns :: "captured_request \<Rightarrow> captured_request" where
  "insert_columns req =
     \<lparr>cr_ID = 0, cr_Method = cr_Method req, cr_URL = cr_URL req, cr_Host = cr_Host req,
      cr_Path = cr_Path req, cr_Protocol = cr_Protocol req, cr_IsHTTPS = cr_IsHTTPS req,
      cr_ReqHeaders = cr_ReqHeaders req,
      cr_ReqBody = truncateStr (cr_ReqBody req) max_req_body,
      cr_StatusCode = cr_StatusCode req, cr_ResHeaders = cr_ResHeaders req,
      cr_ResBody = truncateStr (cr_ResBody req) max_res_body,
      cr_DurationMs = cr_DurationMs req, cr_SizeBytes = cr_SizeBytes req,
      cr_Truncated = cr_Truncated req,
      cr_CapturedAt = map_option whole_seconds (cr_CapturedAt req),
      cr_CaptureMode = cr_CaptureMode req, cr_ProcessPID = cr_ProcessPID req,
      cr_ProcessName = cr_ProcessName req, cr_IsSSE = cr_IsSSE req,
      cr_SSEEvents = truncateStr (cr_SSEEvents req) max_res_body\<rparr>"

definition new_row :: "int \<Rightarrow> captured_request \<Rightarrow> request_row" where
  "new_row i req = \<lparr>row_id = i, row_req = insert_columns req, row_starred = False,
     row_is_llm = False, row_llm_data = []\<rparr>"

text \<open>
  \<open>saveLocked\<close>: the result, the request as the caller sees it afterwards, and the new store.
\<close>

definition Save ::
  "instant \<Rightarrow> captured_request \<Rightarrow> store \<Rightarrow> (store_error + int) \<times> captured_request \<times> store" where
  "Save now req s =
     (let req = stamp now req in
      case next_reply s of
        (ExecErr e, s) \<Rightarrow> (Inl (DriverErr e), req, s)
      | (ExecOk i acc, s) \<Rightarrow>
          ((case acc of Some e \<Rightarrow> Inl (DriverErr e) | None \<Rightarrow> Inr i), req,
           s\<lparr>st_requests := st_requests s @ [new_row i req], st_hostCache := emptyHostCache\<rparr>))"

text \<open>The loop of \<open>SaveBatch\<close> over the requests, inside the transaction.\<close>

fun batch_exec ::
  "instant \<Rightarrow> captured_request list \<Rightarrow> store \<Rightarrow>
   (store_error + request_row list) \<times> captured_request list \<times> store" where
  "batch_exec now [] s = (Inr [], [], s)"
| "batch_exec now (req # reqs) s =
     (let req = stamp now req in
      case next_reply s of
        (ExecErr e, s) \<Rightarrow> (Inl (DriverErr e), req # reqs, s)
      | (ExecOk i (Some e), s) \<Rightarrow> (Inl (DriverErr e), req # reqs, s)
      | (ExecOk i None, s) \<Rightarrow>
          (case batch_exec now reqs s of
             (Inl e, reqs, s) \<Rightarrow> (Inl e, req # reqs, s)
           | (Inr rows, reqs, s) \<Rightarrow> (Inr (new_row i req # rows), req # reqs, s)))"

text \<open>
  \<open>SaveBatch\<close>: begin, prepare, one insert per request, commit; any failure rolls the
  transaction back and returns no ids.
\<close>

definition SaveBatch ::
  "instant \<Rightarrow> captured_request list \<Rightarrow> store \<Rightarrow>
   (store_error + int list) \<times> captured_request list \<times> store" where
  "SaveBatch now reqs s =
     (if reqs = [] then (Inr [], reqs, s)
      else case next_reply s of
        (ExecErr e, s) \<Rightarrow> (Inl (DriverErr e), reqs, s)
      | (ExecOk _ _, s) \<Rightarrow>
          (case next_reply s of
             (ExecErr e, s) \<Rightarrow> (Inl (DriverErr e), reqs, s)
           | (ExecOk _ _, s) \<Rightarrow>
               (case batch_exec now reqs s of
                  (Inl e, reqs, s) \<Rightarrow> (Inl e, reqs, s)
                | (Inr rows, reqs, s) \<Rightarrow>
                    (case next_reply s of
                       (ExecErr e, s) \<Rightarrow> (Inl (DriverErr e), reqs, s)
                     | (ExecOk _ _, s) \<Rightarrow>
                         (Inr (map row_id rows), reqs,
                          s\<lparr>st_requests := st_requests s @ rows,
                            st_hostCache := emptyHostCache\<rparr>)))))"

section \<open>Reading and updating requests\<close>

definition find_row :: "int \<Rightarrow> store \<Rightarrow> request_row option" where
  "find_row i s = find (\<lambda>r. row_id r = i) (st_requests s)"

definition Get :: "int \<Rightarrow> store \<Rightarrow> (store_error + captured_request) \<times> store" where
  "Get i s =
     (case next_reply s of
        (ExecErr e, s) \<Rightarrow> (Inl (DriverErr e), s)
      | (ExecOk _ _, s) \<Rightarrow>
          (case find_row i s of
             None \<Rightarrow> (Inl (ErrRequestNotFound i), s)
           | Some r \<Rightarrow> (Inr ((row_req r)\<lparr>cr_ID := row_id r\<rparr>), s)))"

definition update_rows :: "int \<Rightarrow> (request_row \<Rightarrow> request_row) \<Rightarrow> store \<Rightarrow> store" where
  "update_rows i f s =
     s\<lparr>st_requests := map (\<lambda>r. if row_id r = i then f r else r) (st_requests s)\<rparr>"

definition UpdateResBody ::
  "int \<Rightarrow> string \<Rightarrow> string \<Rightarrow> int \<Rightarrow> store \<Rightarrow> store_error option \<times> store" where
  "UpdateResBody i resBody sseEvents sizeBytes s =
     (case next_reply s of
        (ExecErr e, s) \<Rightarrow> (Some (DriverErr e), s)
      | (ExecOk _ _, s) \<Rightarrow>
          (None, update_rows i (\<lambda>r. r\<lparr>row_req := (row_req r)
             \<lparr>cr_ResBody := truncateStr resBody max_res_body,
              cr_SSEEvents := truncateStr sseEvents max_res_body,
              cr_SizeBytes := sizeBytes\<rparr>\<rparr>) s))"

definition SetLLMData :: "int \<Rightarrow> string \<Rightarrow> store \<Rightarrow> store_error option \<times> store" where
  "SetLLMData i json s =
     (case next_reply s of
        (ExecErr e, s) \<Rightarrow> (Some (DriverErr e), s)
      | (ExecOk _ _, s) \<Rightarrow>
          (None, update_rows i (\<lambda>r. r\<lparr>row_is_llm := True,
             row_llm_data := truncateStr json max_res_body\<rparr>) s))"

definition SetStarred :: "int \<Rightarrow> bool \<Rightarrow> store \<Rightarrow> store_error option \<times> store" where
  "SetStarred i starred s =
     (case next_reply s of
        (ExecErr e, s) \<Rightarrow> (Some (DriverErr e), s)
      | (ExecOk _ acc, s) \<Rightarrow>
          (let n = length (filter (\<lambda>r. row_id r = i) (st_requests s));
               s = update_rows i (\<lambda>r. r\<lparr>row_starred := starred\<rparr>) s
           in case acc of
                Some e \<Rightarrow> (Some (DriverErr e), s)
              | None \<Rightarrow>
                  if n = 0 then (Some (ErrRequestNotFound i), s)
                  else (None, s\<lparr>st_hostCache := emptyHostCache\<rparr>)))"

definition Delete :: "int \<Rightarrow> store \<Rightarrow> store_error option \<times> store" where
  "Delete i s =
     (case next_reply s of
        (ExecErr e, s) \<Rightarrow> (Some (DriverErr e), s)
      | (ExecOk _ _, s) \<Rightarrow>
          (None, s\<lparr>st_requests := filter (\<lambda>r. row_id r \<noteq> i) (st_requests s),
                   st_hostCache := emptyHostCache\<rparr>))"

definition Clear :: "store \<Rightarrow> store_error option \<times> store" where
  "Clear s =
     (case next_reply s of
        (ExecErr e, s) \<Rightarrow> (Some (DriverErr e), s)
      | (ExecOk _ _, s) \<Rightarrow>
          (let s = s\<lparr>st_requests := []\<rparr> in
           case next_reply s of
             (ExecErr e, s) \<Rightarrow> (Some (DriverErr e), s)
           | (ExecOk _ _, s) \<Rightarrow>
               (None, s\<lparr>st_logs := [], st_hostCache := emptyHostCache\<rparr>)))"

text \<open>\<open>ORDER BY id DESC LIMIT ?\<close> over the starred rows.\<close>

definition rows_by_id_desc :: "request_row list \<Rightarrow> request_row list" where
  "rows_by_id_desc rs = rev (sort_key row_id rs)"

definition ListStarred :: "int \<Rightarrow> store \<Rightarrow> (store_error + request_row list) \<times> store" where
  "ListStarred limit s =
     (let limit = (if limit \<le> 0 \<or> limit > 1000 then 200 else limit) in
      case next_reply s of
        (ExecErr e, s) \<Rightarrow> (Inl (DriverErr e), s)
      | (ExecOk _ _, s) \<Rightarrow>
          (Inr (take (nat limit) (rows_by_id_desc (filter row_starred (st_requests s)))), s))"

text \<open>\<open>Stats\<close>: totals, error count and size; a failing error count is reported as 0.\<close>

definition Stats :: "store \<Rightarrow> (store_error + nat \<times> nat \<times> int) \<times> store" where
  "Stats s =
     (case next_reply s of
        (ExecErr e, s) \<Rightarrow> (Inl (DriverErr e), s)
      | (ExecOk _ _, s) \<Rightarrow>
          (let total = length (st_requests s);
               size = sum_list (map (\<lambda>r. cr_SizeBytes (row_req r)) (st_requests s))
           in case next_reply s of
                (ExecErr e, s) \<Rightarrow> (Inr (total, 0, size), s)
              | (ExecOk _ _, s) \<Rightarrow>
                  (Inr (total, length (filter (\<lambda>r. cr_StatusCode (row_req r) \<ge> 400)
                                          (st_requests s)), size), s)))"

section \<open>Settings, retention and clean-up\<close>

definition GetSetting :: "string \<Rightarrow> store \<Rightarrow> (store_error + string) \<times> store" where
  "GetSetting key s =
     (case next_reply s of
        (ExecErr e, s) \<Rightarrow> (Inl (DriverErr e), s)
      | (ExecOk _ _, s) \<Rightarrow>
          (case map_of (st_settings s) key of
             None \<Rightarrow> (Inr [], s)
           | Some v \<Rightarrow> (Inr v, s)))"

definition SetSetting :: "string \<Rightarrow> string \<Rightarrow> store \<Rightarrow> store_error option \<times> store" where
  "SetSetting key v s =
     (case next_reply s of
        (ExecErr e, s) \<Rightarrow> (Some (DriverErr e), s)
      | (ExecOk _ _, s) \<Rightarrow> (None, s\<lparr>st_settings := AList.update key v (st_settings s)\<rparr>))"

text \<open>
  The value \<open>strconv.Atoi\<close> returns, errors ignored: 0 for text that is no number, the nearest
  64-bit value for one that is too large.
\<close>

definition atoi :: "string \<Rightarrow> int" where
  "atoi v =
     (let neg = (v \<noteq> [] \<and> hd v = CHR ''-'');
          ds = (if v \<noteq> [] \<and> hd v \<in> {CHR ''+'', CHR ''-''} then tl v else v);
          n = int (digits_value 10 (map digit_value ds))
      in if ds = [] \<or> \<not> list_all is_digit ds then 0
         else if neg then max (- n) (- (2 ^ 63)) else min n (2 ^ 63 - 1))"

definition maxRetentionDays :: int where "maxRetentionDays = 36500"

definition day :: instant where "day = 86400 * seconds"

text \<open>The retention the call applies: the argument, else the setting, capped; 0 is "skip".\<close>

definition retention_days :: "int \<Rightarrow> store \<Rightarrow> int \<times> store" where
  "retention_days retentionDays s =
     (let (retentionDays, s) =
        (if retentionDays \<le> 0 then
           (case GetSetting ''retention_days'' s of
              (Inl _, s) \<Rightarrow> (retentionDays, s)
            | (Inr v, s) \<Rightarrow> (if atoi v > 0 then atoi v else retentionDays, s))
         else (retentionDays, s))
      in (if retentionDays \<le> 0 then 0 else min retentionDays maxRetentionDays, s))"

definition row_older :: "instant \<Rightarrow> request_row \<Rightarrow> bool" where
  "row_older cutoff r = (case cr_CapturedAt (row_req r) of None \<Rightarrow> True | Some t \<Rightarrow> t < cutoff)"

definition affected :: "string option \<Rightarrow> nat \<Rightarrow> nat" where
  "affected acc n = (case acc of None \<Rightarrow> n | Some _ \<Rightarrow> 0)"

text \<open>\<open>Cleanup\<close>: deleted requests, deleted logs, applied days and error.\<close>

definition Cleanup ::
  "instant \<Rightarrow> int \<Rightarrow> store \<Rightarrow> (nat \<times> nat \<times> int \<times> store_error option) \<times> store" where
  "Cleanup now days s =
     (case retention_days days s of (d, s) \<Rightarrow>
        if d = 0 then ((0, 0, 0, None), s)
        else
          let cutoff = whole_seconds (now - d * day) in
          case next_reply s of
            (ExecErr e, s) \<Rightarrow> ((0, 0, d, Some (DriverErr e)), s)
          | (ExecOk _ acc, s) \<Rightarrow>
              (let n = affected acc (length (filter (row_older cutoff) (st_requests s)));
                   s = s\<lparr>st_requests := filter (\<lambda>r. \<not> row_older cutoff r) (st_requests s)\<rparr>
               in case next_reply s of
                    (ExecErr e, s) \<Rightarrow> ((n, 0, d, Some (DriverErr e)), s)
                  | (ExecOk _ acc, s) \<Rightarrow>
                      (let m = affected acc (length (filter (\<lambda>l. log_created_at l < cutoff) (st_logs s)))
                       in ((n, m, d, None),
                           s\<lparr>st_logs := filter (\<lambda>l. \<not> log_created_at l < cutoff) (st_logs s),
                             st_hostCache := emptyHostCache\<rparr>))))"

section \<open>Interception logs and rules\<close>

definition SaveInterceptLog ::
  "instant \<Rightarrow> intercept_log \<Rightarrow> store \<Rightarrow> store_error option \<times> store" where
  "SaveInterceptLog now lg s =
     (case next_reply s of
        (ExecErr e, s) \<Rightarrow> (Some (DriverErr e), s)
      | (ExecOk i acc, s) \<Rightarrow>
          ((case acc of Some e \<Rightarrow> Some (DriverErr e) | None \<Rightarrow> None),
           s\<lparr>st_logs := st_logs s @ [\<lparr>log_id = i, log_entry = lg, log_created_at = whole_seconds now\<rparr>]\<rparr>))"

definition SaveRule :: "intercept_rule \<Rightarrow> store \<Rightarrow> (store_error + int) \<times> store" where
  "SaveRule rule s =
     (case next_reply s of
        (ExecErr e, s) \<Rightarrow> (Inl (DriverErr e), s)
      | (ExecOk i acc, s) \<Rightarrow>
          ((case acc of Some e \<Rightarrow> Inl (DriverErr e) | None \<Rightarrow> Inr i),
           s\<lparr>st_rules := st_rules s @ [rule\<lparr>ir_ID := i\<rparr>]\<rparr>))"

definition ListRules :: "store \<Rightarrow> (store_error + intercept_rule list) \<times> store" where
  "ListRules s =
     (case next_reply s of
        (ExecErr e, s) \<Rightarrow> (Inl (DriverErr e), s)
      | (ExecOk _ _, s) \<Rightarrow> (Inr (sort_key ir_ID (st_rules s)), s))"

definition UpdateRule :: "int \<Rightarrow> bool \<Rightarrow> store \<Rightarrow> store_error option \<times> store" where
  "UpdateRule i enabled s =
     (case next_reply s of
        (ExecErr e, s) \<Rightarrow> (Some (DriverErr e), s)
      | (ExecOk _ _, s) \<Rightarrow>
          (None, s\<lparr>st_rules := map (\<lambda>r. if ir_ID r = i then r\<lparr>ir_Enabled := enabled\<rparr> else r)
                                   (st_rules s)\<rparr>))"

definition DeleteRule :: "int \<Rightarrow> store \<Rightarrow> store_error option \<times> store" where
  "DeleteRule i s =
     (case next_reply s of
        (ExecErr e, s) \<Rightarrow> (Some (DriverErr e), s)
      | (ExecOk _ _, s) \<Rightarrow>
          (None, s\<lparr>st_rules := filter (\<lambda>r. ir_ID r \<noteq> i) (st_rules s)\<rparr>))"

section \<open>The host list and its cache\<close>

text \<open>Merging the counts of hosts that differ in the port only, in the order first seen.\<close>

fun bump_host :: "string \<Rightarrow> nat \<Rightarrow> (string \<times> nat) list \<Rightarrow> (string \<times> nat) list" where
  "bump_host h c [] = [(h, c)]"
| "bump_host h c ((k, n) # ks) = (if k = h then (k, n + c) # ks else (k, n) # bump_host h c ks)"

fun merge_hosts :: "(string \<times> nat) list \<Rightarrow> (string \<times> nat) list \<Rightarrow> (string \<times> nat) list" where
  "merge_hosts acc [] = acc"
| "merge_hosts acc ((h, c) # rows) = merge_hosts (bump_host (stripPort h) c acc) rows"

definition show_host :: "string \<times> nat \<Rightarrow> string" where
  "show_host hc = fst hc @ '' ('' @ show_nat (snd hc) @ '')''"

definition all_hosts :: "(string \<times> nat) list \<Rightarrow> string list" where
  "all_hosts rows = map show_host (merge_hosts [] rows)"

definition host_page :: "string list \<Rightarrow> nat \<Rightarrow> nat \<Rightarrow> string list" where
  "host_page hosts limit offset =
     (let e = min (offset + limit) (length hosts) in
      if offset > length hosts then [] else slice offset e hosts)"

text \<open>
  \<open>ListHosts\<close>. The argument \<open>q\<close> is the grouped query: for a search text and the \<open>host\<close> column,
  the hosts and their counts in the order SQLite returns them.
\<close>

type_synonym host_query = "string \<Rightarrow> string list \<Rightarrow> (string \<times> nat) list"

definition host_column :: "store \<Rightarrow> string list" where
  "host_column s = map (\<lambda>r. cr_Host (row_req r)) (st_requests s)"

definition ListHosts ::
  "host_query \<Rightarrow> instant \<Rightarrow> string \<Rightarrow> int \<Rightarrow> int \<Rightarrow> store \<Rightarrow>
   (store_error + string list \<times> nat) \<times> store" where
  "ListHosts q now search limit offset s =
     (let limit = nat (if limit \<le> 0 \<or> limit > 200 then 100 else limit);
          offset = nat (if offset < 0 then 0 else offset);
          entry = st_hostCache s
      in if search = [] \<and> st_hostCacheTTL s > 0 \<and> hc_total entry > 0
            \<and> now - hc_at entry < st_hostCacheTTL s
         then (Inr (host_page (hc_hosts entry) limit offset, hc_total entry), s)
         else case next_reply s of
           (ExecErr e, s) \<Rightarrow> (Inl (DriverErr e), s)
         | (ExecOk _ _, s) \<Rightarrow>
             (let hosts = all_hosts (q search (host_column s));
                  total = length hosts;
                  s = (if search = []
                       then s\<lparr>st_hostCache := \<lparr>hc_hosts = hosts, hc_total = total, hc_at = now\<rparr>\<rparr>
                       else s)
              in (Inr (host_page hosts limit offset, total), s)))"

end
