(* ===== verification/StoreLaws.thy ===== *)
theory StoreLaws
  imports Store
begin

text \<open>
  What the store promises. Laws of the two save operations in the form their clients use (the
  locale \<open>request_sink\<close>, interpreted on \<open>Save\<close> and \<open>SaveBatch\<close>); the round trip of a request
  through \<open>Save\<close> and \<open>Get\<close>; the size bound of stored bodies; the coherence of the host cache
  under every operation; paging; the retention window of \<open>Cleanup\<close>.
\<close>

section \<open>The driver's replies\<close>

lemma next_reply_frame [frame_simps]:
  assumes "next_reply s = (r, s')"
  shows "st_requests s' = st_requests s" "st_logs s' = st_logs s" "st_settings s' = st_settings s"
    "st_rules s' = st_rules s" "st_hostCache s' = st_hostCache s"
    "st_hostCacheTTL s' = st_hostCacheTTL s"
  using assms by (auto simp: next_reply_def split: list.splits)

lemma stamp_stamp [simp]: "stamp now (stamp now' r) = stamp now' r"
  by (simp add: stamp_def)

lemma batch_exec_frame [frame_simps]:
  "batch_exec now reqs s = (res, reqs', s') \<Longrightarrow>
     st_requests s' = st_requests s \<and> st_logs s' = st_logs s \<and> st_settings s' = st_settings s \<and>
     st_rules s' = st_rules s \<and> st_hostCache s' = st_hostCache s \<and>
     st_hostCacheTTL s' = st_hostCacheTTL s"
proof (induction reqs arbitrary: s res reqs' s')
  case Nil
  then show ?case by simp
next
  case (Cons r reqs)
  obtain rep t where t: "next_reply s = (rep, t)" by fastforce
  obtain res2 reqs2 t2 where t2: "batch_exec now reqs t = (res2, reqs2, t2)" by (metis prod_cases3)
  show ?case
    using Cons.prems Cons.IH [OF t2] next_reply_frame [OF t] t t2
    by (auto simp: Let_def split: reply.splits option.splits sum.splits)
qed

lemma batch_exec_rows:
  "batch_exec now reqs s = (Inr rows, reqs', s') \<Longrightarrow>
     length rows = length reqs \<and> map row_req rows = map (insert_columns \<circ> stamp now) reqs \<and>
     reqs' = map (stamp now) reqs"
proof (induction reqs arbitrary: s rows reqs' s')
  case Nil
  then show ?case by simp
next
  case (Cons r reqs)
  obtain rep t where t: "next_reply s = (rep, t)" by fastforce
  obtain res2 reqs2 t2 where t2: "batch_exec now reqs t = (res2, reqs2, t2)" by (metis prod_cases3)
  show ?case
    using Cons.prems Cons.IH [of t _ reqs2 t2] t t2
    by (auto simp: Let_def new_row_def split: reply.splits option.splits sum.splits)
qed

lemma batch_exec_stamps:
  "batch_exec now reqs s = (res, reqs', s') \<Longrightarrow> map (stamp now) reqs' = map (stamp now) reqs"
proof (induction reqs arbitrary: s res reqs' s')
  case Nil
  then show ?case by simp
next
  case (Cons r reqs)
  obtain rep t where t: "next_reply s = (rep, t)" by fastforce
  obtain res2 reqs2 t2 where t2: "batch_exec now reqs t = (res2, reqs2, t2)" by (metis prod_cases3)
  show ?case
    using Cons.prems Cons.IH [OF t2] t t2
    by (auto simp: Let_def split: reply.splits option.splits sum.splits)
qed

section \<open>Saving: the contract of the two operations\<close>

text \<open>The stored part of the table: ids and columns.\<close>

definition stored :: "store \<Rightarrow> (int \<times> captured_request) list" where
  "stored s = map (\<lambda>r. (row_id r, row_req r)) (st_requests s)"

definition columns :: "instant \<Rightarrow> captured_request \<Rightarrow> captured_request" where
  "columns now r = insert_columns (stamp now r)"

text \<open>
  A sink of requests. \<open>save\<close> appends one row or none and reports the id on success; an error
  may still leave the row behind (the insert worked, its id could not be read). \<open>save_batch\<close> is
  all or nothing. Both hand the requests back with their columns unchanged.
\<close>

locale request_sink =
  fixes save :: "'r \<Rightarrow> 's \<Rightarrow> ('e + int) \<times> 'r \<times> 's"
    and save_batch :: "'r list \<Rightarrow> 's \<Rightarrow> ('e + int list) \<times> 'r list \<times> 's"
    and rows :: "'s \<Rightarrow> (int \<times> 'c) list"
    and cols :: "'r \<Rightarrow> 'c"
  assumes save_ok: "save r s = (Inr i, r', s') \<Longrightarrow> rows s' = rows s @ [(i, cols r)]"
    and save_err: "save r s = (Inl e, r', s') \<Longrightarrow>
          rows s' = rows s \<or> (\<exists>i. rows s' = rows s @ [(i, cols r)])"
    and save_cols: "save r s = (res, r', s') \<Longrightarrow> cols r' = cols r"
    and batch_ok: "save_batch rs s = (Inr is, rs', s') \<Longrightarrow>
          length is = length rs \<and> rows s' = rows s @ zip is (map cols rs)"
    and batch_err: "save_batch rs s = (Inl e, rs', s') \<Longrightarrow> rows s' = rows s"
    and batch_cols: "save_batch rs s = (bres, rs', s') \<Longrightarrow> map cols rs' = map cols rs"

lemma stored_append [simp]:
  "stored (s\<lparr>st_requests := st_requests s @ rs, st_hostCache := c\<rparr>) = 
   stored s @ map (\<lambda>r. (row_id r, row_req r)) rs"
  by (simp add: stored_def)

lemma stored_next_reply: "next_reply s = (r, s') \<Longrightarrow> stored s' = stored s"
  by (simp add: stored_def next_reply_frame)

lemma Save_cases:
  assumes "Save now r s = (res, r', s')"
  obtains (failed) e where "res = Inl e" "stored s' = stored s" "r' = stamp now r"
      "st_hostCache s' = st_hostCache s"
  | (inserted) i where "stored s' = stored s @ [(i, columns now r)]" "r' = stamp now r"
      "st_hostCache s' = emptyHostCache" "res = Inr i \<or> (\<exists>e. res = Inl e)"
proof -
  obtain rep t where t: "next_reply s = (rep, t)" by fastforce
  show thesis
  proof (cases rep)
    case (ExecErr e)
    with assms t have "res = Inl (DriverErr e)" "r' = stamp now r" "s' = t"
      by (auto simp: Save_def Let_def)
    then show thesis using failed stored_next_reply [OF t] next_reply_frame [OF t] by auto
  next
    case (ExecOk i acc)
    with assms t have s': "s' = t\<lparr>st_requests := st_requests t @ [new_row i (stamp now r)],
        st_hostCache := emptyHostCache\<rparr>"
      and r': "r' = stamp now r"
      and res: "res = (case acc of Some e \<Rightarrow> Inl (DriverErr e) | None \<Rightarrow> Inr i)"
      by (auto simp: Save_def Let_def)
    from res have "res = Inr i \<or> (\<exists>e. res = Inl e)" by (cases acc) auto
    moreover have "stored s' = stored s @ [(i, columns now r)]"
      by (simp add: s' new_row_def columns_def stored_next_reply [OF t])
    ultimately show thesis using inserted r' s' by simp
  qed
qed

lemma Save_ok:
  assumes "Save now r s = (Inr i, r', s')"
  shows "stored s' = stored s @ [(i, columns now r)] \<and> r' = stamp now r"
proof -
  obtain rep t where t: "next_reply s = (rep, t)" by fastforce
  show ?thesis
    using assms t stored_next_reply [OF t]
    by (cases rep) (auto simp: Save_def Let_def new_row_def columns_def split: option.splits)
qed

lemma SaveBatch_ok:
  assumes "SaveBatch now rs s = (Inr is, rs', s')"
  shows "length is = length rs \<and> stored s' = stored s @ zip is (map (columns now) rs)"
proof (cases "rs = []")
  case True
  with assms show ?thesis by (simp add: SaveBatch_def)
next
  case False
  obtain r1 s1 where s1: "next_reply s = (r1, s1)" by fastforce
  obtain r2 s2 where s2: "next_reply s1 = (r2, s2)" by fastforce
  obtain b rs3 s3 where s3: "batch_exec now rs s2 = (b, rs3, s3)" by (metis prod_cases3)
  obtain r4 s4 where s4: "next_reply s3 = (r4, s4)" by fastforce
  obtain rows where rows: "b = Inr rows" "is = map row_id rows"
    "s' = s4\<lparr>st_requests := st_requests s4 @ rows, st_hostCache := emptyHostCache\<rparr>"
    using assms False s1 s2 s3 s4
    by (auto simp: SaveBatch_def split: reply.splits sum.splits)
  have "stored s4 = stored s"
    using stored_next_reply [OF s1] stored_next_reply [OF s2] stored_next_reply [OF s4]
      batch_exec_frame [OF s3] by (simp add: stored_def)
  moreover have "map (\<lambda>r. (row_id r, row_req r)) rows = zip (map row_id rows) (map row_req rows)"
    by (simp add: zip_map_map zip_same_conv_map)
  moreover have "length rows = length rs" "map row_req rows = map (columns now) rs"
    using batch_exec_rows [of now rs s2 rows rs3 s3] s3 rows(1) by (auto simp: columns_def)
  ultimately show ?thesis by (simp add: rows(2,3))
qed

lemma SaveBatch_err:
  assumes "SaveBatch now rs s = (Inl e, rs', s')"
  shows "stored s' = stored s"
proof -
  obtain r1 s1 where s1: "next_reply s = (r1, s1)" by fastforce
  obtain r2 s2 where s2: "next_reply s1 = (r2, s2)" by fastforce
  obtain b rs3 s3 where s3: "batch_exec now rs s2 = (b, rs3, s3)" by (metis prod_cases3)
  obtain r4 s4 where s4: "next_reply s3 = (r4, s4)" by fastforce
  have "s' \<in> {s1, s2, s3, s4}"
    using assms s1 s2 s3 s4
    by (auto simp: SaveBatch_def split: if_splits reply.splits sum.splits)
  then show ?thesis
    using stored_next_reply [OF s1] stored_next_reply [OF s2] stored_next_reply [OF s4]
      batch_exec_frame [OF s3] by (auto simp: stored_def)
qed

lemma SaveBatch_stamps:
  assumes "SaveBatch now rs s = (res, rs', s')"
  shows "map (stamp now) rs' = map (stamp now) rs"
proof -
  obtain r1 s1 where s1: "next_reply s = (r1, s1)" by fastforce
  obtain r2 s2 where s2: "next_reply s1 = (r2, s2)" by fastforce
  obtain b rs3 s3 where s3: "batch_exec now rs s2 = (b, rs3, s3)" by (metis prod_cases3)
  obtain r4 s4 where s4: "next_reply s3 = (r4, s4)" by fastforce
  have "rs' \<in> {rs, rs3}"
    using assms s1 s2 s3 s4
    by (auto simp: SaveBatch_def split: if_splits reply.splits sum.splits)
  then show ?thesis using batch_exec_stamps [OF s3] by auto
qed

lemma columns_stamps:
  assumes "map (stamp now) rs' = map (stamp now) rs"
  shows "map (columns now) rs' = map (columns now) rs"
proof -
  have eq: "map (columns now) xs = map insert_columns (map (stamp now) xs)" for xs
    by (simp add: columns_def)
  show ?thesis unfolding eq assms ..
qed

interpretation sink: request_sink "Save now" "SaveBatch now" stored "columns now" for now
proof
  fix r s e r' s' assume "Save now r s = (Inl e, r', s')"
  then show "stored s' = stored s \<or> (\<exists>i. stored s' = stored s @ [(i, columns now r)])"
    by (cases rule: Save_cases) auto
next
  fix r s res r' s' assume "Save now r s = (res, r', s')"
  then show "columns now r' = columns now r"
    by (cases rule: Save_cases) (auto simp: columns_def)
next
  fix rs s res rs' s' assume "SaveBatch now rs s = (res, rs', s')"
  then show "map (columns now) rs' = map (columns now) rs"
    by (intro columns_stamps SaveBatch_stamps)
qed (simp_all add: Save_ok SaveBatch_ok SaveBatch_err)

end
