(* ===== verification/StoreProps.thy ===== *)
theory StoreProps
  imports StoreLaws
begin

text \<open>
  The properties of the store: every operation in one step function (\<open>run_op\<close>), the two
  invariants kept by all of them (the size bound of the stored bodies, the coherence of the host
  cache unless a maintenance operation fails half-way), the round trip of a request, paging and
  the retention window.
\<close>

section \<open>All operations as one step\<close>

datatype store_op =
    OSave instant captured_request
  | OSaveBatch instant "captured_request list"
  | OGet int
  | OUpdateResBody int string string int
  | OSetLLMData int string
  | OSetStarred int bool
  | ODelete int
  | OClear
  | OCleanup instant int
  | OListStarred int
  | OStats
  | OGetSetting string
  | OSetSetting string string
  | OSaveInterceptLog instant intercept_log
  | OSaveRule intercept_rule
  | OListRules
  | OUpdateRule int bool
  | ODeleteRule int
  | OListHosts instant string int int

definition is_err :: "'e + 'a \<Rightarrow> bool" where
  "is_err r = (case r of Inl _ \<Rightarrow> True | Inr _ \<Rightarrow> False)"

text \<open>Whether the operation reports an error, and the store after it.\<close>

fun run_op :: "host_query \<Rightarrow> store_op \<Rightarrow> store \<Rightarrow> bool \<times> store" where
  "run_op q (OSave now r) s = (case Save now r s of (res, _, s') \<Rightarrow> (is_err res, s'))"
| "run_op q (OSaveBatch now rs) s = (case SaveBatch now rs s of (res, _, s') \<Rightarrow> (is_err res, s'))"
| "run_op q (OGet i) s = apfst is_err (Get i s)"
| "run_op q (OUpdateResBody i b e n) s = apfst (\<lambda>r. r \<noteq> None) (UpdateResBody i b e n s)"
| "run_op q (OSetLLMData i d) s = apfst (\<lambda>r. r \<noteq> None) (SetLLMData i d s)"
| "run_op q (OSetStarred i b) s = apfst (\<lambda>r. r \<noteq> None) (SetStarred i b s)"
| "run_op q (ODelete i) s = apfst (\<lambda>r. r \<noteq> None) (Delete i s)"
| "run_op q OClear s = apfst (\<lambda>r. r \<noteq> None) (Clear s)"
| "run_op q (OCleanup now d) s = apfst (\<lambda>(n, m, d, e). e \<noteq> None) (Cleanup now d s)"
| "run_op q (OListStarred l) s = apfst is_err (ListStarred l s)"
| "run_op q OStats s = apfst is_err (Stats s)"
| "run_op q (OGetSetting k) s = apfst is_err (GetSetting k s)"
| "run_op q (OSetSetting k v) s = apfst (\<lambda>r. r \<noteq> None) (SetSetting k v s)"
| "run_op q (OSaveInterceptLog now l) s = apfst (\<lambda>r. r \<noteq> None) (SaveInterceptLog now l s)"
| "run_op q (OSaveRule r) s = apfst is_err (SaveRule r s)"
| "run_op q OListRules s = apfst is_err (ListRules s)"
| "run_op q (OUpdateRule i b) s = apfst (\<lambda>r. r \<noteq> None) (UpdateRule i b s)"
| "run_op q (ODeleteRule i) s = apfst (\<lambda>r. r \<noteq> None) (DeleteRule i s)"
| "run_op q (OListHosts now search l off) s = apfst is_err (ListHosts q now search l off s)"

definition maintenance :: "store_op \<Rightarrow> bool" where
  "maintenance op = (case op of OClear \<Rightarrow> True | OCleanup _ _ \<Rightarrow> True | _ \<Rightarrow> False)"

text \<open>The store after a list of operations.\<close>

fun run_ops :: "host_query \<Rightarrow> store_op list \<Rightarrow> store \<Rightarrow> store" where
  "run_ops q [] s = s"
| "run_ops q (op # ops) s = run_ops q ops (snd (run_op q op s))"

text \<open>No maintenance operation of the run fails.\<close>

fun maintenance_ok :: "host_query \<Rightarrow> store_op list \<Rightarrow> store \<Rightarrow> bool" where
  "maintenance_ok q [] s = True"
| "maintenance_ok q (op # ops) s =
     ((maintenance op \<longrightarrow> \<not> fst (run_op q op s)) \<and> maintenance_ok q ops (snd (run_op q op s)))"

section \<open>Invariants\<close>

text \<open>The cached host list, if there is one, is the list a fresh query would give.\<close>

definition coherent :: "host_query \<Rightarrow> store \<Rightarrow> bool" where
  "coherent q s \<longleftrightarrow> hc_total (st_hostCache s) = 0 \<or>
     hc_hosts (st_hostCache s) = all_hosts (q [] (host_column s)) \<and>
     hc_total (st_hostCache s) = length (hc_hosts (st_hostCache s))"

definition fits :: "captured_request \<Rightarrow> bool" where
  "fits r \<longleftrightarrow> length (cr_ReqBody r) \<le> max_req_body \<and> length (cr_ResBody r) \<le> max_res_body \<and>
     length (cr_SSEEvents r) \<le> max_res_body"

definition row_fits :: "request_row \<Rightarrow> bool" where
  "row_fits r \<longleftrightarrow> fits (row_req r) \<and> length (row_llm_data r) \<le> max_res_body"

definition bounded_rows :: "store \<Rightarrow> bool" where
  "bounded_rows s \<longleftrightarrow> list_all row_fits (st_requests s)"

lemma coherent_empty [simp]: "st_hostCache s = emptyHostCache \<Longrightarrow> coherent q s"
  by (simp add: coherent_def emptyHostCache_def)

lemma coherent_cong:
  "st_hostCache s' = st_hostCache s \<Longrightarrow> host_column s' = host_column s \<Longrightarrow> coherent q s' = coherent q s"
  by (simp add: coherent_def)

text \<open>Two stores with the same requests and the same cache.\<close>

definition same_requests :: "store \<Rightarrow> store \<Rightarrow> bool" where
  "same_requests s s' \<longleftrightarrow> st_requests s' = st_requests s \<and> st_hostCache s' = st_hostCache s"

lemma same_requests_coherent: "same_requests s s' \<Longrightarrow> coherent q s' = coherent q s"
  by (simp add: same_requests_def coherent_def host_column_def)

lemma same_requests_bounded: "same_requests s s' \<Longrightarrow> bounded_rows s' = bounded_rows s"
  by (simp add: same_requests_def bounded_rows_def)

lemma next_reply_same: "next_reply s = (r, s') \<Longrightarrow> same_requests s s'"
  by (simp add: same_requests_def next_reply_frame)

text \<open>Operations that read, or write another table.\<close>

lemma run_op_same:
  assumes "op \<in> {OGet i, OListStarred l, OStats, OGetSetting k, OSetSetting k v,
     OSaveInterceptLog now lg, OSaveRule ru, OListRules, OUpdateRule i b, ODeleteRule i}"
  shows "same_requests s (snd (run_op q op s))"
proof -
  obtain r t where t: "next_reply s = (r, t)" by fastforce
  obtain r2 t2 where t2: "next_reply t = (r2, t2)" by fastforce
  note frame = next_reply_frame [OF t] next_reply_frame [OF t2]
  from assms consider "op = OGet i" | "op = OListStarred l" | "op = OStats" | "op = OGetSetting k"
    | "op = OSetSetting k v" | "op = OSaveInterceptLog now lg" | "op = OSaveRule ru"
    | "op = OListRules" | "op = OUpdateRule i b" | "op = ODeleteRule i" by blast
  then show ?thesis
    by cases (simp_all add: same_requests_def Get_def ListStarred_def Stats_def GetSetting_def
        SetSetting_def SaveInterceptLog_def SaveRule_def ListRules_def UpdateRule_def
        DeleteRule_def Let_def t t2 frame split: reply.splits option.splits)
qed

lemma host_column_update_rows:
  "(\<And>r. cr_Host (row_req (f r)) = cr_Host (row_req r)) \<Longrightarrow>
   host_column (update_rows i f s) = host_column s"
  by (simp add: host_column_def update_rows_def)

lemma cache_update_rows [simp]: "st_hostCache (update_rows i f s) = st_hostCache s"
  by (simp add: update_rows_def)

lemma bounded_update_rows:
  "bounded_rows s \<Longrightarrow> (\<And>r. row_fits r \<Longrightarrow> row_fits (f r)) \<Longrightarrow> bounded_rows (update_rows i f s)"
  by (auto simp: bounded_rows_def update_rows_def list_all_iff)

lemma insert_columns_fits [simp]: "fits (insert_columns r)"
  by (simp add: fits_def insert_columns_def truncateStr_length)

lemma new_row_fits [simp]: "row_fits (new_row i r)"
  by (simp add: row_fits_def new_row_def)

lemma bounded_cache [simp]: "bounded_rows (s\<lparr>st_hostCache := c\<rparr>) = bounded_rows s"
  by (simp add: bounded_rows_def)

section \<open>Every operation keeps the size bound\<close>

lemma bounded_append [simp]:
  "bounded_rows (s\<lparr>st_requests := st_requests t @ rs, st_hostCache := c\<rparr>) \<longleftrightarrow>
   bounded_rows t \<and> list_all row_fits rs"
  by (simp add: bounded_rows_def)

lemma bounded_append' [simp]:
  "bounded_rows (s\<lparr>st_requests := st_requests t @ rs\<rparr>) \<longleftrightarrow> bounded_rows t \<and> list_all row_fits rs"
  by (simp add: bounded_rows_def)

lemma batch_exec_fits:
  "batch_exec now reqs s = (Inr rows, reqs', s') \<Longrightarrow> list_all row_fits rows"
proof (induction reqs arbitrary: s rows reqs' s')
  case Nil
  then show ?case by simp
next
  case (Cons r reqs)
  obtain rep t where t: "next_reply s = (rep, t)" by fastforce
  obtain res2 reqs2 t2 where t2: "batch_exec now reqs t = (res2, reqs2, t2)" by (metis prod_cases3)
  from Cons.prems t t2 obtain i rows2 where "res2 = Inr rows2" "rows = new_row i (stamp now r) # rows2"
    by (auto simp: Let_def split: reply.splits option.splits sum.splits)
  with Cons.IH t2 show ?case by simp
qed

text \<open>The two outcomes of a batch: nothing happened to the requests, or rows were added.\<close>

lemma SaveBatch_cases:
  assumes "SaveBatch now rs s = (res, rs', s')"
  obtains (untouched) "same_requests s s'"
  | (added) t rows where "same_requests s t" "list_all row_fits rows"
      "s' = t\<lparr>st_requests := st_requests t @ rows, st_hostCache := emptyHostCache\<rparr>"
proof -
  obtain r1 s1 where s1: "next_reply s = (r1, s1)" by fastforce
  obtain r2 s2 where s2: "next_reply s1 = (r2, s2)" by fastforce
  obtain b rs3 s3 where s3: "batch_exec now rs s2 = (b, rs3, s3)" by (metis prod_cases3)
  obtain r4 s4 where s4: "next_reply s3 = (r4, s4)" by fastforce
  have same: "same_requests s t" if "t \<in> {s, s1, s2, s3, s4}" for t
    using that next_reply_frame [OF s1] next_reply_frame [OF s2] batch_exec_frame [OF s3]
      next_reply_frame [OF s4] by (auto simp: same_requests_def)
  show thesis
  proof (cases "s' \<in> {s, s1, s2, s3, s4}")
    case True
    then show thesis using same untouched by blast
  next
    case False
    then obtain rows where "b = Inr rows"
      "s' = s4\<lparr>st_requests := st_requests s4 @ rows, st_hostCache := emptyHostCache\<rparr>"
      using assms s1 s2 s3 s4
      by (auto simp: SaveBatch_def split: if_splits reply.splits sum.splits)
    then show thesis using added [of s4 rows] same batch_exec_fits s3 by auto
  qed
qed

lemma Save_same_or_added:
  assumes "Save now r s = (res, r', s')"
  obtains (untouched) "same_requests s s'"
  | (added) t i where "same_requests s t"
      "s' = t\<lparr>st_requests := st_requests t @ [new_row i r'], st_hostCache := emptyHostCache\<rparr>"
proof -
  obtain rep t where t: "next_reply s = (rep, t)" by fastforce
  show thesis
  proof (cases rep)
    case (ExecErr e)
    with assms t have "s' = t" by (simp add: Save_def Let_def)
    with next_reply_same [OF t] show thesis by (simp add: untouched)
  next
    case (ExecOk i acc)
    with assms t next_reply_same [OF t] show thesis
      by (intro added [of t i]) (auto simp: Save_def Let_def)
  qed
qed

lemma filter_bounded [simp]: "bounded_rows s \<Longrightarrow> bounded_rows (s\<lparr>st_requests := filter P (st_requests s)\<rparr>)"
  by (auto simp: bounded_rows_def list_all_iff)

lemma retention_days_same: "retention_days d s = (d', s') \<Longrightarrow> same_requests s s' \<and> st_logs s' = st_logs s"
  by (cases "next_reply s")
     (auto simp: retention_days_def GetSetting_def same_requests_def Let_def next_reply_frame
       split: if_splits reply.splits option.splits)

text \<open>What \<open>Cleanup\<close> can do to the requests and the cache.\<close>

lemma Cleanup_cases:
  assumes "Cleanup now days s = ((n, m, d, e), s')"
  obtains (skipped) "same_requests s s'" "e \<noteq> None \<or> d = 0"
  | (half) "st_requests s' = filter (\<lambda>r. \<not> row_older (whole_seconds (now - d * day)) r) (st_requests s)"
      "st_hostCache s' = st_hostCache s" "e \<noteq> None"
  | (complete) "st_requests s' = filter (\<lambda>r. \<not> row_older (whole_seconds (now - d * day)) r) (st_requests s)"
      "st_hostCache s' = emptyHostCache" "e = None"
proof -
  obtain d0 s0 where s0: "retention_days days s = (d0, s0)" by fastforce
  obtain r1 s1 where s1: "next_reply s0 = (r1, s1)" by fastforce
  let ?cut = "whole_seconds (now - d0 * day)"
  let ?s2 = "s1\<lparr>st_requests := filter (\<lambda>r. \<not> row_older ?cut r) (st_requests s1)\<rparr>"
  obtain r3 s3 where s3: "next_reply ?s2 = (r3, s3)" by fastforce
  note facts = assms [unfolded Cleanup_def Let_def] s0 s1 s3 retention_days_same [OF s0]
    next_reply_frame [OF s1] next_reply_frame [OF s3]
  show thesis
  proof (cases "d0 = 0")
    case True
    with facts show thesis by (intro skipped) (auto simp: same_requests_def)
  next
    case d0: False
    show thesis
    proof (cases r1)
      case (ExecErr x)
      with d0 facts show thesis by (intro skipped) (auto simp: same_requests_def)
    next
      case r1: (ExecOk i acc)
      show thesis
      proof (cases r3)
        case (ExecErr x)
        with d0 r1 facts show thesis by (intro half) (auto simp: same_requests_def)
      next
        case (ExecOk j acc')
        with d0 r1 facts show thesis by (intro complete) (auto simp: same_requests_def)
      qed
    qed
  qed
qed

lemma run_op_bounded:
  assumes "bounded_rows s"
  shows "bounded_rows (snd (run_op q op s))"
proof (cases op)
  case (OSave now r)
  obtain res r' s' where s': "Save now r s = (res, r', s')" by (metis prod_cases3)
  then show ?thesis
    by (cases rule: Save_same_or_added)
       (use assms s' in \<open>auto simp: OSave same_requests_bounded\<close>)
next
  case (OSaveBatch now rs)
  obtain res rs' s' where s': "SaveBatch now rs s = (res, rs', s')" by (metis prod_cases3)
  then show ?thesis
    by (cases rule: SaveBatch_cases)
       (use assms s' in \<open>auto simp: OSaveBatch same_requests_bounded\<close>)
next
  case (OUpdateResBody i b e n)
  then show ?thesis
    using assms same_requests_bounded [OF next_reply_same]
    by (cases "next_reply s")
       (auto simp: UpdateResBody_def row_fits_def fits_def truncateStr_length
         intro!: bounded_update_rows split: reply.splits)
next
  case (OSetLLMData i d)
  then show ?thesis
    using assms same_requests_bounded [OF next_reply_same]
    by (cases "next_reply s")
       (auto simp: SetLLMData_def row_fits_def truncateStr_length
         intro!: bounded_update_rows split: reply.splits)
next
  case (OSetStarred i b)
  then show ?thesis
    using assms same_requests_bounded [OF next_reply_same]
    by (cases "next_reply s")
       (auto simp: SetStarred_def Let_def row_fits_def
         intro!: bounded_update_rows split: reply.splits option.splits)
next
  case (ODelete i)
  obtain r t where t: "next_reply s = (r, t)" by fastforce
  then show ?thesis
    using assms ODelete next_reply_frame(1) [OF t]
    by (cases r) (auto simp: Delete_def bounded_rows_def list_all_iff)
next
  case OClear
  then show ?thesis
    using assms next_reply_frame
    by (auto simp: Clear_def Let_def bounded_rows_def split: reply.splits prod.splits)
next
  case (OCleanup now d)
  obtain n m d' e s' where s': "Cleanup now d s = ((n, m, d', e), s')" by (metis prod.collapse)
  then show ?thesis
    by (cases rule: Cleanup_cases)
       (use assms s' in \<open>auto simp: OCleanup same_requests_def bounded_rows_def list_all_iff\<close>)
next
  case (OListHosts now search l off)
  then show ?thesis
    using assms same_requests_bounded [OF next_reply_same]
    by (cases "next_reply s") (auto simp: ListHosts_def Let_def split: reply.splits)
qed (use assms same_requests_bounded [OF run_op_same] in blast)+

section \<open>Coherence of the host cache\<close>

text \<open>A maintenance operation that fails is the only step that can break it.\<close>

lemma run_op_coherent:
  assumes "coherent q s" and "maintenance op \<Longrightarrow> \<not> fst (run_op q op s)"
  shows "coherent q (snd (run_op q op s))"
proof (cases op)
  case (OSave now r)
  obtain res r' s' where s': "Save now r s = (res, r', s')" by (metis prod_cases3)
  then show ?thesis
    by (cases rule: Save_same_or_added)
       (use assms s' in \<open>auto simp: OSave same_requests_coherent\<close>)
next
  case (OSaveBatch now rs)
  obtain res rs' s' where s': "SaveBatch now rs s = (res, rs', s')" by (metis prod_cases3)
  then show ?thesis
    by (cases rule: SaveBatch_cases)
       (use assms s' in \<open>auto simp: OSaveBatch same_requests_coherent\<close>)
next
  case (OUpdateResBody i b e n)
  obtain r t where t: "next_reply s = (r, t)" by fastforce
  show ?thesis
    using assms(1) same_requests_coherent [OF next_reply_same [OF t]]
    by (cases r) (auto simp: OUpdateResBody UpdateResBody_def t coherent_def host_column_update_rows)
next
  case (OSetLLMData i d)
  obtain r t where t: "next_reply s = (r, t)" by fastforce
  show ?thesis
    using assms(1) same_requests_coherent [OF next_reply_same [OF t]]
    by (cases r) (auto simp: OSetLLMData SetLLMData_def t coherent_def host_column_update_rows)
next
  case (OSetStarred i b)
  obtain r t where t: "next_reply s = (r, t)" by fastforce
  show ?thesis
    using assms(1) same_requests_coherent [OF next_reply_same [OF t]]
    by (cases r) (auto simp: OSetStarred SetStarred_def Let_def t coherent_def
        host_column_update_rows emptyHostCache_def split: option.splits)
next
  case (ODelete i)
  obtain r t where t: "next_reply s = (r, t)" by fastforce
  show ?thesis
    using assms(1) same_requests_coherent [OF next_reply_same [OF t]]
    by (cases r) (auto simp: ODelete Delete_def t)
next
  case OClear
  obtain r t where t: "next_reply s = (r, t)" by fastforce
  obtain r2 t2 where t2: "next_reply (t\<lparr>st_requests := []\<rparr>) = (r2, t2)" by fastforce
  show ?thesis
    using assms same_requests_coherent [OF next_reply_same [OF t]]
    by (cases r; cases r2) (auto simp: OClear Clear_def t t2 maintenance_def)
next
  case (OCleanup now d)
  obtain n m d' e s' where s': "Cleanup now d s = ((n, m, d', e), s')" by (metis prod.collapse)
  then show ?thesis
    by (cases rule: Cleanup_cases)
       (use assms s' in \<open>auto simp: OCleanup same_requests_coherent maintenance_def\<close>)
next
  case (OListHosts now search l off)
  obtain r t where t: "next_reply s = (r, t)" by fastforce
  show ?thesis
    using assms(1) same_requests_coherent [OF next_reply_same [OF t]]
    by (cases r) (auto simp: OListHosts ListHosts_def Let_def t coherent_def host_column_def)
qed (use assms(1) same_requests_coherent [OF run_op_same] in blast)+

lemma run_ops_coherent: "coherent q s \<Longrightarrow> maintenance_ok q ops s \<Longrightarrow> coherent q (run_ops q ops s)"
  by (induction ops arbitrary: s) (auto simp: run_op_coherent)

lemma run_ops_bounded: "bounded_rows s \<Longrightarrow> bounded_rows (run_ops q ops s)"
  by (induction ops arbitrary: s) (auto simp: run_op_bounded)

text \<open>On a coherent store \<open>ListHosts\<close> answers as the query would, cached or not.\<close>

lemma ListHosts_transparent:
  assumes "coherent q s" and "ListHosts q now search limit offset s = (Inr (page, cnt), s')"
  shows "let hosts = all_hosts (q search (host_column s)) in
     cnt = length hosts \<and>
     page = host_page hosts (nat (if limit \<le> 0 \<or> limit > 200 then 100 else limit)) (nat (max 0 offset))"
proof -
  obtain r t where t: "next_reply s = (r, t)" by fastforce
  have off: "nat (if offset < 0 then 0 else offset) = nat (max 0 offset)" by simp
  show ?thesis
    using assms next_reply_frame(1) [OF t]
    unfolding ListHosts_def Let_def off
    by (cases r) (auto simp: coherent_def t host_column_def split: if_splits)
qed

text \<open>The store a program starts with.\<close>

definition fresh_store :: "instant \<Rightarrow> reply list \<Rightarrow> store" where
  "fresh_store ttl reps = \<lparr>st_requests = [], st_logs = [], st_settings = [], st_rules = [],
     st_hostCache = emptyHostCache, st_hostCacheTTL = ttl, st_replies = reps\<rparr>"

section \<open>Retention, hosts and pages\<close>

lemma retention_days_range: "retention_days d s = (d', s') \<Longrightarrow> 0 \<le> d' \<and> d' \<le> maxRetentionDays"
  by (auto simp: retention_days_def Let_def maxRetentionDays_def split: prod.splits if_splits)

lemma whole_seconds_le: "whole_seconds t \<le> t"
proof -
  have "t mod seconds \<ge> 0" by (simp add: seconds_def)
  then show ?thesis using div_mult_mod_eq [of t seconds] unfolding whole_seconds_def by linarith
qed

lemma Cleanup_days:
  assumes "Cleanup now days s = ((n, m, d, e), s')"
  shows "0 \<le> d \<and> d \<le> maxRetentionDays"
proof -
  obtain d0 s0 where s0: "retention_days days s = (d0, s0)" by fastforce
  from assms have "d = d0 \<or> d = 0"
    unfolding Cleanup_def s0 Let_def by (auto split: if_splits prod.splits reply.splits)
  then show ?thesis using retention_days_range [OF s0] by (auto simp: maxRetentionDays_def)
qed

lemma row_older_recent:
  assumes "0 < d" and "cr_CapturedAt (row_req r) = Some t" and "now - day \<le> t"
  shows "\<not> row_older (whole_seconds (now - d * day)) r"
proof -
  have "0 < day" by (simp add: day_def seconds_def)
  then have "day \<le> d * day" using assms(1) by simp
  then have "whole_seconds (now - d * day) \<le> t"
    using whole_seconds_le [of "now - d * day"] assms(3) by linarith
  then show ?thesis using assms(2) by (simp add: row_older_def)
qed

lemma bump_host_keys: "fst ` set (bump_host h c ks) = insert h (fst ` set ks)"
  by (induction h c ks rule: bump_host.induct) auto

lemma bump_host_distinct: "distinct (map fst ks) \<Longrightarrow> distinct (map fst (bump_host h c ks))"
proof (induction h c ks rule: bump_host.induct)
  case (2 h c k n ks)
  have "set (map fst (bump_host h c ks)) = insert h (set (map fst ks))"
    using bump_host_keys by (metis set_map)
  with 2 show ?case by auto
qed simp

lemma bump_host_sum: "sum_list (map snd (bump_host h c ks)) = c + sum_list (map snd ks)"
  by (induction h c ks rule: bump_host.induct) auto

lemma merge_hosts_spec:
  "distinct (map fst acc) \<Longrightarrow>
     distinct (map fst (merge_hosts acc rows)) \<and>
     fst ` set (merge_hosts acc rows) = fst ` set acc \<union> stripPort ` fst ` set rows \<and>
     sum_list (map snd (merge_hosts acc rows)) = sum_list (map snd acc) + sum_list (map snd rows)"
  by (induction acc rows rule: merge_hosts.induct)
     (auto simp: bump_host_distinct bump_host_keys bump_host_sum)

lemma host_page_eq: "host_page hosts limit offset = take limit (drop offset hosts)"
  by (auto simp: host_page_def slice_def Let_def min_def)

section \<open>Properties\<close>


definition example_request :: captured_request where
  "example_request = zero_request\<lparr>cr_Method := ''GET'', cr_Host := ''a.org:443'',
     cr_CapturedAt := Some 5000000000, cr_ReqBody := ''hi''\<rparr>"

definition example_query :: host_query where
  "example_query search hosts = map (\<lambda>h. (h, 1)) hosts"

lemma example_merge: "all_hosts [(''a.org:443'', 1), (''a.org'', 2)] = [''a.org (3)'']"
  by (simp add: all_hosts_def stripPort_def split_host_port_def last_index_byte_def show_host_def
      show_nat.simps)

lemma example_all_hosts: "all_hosts [(''a.org:443'', Suc 0)] = [''a.org (1)'']"
  by (simp add: all_hosts_def stripPort_def split_host_port_def last_index_byte_def show_host_def
      show_nat.simps)

lemmas store_eval = fresh_store_def Save_def SaveBatch_def Clear_def Cleanup_def ListHosts_def Get_def
  next_reply_def stamp_def new_row_def insert_columns_def example_request_def zero_request_def
  truncateStr_def max_req_body_def max_res_body_def whole_seconds_def seconds_def day_def
  host_column_def example_query_def emptyHostCache_def host_page_def slice_def find_row_def
  is_err_def maintenance_def row_older_def affected_def retention_days_def maxRetentionDays_def
  Let_def


text \<open>the exception is real. When the second statement of \<open>Clear\<close> fails, the requests are
  gone but the cached host list stays, and \<open>ListHosts\<close> goes on reporting the deleted host.\<close>

theorem Clear_failure_leaves_stale_cache:
  "let s = snd (run_op example_query OClear
       (run_ops example_query [OSave 1 example_request, OListHosts 6 [] 0 0]
          (fresh_store 300 [ExecOk 1 None, ExecOk 0 None, ExecOk 0 None, ExecErr ''locked''])))
   in st_requests s = [] \<and>
      fst (ListHosts example_query 7 [] 0 0 s) = Inr ([''a.org (1)''], 1)"
  by (simp add: store_eval example_all_hosts)

text \<open>whatever operations run and however the driver answers, no stored request has a body
  or an event text above the limits (2 MB and 4 MB), and no LLM record is above 4 MB.\<close>

theorem stored_bodies_bounded:
  "\<forall>r \<in> set (st_requests (run_ops q ops (fresh_store ttl reps))).
     length (cr_ReqBody (row_req r)) \<le> 2097152 \<and> length (cr_ResBody (row_req r)) \<le> 4194304 \<and>
     length (cr_SSEEvents (row_req r)) \<le> 4194304 \<and> length (row_llm_data r) \<le> 4194304"
proof -
  have "bounded_rows (fresh_store ttl reps)" by (simp add: bounded_rows_def fresh_store_def)
  then have "bounded_rows (run_ops q ops (fresh_store ttl reps))" by (rule run_ops_bounded)
  then show ?thesis
    by (auto simp: bounded_rows_def list_all_iff row_fits_def fits_def max_req_body_def max_res_body_def)
qed

theorem stored_bodies_bounded_witness:
  "\<exists>r \<in> set (st_requests (run_ops example_query [OSave 1 example_request]
        (fresh_store 300 [ExecOk 1 None]))). length (cr_ReqBody (row_req r)) \<le> 2097152"
  using stored_bodies_bounded [of example_query "[OSave 1 example_request]" 300 "[ExecOk 1 None]"]
  by (simp add: store_eval)



text \<open>\<open>Cleanup\<close> never deletes a request captured within the last day, applies at most 36500
  days, deletes nothing when it applies none, and after a call without error no request older
  than the retention period is left.\<close>

theorem Cleanup_window:
  assumes "Cleanup now days s = ((n, m, d, e), s')"
  shows "0 \<le> d \<and> d \<le> 36500 \<and>
     (\<forall>r \<in> set (st_requests s).
        d = 0 \<or> (\<exists>t. cr_CapturedAt (row_req r) = Some t \<and> now - day \<le> t) \<longrightarrow> r \<in> set (st_requests s')) \<and>
     set (st_requests s') \<subseteq> set (st_requests s) \<and>
     (e = None \<and> 0 < d \<longrightarrow>
        (\<forall>r \<in> set (st_requests s'). \<not> row_older (whole_seconds (now - d * day)) r))"
proof -
  have d: "0 \<le> d" "d \<le> 36500" using Cleanup_days [OF assms] by (auto simp: maxRetentionDays_def)
  have d0: "st_requests s' = st_requests s" if "d = 0"
  proof -
    obtain d0 s0 where s0: "retention_days days s = (d0, s0)" by fastforce
    from assms that have "d0 = 0"
      unfolding Cleanup_def s0 Let_def by (auto split: if_splits prod.splits reply.splits)
    with assms s0 have "s' = s0" by (simp add: Cleanup_def)
    then show ?thesis using retention_days_same [OF s0] by (simp add: same_requests_def)
  qed
  from assms show ?thesis
  proof (cases rule: Cleanup_cases)
    case skipped
    then show ?thesis using d d0 by (auto simp: same_requests_def)
  next
    case half
    then show ?thesis using d d0 row_older_recent [of d] by (cases "d = 0") auto
  next
    case complete
    then show ?thesis using d d0 row_older_recent [of d] by (cases "d = 0") auto
  qed
qed

definition old_and_new :: store where
  "old_and_new = (fresh_store 300 [ExecOk 0 None, ExecOk 0 None])
     \<lparr>st_requests := [new_row 1 example_request,
        new_row 2 (example_request\<lparr>cr_CapturedAt := Some (10 * day)\<rparr>)]\<rparr>"

theorem Cleanup_window_witness:
  "\<exists>n m d e s'. Cleanup (10 * day) 7 old_and_new = ((n, m, d, e), s') \<and> e = None \<and> d = 7 \<and>
     map row_id (st_requests s') = [2] \<and> set (st_requests s') \<subseteq> set (st_requests old_and_new)"
proof -
  obtain n m d e s' where c: "Cleanup (10 * day) 7 old_and_new = ((n, m, d, e), s')"
    by (metis prod.collapse)
  moreover from c have "e = None \<and> d = 7 \<and> map row_id (st_requests s') = [2]"
    by (auto simp: old_and_new_def store_eval)
  moreover have "set (st_requests s') \<subseteq> set (st_requests old_and_new)"
    using Cleanup_window [OF c] by simp
  ultimately show ?thesis by metis
qed

text \<open>merging the host counts keeps the total, lists every host once, and lists exactly the
  hosts of the query without their ports.\<close>

theorem merge_hosts_totals:
  "distinct (map fst (merge_hosts [] rows)) \<and>
   fst ` set (merge_hosts [] rows) = stripPort ` fst ` set rows \<and>
   sum_list (map snd (merge_hosts [] rows)) = sum_list (map snd rows)"
  using merge_hosts_spec [of "[]" rows] by simp

text \<open>consecutive pages of the host list, put together, are the list: nothing is skipped or
  repeated.\<close>

theorem host_pages_cover:
  "concat (map (\<lambda>k. host_page hosts limit (k * limit)) [0..<n]) = take (n * limit) hosts"
proof (induction n)
  case (Suc n)
  have "take (Suc n * limit) hosts = take (n * limit + limit) hosts"
    by (simp add: add.commute)
  also have "\<dots> = take (n * limit) hosts @ take limit (drop (n * limit) hosts)"
    by (rule take_add)
  finally show ?case using Suc by (simp add: host_page_eq)
qed simp

end
