(* ===== verification/LossyQueue.thy ===== *)
theory LossyQueue
  imports Prelude "HOL-Library.Sublist"
begin

text \<open>
  The interface of the program's bounded queues: a push that never blocks and may drop, a drain
  that takes everything. The ring of the capture engine and the bounded channels of the
  interceptor and the web socket hub offer it with different drop policies (the ring drops the
  oldest entry or refuses an oversized one, a channel refuses the newest). The locale proves
  once what its users rely on: nothing is duplicated or reordered, and every accepted entry is
  delivered, resident or counted as dropped.
\<close>

datatype 'x queue_event = EPush 'x | EDrain

lemma subseq_appendD: "subseq (xs @ ys) zs \<Longrightarrow> subseq xs zs"
  using list_emb_append_mono [of "(=)" xs xs "[]" ys] by (auto intro: subseq_order.trans)

text \<open>
  A run of events: the entries accepted, the entries delivered, and the final queue. A drain
  that would wait does nothing.
\<close>

fun run_queue ::
  "('x \<Rightarrow> 'q \<Rightarrow> bool \<times> 'q) \<Rightarrow> ('q \<Rightarrow> ('a list \<times> 'q) option) \<Rightarrow> ('x \<Rightarrow> 'a) \<Rightarrow>
   'x queue_event list \<Rightarrow> 'q \<Rightarrow> 'a list \<times> 'a list \<times> 'q" where
  "run_queue push drain entry [] q = ([], [], q)"
| "run_queue push drain entry (EPush x # es) q =
     (case push x q of (ok, q') \<Rightarrow>
        (case run_queue push drain entry es q' of (acc, out, q'') \<Rightarrow>
           ((if ok then entry x # acc else acc), out, q'')))"
| "run_queue push drain entry (EDrain # es) q =
     (case drain q of
        None \<Rightarrow> run_queue push drain entry es q
      | Some (batch, q') \<Rightarrow>
          (case run_queue push drain entry es q' of (acc, out, q'') \<Rightarrow> (acc, batch @ out, q'')))"

locale lossy_queue =
  fixes push :: "'x \<Rightarrow> 'q \<Rightarrow> bool \<times> 'q"
    and drain :: "'q \<Rightarrow> ('a list \<times> 'q) option"
    and entry :: "'x \<Rightarrow> 'a"
    and elems :: "'q \<Rightarrow> 'a list"
    and lost :: "'q \<Rightarrow> nat"
    and inv :: "'q \<Rightarrow> bool"
  assumes push_inv: "inv q \<Longrightarrow> push x q = (ok, q') \<Longrightarrow> inv q'"
    and push_refused: "inv q \<Longrightarrow> push x q = (False, q') \<Longrightarrow> elems q' = elems q \<and> lost q' = lost q"
    and push_accepted: "inv q \<Longrightarrow> push x q = (True, q') \<Longrightarrow>
          elems q' = elems q \<and> lost q' = lost q + 1 \<or>
          (\<exists>k \<le> length (elems q). elems q' = drop k (elems q) @ [entry x] \<and> lost q' = lost q + k)"
    and drain_inv: "inv q \<Longrightarrow> drain q = Some (batch, q') \<Longrightarrow> inv q'"
    and drain_all: "inv q \<Longrightarrow> drain q = Some (batch, q') \<Longrightarrow>
          batch = elems q \<and> elems q' = [] \<and> lost q' = lost q"
begin

lemma subseq_drop: "subseq (drop k xs @ ys) (xs @ ys)"
  by (simp add: suffix_drop suffix_imp_subseq)

text \<open>One push keeps the balance and the order.\<close>

lemma push_step:
  assumes "inv q" and "push x q = (ok, q')"
  shows "length (elems q') + lost q' = length (elems q) + lost q + (if ok then 1 else 0)"
    and "subseq (elems q') (elems q @ (if ok then [entry x] else []))"
  using assms push_refused [of q x q'] push_accepted [of q x q'] subseq_drop
  by (cases ok; auto)+

lemma run_queue_inv: "inv q \<Longrightarrow> run_queue push drain entry es q = (acc, out, q') \<Longrightarrow> inv q'"
proof (induction es arbitrary: q acc out q')
  case Nil
  then show ?case by simp
next
  case (Cons e es)
  then show ?case
    by (cases e) (fastforce dest: push_inv drain_inv split: prod.splits option.splits)+
qed

text \<open>Every accepted entry is delivered, still resident, or counted as lost.\<close>

lemma run_queue_balance:
  "inv q \<Longrightarrow> run_queue push drain entry es q = (acc, out, q') \<Longrightarrow>
     length (elems q) + lost q + length acc = length out + length (elems q') + lost q'"
proof (induction es arbitrary: q acc out q')
  case Nil
  then show ?case by simp
next
  case (Cons e es)
  show ?case
  proof (cases e)
    case (EPush x)
    obtain ok q1 where p: "push x q = (ok, q1)" by fastforce
    obtain acc1 out1 q2 where r: "run_queue push drain entry es q1 = (acc1, out1, q2)"
      by (metis prod_cases3)
    show ?thesis
      using Cons.prems EPush p r Cons.IH [OF push_inv [OF Cons.prems(1) p] r]
        push_step(1) [OF Cons.prems(1) p] by (cases ok) auto
  next
    case EDrain
    show ?thesis
    proof (cases "drain q")
      case None
      with Cons EDrain show ?thesis by simp
    next
      case (Some bq)
      obtain b q1 where d: "drain q = Some (b, q1)" using Some by (cases bq) auto
      obtain acc1 out1 q2 where r: "run_queue push drain entry es q1 = (acc1, out1, q2)"
        by (metis prod_cases3)
      show ?thesis
        using Cons.prems EDrain d r Cons.IH [OF drain_inv [OF Cons.prems(1) d] r]
          drain_all [OF Cons.prems(1) d] by auto
    qed
  qed
qed

text \<open>What is delivered, then what is resident, is a subsequence of what was accepted.\<close>

lemma run_queue_order:
  "inv q \<Longrightarrow> run_queue push drain entry es q = (acc, out, q') \<Longrightarrow>
     subseq (out @ elems q') (elems q @ acc)"
proof (induction es arbitrary: q acc out q')
  case Nil
  then show ?case by simp
next
  case (Cons e es)
  show ?case
  proof (cases e)
    case (EPush x)
    obtain ok q1 where p: "push x q = (ok, q1)" by fastforce
    obtain acc1 out1 q2 where r: "run_queue push drain entry es q1 = (acc1, out1, q2)"
      by (metis prod_cases3)
    have "subseq (out @ elems q') (elems q1 @ acc1)"
      using Cons.prems EPush p r Cons.IH [OF push_inv [OF Cons.prems(1) p] r] by auto
    moreover have "subseq (elems q1 @ acc1) ((elems q @ (if ok then [entry x] else [])) @ acc1)"
      using push_step(2) [OF Cons.prems(1) p] by (intro list_emb_append_mono) auto
    moreover have "acc = (if ok then [entry x] else []) @ acc1"
      using Cons.prems EPush p r by (cases ok) auto
    ultimately show ?thesis by (metis append_assoc subseq_order.trans)
  next
    case EDrain
    show ?thesis
    proof (cases "drain q")
      case None
      with Cons EDrain show ?thesis by simp
    next
      case (Some bq)
      obtain b q1 where d: "drain q = Some (b, q1)" using Some by (cases bq) auto
      obtain acc1 out1 q2 where r: "run_queue push drain entry es q1 = (acc1, out1, q2)"
        by (metis prod_cases3)
      show ?thesis
        using Cons.prems EDrain d r Cons.IH [OF drain_inv [OF Cons.prems(1) d] r]
          drain_all [OF Cons.prems(1) d]
        by (auto intro: list_emb_append_mono)
    qed
  qed
qed

end

section \<open>A bounded Go channel with a non-blocking send\<close>

text \<open>
  \<open>select { case ch <- x: default: }\<close> on a channel of capacity \<open>cap\<close>; the number of refused
  sends is kept beside the channel.
\<close>

record 'a chan =
  ch_cap :: nat
  ch_queue :: "'a list"
  ch_refused :: nat

definition try_send :: "'a \<Rightarrow> 'a chan \<Rightarrow> bool \<times> 'a chan" where
  "try_send x c =
     (if length (ch_queue c) < ch_cap c then (True, c\<lparr>ch_queue := ch_queue c @ [x]\<rparr>)
      else (True, c\<lparr>ch_refused := ch_refused c + 1\<rparr>))"

text \<open>Receiving until the channel is empty.\<close>

definition recv_all :: "'a chan \<Rightarrow> ('a list \<times> 'a chan) option" where
  "recv_all c = (if ch_queue c = [] then None else Some (ch_queue c, c\<lparr>ch_queue := []\<rparr>))"

definition chan_inv :: "'a chan \<Rightarrow> bool" where
  "chan_inv c \<longleftrightarrow> length (ch_queue c) \<le> ch_cap c"

interpretation chan: lossy_queue try_send recv_all "\<lambda>x. x" ch_queue ch_refused chan_inv
  by unfold_locales (auto simp: try_send_def recv_all_def chan_inv_def split: if_splits)

end
