(* ===== verification/MemRing.thy ===== *)
theory MemRing
  imports Models LossyQueue
begin

unbundle bit_operations_syntax

text \<open>
  \<open>MemRingBuffer\<close> of \<^verbatim>\<open>internal/capture/memring.go\<close>: a ring of records with an entry bound and
  a byte bound, and its refinement to a queue. \<open>head\<close>, \<open>tail\<close>, \<open>mask\<close>, \<open>bytes\<close> are \<open>uint64\<close> in the
  code and naturals here; the invariant keeps the indices below the ring's size and the byte
  count below its size times the byte bound, so none of them wraps for a size below \<open>2 ^ 32\<close>.
  The mutex makes every method atomic. \<open>PopBatch\<close> returns \<open>None\<close> where the code waits on the
  condition variable.
\<close>

section \<open>State and operations\<close>

record ring_record =
  rec_Req :: captured_request
  rec_Timestamp :: instant
  rec_size :: nat

record mem_ring =
  mr_buf :: "ring_record list"
  mr_head :: nat
  mr_tail :: nat
  mr_mask :: nat
  mr_bytes :: nat
  mr_maxBytes :: nat
  mr_dropped :: nat
  mr_stopped :: bool

definition maxRingBytes :: nat where "maxRingBytes = 512 * 1024 * 1024"

definition recordSize :: "captured_request \<Rightarrow> nat" where
  "recordSize req = length (cr_ReqBody req) + length (cr_ResBody req) + length (cr_SSEEvents req) + 2048"

definition zero_record :: ring_record where
  "zero_record = \<lparr>rec_Req = zero_request, rec_Timestamp = 0, rec_size = 0\<rparr>"

text \<open>\<open>for size < entryCount { size <<= 1 }\<close>\<close>

function double_until :: "nat \<Rightarrow> nat \<Rightarrow> nat" where
  "double_until sz n = (if 0 < sz \<and> sz < n then double_until (2 * sz) n else sz)"
  by pat_completeness auto
termination
  by (relation "measure (\<lambda>(sz, n). n - sz)") auto

declare double_until.simps [simp del]

definition NewMemRingBuffer :: "int \<Rightarrow> mem_ring" where
  "NewMemRingBuffer entryCount =
     (let entryCount = (if entryCount \<le> 0 then 262144 else entryCount);
          entryCount = (if entryCount < 2 then 2 else entryCount);
          size = double_until 1 (nat entryCount)
      in \<lparr>mr_buf = replicate size zero_record, mr_head = 0, mr_tail = 0, mr_mask = size - 1,
          mr_bytes = 0, mr_maxBytes = maxRingBytes, mr_dropped = 0, mr_stopped = False\<rparr>)"

text \<open>Dropping the oldest record, with the clamped byte count.\<close>

definition evict_oldest :: "mem_ring \<Rightarrow> mem_ring" where
  "evict_oldest r =
     (let oldest = rec_size (mr_buf r ! mr_tail r) in
      r\<lparr>mr_bytes := (if oldest > mr_bytes r then 0 else mr_bytes r - oldest),
        mr_tail := (mr_tail r + 1) AND mr_mask r,
        mr_dropped := mr_dropped r + 1\<rparr>)"

text \<open>\<open>Push\<close>; the request is a pointer and may be nil.\<close>

definition Push :: "instant \<Rightarrow> captured_request option \<Rightarrow> mem_ring \<Rightarrow> bool \<times> mem_ring" where
  "Push now req r =
     (if mr_stopped r then (False, r)
      else
        let size = (case req of None \<Rightarrow> 0 | Some q \<Rightarrow> recordSize q) in
        if req \<noteq> None \<and> size > mr_maxBytes r then (True, r\<lparr>mr_dropped := mr_dropped r + 1\<rparr>)
        else
          let nxt = (mr_head r + 1) AND mr_mask r;
              r = (if nxt = mr_tail r \<or> (req \<noteq> None \<and> mr_bytes r + size > mr_maxBytes r)
                   then evict_oldest r else r);
              r = (case req of
                     Some q \<Rightarrow> r\<lparr>mr_buf := (mr_buf r)[mr_head r :=
                                    \<lparr>rec_Req = q, rec_Timestamp = now, rec_size = size\<rparr>],
                                 mr_bytes := mr_bytes r + size\<rparr>
                   | None \<Rightarrow> r\<lparr>mr_buf := (mr_buf r)[mr_head r :=
                                    \<lparr>rec_Req = zero_request, rec_Timestamp = now, rec_size = 0\<rparr>]\<rparr>)
          in (True, r\<lparr>mr_head := nxt\<rparr>))"

text \<open>\<open>PopBatch\<close>: \<open>None\<close> waits; an empty list is the nil batch of a stopped ring.\<close>

definition PopBatch :: "mem_ring \<Rightarrow> (ring_record list \<times> mem_ring) option" where
  "PopBatch r =
     (if mr_head r = mr_tail r then (if mr_stopped r then Some ([], r) else None)
      else
        let n = (if mr_head r > mr_tail r then mr_head r - mr_tail r
                 else mr_mask r + 1 - mr_tail r + mr_head r);
            batch = map (\<lambda>i. mr_buf r ! ((mr_tail r + i) AND mr_mask r)) [0..<n]
        in Some (batch, r\<lparr>mr_tail := mr_head r, mr_bytes := 0\<rparr>))"

text \<open>\<open>Usage\<close>, as the fraction \<open>used / size\<close>.\<close>

definition Usage :: "mem_ring \<Rightarrow> nat \<times> nat" where
  "Usage r =
     ((if mr_head r \<ge> mr_tail r then mr_head r - mr_tail r
       else mr_mask r + 1 - mr_tail r + mr_head r), mr_mask r + 1)"

definition Dropped :: "mem_ring \<Rightarrow> nat" where
  "Dropped r = mr_dropped r"

definition ring_Stop :: "mem_ring \<Rightarrow> mem_ring" where
  "ring_Stop r = r\<lparr>mr_stopped := True\<rparr>"

section \<open>The queue a ring stands for\<close>

definition contents :: "mem_ring \<Rightarrow> ring_record list" where
  "contents r = ring_contents (mr_buf r) (mr_head r) (mr_tail r)"

definition capacity :: "mem_ring \<Rightarrow> nat" where
  "capacity r = length (mr_buf r) - 1"

definition total_size :: "ring_record list \<Rightarrow> nat" where
  "total_size rs = sum_list (map rec_size rs)"

definition ring_inv :: "mem_ring \<Rightarrow> bool" where
  "ring_inv r \<longleftrightarrow>
     (\<exists>k \<ge> 1. length (mr_buf r) = 2 ^ k) \<and> mr_mask r = length (mr_buf r) - 1 \<and>
     mr_head r < length (mr_buf r) \<and> mr_tail r < length (mr_buf r) \<and>
     mr_bytes r = total_size (contents r) \<and>
     (\<forall>x \<in> set (contents r). rec_size x \<le> mr_maxBytes r)"

lemma and_mask: "ring_inv r \<Longrightarrow> x AND mr_mask r = x mod length (mr_buf r)"
  using and_mask_mod by (auto simp: ring_inv_def)

lemma ring_inv_size: "ring_inv r \<Longrightarrow> 2 \<le> length (mr_buf r)"
proof -
  assume "ring_inv r"
  then obtain k where "k \<ge> 1" "length (mr_buf r) = 2 ^ k" by (auto simp: ring_inv_def)
  then show ?thesis using power_increasing [of 1 k "2::nat"] by simp
qed

lemma contents_Nil: "ring_inv r \<Longrightarrow> contents r = [] \<longleftrightarrow> mr_head r = mr_tail r"
  by (simp add: contents_def ring_inv_def ring_contents_Nil)

lemma length_contents: "length (contents r) = ring_used (length (mr_buf r)) (mr_head r) (mr_tail r)"
  by (simp add: contents_def length_ring_contents)

lemma contents_capacity: "ring_inv r \<Longrightarrow> length (contents r) \<le> capacity r"
  using ring_used_less [of "mr_head r" "length (mr_buf r)" "mr_tail r"]
  by (simp add: length_contents capacity_def ring_inv_def)

lemma full_iff:
  assumes "ring_inv r"
  shows "(mr_head r + 1) AND mr_mask r = mr_tail r \<longleftrightarrow> length (contents r) = capacity r"
  unfolding and_mask [OF assms] length_contents capacity_def
  using assms ring_full_iff [of "mr_head r" "length (mr_buf r)" "mr_tail r"]
  by (simp add: ring_inv_def)

lemma and_mask_less: "ring_inv r \<Longrightarrow> x AND mr_mask r < length (mr_buf r)"
  using ring_inv_size [of r] by (metis and_mask bot_nat_0.not_eq_extremum mod_less_divisor not_numeral_le_zero)

lemma total_size_simps [simp]:
  "total_size [] = 0" "total_size (x # xs) = rec_size x + total_size xs"
  "total_size (xs @ ys) = total_size xs + total_size ys"
  by (simp_all add: total_size_def)

section \<open>Refinement\<close>

text \<open>
  The abstract push: refuse a record above the byte bound, else drop the oldest entry when the
  queue is full or the record does not fit the bytes left, and append. One entry is dropped, at
  most.
\<close>

definition entry_of :: "instant \<Rightarrow> captured_request option \<Rightarrow> ring_record" where
  "entry_of now req = (case req of
      Some q \<Rightarrow> \<lparr>rec_Req = q, rec_Timestamp = now, rec_size = recordSize q\<rparr>
    | None \<Rightarrow> \<lparr>rec_Req = zero_request, rec_Timestamp = now, rec_size = 0\<rparr>)"

definition entry_size :: "captured_request option \<Rightarrow> nat" where
  "entry_size req = (case req of None \<Rightarrow> 0 | Some q \<Rightarrow> recordSize q)"

lemma rec_size_entry [simp]: "rec_size (entry_of now req) = entry_size req"
  by (simp add: entry_of_def entry_size_def split: option.splits)

definition oversized :: "captured_request option \<Rightarrow> mem_ring \<Rightarrow> bool" where
  "oversized req r \<longleftrightarrow> entry_size req > mr_maxBytes r"

definition evicts :: "captured_request option \<Rightarrow> mem_ring \<Rightarrow> bool" where
  "evicts req r \<longleftrightarrow> length (contents r) = capacity r \<or>
     (req \<noteq> None \<and> total_size (contents r) + entry_size req > mr_maxBytes r)"

lemma evict_oldest_inv:
  assumes inv: "ring_inv r" and ne: "contents r \<noteq> []"
  shows "ring_inv (evict_oldest r)" and "contents (evict_oldest r) = tl (contents r)"
proof -
  have ht: "mr_head r \<noteq> mr_tail r" "mr_head r < length (mr_buf r)" "mr_tail r < length (mr_buf r)"
    using inv ne contents_Nil by (auto simp: ring_inv_def)
  have hd: "mr_buf r ! mr_tail r = hd (contents r)"
    using ring_contents_hd [OF ht(2,3,1)] by (simp add: contents_def)
  have split: "contents r = hd (contents r) # tl (contents r)" using ne by simp
  show c: "contents (evict_oldest r) = tl (contents r)"
    using ring_contents_drop [OF ht(2,3,1)] and_mask [OF inv]
    by (simp add: evict_oldest_def contents_def Let_def)
  have "total_size (contents r) = rec_size (hd (contents r)) + total_size (tl (contents r))"
    by (subst split) simp
  then have "mr_bytes (evict_oldest r) = total_size (tl (contents r))"
    using inv by (simp add: evict_oldest_def Let_def hd ring_inv_def)
  moreover have "set (tl (contents r)) \<subseteq> set (contents r)" using split by (metis set_subset_Cons)
  moreover have "mr_tail (evict_oldest r) < length (mr_buf r)"
    using and_mask_less [OF inv] by (simp add: evict_oldest_def Let_def)
  ultimately show "ring_inv (evict_oldest r)"
    using inv unfolding ring_inv_def c by (auto simp: evict_oldest_def Let_def)
qed

text \<open>Writing at the head of a ring that is not full.\<close>

definition write_head :: "ring_record \<Rightarrow> mem_ring \<Rightarrow> mem_ring" where
  "write_head x r = r\<lparr>mr_buf := (mr_buf r)[mr_head r := x], mr_bytes := mr_bytes r + rec_size x,
     mr_head := (mr_head r + 1) AND mr_mask r\<rparr>"

lemma write_head_inv:
  assumes inv: "ring_inv r" and room: "length (contents r) < capacity r" and fit: "rec_size x \<le> mr_maxBytes r"
  shows "ring_inv (write_head x r)" and "contents (write_head x r) = contents r @ [x]"
proof -
  have nf: "(mr_head r + 1) AND mr_mask r \<noteq> mr_tail r" using full_iff [OF inv] room by simp
  have ht: "mr_head r < length (mr_buf r)" "mr_tail r < length (mr_buf r)"
    using inv by (auto simp: ring_inv_def)
  show c: "contents (write_head x r) = contents r @ [x]"
    using ring_contents_write [OF ht] nf and_mask [OF inv]
    by (simp add: write_head_def contents_def)
  have "mr_head (write_head x r) < length (mr_buf r)"
    using and_mask_less [OF inv] by (simp add: write_head_def)
  then show "ring_inv (write_head x r)"
    using inv fit unfolding ring_inv_def c by (auto simp: write_head_def)
qed

lemma Push_oversized:
  "\<not> mr_stopped r \<Longrightarrow> oversized req r \<Longrightarrow> Push now req r = (True, r\<lparr>mr_dropped := mr_dropped r + 1\<rparr>)"
  by (auto simp: Push_def oversized_def entry_size_def split: option.splits)

lemma Push_accepted:
  assumes inv: "ring_inv r" and st: "\<not> mr_stopped r" and fit: "\<not> oversized req r"
  shows "Push now req r =
    (True, write_head (entry_of now req) (if evicts req r then evict_oldest r else r))"
proof -
  have b: "mr_bytes r = total_size (contents r)" using inv by (simp add: ring_inv_def)
  have h: "mr_head (evict_oldest r) = mr_head r" "mr_mask (evict_oldest r) = mr_mask r"
    by (simp_all add: evict_oldest_def Let_def)
  have ev: "evicts req r \<longleftrightarrow> (mr_head r + 1) AND mr_mask r = mr_tail r \<or>
      (req \<noteq> None \<and> mr_bytes r + entry_size req > mr_maxBytes r)"
    using full_iff [OF inv] b by (simp add: evicts_def)
  show ?thesis
    using st fit unfolding ev
    by (cases req) (auto simp: Push_def write_head_def entry_of_def entry_size_def oversized_def Let_def h)
qed

lemma evicts_nonempty:
  assumes "ring_inv r" and "\<not> oversized req r" and "evicts req r"
  shows "contents r \<noteq> []"
proof
  assume "contents r = []"
  moreover from this have "capacity r = 0 \<or> entry_size req > mr_maxBytes r"
    using assms(3) by (auto simp: evicts_def)
  ultimately show False
    using assms(2) ring_inv_size [OF assms(1)] by (auto simp: oversized_def capacity_def)
qed

text \<open>The queue a push leaves, and the invariant.\<close>

lemma Push_refines:
  assumes inv: "ring_inv r" and st: "\<not> mr_stopped r" and fit: "\<not> oversized req r"
    and p: "Push now req r = (ok, r')"
  shows "ring_inv r' \<and> ok \<and>
    contents r' = (if evicts req r then tl (contents r) else contents r) @ [entry_of now req] \<and>
    mr_dropped r' = mr_dropped r + (if evicts req r then 1 else 0) \<and>
    mr_buf r' = (mr_buf r)[mr_head r := entry_of now req] \<and> mr_maxBytes r' = mr_maxBytes r \<and>
    \<not> mr_stopped r'"
proof -
  let ?r = "if evicts req r then evict_oldest r else r"
  have r': "r' = write_head (entry_of now req) ?r" and ok: ok
    using Push_accepted [OF inv st fit] p by auto
  have e: "ring_inv ?r \<and> contents ?r = (if evicts req r then tl (contents r) else contents r)"
    using evict_oldest_inv [OF inv evicts_nonempty [OF inv fit]] inv by auto
  have fields: "mr_buf ?r = mr_buf r" "mr_maxBytes ?r = mr_maxBytes r" "mr_head ?r = mr_head r"
    "mr_stopped ?r = mr_stopped r" "capacity ?r = capacity r"
    "mr_dropped ?r = mr_dropped r + (if evicts req r then 1 else 0)"
    by (simp_all add: evict_oldest_def Let_def capacity_def)
  have "length (contents ?r) < capacity ?r"
  proof (cases "evicts req r")
    case True
    then have "contents r \<noteq> []" by (rule evicts_nonempty [OF inv fit])
    then have "length (tl (contents r)) < length (contents r)" by (cases "contents r") auto
    then show ?thesis using True e fields(5) contents_capacity [OF inv] by simp
  next
    case False
    then show ?thesis using e contents_capacity [OF inv] by (auto simp: evicts_def)
  qed
  moreover have "rec_size (entry_of now req) \<le> mr_maxBytes ?r"
    using fit fields(2) by (simp add: oversized_def)
  ultimately have "ring_inv r'" "contents r' = contents ?r @ [entry_of now req]"
    using write_head_inv e unfolding r' by blast+
  then show ?thesis using e fields st ok by (auto simp: r' write_head_def)
qed

lemma PopBatch_contents:
  assumes inv: "ring_inv r" and p: "PopBatch r = Some (batch, r')"
  shows "batch = contents r \<and> ring_inv r' \<and> contents r' = [] \<and> mr_dropped r' = mr_dropped r \<and>
    mr_maxBytes r' = mr_maxBytes r \<and> mr_buf r' = mr_buf r \<and> mr_stopped r' = mr_stopped r"
proof (cases "mr_head r = mr_tail r")
  case True
  with p have "batch = []" "r' = r" by (auto simp: PopBatch_def split: if_splits)
  moreover have "contents r = []" using True contents_Nil [OF inv] by simp
  ultimately show ?thesis using inv by simp
next
  case False
  let ?n = "length (mr_buf r)"
  have used: "(if mr_head r > mr_tail r then mr_head r - mr_tail r
                 else mr_mask r + 1 - mr_tail r + mr_head r) = ring_used ?n (mr_head r) (mr_tail r)"
    using False inv ring_inv_size [OF inv] by (auto simp: ring_used_def ring_inv_def)
  have "batch = contents r" "r' = r\<lparr>mr_tail := mr_head r, mr_bytes := 0\<rparr>"
    using p False unfolding PopBatch_def Let_def used
    by (auto simp: contents_def ring_contents_def ring_index_def and_mask [OF inv])
  then show ?thesis using inv by (auto simp: ring_inv_def contents_def)
qed

lemma PopBatch_waits: "ring_inv r \<Longrightarrow> PopBatch r = None \<longleftrightarrow> contents r = [] \<and> \<not> mr_stopped r"
  by (auto simp: PopBatch_def Let_def contents_Nil)


section \<open>The ring as a lossy queue\<close>

text \<open>An unbounded push refused by a stopped ring leaves the ring alone.\<close>

lemma Push_stopped: "mr_stopped r \<Longrightarrow> Push now req r = (False, r)"
  by (simp add: Push_def)

lemma Push_refused: "Push now req r = (False, r') \<Longrightarrow> r' = r"
proof -
  assume p: "Push now req r = (False, r')"
  have "fst (Push now req r) \<longleftrightarrow> \<not> mr_stopped r" by (simp add: Push_def Let_def)
  with p have "mr_stopped r" by simp
  with p Push_stopped [of r now req] show "r' = r" by simp
qed

lemma drop_1_or_0: "(if b then tl xs else xs) = drop (if b then 1 else 0) xs"
  by (cases xs) auto

lemma Push_law:
  assumes inv: "ring_inv r" and p: "Push now req r = (True, r')"
  shows "ring_inv r' \<and> (contents r' = contents r \<and> mr_dropped r' = mr_dropped r + 1 \<or>
    (\<exists>k \<le> length (contents r). contents r' = drop k (contents r) @ [entry_of now req] \<and>
       mr_dropped r' = mr_dropped r + k))"
proof (cases "oversized req r")
  case True
  have "r' = r\<lparr>mr_dropped := mr_dropped r + 1\<rparr>"
    using Push_oversized [OF _ True] Push_stopped p by (cases "mr_stopped r") auto
  then show ?thesis using inv by (simp add: ring_inv_def contents_def)
next
  case False
  have st: "\<not> mr_stopped r" using p Push_stopped [of r now req] by auto
  let ?k = "if evicts req r then 1 else 0 :: nat"
  have "?k \<le> length (contents r)"
    using evicts_nonempty [OF inv False] by (cases "contents r") auto
  then show ?thesis
    using Push_refines [OF inv st False p] unfolding drop_1_or_0 by blast
qed

interpretation ring: lossy_queue "\<lambda>(now, req). Push now req" PopBatch "\<lambda>(now, req). entry_of now req"
  contents mr_dropped ring_inv
proof
  fix q q' :: mem_ring and x :: "instant \<times> captured_request option" and ok batch
  assume inv: "ring_inv q"
  obtain now req where x: "x = (now, req)" by (cases x)
  show "ring_inv q'" if "(case x of (now, req) \<Rightarrow> Push now req) q = (ok, q')"
    using that inv x Push_law [OF inv, of now req q'] Push_refused [of now req q q'] by (cases ok) auto
  show "contents q' = contents q \<and> mr_dropped q' = mr_dropped q"
    if "(case x of (now, req) \<Rightarrow> Push now req) q = (False, q')"
    using that x Push_refused [of now req q q'] by simp
  show "contents q' = contents q \<and> mr_dropped q' = mr_dropped q + 1 \<or>
      (\<exists>k \<le> length (contents q).
         contents q' = drop k (contents q) @ [case x of (now, req) \<Rightarrow> entry_of now req] \<and>
         mr_dropped q' = mr_dropped q + k)"
    if "(case x of (now, req) \<Rightarrow> Push now req) q = (True, q')"
    using that x Push_law [OF inv, of now req q'] by simp
  show "ring_inv q'" if "PopBatch q = Some (batch, q')"
    using PopBatch_contents [OF inv that] by simp
  show "batch = contents q \<and> contents q' = [] \<and> mr_dropped q' = mr_dropped q"
    if "PopBatch q = Some (batch, q')"
    using PopBatch_contents [OF inv that] by simp
qed

section \<open>A new ring\<close>

lemma double_until_spec:
  "0 < n \<Longrightarrow> \<exists>k. double_until (2 ^ j) n = 2 ^ k \<and> j \<le> k \<and> n \<le> 2 ^ k \<and> (j = k \<or> 2 ^ k < 2 * n)"
proof (induction "n - 2 ^ j" arbitrary: j rule: less_induct)
  case less
  show ?case
  proof (cases "2 ^ j < n")
    case True
    then have "n - 2 ^ Suc j < n - 2 ^ j" by (intro diff_less_mono2) simp_all
    from less.hyps [OF this less.prems] obtain k where k: "double_until (2 ^ Suc j) n = 2 ^ k"
      "Suc j \<le> k" "n \<le> 2 ^ k" "Suc j = k \<or> 2 ^ k < 2 * n" by blast
    have "double_until (2 ^ j) n = double_until (2 ^ Suc j) n"
      using True by (subst double_until.simps) simp
    moreover have "2 ^ k < 2 * n" using k(4) True by auto
    ultimately show ?thesis using k by (metis Suc_leD)
  next
    case False
    then have "double_until (2 ^ j) n = 2 ^ j" by (subst double_until.simps) simp
    with False show ?thesis by (intro exI [of _ j]) auto
  qed
qed

text \<open>The number of entries a caller asks for.\<close>

definition requested :: "int \<Rightarrow> nat" where
  "requested n = (if n \<le> 0 then 262144 else nat (max 2 n))"

lemma NewMemRingBuffer_size:
  obtains k where "length (mr_buf (NewMemRingBuffer n)) = 2 ^ k" "1 \<le> k"
    "requested n \<le> 2 ^ k" "2 ^ k < 2 * requested n"
proof -
  have r2: "2 \<le> requested n" by (auto simp: requested_def)
  obtain k where k: "double_until 1 (requested n) = 2 ^ k" "requested n \<le> 2 ^ k"
    "0 = k \<or> 2 ^ k < 2 * requested n"
    using double_until_spec [of "requested n" 0] r2 by auto
  then have "1 \<le> k" using r2 by (cases k) auto
  moreover have "length (mr_buf (NewMemRingBuffer n)) = double_until 1 (requested n)"
    by (auto simp: NewMemRingBuffer_def requested_def Let_def max_def)
  ultimately show ?thesis using k that by auto
qed

lemma NewMemRingBuffer_inv: "ring_inv (NewMemRingBuffer n)"
proof -
  obtain k where "length (mr_buf (NewMemRingBuffer n)) = 2 ^ k" "1 \<le> k"
    using NewMemRingBuffer_size by blast
  moreover have "mr_head (NewMemRingBuffer n) = 0" "mr_tail (NewMemRingBuffer n) = 0"
    "mr_mask (NewMemRingBuffer n) = length (mr_buf (NewMemRingBuffer n)) - 1"
    "mr_bytes (NewMemRingBuffer n) = 0"
    by (simp_all add: NewMemRingBuffer_def Let_def)
  ultimately show ?thesis by (auto simp: ring_inv_def contents_def)
qed

lemma NewMemRingBuffer_contents [simp]:
  "contents (NewMemRingBuffer n) = []" "mr_dropped (NewMemRingBuffer n) = 0"
  "mr_stopped (NewMemRingBuffer n) = False" "mr_maxBytes (NewMemRingBuffer n) = maxRingBytes"
  by (simp_all add: NewMemRingBuffer_def contents_def Let_def)


section \<open>Properties\<close>

text \<open>The events a ring sees: pushes of a request at an instant, and drains.\<close>

abbreviation run_ring ::
  "(instant \<times> captured_request option) queue_event list \<Rightarrow> mem_ring \<Rightarrow>
   ring_record list \<times> ring_record list \<times> mem_ring" where
  "run_ring \<equiv> run_queue (\<lambda>(now, req). Push now req) PopBatch (\<lambda>(now, req). entry_of now req)"

text \<open>Whatever the interleaving of pushes and drains of a new ring, no record is duplicated or
  reordered (what was drained, then what is resident, is a subsequence of what \<open>Push\<close> accepted),
  the drop counter is exactly the number of accepted records that are in neither, and at most
  \<open>size - 1\<close> records are resident, where \<open>size\<close> is below twice the number asked for.\<close>

theorem ring_conserves_and_orders:
  assumes "run_ring es (NewMemRingBuffer n) = (acc, out, r)"
  shows "subseq (out @ contents r) acc \<and> length acc = length out + length (contents r) + Dropped r \<and>
    length (contents r) \<le> capacity r"
  using ring.run_queue_order [OF NewMemRingBuffer_inv assms]
    ring.run_queue_balance [OF NewMemRingBuffer_inv assms]
    contents_capacity [OF ring.run_queue_inv [OF NewMemRingBuffer_inv assms]]
  by (simp add: Dropped_def)

lemmas ring_eval = NewMemRingBuffer_def Push_def PopBatch_def evict_oldest_def entry_of_def contents_def
  ring_contents_def ring_used_def ring_index_def recordSize_def double_until.simps maxRingBytes_def
  Dropped_def capacity_def

theorem ring_conserves_and_orders_witness:
  "\<exists>acc out r. run_ring [EPush (1, Some zero_request), EPush (2, None), EDrain, EPush (3, None)]
      (NewMemRingBuffer 2) = (acc, out, r) \<and>
    subseq (out @ contents r) acc \<and> length acc = length out + length (contents r) + Dropped r \<and>
    length (contents r) \<le> capacity r"
proof -
  obtain acc out r where
    e: "run_ring [EPush (1, Some zero_request), EPush (2, None), EDrain, EPush (3, None)]
      (NewMemRingBuffer 2) = (acc, out, r)" by (metis prod_cases3)
  then show ?thesis using ring_conserves_and_orders [OF e] by blast
qed

text \<open>C17: The whole of \<open>Push\<close> as a bounded queue, on each branch: a stopped ring refuses and stays
  as it is; a record above the byte bound is counted as dropped and not stored; otherwise the
  record is appended, after the oldest one was dropped when the ring was full or the record did
  not fit the bytes left. The invariant holds in the new ring.\<close>

theorem Push_is_bounded_queue:
  assumes inv: "ring_inv r" and p: "Push now req r = (ok, r')"
  shows "ring_inv r' \<and> ok = (\<not> mr_stopped r) \<and>
    contents r' = (if mr_stopped r \<or> oversized req r then contents r
       else (if evicts req r then tl (contents r) else contents r) @ [entry_of now req]) \<and>
    Dropped r' = Dropped r +
      (if \<not> mr_stopped r \<and> (oversized req r \<or> evicts req r) then 1 else 0)"
proof -
  consider (refused) "mr_stopped r" | (big) "\<not> mr_stopped r" "oversized req r"
    | (fits) "\<not> mr_stopped r" "\<not> oversized req r" by blast
  then show ?thesis
  proof cases
    case refused
    then show ?thesis using p inv by (simp add: Push_stopped Dropped_def)
  next
    case big
    then show ?thesis using p inv Push_oversized [OF big]
      by (auto simp: Dropped_def ring_inv_def contents_def)
  next
    case fits
    then show ?thesis using Push_refines [OF inv fits p] by (simp add: Dropped_def)
  qed
qed

theorem Push_is_bounded_queue_witness:
  "\<exists>ok r'. Push 7 None (NewMemRingBuffer 4) = (ok, r') \<and> ring_inv r' \<and> ok \<and>
     contents r' = [entry_of 7 None] \<and> Dropped r' = 0"
proof -
  let ?r = "NewMemRingBuffer 4"
  obtain ok r' where p: "Push 7 None ?r = (ok, r')" by fastforce
  have "capacity ?r \<noteq> 0"
    using ring_inv_size [OF NewMemRingBuffer_inv [of 4]] by (simp add: capacity_def)
  then show ?thesis
    using Push_is_bounded_queue [OF NewMemRingBuffer_inv p] p
    by (auto simp: evicts_def oversized_def entry_size_def Dropped_def)
qed

text \<open>The drain takes everything: it waits exactly when the ring is empty and not stopped, and
  otherwise hands over the resident records, oldest first, and leaves an empty ring whose byte
  count is zero.\<close>

theorem PopBatch_drains:
  assumes inv: "ring_inv r"
  shows "case PopBatch r of
      None \<Rightarrow> contents r = [] \<and> \<not> mr_stopped r
    | Some (batch, r') \<Rightarrow> (contents r \<noteq> [] \<or> mr_stopped r) \<and> batch = contents r \<and>
        ring_inv r' \<and> contents r' = [] \<and> mr_bytes r' = 0 \<and> Usage r' = (0, length (mr_buf r))"
proof (cases "PopBatch r")
  case None
  then show ?thesis using PopBatch_waits [OF inv] by simp
next
  case (Some br)
  obtain batch r' where b: "PopBatch r = Some (batch, r')" using Some by (cases br) auto
  have p: "batch = contents r \<and> ring_inv r' \<and> contents r' = [] \<and> mr_buf r' = mr_buf r"
    using PopBatch_contents [OF inv b] by blast
  have "contents r \<noteq> [] \<or> mr_stopped r" using b PopBatch_waits [OF inv] by auto
  moreover have "mr_bytes r' = 0" using p by (simp add: ring_inv_def)
  moreover have "Usage r' = (0, length (mr_buf r))"
    using p contents_Nil [of r'] ring_inv_size [OF inv] by (auto simp: Usage_def ring_inv_def)
  ultimately show ?thesis using b p by simp
qed

theorem PopBatch_drains_witness:
  "case PopBatch (ring_Stop (NewMemRingBuffer 2)) of None \<Rightarrow> False
   | Some (batch, r') \<Rightarrow> batch = []"
proof -
  have "ring_inv (ring_Stop (NewMemRingBuffer 2))"
    using NewMemRingBuffer_inv [of 2] by (simp add: ring_inv_def ring_Stop_def contents_def)
  from PopBatch_drains [OF this] show ?thesis
    by (auto simp: ring_Stop_def contents_def NewMemRingBuffer_def Let_def split: option.splits)
qed

text \<open>A request whose response body has \<open>n\<close> bytes.\<close>

definition sized_request :: "nat \<Rightarrow> captured_request" where
  "sized_request n = zero_request\<lparr>cr_ResBody := replicate n (CHR ''a'')\<rparr>"

lemma entry_size_sized [simp]: "entry_size (Some (sized_request n)) = n + 2048"
  by (simp add: entry_size_def recordSize_def sized_request_def zero_request_def)

text \<open>The byte bound is not a bound on the resident bytes: a push drops at most one record, so
  three records into a new ring (of at least four slots), the first of them small, leave about
  twice \<open>maxRingBytes\<close> resident. What the ring does guarantee is the invariant's bound, the
  number of records times \<open>maxRingBytes\<close>.\<close>

theorem ring_bytes_exceed_bound:
  "\<exists>es acc out r. run_ring es (NewMemRingBuffer 4) = (acc, out, r) \<and> length es = 3 \<and>
     mr_bytes r > mr_maxBytes r + mr_maxBytes r - 4096 \<and> mr_bytes r \<le> length (contents r) * mr_maxBytes r"
proof -
  define big where "big = Some (sized_request (maxRingBytes - 4096))"
  define huge where "huge = Some (sized_request (maxRingBytes - 2048))"
  define small where "small = Some (sized_request 0)"
  have sz: "entry_size small = 2048" "entry_size big = maxRingBytes - 2048" "entry_size huge = maxRingBytes"
    by (simp_all add: big_def huge_def small_def maxRingBytes_def)
  let ?r0 = "NewMemRingBuffer 4"
  obtain k :: nat where "length (mr_buf ?r0) = 2 ^ k" "requested 4 \<le> 2 ^ k"
    using NewMemRingBuffer_size [of 4] by blast
  then have c0: "3 \<le> capacity ?r0" by (simp add: capacity_def requested_def)
  obtain ok1 r1 where p1: "Push 1 small ?r0 = (ok1, r1)" by fastforce
  have f1: "\<not> oversized small ?r0" "\<not> evicts small ?r0"
    using c0 sz by (simp_all add: oversized_def evicts_def maxRingBytes_def)
  note s1 = Push_refines [OF NewMemRingBuffer_inv NewMemRingBuffer_contents(3) [THEN iffD1 [OF eq_False]] f1(1) p1]
  have c1: "capacity r1 = capacity ?r0" using s1 by (simp add: capacity_def)
  obtain ok2 r2 where p2: "Push 2 big r1 = (ok2, r2)" by fastforce
  have f2: "\<not> oversized big r1" "\<not> evicts big r1"
    using c0 c1 sz s1 f1 by (simp_all add: oversized_def evicts_def maxRingBytes_def)
  have s2: "ring_inv r2 \<and> ok2 \<and> contents r2 = contents r1 @ [entry_of 2 big] \<and>
      mr_maxBytes r2 = mr_maxBytes r1 \<and> \<not> mr_stopped r2 \<and> capacity r2 = capacity r1"
    using Push_refines [OF _ _ f2(1) p2] s1 f2 by (simp add: capacity_def)
  obtain ok3 r3 where p3: "Push 3 huge r2 = (ok3, r3)" by fastforce
  have f3: "\<not> oversized huge r2" "evicts huge r2"
    using c0 c1 sz s1 f1 s2 by (simp_all add: oversized_def evicts_def huge_def maxRingBytes_def)
  have s3: "ring_inv r3 \<and> ok3 \<and> contents r3 = tl (contents r2) @ [entry_of 3 huge] \<and>
      mr_maxBytes r3 = mr_maxBytes r2"
    using Push_refines [OF _ _ f3(1) p3] s2 f3 by simp
  have "contents r3 = [entry_of 2 big, entry_of 3 huge]" using s1 s2 s3 f1 by simp
  then have b: "mr_bytes r3 = 2 * maxRingBytes - 2048" "length (contents r3) = 2"
    using s3 sz by (simp_all add: ring_inv_def maxRingBytes_def)
  have m: "mr_maxBytes r3 = maxRingBytes" using s1 s2 s3 by simp
  have run: "run_ring [EPush (1, small), EPush (2, big), EPush (3, huge)] ?r0 =
      ([entry_of 1 small, entry_of 2 big, entry_of 3 huge], [], r3)"
    using p1 p2 p3 s1 s2 s3 by simp
  show ?thesis
    using run b m by (intro exI [of _ "[EPush (1, small), EPush (2, big), EPush (3, huge)]"] exI conjI)
      (assumption | simp add: maxRingBytes_def)+
qed

end
