(* ===== verification/Writer.thy ===== *)
theory Writer
  imports StoreLaws MemRing
begin

text \<open>
  The two background writers. \<open>AsyncWriterPool.flushAll\<close> of \<^verbatim>\<open>internal/capture/memring.go\<close> drains
  the ring and stores the records in chunks of 500; \<open>BatchWriter\<close> of \<^verbatim>\<open>internal/proxy/batch.go\<close>
  moves requests from a bounded channel into the store with two workers. Both try \<open>SaveBatch\<close>
  three times and then save one request at a time; that part is shared here and proved once over
  the locale of the store's laws. One flush reads the clock once, as \<open>now\<close>; the back-off pauses
  and the ticker's period have no counterpart.
\<close>

section \<open>Storing a batch: three attempts, then one by one\<close>

text \<open>
  The attempts: \<open>Some ids\<close> once a batch was stored. \<open>stop k\<close> tells whether the stop signal
  arrives in the pause before the last \<open>k\<close> attempts; there is no pause after the last one.
\<close>

fun try_batch ::
  "('r list \<Rightarrow> 's \<Rightarrow> ('e + int list) \<times> 'r list \<times> 's) \<Rightarrow> (nat \<Rightarrow> bool) \<Rightarrow> nat \<Rightarrow> 'r list \<Rightarrow> 's \<Rightarrow>
   int list option \<times> 'r list \<times> 's" where
  "try_batch sb stop 0 rs s = (None, rs, s)"
| "try_batch sb stop (Suc k) rs s =
     (case sb rs s of
        (Inr ids, rs, s) \<Rightarrow> (Some ids, rs, s)
      | (Inl e, rs, s) \<Rightarrow>
          if 0 < k \<and> stop k then (None, rs, s) else try_batch sb stop k rs s)"

text \<open>Saving one by one; each request with whether it was reported saved.\<close>

fun save_each ::
  "('r \<Rightarrow> 's \<Rightarrow> ('e + int) \<times> 'r \<times> 's) \<Rightarrow> (int \<Rightarrow> 'r \<Rightarrow> 'r) \<Rightarrow> 'r list \<Rightarrow> 's \<Rightarrow>
   ('r \<times> bool) list \<times> 's" where
  "save_each sv set_id [] s = ([], s)"
| "save_each sv set_id (r # rs) s =
     (case sv r s of
        (Inr i, r, s) \<Rightarrow> (case save_each sv set_id rs s of (res, s) \<Rightarrow> ((set_id i r, True) # res, s))
      | (Inl e, r, s) \<Rightarrow> (case save_each sv set_id rs s of (res, s) \<Rightarrow> ((r, False) # res, s)))"

text \<open>\<open>for j, id := range ids { if j < len(chunk) { chunk[j].ID = id } }\<close>\<close>

definition assign_ids :: "(int \<Rightarrow> 'r \<Rightarrow> 'r) \<Rightarrow> int list \<Rightarrow> 'r list \<Rightarrow> 'r list" where
  "assign_ids set_id ids rs = map2 set_id ids rs @ drop (length ids) rs"

definition store_batch ::
  "('r \<Rightarrow> 's \<Rightarrow> ('e + int) \<times> 'r \<times> 's) \<Rightarrow> ('r list \<Rightarrow> 's \<Rightarrow> ('e + int list) \<times> 'r list \<times> 's) \<Rightarrow>
   (int \<Rightarrow> 'r \<Rightarrow> 'r) \<Rightarrow> (nat \<Rightarrow> bool) \<Rightarrow> 'r list \<Rightarrow> 's \<Rightarrow> ('r \<times> bool) list \<times> 's" where
  "store_batch sv sb set_id stop rs s =
     (case try_batch sb stop 3 rs s of
        (Some ids, rs, s) \<Rightarrow> (map (\<lambda>r. (r, True)) (assign_ids set_id ids rs), s)
      | (None, rs, s) \<Rightarrow> save_each sv set_id rs s)"

locale stamped_sink = request_sink save save_batch rows cols
  for save :: "'r \<Rightarrow> 's \<Rightarrow> ('e + int) \<times> 'r \<times> 's"
    and save_batch :: "'r list \<Rightarrow> 's \<Rightarrow> ('e + int list) \<times> 'r list \<times> 's"
    and rows :: "'s \<Rightarrow> (int \<times> 'c) list"
    and cols :: "'r \<Rightarrow> 'c" +
  fixes set_id :: "int \<Rightarrow> 'r \<Rightarrow> 'r"
    and get_id :: "'r \<Rightarrow> int"
  assumes get_set: "get_id (set_id i r) = i"
    and cols_set: "cols (set_id i r) = cols r"
begin

text \<open>The rows a report promises.\<close>

definition promised :: "('r \<times> bool) list \<Rightarrow> (int \<times> 'c) list" where
  "promised res = map (\<lambda>(r, _). (get_id r, cols r)) (filter snd res)"

lemma try_batch_none: "try_batch save_batch stop k rs s = (None, rs', s') \<Longrightarrow>
    rows s' = rows s \<and> map cols rs' = map cols rs"
proof (induction k arbitrary: rs s)
  case 0
  then show ?case by simp
next
  case (Suc k)
  obtain b rs1 s1 where b: "save_batch rs s = (b, rs1, s1)" by (metis prod_cases3)
  show ?case
  proof (cases b)
    case (Inl e)
    then have "rows s1 = rows s" "map cols rs1 = map cols rs"
      using batch_err [of rs s e rs1 s1] batch_cols [OF b] b by auto
    then show ?thesis using Suc.prems Suc.IH [of rs1 s1] b Inl by (auto split: if_splits)
  next
    case (Inr ids)
    then show ?thesis using Suc.prems b by simp
  qed
qed

lemma try_batch_some: "try_batch save_batch stop k rs s = (Some ids, rs', s') \<Longrightarrow>
    rows s' = rows s @ zip ids (map cols rs) \<and> map cols rs' = map cols rs \<and> length ids = length rs"
proof (induction k arbitrary: rs s)
  case 0
  then show ?case by simp
next
  case (Suc k)
  obtain b rs1 s1 where b: "save_batch rs s = (b, rs1, s1)" by (metis prod_cases3)
  show ?case
  proof (cases b)
    case (Inl e)
    then have "rows s1 = rows s" "map cols rs1 = map cols rs"
      using batch_err [of rs s e rs1 s1] batch_cols [OF b] b by auto
    moreover from this have "length rs1 = length rs" by (metis length_map)
    ultimately show ?thesis using Suc.prems Suc.IH [of rs1 s1] b Inl by (auto split: if_splits)
  next
    case (Inr ids2)
    then show ?thesis
      using Suc.prems b batch_ok [of rs s ids2 rs1 s1] batch_cols [OF b] by simp
  qed
qed

lemma assign_ids_rows:
  assumes "length ids = length rs"
  shows "map (\<lambda>r. (get_id r, cols r)) (assign_ids set_id ids rs) = zip ids (map cols rs)"
  using assms by (induction ids rs rule: list_induct2) (auto simp: assign_ids_def get_set cols_set)

lemma assign_ids_cols: "length ids = length rs \<Longrightarrow> map cols (assign_ids set_id ids rs) = map cols rs"
  by (induction ids rs rule: list_induct2) (auto simp: assign_ids_def cols_set)

lemma save_each_rows: "save_each save set_id rs s = (res, s') \<Longrightarrow>
    \<exists>added. rows s' = rows s @ added \<and> subseq (promised res) added \<and>
      subseq (map snd added) (map cols rs) \<and> map (\<lambda>p. cols (fst p)) res = map cols rs"
proof (induction rs arbitrary: s res s')
  case Nil
  then show ?case by (simp add: promised_def)
next
  case (Cons r rs)
  obtain b r1 s1 where b: "save r s = (b, r1, s1)" by (metis prod_cases3)
  obtain res1 s2 where r2: "save_each save set_id rs s1 = (res1, s2)" by fastforce
  obtain added where a: "rows s2 = rows s1 @ added" "subseq (promised res1) added"
    "subseq (map snd added) (map cols rs)" "map (\<lambda>p. cols (fst p)) res1 = map cols rs"
    using Cons.IH [OF r2] by blast
  have c: "cols r1 = cols r" using save_cols [OF b] .
  show ?case
  proof (cases b)
    case (Inl e)
    with b obtain h where h: "rows s1 = rows s @ h" "h = [] \<or> (\<exists>i. h = [(i, cols r)])"
      by (metis append_Nil2 save_err)
    have "subseq (promised res1) (h @ added)" using a(2) by (simp add: subseq_drop_many)
    moreover have "subseq (map snd (h @ added)) (map cols (r # rs))"
      using a(3) h(2) by (auto intro: list_emb_Cons)
    moreover have "res = (r1, False) # res1" "s' = s2" using Cons.prems b Inl r2 by auto
    ultimately show ?thesis using a h(1) c by (auto simp: promised_def)
  next
    case (Inr i)
    with b have "rows s1 = rows s @ [(i, cols r)]" using save_ok by blast
    then show ?thesis
      using Cons.prems b Inr r2 a c
      by (auto simp: promised_def get_set cols_set intro: exI [of _ "(i, cols r) # added"])
  qed
qed

text \<open>
  Storing a batch adds rows between what the report promises and what was handed over: in order,
  and each request at most once.
\<close>

lemma store_batch_rows:
  assumes "store_batch save save_batch set_id stop rs s = (res, s')"
  shows "\<exists>added. rows s' = rows s @ added \<and> subseq (promised res) added \<and>
      subseq (map snd added) (map cols rs) \<and> map (\<lambda>p. cols (fst p)) res = map cols rs"
proof -
  obtain b rs1 s1 where b: "try_batch save_batch stop 3 rs s = (b, rs1, s1)" by (metis prod_cases3)
  show ?thesis
  proof (cases b)
    case None
    then have n: "rows s1 = rows s" "map cols rs1 = map cols rs"
      using try_batch_none [of stop 3 rs s rs1 s1] b by auto
    have "save_each save set_id rs1 s1 = (res, s')"
      using assms b None by (simp add: store_batch_def)
    from save_each_rows [OF this] show ?thesis unfolding n .
  next
    case (Some ids)
    then have n: "rows s1 = rows s @ zip ids (map cols rs)" "map cols rs1 = map cols rs"
        "length ids = length rs"
      using try_batch_some [of stop 3 rs s ids rs1 s1] b by auto
    then have l: "length ids = length rs1" by (metis length_map)
    have res: "res = map (\<lambda>r. (r, True)) (assign_ids set_id ids rs1)" "s' = s1"
      using assms b Some by (auto simp: store_batch_def)
    have "promised res = zip ids (map cols rs)"
      using assign_ids_rows [OF l] n(2) by (simp add: res promised_def comp_def filter_map)
    moreover have "map (\<lambda>p. cols (fst p)) res = map cols rs"
      using assign_ids_cols [OF l] n(2) by (simp add: res comp_def)
    moreover have "subseq (map snd (zip ids (map cols rs))) (map cols rs)" using n(3) by simp
    ultimately show ?thesis using n(1) res(2) by auto
  qed
qed

end

definition set_ID :: "int \<Rightarrow> captured_request \<Rightarrow> captured_request" where
  "set_ID i r = r\<lparr>cr_ID := i\<rparr>"

lemma columns_set_ID: "columns now (set_ID i r) = columns now r"
  by (simp add: columns_def set_ID_def stamp_def insert_columns_def)

interpretation out: stamped_sink "Save now" "SaveBatch now" stored "columns now" set_ID cr_ID for now
  by unfold_locales (simp_all add: columns_set_ID, simp add: set_ID_def)


section \<open>The capture engine's writer pool\<close>

text \<open>
  Rows are compared without their capture time, which is set when a request is first handed to
  the store: what identifies a row is its id and the columns left.
\<close>

definition content :: "captured_request \<Rightarrow> captured_request" where
  "content r = (insert_columns r)\<lparr>cr_CapturedAt := None\<rparr>"

definition stored_keys :: "store \<Rightarrow> (int \<times> captured_request) list" where
  "stored_keys s = map (\<lambda>(i, c). (i, c\<lparr>cr_CapturedAt := None\<rparr>)) (stored s)"

text \<open>The rows promised by a report: the requests reported saved, under the ids they now carry.\<close>

definition saved_keys :: "(captured_request \<times> bool) list \<Rightarrow> (int \<times> captured_request) list" where
  "saved_keys rep = map (\<lambda>(r, _). (cr_ID r, content r)) (filter snd rep)"

lemma content_columns: "(columns now r)\<lparr>cr_CapturedAt := None\<rparr> = content r"
  by (simp add: content_def columns_def insert_columns_def stamp_def)

lemma saved_keys_append [simp]: "saved_keys (a @ b) = saved_keys a @ saved_keys b"
  by (simp add: saved_keys_def)

text \<open>The laws of the store carried over to keys.\<close>

definition adds :: "store \<Rightarrow> store \<Rightarrow> (captured_request \<times> bool) list \<Rightarrow> captured_request list \<Rightarrow> bool" where
  "adds s s' rep cs \<longleftrightarrow> (\<exists>added. stored_keys s' = stored_keys s @ added \<and>
     subseq (saved_keys rep) added \<and> subseq (map snd added) cs) \<and> map (\<lambda>p. content (fst p)) rep = cs"

lemma adds_refl: "adds s s [] []"
  by (simp add: adds_def saved_keys_def)

lemma adds_trans:
  assumes "adds s s1 rep cs" and "adds s1 s2 rep2 cs2"
  shows "adds s s2 (rep @ rep2) (cs @ cs2)"
proof -
  obtain a1 where a1: "stored_keys s1 = stored_keys s @ a1" "subseq (saved_keys rep) a1" "subseq (map snd a1) cs"
    using assms(1) by (auto simp: adds_def)
  obtain a2 where a2: "stored_keys s2 = stored_keys s1 @ a2" "subseq (saved_keys rep2) a2" "subseq (map snd a2) cs2"
    using assms(2) by (auto simp: adds_def)
  show ?thesis
    using assms a1 a2 unfolding adds_def
    by (intro conjI exI [of _ "a1 @ a2"]) (auto intro: list_emb_append_mono)
qed

lemma adds_of_rows:
  assumes "\<exists>added. stored s' = stored s @ added \<and> subseq (out.promised now res) added \<and>
      subseq (map snd added) (map (columns now) rs) \<and>
      map (\<lambda>p. columns now (fst p)) res = map (columns now) rs"
  shows "adds s s' res (map content rs)"
proof -
  let ?f = "\<lambda>c. c\<lparr>cr_CapturedAt := None\<rparr>"
  let ?g = "\<lambda>(i :: int, c). (i, ?f c)"
  obtain added where a: "stored s' = stored s @ added" "subseq (out.promised now res) added"
    "subseq (map snd added) (map (columns now) rs)"
    and c: "map (\<lambda>p. columns now (fst p)) res = map (columns now) rs"
    using assms by auto
  have "stored_keys s' = stored_keys s @ map ?g added" by (simp add: stored_keys_def a(1))
  moreover have "subseq (map ?g (out.promised now res)) (map ?g added)" by (rule subseq_map [OF a(2)])
  moreover have "map ?g (out.promised now res) = saved_keys res"
    by (auto simp: out.promised_def saved_keys_def content_columns)
  moreover have "subseq (map snd (map ?g added)) (map content rs)"
    using subseq_map [OF a(3), of ?f] by (simp add: comp_def content_columns case_prod_unfold)
  moreover have "map (\<lambda>p. content (fst p)) res = map content rs"
    using arg_cong [OF c, of "map ?f"] by (simp add: comp_def content_columns)
  ultimately show ?thesis by (auto simp: adds_def)
qed

lemmas store_batch_adds = adds_of_rows [OF out.store_batch_rows]
lemmas save_each_adds = adds_of_rows [OF out.save_each_rows]

text \<open>\<open>for i := 0; i < len(reqs); i += 500\<close>: the chunks.\<close>

fun chunks_of :: "nat \<Rightarrow> 'a list \<Rightarrow> 'a list list" where
  "chunks_of n xs =
     (if xs = [] \<or> n = 0 then [] else take n xs # chunks_of n (drop n xs))"

declare chunks_of.simps [simp del]

lemma chunks_of_short: "xs \<noteq> [] \<Longrightarrow> length xs \<le> n \<Longrightarrow> chunks_of n xs = [xs]"
  by (cases xs) (auto simp: chunks_of.simps)

lemma concat_chunks: "0 < n \<Longrightarrow> concat (chunks_of n xs) = xs"
  by (induction n xs rule: chunks_of.induct) (subst chunks_of.simps, auto)

text \<open>
  The loop over the chunks; \<open>stops\<close> says for the pauses of each chunk, counted from the last,
  whether the stop signal comes.
\<close>

fun save_chunks ::
  "instant \<Rightarrow> (nat \<Rightarrow> nat \<Rightarrow> bool) \<Rightarrow> captured_request list list \<Rightarrow> store \<Rightarrow>
   (captured_request \<times> bool) list \<times> store" where
  "save_chunks now stops [] s = ([], s)"
| "save_chunks now stops (c # cs) s =
     (case store_batch (Save now) (SaveBatch now) set_ID (stops (length cs)) c s of
        (res, s) \<Rightarrow> (case save_chunks now stops cs s of (ress, s) \<Rightarrow> (res @ ress, s)))"

lemma save_chunks_adds:
  "save_chunks now stops cs s = (res, s') \<Longrightarrow> adds s s' res (map content (concat cs))"
proof (induction cs arbitrary: s res s')
  case Nil
  then show ?case by (simp add: adds_refl)
next
  case (Cons c cs)
  obtain r1 s1 where r1: "store_batch (Save now) (SaveBatch now) set_ID (stops (length cs)) c s = (r1, s1)"
    by fastforce
  obtain r2 s2 where r2: "save_chunks now stops cs s1 = (r2, s2)" by fastforce
  show ?case
    using Cons.prems r1 r2 adds_trans [OF store_batch_adds [OF r1] Cons.IH [OF r2]] by simp
qed

record writer_pool =
  wp_buf :: mem_ring
  wp_written :: nat
  wp_store :: store

text \<open>
  \<open>flushAll\<close>: the report, the requests broadcast to the hub (if there is one) and the pool;
  \<open>None\<close> while \<open>PopBatch\<close> waits.
\<close>

definition flushAll ::
  "instant \<Rightarrow> (nat \<Rightarrow> nat \<Rightarrow> bool) \<Rightarrow> bool \<Rightarrow> writer_pool \<Rightarrow>
   ((captured_request \<times> bool) list \<times> captured_request list \<times> writer_pool) option" where
  "flushAll now stops has_hub p =
     (case PopBatch (wp_buf p) of
        None \<Rightarrow> None
      | Some (batch, buf) \<Rightarrow>
          (if batch = [] then Some ([], [], p\<lparr>wp_buf := buf\<rparr>)
           else
             let reqs = map rec_Req batch in
             case save_chunks now stops (chunks_of 500 reqs) (wp_store p) of
               (res, s) \<Rightarrow>
                 Some (res, (if has_hub then filter (\<lambda>r. cr_ID r > 0) (map fst res) else []),
                   p\<lparr>wp_buf := buf, wp_store := s,
                     wp_written := wp_written p + length (filter snd res)\<rparr>)))"

lemma flushAll_adds:
  assumes inv: "ring_inv (wp_buf p)" and f: "flushAll now stops hub p = Some (res, bc, p')"
  shows "adds (wp_store p) (wp_store p') res (map (content \<circ> rec_Req) (contents (wp_buf p))) \<and>
    wp_written p' = wp_written p + length (filter snd res) \<and>
    ring_inv (wp_buf p') \<and> contents (wp_buf p') = [] \<and>
    mr_dropped (wp_buf p') = mr_dropped (wp_buf p)"
proof -
  obtain batch buf where b: "PopBatch (wp_buf p) = Some (batch, buf)"
    using f by (auto simp: flushAll_def split: option.splits)
  note pb = PopBatch_contents [OF inv b]
  show ?thesis
  proof (cases "batch = []")
    case True
    then have "res = []" "p' = p\<lparr>wp_buf := buf\<rparr>" "contents (wp_buf p) = []"
      using f b pb by (auto simp: flushAll_def)
    then show ?thesis using pb by (simp add: adds_refl)
  next
    case False
    obtain res1 s1 where s: "save_chunks now stops (chunks_of 500 (map rec_Req batch)) (wp_store p) = (res1, s1)"
      by fastforce
    have p': "res = res1" "wp_store p' = s1" "wp_buf p' = buf"
        "wp_written p' = wp_written p + length (filter snd res)"
      using f b s False by (auto simp: flushAll_def)
    then show ?thesis
      using save_chunks_adds [OF s] pb by (simp add: concat_chunks)
  qed
qed


section \<open>The pipeline from the ring to the store\<close>

text \<open>
  The events of the pipeline. \<open>PStop\<close> is the ring's \<open>Stop\<close>; the pool's own \<open>Stop\<close> is \<open>PStop\<close>
  followed by a flush.
\<close>

datatype pool_event =
    PPush instant "captured_request option"
  | PFlush instant "nat \<Rightarrow> nat \<Rightarrow> bool" bool
  | PStop

text \<open>The accepted records, the flushes' reports, and the pool.\<close>

fun run_pool ::
  "pool_event list \<Rightarrow> writer_pool \<Rightarrow>
   ring_record list \<times> (captured_request \<times> bool) list \<times> writer_pool" where
  "run_pool [] p = ([], [], p)"
| "run_pool (PPush now req # es) p =
     (case Push now req (wp_buf p) of (ok, buf) \<Rightarrow>
        case run_pool es (p\<lparr>wp_buf := buf\<rparr>) of (acc, rep, p) \<Rightarrow>
          ((if ok then entry_of now req # acc else acc), rep, p))"
| "run_pool (PFlush now stops hub # es) p =
     (case flushAll now stops hub p of
        None \<Rightarrow> run_pool es p
      | Some (res, _, p) \<Rightarrow> (case run_pool es p of (acc, rep, p) \<Rightarrow> (acc, res @ rep, p)))"
| "run_pool (PStop # es) p = run_pool es (p\<lparr>wp_buf := ring_Stop (wp_buf p)\<rparr>)"

lemma ring_Stop_inv [simp]: "ring_inv (ring_Stop r) = ring_inv r" "contents (ring_Stop r) = contents r"
  "mr_dropped (ring_Stop r) = mr_dropped r"
  by (simp_all add: ring_Stop_def ring_inv_def contents_def)

text \<open>One run keeps the books: entries, reports, rows and the counter.\<close>

definition books ::
  "writer_pool \<Rightarrow> ring_record list \<Rightarrow> (captured_request \<times> bool) list \<Rightarrow> writer_pool \<Rightarrow> bool" where
  "books p acc rep p' \<longleftrightarrow> ring_inv (wp_buf p') \<and>
     length (contents (wp_buf p)) + mr_dropped (wp_buf p) + length acc =
       length rep + length (contents (wp_buf p')) + mr_dropped (wp_buf p') \<and>
     subseq (map (\<lambda>p. content (fst p)) rep @ map (content \<circ> rec_Req) (contents (wp_buf p')))
       (map (content \<circ> rec_Req) (contents (wp_buf p) @ acc)) \<and>
     adds (wp_store p) (wp_store p') rep (map (\<lambda>p. content (fst p)) rep) \<and>
     wp_written p' = wp_written p + length (filter snd rep)"

lemma books_push:
  assumes inv: "ring_inv (wp_buf p)" and p: "Push now req (wp_buf p) = (ok, buf)"
    and b: "books (p\<lparr>wp_buf := buf\<rparr>) acc rep p'"
  shows "books p (if ok then entry_of now req # acc else acc) rep p'"
proof -
  let ?e = "if ok then [entry_of now req] else []"
  have l: "length (contents buf) + mr_dropped buf =
      length (contents (wp_buf p)) + mr_dropped (wp_buf p) + length ?e"
    and s: "subseq (contents buf) (contents (wp_buf p) @ ?e)"
    using ring.push_step [of "wp_buf p" "(now, req)" ok buf] inv p by (auto split: if_splits)
  have "subseq (map (content \<circ> rec_Req) (contents buf @ acc))
      (map (content \<circ> rec_Req) ((contents (wp_buf p) @ ?e) @ acc))"
    by (intro subseq_map list_emb_append_mono s) simp
  moreover have "(if ok then entry_of now req # acc else acc) = ?e @ acc" by simp
  ultimately show ?thesis
    using b l unfolding books_def by (auto intro: subseq_order.trans)
qed

lemma books_flush:
  assumes inv: "ring_inv (wp_buf p)" and f: "flushAll now stops hub p = Some (res, bc, p1)"
    and b: "books p1 acc rep p'"
  shows "books p acc (res @ rep) p'"
proof -
  note fa = flushAll_adds [OF inv f]
  then have c: "map (\<lambda>p. content (fst p)) res = map (content \<circ> rec_Req) (contents (wp_buf p))"
    by (simp add: adds_def)
  then have l: "length res = length (contents (wp_buf p))" by (metis length_map)
  have "adds (wp_store p) (wp_store p') (res @ rep)
      (map (\<lambda>p. content (fst p)) res @ map (\<lambda>p. content (fst p)) rep)"
    using b fa c by (intro adds_trans [of _ "wp_store p1"]) (auto simp: books_def)
  then show ?thesis
    using b fa c l by (auto simp: books_def subseq_append')
qed

lemma run_pool_books:
  "ring_inv (wp_buf p) \<Longrightarrow> run_pool es p = (acc, rep, p') \<Longrightarrow> books p acc rep p'"
proof (induction es arbitrary: p acc rep p')
  case Nil
  then show ?case by (simp add: books_def adds_refl)
next
  case (Cons e es)
  show ?case
  proof (cases e)
    case (PPush now req)
    obtain ok buf where p: "Push now req (wp_buf p) = (ok, buf)" by fastforce
    obtain a1 r1 p1 where r: "run_pool es (p\<lparr>wp_buf := buf\<rparr>) = (a1, r1, p1)" by (metis prod_cases3)
    have "ring_inv buf" using ring.push_inv [of "wp_buf p" "(now, req)" ok buf] Cons.prems p by simp
    then show ?thesis
      using Cons.prems PPush p r books_push [OF Cons.prems(1) p Cons.IH [OF _ r]] by simp
  next
    case (PFlush now stops hub)
    show ?thesis
    proof (cases "flushAll now stops hub p")
      case None
      then show ?thesis using Cons PFlush by simp
    next
      case (Some x)
      obtain res bc p1 where f: "flushAll now stops hub p = Some (res, bc, p1)"
        using Some by (cases x) auto
      obtain a1 r1 p2 where r: "run_pool es p1 = (a1, r1, p2)" by (metis prod_cases3)
      have "ring_inv (wp_buf p1)" using flushAll_adds [OF Cons.prems(1) f] by simp
      then show ?thesis
        using Cons.prems PFlush f r books_flush [OF Cons.prems(1) f Cons.IH [OF _ r]] by simp
    qed
  next
    case PStop
    then show ?thesis
      using Cons.prems Cons.IH [of "p\<lparr>wp_buf := ring_Stop (wp_buf p)\<rparr>" acc rep p']
      by (simp add: books_def)
  qed
qed



text \<open>A driver whose transactions fail three times and then takes single inserts.\<close>

definition weak_store :: store where
  "weak_store = \<lparr>st_requests = [], st_logs = [], st_settings = [], st_rules = [],
     st_hostCache = emptyHostCache, st_hostCacheTTL = 0,
     st_replies = [ExecErr ''busy'', ExecErr ''busy'', ExecErr ''busy'', ExecOk 7 None, ExecErr ''full'']\<rparr>"

definition two_slots :: mem_ring where
  "two_slots = \<lparr>mr_buf = [zero_record, zero_record], mr_head = 0, mr_tail = 0, mr_mask = 1,
     mr_bytes = 0, mr_maxBytes = maxRingBytes, mr_dropped = 0, mr_stopped = False\<rparr>"

lemma new_two_slots: "NewMemRingBuffer 2 = two_slots"
proof -
  have "double_until 1 2 = 2" by code_simp
  then show ?thesis by (simp add: NewMemRingBuffer_def two_slots_def numeral_2_eq_2)
qed

lemmas writer_eval = new_two_slots two_slots_def weak_store_def Push_def PopBatch_def evict_oldest_def
  recordSize_def maxRingBytes_def flushAll_def store_batch_def Save_def SaveBatch_def next_reply_def
  chunks_of_short new_row_def insert_columns_def stamp_def set_ID_def Let_def zero_request_def
  entry_of_def zero_record_def truncateStr_def numeral_3_eq_3


end
