(* ===== verification/Engine.thy ===== *)
theory Engine
  imports Writer
begin

text \<open>
  The engine's shared state and the way a captured request leaves it (\<^verbatim>\<open>internal/capture/engine.go\<close>):
  into the memory ring when there is one, else into the emit buffer, a ring of 65536 slots that is
  flushed to the store. Three history fields, which the code does not have, record the requests
  given to \<open>emitNonBlocking\<close>, those given to \<open>bulkEmit\<close>, and the messages to the hub.
\<close>

section \<open>State\<close>

datatype hub_msg = Capture captured_request | Update captured_request

record engine =
  en_store :: store
  en_hub :: bool
  en_streamTimeout :: int
  en_maxResBytes :: int
  en_ringBufSize :: int
  en_maxStreams :: int
  en_ringBuf :: "mem_ring option"
  en_emitBuf :: "captured_request list" \<comment> \<open>empty while the Go slice is nil\<close>
  en_emitHead :: nat
  en_emitTail :: nat
  en_PacketsRecv :: int
  en_HTTPFound :: int
  en_PacketsDrop :: int
  en_StreamsDrop :: int
  en_StreamsEvicted :: int
  en_emitted :: "captured_request list"
  en_bulked :: "captured_request list"
  en_msgs :: "hub_msg list"

definition emitBufSize :: nat where "emitBufSize = 65536"

text \<open>\<open>New\<close>: the defaults.\<close>

definition New_engine :: "store \<Rightarrow> bool \<Rightarrow> engine" where
  "New_engine st hub =
     \<lparr>en_store = st, en_hub = hub, en_streamTimeout = 120 * 1000000000,
      en_maxResBytes = 4 * 1024 * 1024, en_ringBufSize = 0, en_maxStreams = 0, en_ringBuf = None,
      en_emitBuf = [], en_emitHead = 0, en_emitTail = 0, en_PacketsRecv = 0, en_HTTPFound = 0,
      en_PacketsDrop = 0, en_StreamsDrop = 0, en_StreamsEvicted = 0, en_emitted = [],
      en_bulked = [], en_msgs = []\<rparr>"

definition SetStreamTimeout :: "int \<Rightarrow> engine \<Rightarrow> engine" where
  "SetStreamTimeout d e = (if d > 0 then e\<lparr>en_streamTimeout := d\<rparr> else e)"

definition SetMaxResBytes :: "int \<Rightarrow> engine \<Rightarrow> engine" where
  "SetMaxResBytes n e = (if n > 0 then e\<lparr>en_maxResBytes := n\<rparr> else e)"

definition SetRingBufSize :: "int \<Rightarrow> engine \<Rightarrow> engine" where
  "SetRingBufSize n e = (if n > 0 then e\<lparr>en_ringBufSize := n\<rparr> else e)"

definition SetMaxStreams :: "int \<Rightarrow> engine \<Rightarrow> engine" where
  "SetMaxStreams n e = (if n > 0 then e\<lparr>en_maxStreams := n\<rparr> else e)"

definition send_hub :: "hub_msg list \<Rightarrow> engine \<Rightarrow> engine" where
  "send_hub ms e = (if en_hub e then e\<lparr>en_msgs := en_msgs e @ ms\<rparr> else e)"

section \<open>Emitting\<close>

text \<open>\<open>bulkEmit\<close>: one transaction; on failure the batch is given up.\<close>

definition bulkEmit :: "instant \<Rightarrow> captured_request list \<Rightarrow> engine \<Rightarrow> engine" where
  "bulkEmit now reqs e =
     (if reqs = [] then e
      else
        let reqs = map (\<lambda>r. r\<lparr>cr_CaptureMode := ''nic''\<rparr>) reqs;
            e = e\<lparr>en_bulked := en_bulked e @ reqs\<rparr>
        in case SaveBatch now reqs (en_store e) of
             (Inl err, _, s) \<Rightarrow> e\<lparr>en_store := s\<rparr>
           | (Inr ids, reqs, s) \<Rightarrow>
               (let reqs = assign_ids set_ID ids reqs in
                send_hub (map Capture (filter (\<lambda>r. cr_ID r > 0) reqs)) (e\<lparr>en_store := s\<rparr>)))"

definition flushEmitBuf :: "instant \<Rightarrow> engine \<Rightarrow> engine" where
  "flushEmitBuf now e =
     (if en_emitBuf e = [] \<or> en_emitHead e = en_emitTail e then e
      else
        let batch = (if en_emitHead e > en_emitTail e
                     then slice (en_emitTail e) (en_emitHead e) (en_emitBuf e)
                     else drop (en_emitTail e) (en_emitBuf e) @ take (en_emitHead e) (en_emitBuf e))
        in bulkEmit now batch (e\<lparr>en_emitHead := 0, en_emitTail := 0\<rparr>))"

text \<open>The part of \<open>emitNonBlocking\<close> that uses the emit buffer.\<close>

definition emit_buffered :: "instant \<Rightarrow> captured_request \<Rightarrow> engine \<Rightarrow> engine" where
  "emit_buffered now req e =
     (let e = (if en_emitBuf e = [] then e\<lparr>en_emitBuf := replicate emitBufSize zero_request\<rparr> else e);
          e = (if (en_emitHead e + 1) mod emitBufSize = en_emitTail e then flushEmitBuf now e else e);
          nxt = (en_emitHead e + 1) mod emitBufSize;
          e = e\<lparr>en_emitBuf := (en_emitBuf e)[en_emitHead e := req], en_emitHead := nxt\<rparr>;
          cnt = (en_emitHead e + emitBufSize - en_emitTail e) mod emitBufSize
      in if cnt \<ge> 1000 then flushEmitBuf now e else e)"

definition emitNonBlocking :: "instant \<Rightarrow> captured_request \<Rightarrow> engine \<Rightarrow> engine" where
  "emitNonBlocking now req e =
     (let req = req\<lparr>cr_CaptureMode := ''nic''\<rparr>;
          e = e\<lparr>en_HTTPFound := en_HTTPFound e + 1, en_emitted := en_emitted e @ [req]\<rparr>
      in case en_ringBuf e of
           Some r \<Rightarrow> e\<lparr>en_ringBuf := Some (snd (Push now (Some req) r))\<rparr>
         | None \<Rightarrow> emit_buffered now req e)"

section \<open>The emit buffer is a queue\<close>

text \<open>What is buffered, oldest first.\<close>

definition buffered :: "engine \<Rightarrow> captured_request list" where
  "buffered e = (if en_emitBuf e = [] then [] else ring_contents (en_emitBuf e) (en_emitHead e) (en_emitTail e))"

definition emit_inv :: "engine \<Rightarrow> bool" where
  "emit_inv e \<longleftrightarrow> (en_emitBuf e = [] \<and> en_emitHead e = 0 \<and> en_emitTail e = 0 \<or> length (en_emitBuf e) = emitBufSize) \<and>
     en_emitHead e < emitBufSize \<and> en_emitTail e < emitBufSize \<and> length (buffered e) < 1000"

lemma ring_contents_slices:
  assumes "h < length b" and "t < length b" and "h \<noteq> t"
  shows "ring_contents b h t = (if h > t then slice t h b else drop t b @ take h b)"
proof (cases "h > t")
  case True
  then have "map (\<lambda>i. b ! ring_index (length b) t i) [0..<h - t] = map (\<lambda>i. b ! (t + i)) [0..<h - t]"
    using assms by (auto simp: ring_index_def)
  also have "\<dots> = take (h - t) (drop t b)"
    using assms True by (intro nth_equalityI) auto
  finally show ?thesis using True by (simp add: ring_contents_def ring_used_def slice_def)
next
  case False
  have "ring_contents b h t = drop t b @ take h b"
  proof (rule nth_equalityI)
    show "length (ring_contents b h t) = length (drop t b @ take h b)"
      using False assms by (simp add: length_ring_contents ring_used_def)
  next
    fix i assume "i < length (ring_contents b h t)"
    then have i: "i < length b - t + h" using False assms by (simp add: length_ring_contents ring_used_def)
    show "ring_contents b h t ! i = (drop t b @ take h b) ! i"
      using i False assms
      by (cases "t + i < length b")
         (auto simp: ring_contents_def ring_used_def ring_index_def nth_append le_mod_geq add.commute)
  qed
  then show ?thesis using False by simp
qed

lemma bulkEmit_frame:
  "en_emitBuf (bulkEmit now reqs e) = en_emitBuf e" "en_emitHead (bulkEmit now reqs e) = en_emitHead e"
  "en_emitTail (bulkEmit now reqs e) = en_emitTail e" "en_ringBuf (bulkEmit now reqs e) = en_ringBuf e"
  "en_emitted (bulkEmit now reqs e) = en_emitted e" "en_HTTPFound (bulkEmit now reqs e) = en_HTTPFound e"
  "en_maxResBytes (bulkEmit now reqs e) = en_maxResBytes e"
  "en_bulked (bulkEmit now reqs e) = en_bulked e @ map (\<lambda>r. r\<lparr>cr_CaptureMode := ''nic''\<rparr>) reqs"
  by (auto simp: bulkEmit_def send_hub_def Let_def split: prod.splits sum.splits)

lemma flushEmitBuf_queue:
  assumes "emit_inv e"
  shows "emit_inv (flushEmitBuf now e) \<and> buffered (flushEmitBuf now e) = [] \<and>
    en_bulked (flushEmitBuf now e) = en_bulked e @ map (\<lambda>r. r\<lparr>cr_CaptureMode := ''nic''\<rparr>) (buffered e) \<and>
    en_emitted (flushEmitBuf now e) = en_emitted e \<and> en_ringBuf (flushEmitBuf now e) = en_ringBuf e \<and>
    en_emitBuf (flushEmitBuf now e) = en_emitBuf e"
proof (cases "en_emitBuf e = [] \<or> en_emitHead e = en_emitTail e")
  case True
  then have "flushEmitBuf now e = e" "buffered e = []"
    by (auto simp: flushEmitBuf_def buffered_def)
  then show ?thesis using assms by simp
next
  case False
  then have len: "length (en_emitBuf e) = emitBufSize" using assms by (auto simp: emit_inv_def)
  have "buffered e = (if en_emitHead e > en_emitTail e
      then slice (en_emitTail e) (en_emitHead e) (en_emitBuf e)
      else drop (en_emitTail e) (en_emitBuf e) @ take (en_emitHead e) (en_emitBuf e))"
    using False assms len by (simp add: buffered_def ring_contents_slices emit_inv_def)
  then have f: "flushEmitBuf now e = bulkEmit now (buffered e) (e\<lparr>en_emitHead := 0, en_emitTail := 0\<rparr>)"
    using False by (simp add: flushEmitBuf_def Let_def)
  show ?thesis
    unfolding f using len by (simp add: bulkEmit_frame emit_inv_def buffered_def emitBufSize_def)
qed

lemma emit_buffered_queue:
  assumes "emit_inv e"
  shows "emit_inv (emit_buffered now req e) \<and>
    en_bulked (emit_buffered now req e) @ map (\<lambda>r. r\<lparr>cr_CaptureMode := ''nic''\<rparr>) (buffered (emit_buffered now req e)) =
      en_bulked e @ map (\<lambda>r. r\<lparr>cr_CaptureMode := ''nic''\<rparr>) (buffered e @ [req]) \<and>
    en_emitted (emit_buffered now req e) = en_emitted e \<and> en_ringBuf (emit_buffered now req e) = en_ringBuf e"
proof -
  define e0 where "e0 = (if en_emitBuf e = [] then e\<lparr>en_emitBuf := replicate emitBufSize zero_request\<rparr> else e)"
  have b0: "buffered e0 = buffered e"
    using assms by (auto simp: e0_def buffered_def emit_inv_def)
  have i0: "emit_inv e0" "length (en_emitBuf e0) = emitBufSize"
    using assms b0 by (auto simp: e0_def emit_inv_def emitBufSize_def)
  have h: "en_emitHead e0 < emitBufSize" "en_emitTail e0 < emitBufSize" using i0 by (auto simp: emit_inv_def)
  have used: "ring_used emitBufSize (en_emitHead e0) (en_emitTail e0) = length (buffered e0)"
    using i0(2) by (auto simp: buffered_def length_ring_contents emitBufSize_def)
  have room: "(en_emitHead e0 + 1) mod emitBufSize \<noteq> en_emitTail e0"
    using ring_full_iff [OF h] used i0(1) by (auto simp: emit_inv_def emitBufSize_def)
  define nxt where "nxt = (en_emitHead e0 + 1) mod emitBufSize"
  define e1 where "e1 = e0\<lparr>en_emitBuf := (en_emitBuf e0)[en_emitHead e0 := req], en_emitHead := nxt\<rparr>"
  have b1: "buffered e1 = buffered e0 @ [req]"
    using ring_contents_write [of "en_emitHead e0" "en_emitBuf e0" "en_emitTail e0" req] h i0(2) room
    by (auto simp: buffered_def e1_def nxt_def emitBufSize_def)
  have "(nxt + emitBufSize - en_emitTail e0) mod emitBufSize = ring_used emitBufSize nxt (en_emitTail e0)"
  proof -
    have n: "nxt < emitBufSize" by (simp add: nxt_def emitBufSize_def)
    show ?thesis
    proof (cases "en_emitTail e0 \<le> nxt")
      case True
      then have eq: "nxt + emitBufSize - en_emitTail e0 = (nxt - en_emitTail e0) + emitBufSize" by simp
      show ?thesis unfolding eq mod_add_self2 using True n by (simp add: ring_used_def)
    next
      case False
      then have "nxt + emitBufSize - en_emitTail e0 < emitBufSize" using h by simp
      then show ?thesis using False h by (simp add: ring_used_def)
    qed
  qed
  also have "\<dots> = length (buffered e1)"
    using i0(2) by (auto simp: buffered_def e1_def length_ring_contents emitBufSize_def)
  finally have cnt: "(nxt + emitBufSize - en_emitTail e0) mod emitBufSize = length (buffered e1)" .
  have r: "emit_buffered now req e = (if length (buffered e1) \<ge> 1000 then flushEmitBuf now e1 else e1)"
    using room cnt unfolding emit_buffered_def Let_def e0_def [symmetric]
    by (simp add: e1_def nxt_def)
  have frame: "en_bulked e1 = en_bulked e" "en_emitted e1 = en_emitted e" "en_ringBuf e1 = en_ringBuf e"
    by (simp_all add: e1_def e0_def)
  have pre: "length (en_emitBuf e1) = emitBufSize" "en_emitHead e1 < emitBufSize" "en_emitTail e1 < emitBufSize"
    using i0 h by (auto simp: e1_def nxt_def emitBufSize_def)
  show ?thesis
  proof (cases "length (buffered e1) \<ge> 1000")
    case False
    then show ?thesis using r b1 b0 frame pre by (auto simp: emit_inv_def)
  next
    case True
    have ne: "en_emitBuf e1 \<noteq> []" using pre(1) by (auto simp: emitBufSize_def)
    have hd: "en_emitHead e1 \<noteq> en_emitTail e1" using True ne by (auto simp: buffered_def)
    have "buffered e1 = (if en_emitHead e1 > en_emitTail e1
      then slice (en_emitTail e1) (en_emitHead e1) (en_emitBuf e1)
      else drop (en_emitTail e1) (en_emitBuf e1) @ take (en_emitHead e1) (en_emitBuf e1))"
      using ne hd pre by (simp add: buffered_def ring_contents_slices)
    then have f: "flushEmitBuf now e1 = bulkEmit now (buffered e1) (e1\<lparr>en_emitHead := 0, en_emitTail := 0\<rparr>)"
      using ne hd by (simp add: flushEmitBuf_def Let_def)
    show ?thesis
      using True r b1 b0 frame pre f
      by (simp add: bulkEmit_frame emit_inv_def buffered_def emitBufSize_def)
  qed
qed


section \<open>Properties\<close>

abbreviation nic :: "captured_request \<Rightarrow> captured_request" where
  "nic r \<equiv> r\<lparr>cr_CaptureMode := ''nic''\<rparr>"

lemma send_hub_frame [simp]:
  "en_emitted (send_hub ms e) = en_emitted e" "en_ringBuf (send_hub ms e) = en_ringBuf e"
  "en_store (send_hub ms e) = en_store e" "en_maxResBytes (send_hub ms e) = en_maxResBytes e"
  "en_HTTPFound (send_hub ms e) = en_HTTPFound e"
  by (simp_all add: send_hub_def)

lemma flushEmitBuf_frame [simp]:
  "en_emitted (flushEmitBuf now e) = en_emitted e" "en_HTTPFound (flushEmitBuf now e) = en_HTTPFound e"
  "en_maxResBytes (flushEmitBuf now e) = en_maxResBytes e"
  by (auto simp: flushEmitBuf_def bulkEmit_frame Let_def)

lemma emit_frame [simp]:
  "en_emitted (emitNonBlocking now req e) = en_emitted e @ [nic req]"
  "en_HTTPFound (emitNonBlocking now req e) = en_HTTPFound e + 1"
  "en_maxResBytes (emitNonBlocking now req e) = en_maxResBytes e"
  by (auto simp: emitNonBlocking_def emit_buffered_def Let_def split: option.splits)

text \<open>A run of emissions and of flushes (\<open>None\<close>, the ticker of \<open>flushLoop\<close>).\<close>

fun run_emits :: "(instant \<times> captured_request option) list \<Rightarrow> engine \<Rightarrow> engine" where
  "run_emits [] e = e"
| "run_emits ((now, Some req) # es) e = run_emits es (emitNonBlocking now req e)"
| "run_emits ((now, None) # es) e = run_emits es (flushEmitBuf now e)"

text \<open>Without a ring, every emitted request is buffered or was given to \<open>bulkEmit\<close>, in order.\<close>

definition emit_balance :: "engine \<Rightarrow> bool" where
  "emit_balance e \<longleftrightarrow> emit_inv e \<and> en_ringBuf e = None \<and>
     en_bulked e @ map nic (buffered e) = en_emitted e \<and> en_HTTPFound e = int (length (en_emitted e))"

lemma emit_balance_emit:
  assumes "emit_balance e"
  shows "emit_balance (emitNonBlocking now req e)"
proof -
  let ?e = "e\<lparr>en_HTTPFound := en_HTTPFound e + 1, en_emitted := en_emitted e @ [nic req]\<rparr>"
  have i: "emit_inv ?e" "buffered ?e = buffered e"
    using assms by (auto simp: emit_balance_def emit_inv_def buffered_def)
  have f: "emitNonBlocking now req e = emit_buffered now (nic req) ?e"
    using assms by (simp add: emitNonBlocking_def emit_balance_def Let_def)
  show ?thesis
    using emit_buffered_queue [OF i(1), of now "nic req"] assms i(2)
      emit_frame(2) [of now req e] f
    by (simp add: emit_balance_def)
qed

lemma emit_balance_flush: "emit_balance e \<Longrightarrow> emit_balance (flushEmitBuf now e)"
  using flushEmitBuf_queue [of e now] by (simp add: emit_balance_def)

lemma run_emits_balance: "emit_balance e \<Longrightarrow> emit_balance (run_emits es e)"
  by (induction es e rule: run_emits.induct) (auto intro: emit_balance_emit emit_balance_flush)

text \<open>Without a memory ring, whatever the order of emissions and ticks, the emit buffer holds
  fewer than 1000 requests, so it never overflows its 65536 slots; every emitted request is in it
  or was handed to the store in a bulk save, once and in order; a final flush empties it; and the
  count of found requests is the number of emissions.\<close>

theorem emit_buffer_conserves:
  "let e = run_emits es (New_engine s hub) in
     en_bulked e @ map nic (buffered e) = en_emitted e \<and> length (buffered e) < 1000 \<and>
     en_HTTPFound e = int (length (en_emitted e)) \<and>
     en_bulked (flushEmitBuf now e) = en_emitted e \<and> buffered (flushEmitBuf now e) = []"
proof -
  have "emit_balance (New_engine s hub)"
    by (simp add: emit_balance_def emit_inv_def buffered_def New_engine_def emitBufSize_def)
  then have "emit_balance (run_emits es (New_engine s hub))" by (rule run_emits_balance)
  then show ?thesis
    using flushEmitBuf_queue [of "run_emits es (New_engine s hub)" now]
    by (simp add: Let_def emit_balance_def emit_inv_def)
qed

end
