(* ===== verification/NetIP.thy ===== *)
theory NetIP
  imports GoText
begin

text \<open>
  \<open>net.IP\<close> as the program uses it: a byte slice of length 4 or 16 (or nil, the empty list), its
  4-byte form and its text. The text of an IPv6 address follows RFC 5952, with the longest run of
  zero groups written as a double colon.
\<close>

type_synonym ip = "8 word list"

definition To4 :: "ip \<Rightarrow> ip option" where
  "To4 p =
     (if length p = 4 then Some p
      else if length p = 16 \<and> take 10 p = replicate 10 0 \<and> p ! 10 = 0xff \<and> p ! 11 = 0xff
      then Some (drop 12 p) else None)"

definition To16 :: "ip \<Rightarrow> ip option" where
  "To16 p =
     (if length p = 4 then Some (replicate 10 0 @ [0xff, 0xff] @ p)
      else if length p = 16 then Some p else None)"

definition IsLoopback :: "ip \<Rightarrow> bool" where
  "IsLoopback p = (case To4 p of Some q \<Rightarrow> hd q = 127 | None \<Rightarrow> p = replicate 15 0 @ [1])"

definition hex_digit :: "nat \<Rightarrow> char" where
  "hex_digit n = (if n < 10 then char_of (48 + n) else char_of (87 + n))"

fun show_hex :: "nat \<Rightarrow> string" where
  "show_hex n = (if n < 16 then [hex_digit n] else show_hex (n div 16) @ [hex_digit (n mod 16)])"

declare show_hex.simps [simp del]

text \<open>The eight 16-bit groups of a 16-byte address.\<close>

fun groups16 :: "ip \<Rightarrow> nat list" where
  "groups16 (a # b # bs) = (unat a * 256 + unat b) # groups16 bs"
| "groups16 _ = []"

definition zero_run :: "nat list \<Rightarrow> nat \<Rightarrow> nat" where
  "zero_run gs i = length (takeWhile (\<lambda>g. g = 0) (drop i gs))"

text \<open>Start and length of the run that is abbreviated: the first longest of at least two.\<close>

definition best_run :: "nat list \<Rightarrow> (nat \<times> nat) option" where
  "best_run gs =
     foldl (\<lambda>best i. let l = zero_run gs i in
              if 2 \<le> l \<and> (case best of None \<Rightarrow> True | Some (_, l') \<Rightarrow> l > l') then Some (i, l) else best)
       None [0..<8]"

definition join_groups :: "nat list \<Rightarrow> string" where
  "join_groups gs = join_with (CHR '':'') (map show_hex gs)"

definition ip6_string :: "ip \<Rightarrow> string" where
  "ip6_string p =
     (let gs = groups16 p in
      case best_run gs of
        None \<Rightarrow> join_groups gs
      | Some (i, l) \<Rightarrow> join_groups (take i gs) @ ''::'' @ join_groups (drop (i + l) gs))"

definition ip_string :: "ip \<Rightarrow> string" where
  "ip_string p =
     (if p = [] then ''<nil>''
      else case To4 p of
        Some q \<Rightarrow> join_with (CHR ''.'') (map (\<lambda>b. show_nat (unat b)) q)
      | None \<Rightarrow>
          if length p = 16 then ip6_string p
          else CHR ''?'' # concat (map (\<lambda>b. [hex_digit (unat b div 16), hex_digit (unat b mod 16)]) p))"

section \<open>Hexadecimal numbers read back\<close>

lemma code_hex_digit: "n < 16 \<Longrightarrow> char_code (hex_digit n) = (if n < 10 then 48 + n else 87 + n)"
  by (simp add: hex_digit_def take_bit_eq_mod)

lemma hex_value_digit: "n < 16 \<Longrightarrow> hex_value (hex_digit n) = Some n"
  by (simp add: hex_value_def code_hex_digit Let_def)

lemma show_hex_nonempty [simp]: "show_hex n \<noteq> []"
  by (subst show_hex.simps) simp

lemma show_hex_digits: "c \<in> set (show_hex n) \<Longrightarrow> \<exists>d < 16. c = hex_digit d"
proof (induction n arbitrary: c rule: show_hex.induct)
  case (1 n)
  show ?case
  proof (cases "n < 16")
    case True
    then show ?thesis using "1.prems" by (subst (asm) show_hex.simps) auto
  next
    case False
    then have "c \<in> set (show_hex (n div 16)) \<or> c = hex_digit (n mod 16)"
      using "1.prems" by (subst (asm) show_hex.simps) auto
    then show ?thesis using "1.IH" [OF False] by (metis mod_less_divisor zero_less_numeral)
  qed
qed

lemma show_hex_value: "digits_value 16 (map (\<lambda>c. the (hex_value c)) (show_hex n)) = n"
proof (induction n rule: show_hex.induct)
  case (1 n)
  show ?case
  proof (cases "n < 16")
    case True
    then show ?thesis by (subst show_hex.simps) (simp add: digits_value_def hex_value_digit)
  next
    case False
    then show ?thesis
      using "1.IH" by (subst show_hex.simps) (simp add: digits_value_snoc hex_value_digit)
  qed
qed

lemma hex_digit_not_special:
  assumes "d < 16"
  shows "\<not> is_space_char (hex_digit d) \<and> hex_digit d \<notin> {CR, LF}"
proof -
  have "char_code (hex_digit d) \<ge> 48" using assms by (simp add: code_hex_digit)
  moreover have "char_code CR = 13" "char_code LF = 10" by simp_all
  ultimately show ?thesis by (auto simp: is_space_char_def simp del: of_char_Char)
qed

lemma sscanf_x_show_hex:
  assumes "n < 2 ^ 64" and "t = [] \<or> hex_value (hd t) = None"
  shows "sscanf_x (show_hex n @ t) = Some n"
proof -
  have d: "\<forall>c \<in> set (show_hex n). hex_value c \<noteq> None \<and> \<not> is_space_char c"
    using show_hex_digits hex_value_digit hex_digit_not_special by fastforce
  then have "skip_blanks (show_hex n @ t) = show_hex n @ t"
    using show_hex_nonempty [of n] by (cases "show_hex n") (auto simp: skip_blanks_def)
  moreover have "takeWhile (\<lambda>c. hex_value c \<noteq> None) (show_hex n @ t) = show_hex n"
    using d assms(2) by (cases t) (simp_all add: takeWhile_append2)
  ultimately show ?thesis
    using assms(1) by (simp add: sscanf_x_def Let_def show_hex_value)
qed

end
