(* ===== verification/HttpParse.thy ===== *)
theory HttpParse
  imports NetIP Models "HOL-Library.Monad_Syntax"
begin

text \<open>
  The byte-level HTTP and TLS parsers of \<^verbatim>\<open>internal/capture/engine.go\<close>: where a message ends,
  how its header is read, and the server name of a ClientHello. An index that may be \<open>-1\<close> is an
  \<open>option\<close>, except in \<open>findHTTPMessageEnd\<close>, whose sum of an index and an untrusted length may
  wrap. \<open>extractSNI\<close> indexes its input by lengths taken from it: there every access is checked and
  a Go panic is \<open>None\<close>.
\<close>

section \<open>Byte helpers\<close>

definition indexByte :: "bytes \<Rightarrow> char \<Rightarrow> nat option" where
  "indexByte data c = index_where (\<lambda>b. b = c) data"

lemma indexByte_less: "indexByte data c = Some n \<Longrightarrow> length (drop (Suc n) data) < length data"
  using index_where_Some [of "\<lambda>b. b = c" data n] by (auto simp: indexByte_def)

definition double_CRLF :: bytes where "double_CRLF = [CR, LF, CR, LF]"

definition indexDoubleCRLF :: "bytes \<Rightarrow> nat option" where
  "indexDoubleCRLF data = index_str data double_CRLF"

definition bytesTrimSpace :: "bytes \<Rightarrow> bytes" where
  "bytesTrimSpace b = trim_char (CHR '' '') b"

definition trimCR :: "bytes \<Rightarrow> bytes" where
  "trimCR b = (if b \<noteq> [] \<and> last b = CR then butlast b else b)"

definition hasPrefixFold :: "bytes \<Rightarrow> bytes \<Rightarrow> bool" where
  "hasPrefixFold b p \<longleftrightarrow>
     length p \<le> length b \<and> map lower_char (take (length p) b) = map lower_char p"

definition isAllDigits :: "string \<Rightarrow> bool" where
  "isAllDigits s \<longleftrightarrow> s \<noteq> [] \<and> list_all is_digit s"

definition httpMethodPrefixes :: "string list" where
  "httpMethodPrefixes =
     [''GET '', ''POST'', ''PUT '', ''DELE'', ''PATC'', ''HEAD'', ''OPTI'', ''CONN'', ''TRAC'']"

definition looksLikeHTTP :: "bytes \<Rightarrow> bool" where
  "looksLikeHTTP data \<longleftrightarrow>
     data = [] \<or> list_ex (has_prefix data) httpMethodPrefixes \<or> has_prefix data ''HTTP''"

definition isHTTPResponse :: "bytes \<Rightarrow> bool" where
  "isHTTPResponse data \<longleftrightarrow> has_prefix data ''HTTP''"

definition isSSEHeader :: "bytes \<Rightarrow> bool" where
  "isSSEHeader headerData \<longleftrightarrow> contains_str (to_lower headerData) ''text/event-stream''"

definition responseCanHaveNoBody :: "int \<Rightarrow> bool" where
  "responseCanHaveNoBody code \<longleftrightarrow> (100 \<le> code \<and> code < 200) \<or> code = 204 \<or> code = 304"

definition truncateBuffer :: "bytes \<Rightarrow> nat \<Rightarrow> bytes" where
  "truncateBuffer buf keepSize =
     (if length buf \<le> keepSize then buf
      else let trimmed = drop (length buf - keepSize) buf in
           case indexDoubleCRLF trimmed of
             Some nl \<Rightarrow> if nl < 4096 then drop (nl + 4) trimmed else trimmed
           | None \<Rightarrow> trimmed)"

section \<open>Header fields\<close>

text \<open>\<open>parseContentLength\<close>: -1 when there is none or it is not a number.\<close>

definition content_length_name :: string where "content_length_name = ''content-length:''"

fun content_length_of :: "string list \<Rightarrow> int" where
  "content_length_of [] = -1"
| "content_length_of (line # rest) =
     (let line = trim_space (trim_suffix line [CR]) in
      if has_prefix line content_length_name then
        (case sscanf_d (trim_space (drop (length content_length_name) line)) of
           None \<Rightarrow> -1
         | Some cl \<Rightarrow> cl)
      else content_length_of rest)"

definition parseContentLength :: "bytes \<Rightarrow> int" where
  "parseContentLength headerData = content_length_of (split_on LF (to_lower headerData))"

text \<open>
  \<open>parseTransferEncoding\<close>; only lines that end in a newline are read, and the value starts at
  byte 17 of the line, the colon.
\<close>

function parseTransferEncoding :: "bytes \<Rightarrow> string" where
  "parseTransferEncoding data =
     (case indexByte data LF of
        None \<Rightarrow> []
      | Some nl \<Rightarrow>
          (let line = trimCR (bytesTrimSpace (take nl data)) in
           if hasPrefixFold line ''transfer-encoding:'' then bytesTrimSpace (drop 17 line)
           else parseTransferEncoding (drop (Suc nl) data)))"
  by pat_completeness auto
termination
  by (relation "measure length", rule wf_measure) (simp only: in_measure, erule indexByte_less)

declare parseTransferEncoding.simps [simp del]

definition has_chunked :: "bytes \<Rightarrow> bool" where
  "has_chunked headerData \<longleftrightarrow> contains_str (parseTransferEncoding headerData) ''chunked''"

definition parseStatusCodeFromHeader :: "bytes \<Rightarrow> int" where
  "parseStatusCodeFromHeader headerData =
     (case indexByte headerData LF of
        None \<Rightarrow> 0
      | Some nl \<Rightarrow>
          (let firstLine = bytesTrimSpace (take nl headerData) in
           case indexByte firstLine (CHR '' '') of
             None \<Rightarrow> 0
           | Some sp1 \<Rightarrow>
               (let rest = drop (sp1 + 1) firstLine;
                    codeStr = (case indexByte rest (CHR '' '') of Some sp2 \<Rightarrow> take sp2 rest | None \<Rightarrow> rest)
                in case sscanf_d codeStr of Some code \<Rightarrow> code | None \<Rightarrow> 0)))"

section \<open>Where a message ends\<close>

definition max_chunk :: nat where "max_chunk = 100 * 1024 * 1024"

text \<open>
  \<open>findChunkedEnd\<close>: the position after the terminating chunk; \<open>None\<close> waits for more data, or
  rejects a bad chunk size.
\<close>

function find_chunked_from :: "bytes \<Rightarrow> nat \<Rightarrow> nat option" where
  "find_chunked_from data pos =
     (if pos \<ge> length data then None
      else case index_str (drop pos data) [CR, LF] of
        None \<Rightarrow> None
      | Some d \<Rightarrow>
          (let nl = pos + d in
           case sscanf_x (trim_space (slice pos nl data)) of
             None \<Rightarrow> None
           | Some sz \<Rightarrow>
               if sz > max_chunk then None
               else if sz = 0 then
                 (let trailerEnd = nl + 2 in
                  if trailerEnd + 1 < length data \<and> data ! trailerEnd = CR \<and> data ! (trailerEnd + 1) = LF
                  then Some (trailerEnd + 2)
                  else if trailerEnd < length data \<and> data ! trailerEnd = LF
                  then Some (trailerEnd + 1)
                  else None)
               else let nxt = nl + 2 + sz + 2 in
                    if nxt > length data then None else find_chunked_from data nxt))"
  by pat_completeness auto
termination
  by (relation "measure (\<lambda>(data, pos). length data - pos)") (auto split: if_splits)

declare find_chunked_from.simps [simp del]

definition findChunkedEnd :: "bytes \<Rightarrow> nat option" where
  "findChunkedEnd data = find_chunked_from data 0"

text \<open>The end of the header block: the first empty CRLF line, else the first empty LF line.\<close>

definition header_block_end :: "bytes \<Rightarrow> nat option" where
  "header_block_end data =
     (case indexDoubleCRLF data of
        Some i \<Rightarrow> Some (i + 4)
      | None \<Rightarrow> map_option (\<lambda>i. i + 2) (index_str data [LF, LF]))"

definition findHTTPMessageEnd :: "bytes \<Rightarrow> int" where
  "findHTTPMessageEnd data =
     (case header_block_end data of
        None \<Rightarrow> -1
      | Some idx \<Rightarrow>
          (let headerData = take idx data;
               cl = parseContentLength headerData
           in if cl \<ge> 0 then
                (let bodyEnd = wrap64 (int idx + cl) in
                 if bodyEnd \<le> int (length data) then bodyEnd else -1)
              else if has_chunked headerData then
                (case findChunkedEnd (drop idx data) of
                   Some chunkEnd \<Rightarrow> int (idx + chunkEnd)
                 | None \<Rightarrow> -1)
              else int idx))"

section \<open>Responses\<close>

record http_response =
  resp_StatusCode :: int
  resp_Headers :: header_map
  resp_Body :: string

fun response_headers :: "string list \<Rightarrow> header_map \<Rightarrow> header_map" where
  "response_headers [] headers = headers"
| "response_headers (line # rest) headers =
     (let line = trim_suffix line [CR] in
      if line = [] then headers
      else case index_byte line (CHR '':'') of
        Some ci \<Rightarrow>
          if 0 < ci then
            response_headers rest
              (AList.update (trim_space (take ci line)) (trim_space (drop (ci + 1) line)) headers)
          else response_headers rest headers
      | None \<Rightarrow> response_headers rest headers)"

definition parseHTTPResponseFromHeader :: "bytes \<Rightarrow> string \<Rightarrow> http_response option" where
  "parseHTTPResponseFromHeader headerData body =
     (let lines = split_on LF headerData;
          firstLine = trim_suffix (hd lines) [CR];
          parts = split_n 3 (CHR '' '') firstLine
      in if length parts < 2 then None
         else case sscanf_d (parts ! 1) of
           None \<Rightarrow> None
         | Some statusCode \<Rightarrow>
             if statusCode < 100 \<or> statusCode > 599 then None
             else Some \<lparr>resp_StatusCode = statusCode,
                        resp_Headers = response_headers (tl lines) [], resp_Body = body\<rparr>)"

definition parseHTTPResponse :: "bytes \<Rightarrow> http_response option" where
  "parseHTTPResponse data =
     (case indexDoubleCRLF data of
        None \<Rightarrow> None
      | Some headerEnd \<Rightarrow> parseHTTPResponseFromHeader (take headerEnd data) (drop (headerEnd + 4) data))"

section \<open>Requests\<close>

definition formatIPForURL :: "ip \<Rightarrow> string" where
  "formatIPForURL p =
     (if p = [] then []
      else if To4 p \<noteq> None then ip_string p
      else ''['' @ ip_string p @ '']'')"

definition formatHostForURL :: "string \<Rightarrow> string" where
  "formatHostForURL host =
     (if host = [] \<or> has_prefix host ''['' \<or> count_byte host (CHR '':'') < 2 then host
      else case last_index_byte host (CHR '':'') of
        Some i \<Rightarrow>
          if 0 < i \<and> isAllDigits (drop (i + 1) host) \<and> is_digit (host ! (i - 1))
          then ''['' @ take i host @ '']:'' @ drop (i + 1) host
          else ''['' @ host @ '']''
      | None \<Rightarrow> ''['' @ host @ '']'')"

text \<open>The header loop: the fields, and the last \<open>Host\<close>.\<close>

function request_headers :: "bytes \<Rightarrow> header_map \<Rightarrow> string \<Rightarrow> header_map \<times> string" where
  "request_headers rem headers host =
     (case indexByte rem LF of
        None \<Rightarrow> (headers, host)
      | Some nl \<Rightarrow>
          (let line = trimCR (bytesTrimSpace (take nl rem));
               rest = drop (Suc nl) rem
           in if line = [] then (headers, host)
              else case indexByte line (CHR '':'') of
                Some colon \<Rightarrow>
                  if 0 < colon then
                    (let key = take colon line;
                         val = bytesTrimSpace (drop (colon + 1) line)
                     in request_headers rest (AList.update key val headers)
                          (if equal_fold key ''Host'' then val else host))
                  else request_headers rest headers host
              | None \<Rightarrow> request_headers rest headers host))"
  by pat_completeness auto
termination
  by (relation "measure (\<lambda>(rem, _, _). length rem)", rule wf_measure)
     (simp only: in_measure prod.case, erule indexByte_less)+

declare request_headers.simps [simp del]

text \<open>
  \<open>parseHTTPRequest\<close>; \<open>proc\<close> is what \<open>engine.ResolveProcess\<close> answers for the client address
  (\<open>None\<close> also without an engine).
\<close>

definition parseHTTPRequest ::
  "instant \<Rightarrow> process_info option \<Rightarrow> bytes \<Rightarrow> ip \<Rightarrow> nat \<Rightarrow> captured_request option" where
  "parseHTTPRequest now proc data srcIP dstPort =
     (case indexDoubleCRLF data of
        None \<Rightarrow> None
      | Some headerEnd \<Rightarrow>
          (let rem = take headerEnd data in
           case indexByte rem LF of
             None \<Rightarrow> None
           | Some nl \<Rightarrow>
               (let firstLine = bytesTrimSpace (take nl rem) in
                case indexByte firstLine (CHR '' '') of
                  None \<Rightarrow> None
                | Some sp1 \<Rightarrow>
                    (let mthd = take sp1 firstLine;
                         rest = drop (sp1 + 1) firstLine;
                         urlPath = (case indexByte rest (CHR '' '') of
                             Some sp2 \<Rightarrow> take sp2 rest | None \<Rightarrow> rest);
                         (headers, host) = request_headers (drop (Suc nl) rem) [] [];
                         host = (if host = [] then formatIPForURL srcIP else formatHostForURL host);
                         isHTTPS = (dstPort = 443);
                         scheme = (if isHTTPS then ''https'' else ''http'');
                         urlPath = (if has_prefix urlPath ''/'' then urlPath else ''/'' @ urlPath)
                     in Some (zero_request
                          \<lparr>cr_Method := mthd, cr_URL := scheme @ ''://'' @ host @ urlPath,
                           cr_Host := host, cr_Path := urlPath, cr_Protocol := ''HTTP/1.1'',
                           cr_IsHTTPS := isHTTPS, cr_ReqHeaders := headers,
                           cr_ReqBody := drop (headerEnd + 4) data,
                           cr_CapturedAt := Some now, cr_CaptureMode := ''nic'',
                           cr_ProcessPID := (case proc of Some p \<Rightarrow> pi_PID p | None \<Rightarrow> 0),
                           cr_ProcessName := (case proc of Some p \<Rightarrow> pi_Name p | None \<Rightarrow> [])\<rparr>)))))"

section \<open>TLS\<close>

definition isTLSClientHello :: "bytes \<Rightarrow> bool" where
  "isTLSClientHello data \<longleftrightarrow>
     6 \<le> length data \<and> char_code (data ! 0) = 0x16 \<and> char_code (data ! 1) = 0x03 \<and>
     0x01 \<le> char_code (data ! 2) \<and> char_code (data ! 2) \<le> 0x03"

text \<open>A checked access: out of range it panics.\<close>

definition byte_at :: "bytes \<Rightarrow> nat \<Rightarrow> nat option" where
  "byte_at data i = (if i < length data then Some (char_code (data ! i)) else None)"

definition u16_at :: "bytes \<Rightarrow> nat \<Rightarrow> nat option" where
  "u16_at data i = do { a \<leftarrow> byte_at data i; b \<leftarrow> byte_at data (i + 1); Some (a * 256 + b) }"

definition slice_at :: "bytes \<Rightarrow> nat \<Rightarrow> nat \<Rightarrow> bytes option" where
  "slice_at data i j = (if i \<le> j \<and> j \<le> length data then Some (slice i j data) else None)"

text \<open>The server name list: entries of a type byte, a length and a name.\<close>

function sni_names :: "bytes \<Rightarrow> nat \<Rightarrow> nat \<Rightarrow> string option" where
  "sni_names data offset listEnd =
     (if offset + 3 \<le> listEnd then
        (case byte_at data offset of
           None \<Rightarrow> None
         | Some nameType \<Rightarrow>
             (case u16_at data (offset + 1) of
                None \<Rightarrow> None
              | Some nameLen \<Rightarrow>
                  (let offset = offset + 3 in
                   if nameType = 0 \<and> offset + nameLen \<le> listEnd
                   then slice_at data offset (offset + nameLen)
                   else sni_names data (offset + nameLen) listEnd)))
      else Some [])"
  by pat_completeness auto
termination
  by (relation "measure (\<lambda>(data, offset, listEnd). listEnd - offset)") auto

declare sni_names.simps [simp del]

text \<open>The extension loop.\<close>

function sni_extensions :: "bytes \<Rightarrow> nat \<Rightarrow> nat \<Rightarrow> string option" where
  "sni_extensions data offset extensionsEnd =
     (if offset + 4 \<le> extensionsEnd then
        (case u16_at data offset of
           None \<Rightarrow> None
         | Some extType \<Rightarrow>
             (case u16_at data (offset + 2) of
                None \<Rightarrow> None
              | Some extLen \<Rightarrow>
                  (let offset = offset + 4 in
                   if extType = 0 then
                     (if offset + 2 > extensionsEnd then Some []
                      else case u16_at data offset of
                        None \<Rightarrow> None
                      | Some listLen \<Rightarrow>
                          (let offset = offset + 2 in
                           sni_names data offset (min (offset + listLen) extensionsEnd)))
                   else sni_extensions data (offset + extLen) extensionsEnd)))
      else Some [])"
  by pat_completeness auto
termination
  by (relation "measure (\<lambda>(data, offset, extensionsEnd). extensionsEnd - offset)") auto

declare sni_extensions.simps [simp del]

definition extractSNI :: "bytes \<Rightarrow> string option" where
  "extractSNI data =
     (if length data < 44 then Some []
      else do {
        handshakeType \<leftarrow> byte_at data 5;
        if handshakeType \<noteq> 1 then Some []
        else do {
          let offset = 5 + 4 + 2 + 32;
          if offset \<ge> length data then Some []
          else do {
            sessionIDLen \<leftarrow> byte_at data offset;
            let offset = offset + 1 + sessionIDLen;
            if offset + 2 > length data then Some []
            else do {
              cipherSuitesLen \<leftarrow> u16_at data offset;
              let offset = offset + 2 + cipherSuitesLen;
              if offset \<ge> length data then Some []
              else do {
                compressionMethodsLen \<leftarrow> byte_at data offset;
                let offset = offset + 1 + compressionMethodsLen;
                if offset + 2 > length data then Some []
                else do {
                  extensionsLen \<leftarrow> u16_at data offset;
                  let offset = offset + 2;
                  sni_extensions data offset (min (offset + extensionsLen) (length data)) }}}}}})"

end
