(* ===== verification/HttpFraming.thy ===== *)
theory HttpFraming
  imports HttpParse
begin

text \<open>
  Facts about where messages end: bounds of the indices, stability when more data arrives, the
  header block built from its lines, and the chunked coding.
\<close>

section \<open>Bounds and stability\<close>

lemma index_str_append: "index_str s p = Some i \<Longrightarrow> index_str (s @ t) p = Some i"
proof (induction s arbitrary: i)
  case Nil
  then have "p = []" "i = 0" by (auto split: if_splits)
  then show ?case by (cases t) (simp_all add: has_prefix_def)
next
  case (Cons c s)
  show ?case
  proof (cases "has_prefix (c # s) p")
    case True
    then have "has_prefix (c # s @ t) p" by (metis append_Cons append_assoc has_prefix_iff)
    then show ?thesis using True Cons.prems by simp
  next
    case False
    with Cons.prems obtain j where j: "index_str s p = Some j" "i = Suc j" by auto
    have "length p \<le> length (c # s)" using index_str_Some [OF j(1)] by simp
    then have "take (length p) ((c # s) @ t) = take (length p) (c # s)" by (simp only: take_append) simp
    then have "\<not> has_prefix (c # s @ t) p"
      using False \<open>length p \<le> length (c # s)\<close> by (simp add: has_prefix_def)
    then show ?thesis using Cons.IH [OF j(1)] j(2) by simp
  qed
qed

lemma indexDoubleCRLF_append: "indexDoubleCRLF s = Some i \<Longrightarrow> indexDoubleCRLF (s @ t) = Some i"
  by (simp add: indexDoubleCRLF_def index_str_append)

lemma indexDoubleCRLF_bound: "indexDoubleCRLF s = Some i \<Longrightarrow> i + 4 \<le> length s"
  by (auto simp: indexDoubleCRLF_def double_CRLF_def dest: index_str_Some)

lemma header_block_end_bound: "header_block_end data = Some i \<Longrightarrow> 2 \<le> i \<and> i \<le> length data"
  by (auto simp: header_block_end_def dest: indexDoubleCRLF_bound index_str_Some split: option.splits)

lemma find_chunked_bound: "find_chunked_from data pos = Some e \<Longrightarrow> pos < e \<and> e \<le> length data"
proof (induction data pos arbitrary: e rule: find_chunked_from.induct)
  case (1 data pos)
  from "1.prems" obtain d sz where d: "pos < length data" "index_str (drop pos data) [CR, LF] = Some d"
    and sz: "sscanf_x (trim_space (slice pos (pos + d) data)) = Some sz" "sz \<le> max_chunk"
    by (subst (asm) find_chunked_from.simps) (auto simp: Let_def split: if_splits option.splits)
  have "d + 2 \<le> length data - pos" using index_str_Some [OF d(2)] by simp
  show ?case
  proof (cases "sz = 0")
    case True
    then show ?thesis
      using "1.prems" d sz by (subst (asm) find_chunked_from.simps) (auto simp: Let_def split: if_splits)
  next
    case False
    then have "pos + d + 2 + sz + 2 \<le> length data"
      "find_chunked_from data (pos + d + 2 + sz + 2) = Some e"
      using "1.prems" d sz by (subst (asm) (1) find_chunked_from.simps, auto simp: Let_def split: if_splits)+
    then show ?thesis using "1.IH" [OF _ d(2) refl sz(1)] d(1) sz(2) False by (force simp: Let_def)
  qed
qed

lemma find_chunked_append:
  "find_chunked_from data pos = Some e \<Longrightarrow> find_chunked_from (data @ rest) pos = Some e"
proof (induction data pos arbitrary: e rule: find_chunked_from.induct)
  case (1 data pos)
  from "1.prems" obtain d sz where d: "pos < length data" "index_str (drop pos data) [CR, LF] = Some d"
    and sz: "sscanf_x (trim_space (slice pos (pos + d) data)) = Some sz" "sz \<le> max_chunk"
    by (subst (asm) find_chunked_from.simps) (auto simp: Let_def split: if_splits option.splits)
  have b: "pos + d + 2 \<le> length data" using index_str_Some [OF d(2)] d(1) by auto
  have d': "index_str (drop pos (data @ rest)) [CR, LF] = Some d"
    using index_str_append [OF d(2)] d(1) by simp
  have sz': "sscanf_x (trim_space (slice pos (pos + d) (data @ rest))) = Some sz"
    using sz(1) b by (simp add: slice_def)
  show ?case
  proof (cases "sz = 0")
    case True
    then show ?thesis
      using "1.prems" d sz d' sz' b
      by (subst find_chunked_from.simps, subst (asm) find_chunked_from.simps)
         (auto simp: Let_def nth_append split: if_splits)
  next
    case False
    then have n: "pos + d + 2 + sz + 2 \<le> length data"
      "find_chunked_from data (pos + d + 2 + sz + 2) = Some e"
      using "1.prems" d sz by (subst (asm) (1) find_chunked_from.simps, auto simp: Let_def split: if_splits)+
    then have "find_chunked_from (data @ rest) (pos + d + 2 + sz + 2) = Some e"
      using "1.IH" [OF _ d(2) refl sz(1)] d(1) sz(2) False by (force simp: Let_def)
    then show ?thesis
      using d d' sz sz' False n(1) by (subst find_chunked_from.simps) (simp add: Let_def)
  qed
qed

text \<open>A message found in a prefix is found in every longer buffer, at the same place.\<close>

lemma findHTTPMessageEnd_prefix:
  assumes "indexDoubleCRLF data = Some i" and "findHTTPMessageEnd data = n" and "0 \<le> n"
  shows "findHTTPMessageEnd (data @ rest) = n"
proof -
  have h: "header_block_end data = Some (i + 4)" "header_block_end (data @ rest) = Some (i + 4)"
    using assms(1) indexDoubleCRLF_append [OF assms(1)] by (simp_all add: header_block_end_def)
  have t: "take (i + 4) (data @ rest) = take (i + 4) data" "drop (i + 4) (data @ rest) = drop (i + 4) data @ rest"
    using indexDoubleCRLF_bound [OF assms(1)] by simp_all
  have c: "findChunkedEnd (drop (i + 4) data @ rest) = Some e" if "findChunkedEnd (drop (i + 4) data) = Some e" for e
    using that by (simp add: findChunkedEnd_def find_chunked_append)
  show ?thesis
    using assms(2,3) c unfolding findHTTPMessageEnd_def h option.case t
    by (auto simp: Let_def split: if_splits option.splits)
qed

lemma wrap64_sum:
  assumes "0 \<le> a" "a < 2 ^ 63" "0 \<le> b" "b < 2 ^ 63" "0 \<le> wrap64 (a + b)"
  shows "wrap64 (a + b) = a + b"
proof (cases "a + b < 2 ^ 63")
  case True
  then show ?thesis using assms by (intro wrap64_id) simp_all
next
  case False
  then have "wrap64 (a + b) = a + b - 2 ^ 64" using assms by (intro wrap64_overflow) simp_all
  then show ?thesis using assms by simp
qed

lemma content_length_range: "content_length_of ls < 2 ^ 63"
  by (induction ls) (auto simp: Let_def dest: sscanf_d_range split: option.splits)

lemma parseContentLength_range: "parseContentLength h < 2 ^ 63"
  unfolding parseContentLength_def by (rule content_length_range)

lemma findHTTPMessageEnd_bounds:
  assumes "length data < 2 ^ 63" and "0 \<le> findHTTPMessageEnd data"
  shows "2 \<le> findHTTPMessageEnd data \<and> findHTTPMessageEnd data \<le> int (length data)"
proof -
  obtain i where i: "header_block_end data = Some i"
    using assms(2) by (auto simp: findHTTPMessageEnd_def split: option.splits)
  have b: "2 \<le> i" "i \<le> length data" using header_block_end_bound [OF i] by auto
  let ?cl = "parseContentLength (take i data)"
  have w: "wrap64 (int i + ?cl) = int i + ?cl" if "0 \<le> ?cl" "0 \<le> wrap64 (int i + ?cl)"
    using that b assms(1) parseContentLength_range by (intro wrap64_sum) auto
  have c: "i + e \<le> length data" if "findChunkedEnd (drop i data) = Some e" for e
    using that b find_chunked_bound [of "drop i data" 0 e] by (auto simp: findChunkedEnd_def)
  show ?thesis
    using assms(2) i b w c
    by (auto simp: findHTTPMessageEnd_def Let_def split: if_splits option.splits)
qed


section \<open>A header block from its lines\<close>

text \<open>A clean line has no CR and no LF.\<close>

definition clean :: "bytes \<Rightarrow> bool" where
  "clean l \<longleftrightarrow> CR \<notin> set l \<and> LF \<notin> set l"

abbreviation CRLF :: bytes where "CRLF \<equiv> [CR, LF]"

text \<open>The lines each followed by CRLF, and the empty line.\<close>

definition crlf_lines :: "bytes list \<Rightarrow> bytes" where
  "crlf_lines ls = concat (map (\<lambda>l. l @ CRLF) ls)"

definition header_block :: "bytes list \<Rightarrow> bytes" where
  "header_block ls = crlf_lines ls @ CRLF"

lemma crlf_lines_simps [simp]:
  "crlf_lines [] = []" "crlf_lines (l # ls) = l @ CR # LF # crlf_lines ls"
  "crlf_lines (ls @ ls') = crlf_lines ls @ crlf_lines ls'"
  by (simp_all add: crlf_lines_def)

text \<open>No match starts inside a clean line.\<close>

lemma index_str_skip:
  assumes "c \<notin> set l" and "p \<noteq> []" and "hd p = c"
  shows "index_str (l @ s) p = map_option (\<lambda>i. length l + i) (index_str s p)"
  using assms(1)
proof (induction l)
  case Nil
  then show ?case by (simp add: option.map_ident)
next
  case (Cons x l)
  then have "\<not> has_prefix (x # l @ s) p" using assms(2,3) by (cases p) (auto simp: has_prefix_def)
  then show ?case using Cons by (simp add: option.map_comp comp_def)
qed

lemma index_str_here: "p \<noteq> [] \<Longrightarrow> index_str (p @ s) p = Some 0"
  by (cases p) (simp_all add: has_prefix_def)

lemma index_CRLF: "CR \<notin> set l \<Longrightarrow> index_str (l @ CR # LF # s) [CR, LF] = Some (length l)"
  using index_str_skip [of CR l "[CR, LF]" "CR # LF # s"] by (simp add: has_prefix_def)

lemma indexDoubleCRLF_block:
  assumes "ls \<noteq> []" and "\<forall>l \<in> set ls. clean l \<and> l \<noteq> []"
  shows "indexDoubleCRLF (header_block ls @ body) = Some (length (crlf_lines ls) - 2)"
  using assms
proof (induction ls)
  case Nil
  then show ?case by simp
next
  case (Cons l ls)
  have c: "CR \<notin> set l" using Cons.prems by (simp add: clean_def)
  note skip = index_str_skip [OF c, of double_CRLF]
  show ?case
  proof (cases ls)
    case Nil
    then show ?thesis
      using skip [of "double_CRLF @ body"] index_str_here [of double_CRLF body]
      by (simp add: indexDoubleCRLF_def header_block_def double_CRLF_def)
  next
    case (Cons l2 ls2)
    obtain x xs where x: "l2 = x # xs" "x \<noteq> CR"
      using Cons.prems Cons by (cases l2) (auto simp: clean_def)
    have ih: "indexDoubleCRLF (header_block ls @ body) = Some (length (crlf_lines ls) - 2)"
      using Cons.prems Cons.IH Cons by auto
    have "2 \<le> length (crlf_lines ls)" by (simp add: Cons)
    moreover have "index_str (CR # LF # crlf_lines ls @ CR # LF # body) double_CRLF =
        Some (2 + (length (crlf_lines ls) - 2))"
      using ih x by (simp add: indexDoubleCRLF_def header_block_def has_prefix_def double_CRLF_def Cons)
    ultimately show ?thesis
      using skip [of "CR # LF # crlf_lines ls @ CR # LF # body"]
      by (simp add: indexDoubleCRLF_def header_block_def double_CRLF_def)
  qed
qed

text \<open>The header data is the block without its last four bytes.\<close>

definition header_text :: "bytes list \<Rightarrow> bytes" where
  "header_text ls = take (length (crlf_lines ls) - 2) (crlf_lines ls)"

lemma header_text_simps [simp]:
  "header_text [l] = l" "ls \<noteq> [] \<Longrightarrow> header_text (l # ls) = l @ CR # LF # header_text ls"
proof -
  show "header_text [l] = l" by (simp add: header_text_def)
  assume nonempty: "ls \<noteq> []"
  show "header_text (l # ls) = l @ CR # LF # header_text ls"
  proof -
    obtain l2 ls2 where ls: "ls = l2 # ls2" using nonempty by (cases ls) auto
    then obtain m where "length (crlf_lines ls) = Suc (Suc m)" by (simp add: ls)
    then show ?thesis unfolding header_text_def by simp
  qed
qed

lemma header_text_snoc: "header_text (ls @ [l]) = crlf_lines ls @ l"
  by (induction ls) simp_all

lemma header_block_split:
  assumes "ls \<noteq> []" and "\<forall>l \<in> set ls. clean l \<and> l \<noteq> []"
  shows "indexDoubleCRLF (header_block ls @ body) = Some (length (header_text ls))"
    and "take (length (header_text ls)) (header_block ls @ body) = header_text ls"
    and "drop (length (header_text ls) + 4) (header_block ls @ body) = body"
proof -
  obtain ks k where ls: "ls = ks @ [k]" using assms(1) by (cases ls rule: rev_cases) auto
  have t: "header_text ls = crlf_lines ks @ k" by (simp add: ls header_text_snoc)
  show "indexDoubleCRLF (header_block ls @ body) = Some (length (header_text ls))"
    using indexDoubleCRLF_block [OF assms, of body] unfolding t by (simp add: ls)
  show "take (length (header_text ls)) (header_block ls @ body) = header_text ls"
    unfolding t by (simp add: header_block_def ls)
  show "drop (length (header_text ls) + 4) (header_block ls @ body) = body"
    unfolding t by (simp add: header_block_def ls)
qed

text \<open>Splitting the header data at LF gives the lines, all but the last with their CR.\<close>

lemma split_on_header_text:
  assumes "\<forall>l \<in> set (ls @ [k]). clean l"
  shows "split_on LF (header_text (ls @ [k])) = map (\<lambda>l. l @ [CR]) ls @ [k]"
  using assms
proof (induction ls)
  case Nil
  then show ?case by (simp add: split_on_none clean_def)
next
  case (Cons l ls)
  then have "LF \<notin> set (l @ [CR])" by (simp add: clean_def)
  from split_on_append [OF this] show ?case using Cons by simp
qed

lemma trim_suffix_CR [simp]: "trim_suffix (l @ [CR]) [CR] = l"
  by (simp add: trim_suffix_def has_suffix_def)

lemma trim_suffix_clean: "clean l \<Longrightarrow> trim_suffix l [CR] = l"
  by (auto simp: trim_suffix_def has_suffix_iff clean_def)

section \<open>Chunked bodies\<close>

text \<open>The chunked coding of RFC 7230 without extensions and trailers.\<close>

definition encode_chunk :: "bytes \<Rightarrow> bytes" where
  "encode_chunk c = show_hex (length c) @ CRLF @ c @ CRLF"

definition encode_chunks :: "bytes list \<Rightarrow> bytes" where
  "encode_chunks cs = concat (map encode_chunk cs) @ ''0'' @ CRLF @ CRLF"

lemma show_hex_clean: "CR \<notin> set (show_hex n)" "\<forall>c \<in> set (show_hex n). \<not> is_space_char c"
  using show_hex_digits [of _ n] hex_digit_not_special by fastforce+

lemma trim_space_none: "\<forall>c \<in> set s. \<not> is_space_char c \<Longrightarrow> trim_space s = s"
proof -
  assume a: "\<forall>c \<in> set s. \<not> is_space_char c"
  then have "dropWhile is_space_char s = s" by (cases s) auto
  moreover have "dropWhile is_space_char (rev s) = rev s" using a by (cases "rev s") (auto dest: rev_eq_Cons_iff [THEN iffD1])
  ultimately show ?thesis by (simp add: trim_space_def trim_left_def trim_right_def)
qed

lemma chunk_size_read: "n \<le> max_chunk \<Longrightarrow> sscanf_x (trim_space (show_hex n)) = Some n"
  using sscanf_x_show_hex [of n "[]"] show_hex_clean [of n] by (simp add: trim_space_none max_chunk_def)

lemma find_chunked_encoded:
  assumes "\<forall>c \<in> set cs. c \<noteq> [] \<and> length c \<le> max_chunk"
  shows "find_chunked_from (pre @ encode_chunks cs @ rest) (length pre) =
    Some (length pre + length (encode_chunks cs))"
  using assms
proof (induction cs arbitrary: pre)
  case Nil
  let ?d = "pre @ ''0'' @ CRLF @ CRLF @ rest"
  have "show_hex 0 = ''0''" by (simp add: show_hex.simps hex_digit_def)
  then have "sscanf_x (trim_space ''0'') = Some 0" using chunk_size_read [of 0] by simp
  moreover have "index_str (''0'' @ CR # LF # CR # LF # rest) [CR, LF] = Some 1"
    using index_CRLF [of "''0''"] by simp
  ultimately show ?case
    by (subst find_chunked_from.simps)
       (simp add: encode_chunks_def slice_def nth_append Let_def max_chunk_def)
next
  case (Cons c cs)
  let ?n = "length c" and ?h = "show_hex (length c)"
  let ?d = "pre @ encode_chunks (c # cs) @ rest"
  have d: "?d = (pre @ encode_chunk c) @ encode_chunks cs @ rest" by (simp add: encode_chunks_def)
  have tail: "drop (length pre) ?d = ?h @ CR # LF # c @ CRLF @ encode_chunks cs @ rest"
    by (simp add: encode_chunks_def encode_chunk_def)
  have "index_str (drop (length pre) ?d) [CR, LF] = Some (length ?h)"
    unfolding tail by (rule index_CRLF) (rule show_hex_clean)
  moreover have "slice (length pre) (length pre + length ?h) ?d = ?h"
    unfolding slice_def tail by simp
  moreover have "length pre < length ?d" by (simp add: encode_chunks_def)
  moreover have "length pre + length ?h + 2 + ?n + 2 = length (pre @ encode_chunk c)"
    by (simp add: encode_chunk_def)
  moreover have "length (pre @ encode_chunk c) \<le> length ?d" by (simp add: encode_chunks_def)
  moreover have "find_chunked_from ?d (length (pre @ encode_chunk c)) =
      Some (length (pre @ encode_chunk c) + length (encode_chunks cs))"
    unfolding d by (rule Cons.IH) (use Cons.prems in auto)
  ultimately have "find_chunked_from ?d (length pre) =
      Some (length (pre @ encode_chunk c) + length (encode_chunks cs))"
    using Cons.prems chunk_size_read [of ?n]
    by (subst find_chunked_from.simps) (simp add: Let_def del: length_append)
  then show ?case by (simp add: encode_chunks_def)
qed

end
