(* ===== verification/HttpProps.thy ===== *)
theory HttpProps
  imports HttpFraming
begin

text \<open>
  What the parsers promise: framing independent of how TCP cut the stream, responses read back,
  the header line requests lose, names found in ClientHellos without ever indexing out of range,
  and the URL form of host names.
\<close>

section \<open>Framing\<close>

text \<open>Where a message ends does not depend on how the stream was cut: once a message with a
  CRLF header block is found in a buffer, its end is past the header, inside the buffer, and the
  same in every longer buffer.\<close>

theorem message_end_stable:
  assumes "indexDoubleCRLF data = Some i" and "length data < 2 ^ 63" and "0 \<le> findHTTPMessageEnd data"
  shows "2 \<le> findHTTPMessageEnd data \<and> findHTTPMessageEnd data \<le> int (length data) \<and>
    findHTTPMessageEnd (data @ rest) = findHTTPMessageEnd data"
  using findHTTPMessageEnd_bounds [OF assms(2,3)] findHTTPMessageEnd_prefix [OF assms(1) refl assms(3)]
  by simp

lemma block_end:
  assumes "ls \<noteq> []" and "\<forall>l \<in> set ls. clean l \<and> l \<noteq> []"
  shows "header_block_end (header_block ls @ body) = Some (length (header_block ls))"
    and "take (length (header_block ls)) (header_block ls @ body) = header_block ls"
proof -
  obtain ks k where ls: "ls = ks @ [k]" using assms(1) by (cases ls rule: rev_cases) auto
  have "length (header_text ls) + 4 = length (header_block ls)"
    by (simp add: ls header_text_snoc header_block_def)
  then show "header_block_end (header_block ls @ body) = Some (length (header_block ls))"
    using header_block_split(1) [OF assms, of body] by (simp add: header_block_end_def)
qed simp

text \<open>C19: Framing of well-formed messages. After a CRLF header block with a content length the
  message is the block and that many bytes, and it is waited for while fewer are there; after one
  that announces the chunked coding (and no length) the message is the block and the coded body,
  whatever the chunks and whatever follows; with neither, it is the block alone.\<close>

theorem message_framing:
  assumes "ls \<noteq> []" and "\<forall>l \<in> set ls. clean l \<and> l \<noteq> []"
    and "length (header_block ls) < 2 ^ 62"
  shows "(parseContentLength (header_block ls) = int (length body) \<and> length body < 2 ^ 62 \<longrightarrow>
      findHTTPMessageEnd (header_block ls @ body @ rest) = int (length (header_block ls @ body)) \<and>
      (body \<noteq> [] \<longrightarrow> findHTTPMessageEnd (header_block ls @ butlast body) = -1)) \<and>
    (parseContentLength (header_block ls) < 0 \<and> has_chunked (header_block ls) \<and>
        (\<forall>c \<in> set cs. c \<noteq> [] \<and> length c \<le> max_chunk) \<longrightarrow>
      findHTTPMessageEnd (header_block ls @ encode_chunks cs @ rest) =
        int (length (header_block ls @ encode_chunks cs))) \<and>
    (parseContentLength (header_block ls) < 0 \<and> \<not> has_chunked (header_block ls) \<longrightarrow>
      findHTTPMessageEnd (header_block ls @ rest) = int (length (header_block ls)))"
proof -
  note e = block_end [OF assms(1,2)]
  have w: "wrap64 (int (length (header_block ls)) + int (length body)) =
      int (length (header_block ls)) + int (length body)" if "length body < 2 ^ 62"
    using that assms(3) by (intro wrap64_id) auto
  have len: "findHTTPMessageEnd (header_block ls @ body @ rest) = int (length (header_block ls @ body)) \<and>
      (body \<noteq> [] \<longrightarrow> findHTTPMessageEnd (header_block ls @ butlast body) = -1)"
    if "parseContentLength (header_block ls) = int (length body)" "length body < 2 ^ 62"
    using that w by (cases body) (auto simp: findHTTPMessageEnd_def e Let_def)
  have chunked: "findHTTPMessageEnd (header_block ls @ encode_chunks cs @ rest) =
        int (length (header_block ls @ encode_chunks cs))"
    if "parseContentLength (header_block ls) < 0" "has_chunked (header_block ls)"
      "\<forall>c \<in> set cs. c \<noteq> [] \<and> length c \<le> max_chunk"
    using that find_chunked_encoded [of cs "[]" rest]
    by (auto simp: findHTTPMessageEnd_def e Let_def findChunkedEnd_def)
  have alone: "findHTTPMessageEnd (header_block ls @ rest) = int (length (header_block ls))"
    if "parseContentLength (header_block ls) < 0" "\<not> has_chunked (header_block ls)"
    using that by (auto simp: findHTTPMessageEnd_def e Let_def)
  show ?thesis using len chunked alone by blast
qed

section \<open>Responses read back\<close>

definition field_line :: "string \<times> string \<Rightarrow> bytes" where
  "field_line kv = fst kv @ '': '' @ snd kv"

definition good_field :: "string \<times> string \<Rightarrow> bool" where
  "good_field kv \<longleftrightarrow> fst kv \<noteq> [] \<and> CHR '':'' \<notin> set (fst kv) \<and> clean (fst kv) \<and> clean (snd kv) \<and>
     trim_space (fst kv) = fst kv \<and> trim_space (snd kv) = snd kv"

definition status_line :: "nat \<Rightarrow> string \<Rightarrow> bytes" where
  "status_line code reason = ''HTTP/1.1 '' @ show_nat code @ '' '' @ reason"

definition render_response :: "nat \<Rightarrow> string \<Rightarrow> header_map \<Rightarrow> bytes \<Rightarrow> bytes" where
  "render_response code reason hs body = header_block (status_line code reason # map field_line hs) @ body"

lemma clean_field: "good_field kv \<Longrightarrow> clean (field_line kv) \<and> field_line kv \<noteq> []"
  by (auto simp: good_field_def field_line_def clean_def)

lemma trim_space_blank: "trim_space (CHR '' '' # v) = trim_space v"
  by (simp add: trim_space_def trim_left_def is_space_char_def)

lemma response_headers_fields:
  assumes "\<forall>kv \<in> set hs. good_field kv" and "distinct (map fst (acc @ hs))"
    and "length ls = length hs" and "\<forall>i < length hs. trim_suffix (ls ! i) [CR] = field_line (hs ! i)"
  shows "response_headers ls acc = acc @ hs"
  using assms
proof (induction hs arbitrary: ls acc)
  case Nil
  then show ?case by simp
next
  case (Cons kv hs)
  obtain l ls' where ls: "ls = l # ls'" using Cons.prems(3) by (cases ls) auto
  have l: "trim_suffix l [CR] = field_line kv" using Cons.prems(4) ls by auto
  have g: "good_field kv" using Cons.prems(1) by simp
  obtain k v where kv: "kv = (k, v)" by (cases kv)
  have "k \<notin> fst ` set acc" using Cons.prems(2) by (auto simp: kv)
  then have u: "AList.update k v acc = acc @ [(k, v)]"
    by (induction acc) auto
  have "response_headers ls acc = response_headers ls' (acc @ [(k, v)])"
    using g clean_field [OF g] unfolding ls
    by (simp add: l Let_def kv field_line_def good_field_def index_byte_append trim_space_blank u)
  also have "\<dots> = (acc @ [(k, v)]) @ hs"
    using Cons.prems by (intro Cons.IH) (auto simp: ls kv nth_Cons' split: if_splits)
  finally show ?case by (simp add: kv)
qed

lemma split_n_status:
  assumes "CHR '' '' \<notin> set a" and "CHR '' '' \<notin> set b"
  shows "split_n 3 (CHR '' '') (a @ CHR '' '' # b @ CHR '' '' # c) = [a, b, c]"
  using assms by (simp add: numeral_3_eq_3 index_byte_append)

text \<open>A response built from a status code of 100 to 599, a reason, header fields with distinct
  clean names and a body is read back exactly: the code, the fields in order, the body.\<close>

theorem response_roundtrip:
  assumes "100 \<le> code" and "code \<le> 599" and "clean reason"
    and "\<forall>kv \<in> set hs. good_field kv" and "distinct (map fst hs)"
  shows "parseHTTPResponse (render_response code reason hs body) =
    Some \<lparr>resp_StatusCode = int code, resp_Headers = hs, resp_Body = body\<rparr>"
proof -
  let ?s = "status_line code reason" and ?ls = "status_line code reason # map field_line hs"
  have num: "clean (show_nat code)" "CHR '' '' \<notin> set (show_nat code)"
    using show_nat_digits [of _ code] digit_not_special by (fastforce simp: clean_def)+
  have s: "clean ?s" "?s \<noteq> []"
    using num assms(3) by (auto simp: status_line_def clean_def)
  have ok: "?ls \<noteq> []" "\<forall>l \<in> set ?ls. clean l \<and> l \<noteq> []"
    using s assms(4) clean_field by auto
  note b = header_block_split [OF ok, of body]
  obtain ks k where ks: "?ls = ks @ [k]" by (metis list.distinct(1) rev_exhaust)
  have "split_on LF (header_text ?ls) = map (\<lambda>l. l @ [CR]) ks @ [k]"
    unfolding ks by (rule split_on_header_text) (use ok ks in auto)
  moreover define ws where "ws = map (\<lambda>l. l @ [CR]) ks @ [k]"
  ultimately have split: "split_on LF (header_text ?ls) = ws" by simp
  have len: "length ws = length ?ls" unfolding ws_def ks by simp
  have "trim_suffix (ws ! i) [CR] = (ks @ [k]) ! i" if "i < length ws" for i
    using that ok(2) unfolding ks
    by (cases "i < length ks") (auto simp: ws_def nth_append trim_suffix_clean)
  then have trims: "trim_suffix (ws ! i) [CR] = ?ls ! i" if "i < length ?ls" for i
    using that len unfolding ks by simp
  have first: "trim_suffix (hd ws) [CR] = ?s"
    using trims [of 0] len by (cases ws) simp_all
  have parts: "split_n 3 (CHR '' '') ?s = [''HTTP/1.1'', show_nat code, reason]"
    using split_n_status [of "''HTTP/1.1''" "show_nat code" reason] num by (simp add: status_line_def)
  have fields: "response_headers (tl ws) [] = hs"
    using response_headers_fields [of hs "[]" "tl ws"] assms(4,5) len trims
    by (simp add: nth_tl)
  have "sscanf_d (show_nat code) = Some (int code)"
    using assms(2) by (intro sscanf_d_show_nat) simp
  then have "parseHTTPResponseFromHeader (header_text ?ls) body =
      Some \<lparr>resp_StatusCode = int code, resp_Headers = hs, resp_Body = body\<rparr>"
    using assms(1,2) unfolding parseHTTPResponseFromHeader_def split Let_def first parts fields
    by simp
  then show ?thesis
    unfolding parseHTTPResponse_def render_response_def b(1) option.case b(2) b(3) .
qed


section \<open>Requests, and the header line they lose\<close>

lemma trim_fixed:
  assumes "trim_right P (trim_left P v) = v" and "v \<noteq> []"
  shows "\<not> P (hd v) \<and> \<not> P (last v)"
proof
  have len: "length (trim_right P w) \<le> length w" for w
    using length_dropWhile_le [of P "rev w"] by (simp add: trim_right_def)
  have "length v \<le> length (trim_left P v)" using len [of "trim_left P v"] assms(1) by simp
  then have l: "trim_left P v = v"
    using length_dropWhile_le [of P v] suffix_dropWhile [of P v]
    by (metis le_antisym suffix_length_suffix suffix_order.eq_iff trim_left_def length_dropWhile_le suffix_def append_eq_append_conv append_Nil)
  then show "\<not> P (hd v)" using assms(2) unfolding trim_left_def by (metis hd_dropWhile)
  have "trim_right P v = v" using assms(1) l by simp
  then have "dropWhile P (rev v) = rev v" by (simp add: trim_right_def) (metis rev_rev_ident)
  then show "\<not> P (last v)" using assms(2) by (metis hd_dropWhile hd_rev rev_is_Nil_conv)
qed

lemma trim_id:
  assumes "v = [] \<or> \<not> P (hd v) \<and> \<not> P (last v)"
  shows "trim_right P (trim_left P v) = v"
proof (cases v rule: rev_cases)
  case Nil
  then show ?thesis by (simp add: trim_right_def trim_left_def)
next
  case (snoc u x)
  have "trim_left P v = v"
  proof (cases v)
    case Nil
    then show ?thesis by (simp add: trim_left_def)
  next
    case (Cons a w)
    then show ?thesis using assms by (simp add: trim_left_def)
  qed
  moreover have "trim_right P v = v" using assms snoc by (simp add: trim_right_def)
  ultimately show ?thesis by simp
qed

lemma bytesTrimSpace_id:
  "v = [] \<or> hd v \<noteq> CHR '' '' \<and> last v \<noteq> CHR '' '' \<Longrightarrow> bytesTrimSpace v = v"
  unfolding bytesTrimSpace_def trim_char_def by (rule trim_id) auto

lemma trim_space_ends:
  "trim_space v = v \<Longrightarrow> v = [] \<or> hd v \<noteq> CHR '' '' \<and> last v \<noteq> CHR '' ''"
  using trim_fixed [of is_space_char v] by (auto simp: trim_space_def is_space_char_def)

lemma bytesTrimSpace_value: "trim_space v = v \<Longrightarrow> bytesTrimSpace (CHR '' '' # v) = v"
  using bytesTrimSpace_id [OF trim_space_ends, of v]
  by (simp add: bytesTrimSpace_def trim_char_def trim_left_def)

lemma request_line_read:
  assumes "l \<noteq> []" and "hd l \<noteq> CHR '' ''"
  shows "trimCR (bytesTrimSpace (l @ [CR])) = l"
  using assms bytesTrimSpace_id [of "l @ [CR]"] by (cases l) (simp_all add: trimCR_def)

lemma indexByte_LF: "clean l \<Longrightarrow> indexByte (l @ CR # LF # s) LF = Some (length l + 1)"
  using index_byte_append [of LF "l @ [CR]" s] by (simp add: indexByte_def index_byte_def clean_def)

definition host_field :: "header_map \<Rightarrow> string" where
  "host_field hs = foldl (\<lambda>h (k, v). if equal_fold k ''Host'' then v else h) [] hs"

lemma request_headers_fields:
  assumes "\<forall>kv \<in> set hs. good_field kv" and "distinct (map fst (acc @ hs))" and "LF \<notin> set l"
  shows "request_headers (crlf_lines (map field_line hs) @ l) acc host =
    (acc @ hs, foldl (\<lambda>h (k, v). if equal_fold k ''Host'' then v else h) host hs)"
  using assms
proof (induction hs arbitrary: acc host)
  case Nil
  then have "indexByte l LF = None" by (auto simp: indexByte_def index_where_None)
  then show ?case by (simp add: request_headers.simps)
next
  case (Cons kv hs)
  obtain k v where kv: "kv = (k, v)" by (cases kv)
  have g: "good_field kv" using Cons.prems(1) by simp
  then have k: "k \<noteq> []" "CHR '':'' \<notin> set k" "trim_space v = v" "hd k \<noteq> CHR '' ''"
    using trim_space_ends [of k] by (auto simp: good_field_def kv)
  let ?f = "field_line kv"
  have f: "?f = k @ CHR '':'' # CHR '' '' # v" by (simp add: field_line_def kv)
  have line: "trimCR (bytesTrimSpace (?f @ [CR])) = ?f"
    by (rule request_line_read) (use k f in auto)
  have colon: "indexByte ?f (CHR '':'') = Some (length k)"
    using index_byte_append [OF k(2)] by (simp add: f indexByte_def index_byte_def)
  have nl: "indexByte (crlf_lines (map field_line (kv # hs)) @ l) LF = Some (length ?f + 1)"
    using indexByte_LF clean_field [OF g] by simp
  have tk: "take (length ?f + 1) (crlf_lines (map field_line (kv # hs)) @ l) = ?f @ [CR]" by simp
  have dr: "drop (Suc (length ?f + 1)) (crlf_lines (map field_line (kv # hs)) @ l) =
      crlf_lines (map field_line hs) @ l" by simp
  have "k \<notin> fst ` set acc" using Cons.prems(2) by (auto simp: kv)
  then have u: "AList.update k v acc = acc @ [(k, v)]" by (induction acc) auto
  have parts: "take (length k) ?f = k" "drop (length k + 1) ?f = CHR '' '' # v" "?f \<noteq> []"
    by (simp_all add: f)
  have "request_headers (crlf_lines (map field_line (kv # hs)) @ l) acc host =
      request_headers (crlf_lines (map field_line hs) @ l) (acc @ [(k, v)])
        (if equal_fold k ''Host'' then v else host)"
    using k parts
    by (subst request_headers.simps)
       (simp only: nl tk dr line colon option.case Let_def u bytesTrimSpace_value length_greater_0_conv
          if_True if_False refl simp_thms)
  also have "\<dots> = ((acc @ [(k, v)]) @ hs,
      foldl (\<lambda>h (k, v). if equal_fold k ''Host'' then v else h) (if equal_fold k ''Host'' then v else host) hs)"
    using Cons.prems by (intro Cons.IH) (simp_all add: kv)
  finally show ?case by (simp add: kv)
qed

definition request_line :: "string \<Rightarrow> string \<Rightarrow> bytes" where
  "request_line mthd path = mthd @ '' '' @ path @ '' HTTP/1.1''"

definition good_word :: "string \<Rightarrow> bool" where
  "good_word w \<longleftrightarrow> w \<noteq> [] \<and> clean w \<and> CHR '' '' \<notin> set w"

text \<open>The host part of the URL.\<close>

definition url_host :: "header_map \<Rightarrow> ip \<Rightarrow> string" where
  "url_host hs srcIP = (if host_field hs = [] then formatIPForURL srcIP else formatHostForURL (host_field hs))"

text \<open>What a well-formed request is read as: its method, path, body and header fields, except
  that the last header line is never read, whatever it is. A \<open>Host\<close> field in that place is lost
  and the URL is built from the client's address, and a request with no header line at all is not
  recognised.\<close>

theorem request_loses_last_line:
  assumes "good_word mthd" and "good_word path" and "has_prefix path ''/''"
    and "\<forall>kv \<in> set hs. good_field kv" and "distinct (map fst hs)" and "clean l" and "l \<noteq> []"
  shows "(\<exists>req. parseHTTPRequest now proc
        (header_block (request_line mthd path # map field_line hs @ [l]) @ body) srcIP port = Some req \<and>
      cr_Method req = mthd \<and> cr_Path req = path \<and> cr_ReqHeaders req = hs \<and> cr_ReqBody req = body \<and>
      cr_Host req = url_host hs srcIP \<and> cr_IsHTTPS req = (port = 443) \<and>
      cr_URL req = (if port = 443 then ''https'' else ''http'') @ ''://'' @ url_host hs srcIP @  path) \<and>
    parseHTTPRequest now proc (header_block [request_line mthd path] @ body) srcIP port = None"
proof -
  let ?r = "request_line mthd path"
  let ?ls = "?r # map field_line hs @ [l]"
  have r: "clean ?r" "?r \<noteq> []" "hd ?r \<noteq> CHR '' ''"
    using assms(1,2) by (cases mthd; auto simp: request_line_def good_word_def clean_def)+
  have ok: "?ls \<noteq> []" "\<forall>x \<in> set ?ls. clean x \<and> x \<noteq> []"
    using r assms(4,6,7) clean_field by auto
  note b = header_block_split [OF ok, of body]
  have htext: "header_text ?ls = ?r @ CR # LF # (crlf_lines (map field_line hs) @ l)"
    using header_text_snoc [of "?r # map field_line hs" l] by simp
  have nl: "indexByte (header_text ?ls) LF = Some (length ?r + 1)"
    unfolding htext by (rule indexByte_LF [OF r(1)])
  have rest: "drop (Suc (length ?r + 1)) (header_text ?ls) = crlf_lines (map field_line hs) @ l"
    unfolding htext by simp
  have first: "bytesTrimSpace (take (length ?r + 1) (header_text ?ls)) = ?r @ [CR]"
    unfolding htext using r bytesTrimSpace_id [of "?r @ [CR]"] by simp
  have sp1: "indexByte (?r @ [CR]) (CHR '' '') = Some (length mthd)"
    using index_byte_append [of "CHR '' ''" mthd] assms(1)
    by (simp add: request_line_def good_word_def indexByte_def index_byte_def)
  have sp2: "indexByte (drop (length mthd + 1) (?r @ [CR])) (CHR '' '') = Some (length path)"
    using index_byte_append [of "CHR '' ''" path] assms(2)
    by (simp add: request_line_def good_word_def indexByte_def index_byte_def)
  have parts: "take (length mthd) (?r @ [CR]) = mthd"
      "take (length path) (drop (length mthd + 1) (?r @ [CR])) = path"
    by (simp_all add: request_line_def)
  have hdr: "request_headers (crlf_lines (map field_line hs) @ l) [] [] = (hs, host_field hs)"
    using request_headers_fields [of hs "[]" l "[]"] assms(4,5,6) by (simp add: host_field_def clean_def)
  have none: "parseHTTPRequest now proc (header_block [?r] @ body) srcIP port = None"
  proof -
    have ok1: "[?r] \<noteq> []" "\<forall>x \<in> set [?r]. clean x \<and> x \<noteq> []" using r by auto
    note b1 = header_block_split [OF ok1, of body]
    have "indexByte (header_text [?r]) LF = None"
      using r(1) by (auto simp: clean_def indexByte_def index_where_None)
    then show ?thesis
      unfolding parseHTTPRequest_def b1(1) option.case b1(2) Let_def by simp
  qed
  show ?thesis
    using assms(3) none
    unfolding parseHTTPRequest_def b(1) option.case b(2) b(3) Let_def nl first sp1 parts sp2 rest hdr prod.case
    by (simp add: url_host_def zero_request_def)
qed


section \<open>Server names\<close>

lemma byte_at_Some: "byte_at data i = Some n \<Longrightarrow> n < 256 \<and> i < length data"
  by (auto simp: byte_at_def split: if_splits)

lemma byte_at_safe: "i < length data \<Longrightarrow> \<exists>n. byte_at data i = Some n"
  by (simp add: byte_at_def)

lemma u16_at_safe: "i + 2 \<le> length data \<Longrightarrow> \<exists>n. u16_at data i = Some n"
  using byte_at_safe [of i data] byte_at_safe [of "i + 1" data] by (auto simp: u16_at_def)

lemma u16_at_Some: "u16_at data i = Some n \<Longrightarrow> n < 65536"
  by (auto simp: u16_at_def bind_eq_Some_conv dest!: byte_at_Some)

lemma sni_names_safe:
  "e \<le> length data \<Longrightarrow> \<exists>name. sni_names data i e = Some name \<and> length name < 65536"
proof (induction data i e rule: sni_names.induct)
  case (1 data i e)
  show ?case
  proof (cases "i + 3 \<le> e")
    case True
    then obtain t n where t: "byte_at data i = Some t" and n: "u16_at data (i + 1) = Some n"
      using byte_at_safe [of i data] u16_at_safe [of "i + 1" data] "1.prems" by auto
    show ?thesis
    proof (cases "t = 0 \<and> i + 3 + n \<le> e")
      case hit: True
      then have "sni_names data i e = Some (slice (i + 3) (i + 3 + n) data)"
        using True t n "1.prems" by (subst sni_names.simps) (simp add: slice_at_def Let_def)
      then show ?thesis using u16_at_Some [OF n] by simp
    next
      case False
      then have "sni_names data i e = sni_names data (i + 3 + n) e"
        using True t n by (subst sni_names.simps) (auto simp: Let_def)
      then show ?thesis using "1.IH" [OF True t n refl False "1.prems"] by simp
    qed
  next
    case False
    then show ?thesis by (subst sni_names.simps) simp
  qed
qed

lemma sni_extensions_safe:
  "e \<le> length data \<Longrightarrow> \<exists>name. sni_extensions data i e = Some name \<and> length name < 65536"
proof (induction data i e rule: sni_extensions.induct)
  case (1 data i e)
  show ?case
  proof (cases "i + 4 \<le> e")
    case True
    then obtain t n where t: "u16_at data i = Some t" and n: "u16_at data (i + 2) = Some n"
      using u16_at_safe [of i data] u16_at_safe [of "i + 2" data] "1.prems" by auto
    show ?thesis
    proof (cases "t = 0")
      case zero: True
      show ?thesis
      proof (cases "i + 4 + 2 > e")
        case out: True
        then show ?thesis using True t n zero by (subst sni_extensions.simps) (simp add: Let_def)
      next
        case False
        then obtain m where "u16_at data (i + 4) = Some m"
          using u16_at_safe [of "i + 4" data] "1.prems" by auto
        then have "sni_extensions data i e = sni_names data (i + 4 + 2) (min (i + 4 + 2 + m) e)"
          using True t n zero False by (subst sni_extensions.simps) (simp add: Let_def)
        then show ?thesis using sni_names_safe [of "min (i + 4 + 2 + m) e" data] "1.prems" by simp
      qed
    next
      case False
      then have "sni_extensions data i e = sni_extensions data (i + 4 + n) e"
        using True t n by (subst sni_extensions.simps) (auto simp: Let_def)
      then show ?thesis using "1.IH" [OF True t n refl False "1.prems"] by simp
    qed
  next
    case False
    then show ?thesis by (subst sni_extensions.simps) simp
  qed
qed

text \<open>Reading the server name never indexes or slices outside the packet, however its length
  fields lie: every input gives a name (empty when there is none), of less than 65536 bytes.\<close>

theorem extractSNI_never_panics: "\<exists>name. extractSNI data = Some name \<and> length name < 65536"
proof (cases "length data < 44")
  case True
  then show ?thesis by (simp add: extractSNI_def)
next
  case False
  obtain h where h: "byte_at data 5 = Some h" using byte_at_safe [of 5 data] False by auto
  obtain a where a: "byte_at data 43 = Some a" using byte_at_safe [of 43 data] False by auto
  show ?thesis
  proof (cases "h = 1 \<and> 44 + a + 2 \<le> length data")
    case True
    then obtain b where b: "u16_at data (44 + a) = Some b" using u16_at_safe [of "44 + a" data] by auto
    let ?o = "44 + a + 2 + b"
    show ?thesis
    proof (cases "?o < length data")
      case o: True
      obtain c where c: "byte_at data ?o = Some c" using byte_at_safe [OF o] by auto
      let ?p = "?o + 1 + c"
      show ?thesis
      proof (cases "?p + 2 \<le> length data")
        case p: True
        then obtain d where d: "u16_at data ?p = Some d" using u16_at_safe by blast
        have "extractSNI data = sni_extensions data (?p + 2) (min (?p + 2 + d) (length data))"
          using False True h a b c d o p by (simp add: extractSNI_def Let_def)
        then show ?thesis using sni_extensions_safe [of "min (?p + 2 + d) (length data)" data "?p + 2"] by simp
      next
        case p: False
        then show ?thesis using False True h a b c o by (simp add: extractSNI_def Let_def)
      qed
    next
      case o: False
      then show ?thesis using False True h a b by (simp add: extractSNI_def Let_def)
    qed
  next
    case hn: False
    then show ?thesis using False h a by (auto simp: extractSNI_def Let_def)
  qed
qed

text \<open>The fields of a ClientHello, as RFC 8446 lays them out.\<close>

definition be16 :: "nat \<Rightarrow> bytes" where
  "be16 n = [char_of (n div 256), char_of (n mod 256)]"

lemma length_be16 [simp]: "length (be16 n) = 2"
  by (simp add: be16_def)

definition extension :: "nat \<times> bytes \<Rightarrow> bytes" where
  "extension e = be16 (fst e) @ be16 (length (snd e)) @ snd e"

definition name_list :: "string \<Rightarrow> bytes" where
  "name_list name = be16 (length name + 3) @ [char_of (0 :: nat)] @ be16 (length name) @ name"

definition client_hello :: "bytes \<Rightarrow> bytes \<Rightarrow> bytes \<Rightarrow> bytes \<Rightarrow> bytes \<Rightarrow> bytes \<Rightarrow> bytes \<Rightarrow> bytes" where
  "client_hello rec len3 random sid suites comps exts =
     rec @ [char_of (1 :: nat)] @ len3 @ random @ [char_of (length sid)] @ sid @
     be16 (length suites) @ suites @ [char_of (length comps)] @ comps @ be16 (length exts) @ exts"

lemma code_byte: "n < 256 \<Longrightarrow> char_code (char_of n) = n"
  by (simp add: take_bit_eq_mod)

lemma byte_at_app: "i = length xs \<Longrightarrow> n < 256 \<Longrightarrow> byte_at (xs @ char_of n # ys) i = Some n"
  by (simp add: byte_at_def code_byte del: of_char_of)

lemma u16_at_app: "i = length xs \<Longrightarrow> n < 65536 \<Longrightarrow> u16_at (xs @ be16 n @ ys) i = Some n"
proof -
  assume i: "i = length xs" and n: "n < 65536"
  then have "n div 256 < 256" by simp
  have "byte_at (xs @ be16 n @ ys) i = Some (n div 256)"
    using byte_at_app [OF i \<open>n div 256 < 256\<close>] by (simp add: be16_def)
  moreover have "byte_at (xs @ be16 n @ ys) (i + 1) = Some (n mod 256)"
    using byte_at_app [of "i + 1" "xs @ [char_of (n div 256)]" "n mod 256" ys] i by (simp add: be16_def)
  ultimately show ?thesis by (simp add: u16_at_def)
qed

lemma sni_extensions_found:
  assumes "\<forall>e \<in> set es. 0 < fst e \<and> fst e < 65536 \<and> length (snd e) < 65536"
    and "length name + 5 < 65536"
    and "exts = concat (map extension es) @ extension (0, name_list name) @ rest"
    and "i = length xs"
  shows "sni_extensions (xs @ exts) i (length xs + length exts) = Some name"
  using assms(1,3,4)
proof (induction es arbitrary: xs exts i)
  case Nil
  let ?data = "xs @ exts"
  have l: "length (name_list name) = length name + 5" by (simp add: name_list_def be16_def)
  have e: "exts = be16 0 @ be16 (length name + 5) @ be16 (length name + 3) @
      char_of (0 :: nat) # be16 (length name) @ name @ rest"
    using Nil.prems(2) unfolding concat.simps list.map append_Nil extension_def fst_conv snd_conv l
    by (simp add: name_list_def)
  have t: "u16_at ?data i = Some 0"
    unfolding e using Nil.prems by (intro u16_at_app) auto
  have n: "u16_at ?data (i + 2) = Some (length name + 5)"
    using u16_at_app [of "i + 2" "xs @ be16 0" "length name + 5"] assms(2) Nil.prems(3)
    by (simp add: e be16_def)
  have m: "u16_at ?data (i + 4) = Some (length name + 3)"
    using u16_at_app [of "i + 4" "xs @ be16 0 @ be16 (length name + 5)" "length name + 3"] assms(2) Nil.prems(3)
    by (simp add: e be16_def)
  have ty: "byte_at ?data (i + 6) = Some 0"
    using byte_at_app [of "i + 6" "xs @ be16 0 @ be16 (length name + 5) @ be16 (length name + 3)" 0] Nil.prems(3)
    by (simp add: e be16_def)
  have nl7: "u16_at ?data (i + 7) = Some (length name)"
    using u16_at_app [of "i + 7" "xs @ be16 0 @ be16 (length name + 5) @ be16 (length name + 3) @ [char_of (0 :: nat)]"
        "length name"] assms(2) Nil.prems(3)
    by (simp add: e be16_def)
  have "i + 6 + 1 = i + 7" by simp
  with nl7 have nl: "u16_at ?data (i + 6 + 1) = Some (length name)" by (simp only:)
  have le: "length exts = 9 + length name + length rest" by (simp add: e be16_def)
  have sl: "slice (i + 6 + 3) (i + 6 + 3 + length name) ?data = name"
    using Nil.prems(3) by (simp add: e be16_def slice_def)
  have "sni_names ?data (i + 6) (i + 6 + (length name + 3)) = Some name"
    using ty nl le sl Nil.prems(3)
    by (subst sni_names.simps) (simp add: slice_at_def Let_def)
  then show ?case
    using t n m le Nil.prems(3)
    by (subst sni_extensions.simps) (simp add: Let_def min_def add.commute)
next
  case (Cons x es)
  obtain ty d where x: "x = (ty, d)" by (cases x)
  let ?tail = "concat (map extension es) @ extension (0, name_list name) @ rest"
  have e: "exts = extension x @ ?tail" using Cons.prems(2) by simp
  have lx: "length (extension x) = 4 + length d" by (simp add: x extension_def be16_def)
  have ih: "sni_extensions ((xs @ extension x) @ ?tail) (length (xs @ extension x))
      (length (xs @ extension x) + length ?tail) = Some name"
    by (rule Cons.IH [OF _ refl refl]) (use Cons.prems in auto)
  have t: "u16_at (xs @ exts) i = Some ty"
    using u16_at_app [of i xs ty] Cons.prems by (simp add: e x extension_def)
  have n: "u16_at (xs @ exts) (i + 2) = Some (length d)"
    using u16_at_app [of "i + 2" "xs @ be16 ty" "length d"] Cons.prems by (simp add: e x extension_def be16_def)
  have "sni_extensions (xs @ exts) i (length xs + length exts) =
      sni_extensions (xs @ exts) (i + 4 + length d) (length xs + length exts)"
    using t n Cons.prems lx e
    by (subst sni_extensions.simps) (auto simp: Let_def x)
  then show ?case using ih Cons.prems(3) by (simp add: e lx add.assoc)
qed

text \<open>The server name of every well-formed ClientHello is found, whatever the record and
  handshake lengths, the session id, the cipher suites, the compression methods, the extensions
  before it and what follows it.\<close>

theorem extractSNI_finds_name:
  assumes "length rec = 5" and "length len3 = 3" and "length random = 34"
    and "length sid < 256" and "length suites < 65536" and "length comps < 256"
    and "\<forall>e \<in> set es. 0 < fst e \<and> fst e < 65536 \<and> length (snd e) < 65536"
    and "length name + 5 < 65536"
    and "length (concat (map extension es) @ extension (0, name_list name) @ rest) < 65536"
  shows "extractSNI (client_hello rec len3 random sid suites comps
    (concat (map extension es) @ extension (0, name_list name) @ rest)) = Some name"
proof -
  define exts where "exts = concat (map extension es) @ extension (0, name_list name) @ rest"
  let ?p1 = "rec @ [char_of (1 :: nat)] @ len3 @ random"
  let ?p2 = "?p1 @ [char_of (length sid)] @ sid"
  let ?p3 = "?p2 @ be16 (length suites) @ suites"
  let ?p4 = "?p3 @ [char_of (length comps)] @ comps"
  let ?p5 = "?p4 @ be16 (length exts)"
  define d where "d = client_hello rec len3 random sid suites comps exts"
  have lens: "length ?p1 = 43" "length ?p2 = 44 + length sid"
    "length ?p3 = 46 + length sid + length suites"
    "length ?p4 = 47 + length sid + length suites + length comps"
    "length ?p5 = 49 + length sid + length suites + length comps"
    using assms by (simp_all add: be16_def)
  have d5: "d = ?p5 @ exts" by (simp add: d_def client_hello_def)
  have h: "byte_at d 5 = Some 1"
    using byte_at_app [of 5 rec 1] assms(1) by (simp add: d_def client_hello_def)
  have a: "byte_at d 43 = Some (length sid)"
    using byte_at_app [of 43 ?p1 "length sid"] lens assms by (simp add: d_def client_hello_def)
  have b: "u16_at d (44 + length sid) = Some (length suites)"
    using u16_at_app [of "44 + length sid" ?p2 "length suites"] lens assms by (simp add: d_def client_hello_def)
  have c: "byte_at d (46 + length sid + length suites) = Some (length comps)"
    using byte_at_app [of "46 + length sid + length suites" ?p3 "length comps"] lens assms
    by (simp add: d_def client_hello_def)
  have e: "u16_at d (47 + length sid + length suites + length comps) = Some (length exts)"
    using u16_at_app [of "47 + length sid + length suites + length comps" ?p4 "length exts"] lens assms
    by (simp add: d_def client_hello_def exts_def)
  have l: "length d = 49 + length sid + length suites + length comps + length exts"
    unfolding d5 length_append [of ?p5 exts] lens(5) ..
  have "sni_extensions (?p5 @ exts) (length ?p5) (length ?p5 + length exts) = Some name"
    by (rule sni_extensions_found [OF assms(7,8) exts_def refl])
  then have "sni_extensions d (49 + length sid + length suites + length comps) (length d) = Some name"
    unfolding l by (simp only: d5 lens(5))
  then have "extractSNI d = Some name"
    using h a b c e by (simp add: extractSNI_def Let_def l numeral_eq_Suc)
  then show ?thesis by (simp add: d_def exts_def)
qed


section \<open>The properties at concrete messages\<close>

definition ok_lines :: "bytes list" where
  "ok_lines = [''HTTP/1.1 200 OK'', ''Content-Length: 2'']"

lemma ok_lines_facts:
  "ok_lines \<noteq> []" "\<forall>l \<in> set ok_lines. clean l \<and> l \<noteq> []" "length (header_block ok_lines) = 38"
  "parseContentLength (header_block ok_lines) = 2"
  by (simp_all add: ok_lines_def clean_def header_block_def) code_simp

theorem message_framing_witness:
  "findHTTPMessageEnd (header_block ok_lines @ ''hi'' @ ''HTTP/1.1 204'') = 40 \<and>
   findHTTPMessageEnd (header_block ok_lines @ ''h'') = -1"
  using message_framing [OF ok_lines_facts(1,2), of "''hi''" "''HTTP/1.1 204''" "[]"]
  by (simp add: ok_lines_facts)

theorem message_end_stable_witness:
  "findHTTPMessageEnd ((header_block ok_lines @ ''hi'') @ ''more'') = 40"
proof -
  have "indexDoubleCRLF (header_block ok_lines @ ''hi'') = Some (length (header_text ok_lines))"
    using header_block_split(1) ok_lines_facts by blast
  moreover have e: "findHTTPMessageEnd (header_block ok_lines @ ''hi'') = 40"
    using block_end [OF ok_lines_facts(1,2), of "''hi''"]
    by (simp add: findHTTPMessageEnd_def ok_lines_facts wrap64_def)
  ultimately show ?thesis
    using message_end_stable [of "header_block ok_lines @ ''hi''" _ "''more''"] by (simp add: ok_lines_facts)
qed

theorem response_roundtrip_witness:
  "parseHTTPResponse (render_response 404 ''Not Found'' [(''Server'', ''x y'')] ''gone'') =
    Some \<lparr>resp_StatusCode = 404, resp_Headers = [(''Server'', ''x y'')], resp_Body = ''gone''\<rparr>"
proof -
  have "trim_space ''Server'' = ''Server''" "trim_space ''x y'' = ''x y''" by code_simp+
  then show ?thesis
    using response_roundtrip [of 404 "''Not Found''" "[(''Server'', ''x y'')]" "''gone''"]
    by (simp add: clean_def good_field_def)
qed

theorem request_loses_last_line_witness:
  "\<exists>req. parseHTTPRequest 1 None
      (header_block [request_line ''GET'' ''/a'', ''Host: example.org''] @ []) [10, 0, 0, 7] 80 = Some req \<and>
    cr_URL req = ''http://10.0.0.7/a'' \<and> cr_ReqHeaders req = []"
proof -
  have "url_host [] [10, 0, 0, 7] = ''10.0.0.7''" by code_simp
  then show ?thesis
    using request_loses_last_line [of "''GET''" "''/a''" "[]" "''Host: example.org''" 1 None "[]"
        "[10, 0, 0, 7]" 80]
    by (auto simp: good_word_def clean_def has_prefix_def)
qed

theorem extractSNI_finds_name_witness:
  "extractSNI (client_hello (replicate 5 LF) (replicate 3 LF) (replicate 34 CR) [LF] [LF, LF] [CR]
     (concat (map extension [(23, []), (65281, [CR])]) @ extension (0, name_list ''a.org'') @ [LF])) =
   Some ''a.org''"
  by (rule extractSNI_finds_name) (simp_all add: extension_def name_list_def)

end
