(* ===== verification/Stream.thy ===== *)
theory Stream
  imports Engine HttpProps
begin

text \<open>
  \<open>TCPStream\<close> of \<^verbatim>\<open>internal/capture/engine.go\<close>: two buffers, the pending request, and how
  arriving segments turn into emitted records. The engine is passed along and returned. An
  operation reads the clock once, as \<open>now\<close>; \<open>proc\<close> is what \<open>ResolveProcess\<close> answers for the
  stream's client address in it. The locks make every operation atomic.
\<close>

section \<open>State\<close>

record tcp_stream =
  ts_srcIP :: ip
  ts_srcPort :: nat
  ts_dstPort :: nat
  ts_clientPort :: nat
  ts_clientBuf :: bytes
  ts_serverBuf :: bytes
  ts_lastActive :: instant
  ts_pendingReq :: "captured_request option"
  ts_nonHTTP :: bool
  ts_firstData :: bool
  ts_sniEmitted :: bool
  ts_key :: string
  ts_ssePending :: bool
  ts_sseReqID :: int
  ts_sseBuf :: bytes

text \<open>\<open>TCPStreamPool.New\<close>\<close>

definition New_stream :: "instant \<Rightarrow> ip \<Rightarrow> nat \<Rightarrow> nat \<Rightarrow> tcp_stream" where
  "New_stream now clientIP clientPort serverPort =
     \<lparr>ts_srcIP = clientIP, ts_srcPort = clientPort, ts_dstPort = serverPort,
      ts_clientPort = clientPort, ts_clientBuf = [], ts_serverBuf = [], ts_lastActive = now,
      ts_pendingReq = None, ts_nonHTTP = False, ts_firstData = False, ts_sniEmitted = False,
      ts_key = [], ts_ssePending = False, ts_sseReqID = 0, ts_sseBuf = []\<rparr>"

text \<open>
  \<open>time.Since(t).Milliseconds()\<close>; since the zero time it is the longest duration.
\<close>

definition since_ms :: "instant \<Rightarrow> instant option \<Rightarrow> int" where
  "since_ms now t = (case t of
      Some t \<Rightarrow> (if now \<ge> t then (now - t) div 1000000 else - ((t - now) div 1000000))
    | None \<Rightarrow> 9223372036854)"

text \<open>The longest buffer a Go slice can hold; longer lists do not stand for a slice.\<close>

definition is_slice :: "bytes \<Rightarrow> bool" where
  "is_slice b \<longleftrightarrow> length b < 2 ^ 63"

text \<open>The response fields written into the pending request.\<close>

definition with_response ::
  "instant \<Rightarrow> http_response \<Rightarrow> nat \<Rightarrow> captured_request \<Rightarrow> captured_request" where
  "with_response now resp sz req =
     req\<lparr>cr_StatusCode := resp_StatusCode resp, cr_ResHeaders := resp_Headers resp,
         cr_ResBody := resp_Body resp, cr_DurationMs := since_ms now (cr_CapturedAt req),
         cr_SizeBytes := int sz\<rparr>"

section \<open>Extracting messages\<close>

text \<open>
  The request part of an iteration: with no pending request, the next message of the client
  buffer is consumed and becomes it. \<open>None\<close> is the early return; the stream may have changed.
\<close>

definition take_request ::
  "instant \<Rightarrow> process_info option \<Rightarrow> tcp_stream \<Rightarrow> bool \<times> tcp_stream" where
  "take_request now proc s =
     (if ts_pendingReq s \<noteq> None then (True, s)
      else if ts_clientBuf s = [] then (False, s)
      else let idx = findHTTPMessageEnd (ts_clientBuf s) in
           if idx < 0 \<or> \<not> is_slice (ts_clientBuf s) then (False, s)
           else
             let msgData = take (nat idx) (ts_clientBuf s);
                 s = s\<lparr>ts_clientBuf := drop (nat idx) (ts_clientBuf s)\<rparr>;
                 s = (if isHTTPResponse msgData then s
                      else case parseHTTPRequest now proc msgData (ts_srcIP s) (ts_dstPort s) of
                             Some req \<Rightarrow> s\<lparr>ts_pendingReq := Some req\<rparr>
                           | None \<Rightarrow> s)
             in (ts_pendingReq s \<noteq> None, s))"

text \<open>
  A server-sent-event response: its header is saved at once. A failed save ends the stream.
\<close>

definition take_sse ::
  "instant \<Rightarrow> nat \<Rightarrow> captured_request \<Rightarrow> tcp_stream \<Rightarrow> engine \<Rightarrow> tcp_stream \<times> engine" where
  "take_sse now idx pending s e =
     (let msgData = take idx (ts_serverBuf s);
          s = s\<lparr>ts_serverBuf := drop idx (ts_serverBuf s)\<rparr>
      in case parseHTTPResponse msgData of
           None \<Rightarrow> (s, e)
         | Some resp \<Rightarrow>
             if resp_StatusCode resp \<ge> 200 then
               (let req = (with_response now resp (length msgData) pending)
                      \<lparr>cr_IsSSE := True, cr_SSEEvents := resp_Body resp\<rparr>
                in case Save now req (en_store e) of
                     (Inl err, _, st) \<Rightarrow>
                       (s\<lparr>ts_pendingReq := None, ts_nonHTTP := True, ts_clientBuf := [],
                          ts_serverBuf := []\<rparr>, e\<lparr>en_store := st\<rparr>)
                   | (Inr i, req, st) \<Rightarrow>
                       (s\<lparr>ts_pendingReq := None, ts_ssePending := True, ts_sseReqID := i\<rparr>,
                        send_hub [Update (set_ID i req)]
                          (e\<lparr>en_store := st, en_HTTPFound := en_HTTPFound e + 1\<rparr>)))
             else (s, e))"

text \<open>Any other response: the message is consumed and, unless it is informational, emitted.\<close>

definition take_response ::
  "instant \<Rightarrow> nat \<Rightarrow> captured_request \<Rightarrow> tcp_stream \<Rightarrow> engine \<Rightarrow> tcp_stream \<times> engine" where
  "take_response now idx pending s e =
     (let msgData = take idx (ts_serverBuf s);
          s = s\<lparr>ts_serverBuf := drop idx (ts_serverBuf s)\<rparr>
      in case parseHTTPResponse msgData of
           None \<Rightarrow> (s, e)
         | Some resp \<Rightarrow>
             if resp_StatusCode resp \<ge> 100 \<and> resp_StatusCode resp < 200 then (s, e)
             else (s\<lparr>ts_pendingReq := None\<rparr>,
                   emitNonBlocking now (with_response now resp (length msgData) pending) e))"

text \<open>
  One iteration of the loop of \<open>tryExtractHTTP\<close>: whether it goes on, the stream and the engine.
\<close>

definition extract_step ::
  "instant \<Rightarrow> process_info option \<Rightarrow> tcp_stream \<Rightarrow> engine \<Rightarrow> bool \<times> tcp_stream \<times> engine" where
  "extract_step now proc s e =
     (case take_request now proc s of
        (False, s) \<Rightarrow> (False, s, e)
      | (True, s) \<Rightarrow>
          if ts_serverBuf s = [] then (False, s, e)
          else if \<not> isHTTPResponse (ts_serverBuf s) then (False, s, e)
          else
            let idx = findHTTPMessageEnd (ts_serverBuf s) in
            if idx < 0 \<or> \<not> is_slice (ts_serverBuf s) then (False, s, e)
            else
              let headerData = take (nat idx) (ts_serverBuf s);
                  hasCL = (parseContentLength headerData \<ge> 0);
                  hasChunked = has_chunked headerData;
                  pending = the (ts_pendingReq s)
              in if isSSEHeader headerData \<and> \<not> hasCL \<and> \<not> hasChunked then
                   (True, take_sse now (nat idx) pending s e)
                 else
                   let statusCode = parseStatusCodeFromHeader headerData in
                   if \<not> hasCL \<and> \<not> hasChunked \<and> statusCode > 0 \<and> \<not> responseCanHaveNoBody statusCode
                   then (False, s, e)
                   else (True, take_response now (nat idx) pending s e))"

text \<open>What is left to do: buffered bytes, and the pending request.\<close>

definition work :: "tcp_stream \<Rightarrow> nat" where
  "work s = length (ts_clientBuf s) + length (ts_serverBuf s) + (if ts_pendingReq s = None then 0 else 1)"

lemma message_end_positive: "is_slice b \<Longrightarrow> 0 \<le> findHTTPMessageEnd b \<Longrightarrow> 2 \<le> nat (findHTTPMessageEnd b)"
  using findHTTPMessageEnd_bounds [of b] by (auto simp: is_slice_def)

lemma take_request_work:
  assumes "take_request now proc s = (ok, s')"
  shows "work s' \<le> work s \<and> (ok \<longrightarrow> ts_pendingReq s' \<noteq> None) \<and> ts_serverBuf s' = ts_serverBuf s"
  using assms message_end_positive [of "ts_clientBuf s"]
  by (cases "ts_clientBuf s")
     (auto simp: take_request_def work_def Let_def split: if_splits option.splits)

lemma take_sse_work:
  assumes "ts_pendingReq s \<noteq> None" and "0 < idx" and "ts_serverBuf s \<noteq> []"
  shows "work (fst (take_sse now idx pending s e)) < work s"
  using assms by (auto simp: take_sse_def work_def Let_def split: option.splits prod.splits sum.splits)

lemma take_response_work:
  assumes "ts_pendingReq s \<noteq> None" and "0 < idx" and "ts_serverBuf s \<noteq> []"
  shows "work (fst (take_response now idx pending s e)) < work s"
  using assms by (auto simp: take_response_def work_def Let_def split: option.splits)

lemma extract_step_work:
  assumes "extract_step now proc s e = (ok, s', e')"
  shows "work s' \<le> work s \<and> (ok \<longrightarrow> work s' < work s)"
proof -
  obtain ok1 s1 where t: "take_request now proc s = (ok1, s1)" by fastforce
  note w = take_request_work [OF t]
  let ?idx = "findHTTPMessageEnd (ts_serverBuf s1)"
  have pos: "0 < nat ?idx" if "is_slice (ts_serverBuf s1)" "0 \<le> ?idx"
    using message_end_positive [OF that] by simp
  consider (stop) "ok = False" "s' = s1"
    | (sse) "ok1" "0 < nat ?idx" "ts_serverBuf s1 \<noteq> []"
        "(s', e') = take_sse now (nat ?idx) (the (ts_pendingReq s1)) s1 e"
    | (resp) "ok1" "0 < nat ?idx" "ts_serverBuf s1 \<noteq> []"
        "(s', e') = take_response now (nat ?idx) (the (ts_pendingReq s1)) s1 e"
    using assms t pos
    by (cases ok1) (auto simp: extract_step_def Let_def not_less split: if_splits)
  then show ?thesis
  proof cases
    case stop
    then show ?thesis using w by simp
  next
    case sse
    then have "work s' < work s1" using w take_sse_work by (metis fst_conv)
    then show ?thesis using w by simp
  next
    case resp
    then have "work s' < work s1" using w take_response_work by (metis fst_conv)
    then show ?thesis using w by simp
  qed
qed

function tryExtractHTTP ::
  "instant \<Rightarrow> process_info option \<Rightarrow> tcp_stream \<Rightarrow> engine \<Rightarrow> tcp_stream \<times> engine" where
  "tryExtractHTTP now proc s e =
     (case extract_step now proc s e of
        (False, s, e) \<Rightarrow> (s, e)
      | (True, s, e) \<Rightarrow> tryExtractHTTP now proc s e)"
  by pat_completeness auto
termination
  by (relation "measure (\<lambda>(now, proc, s, e). work s)") (auto dest: extract_step_work [OF sym])

declare tryExtractHTTP.simps [simp del]

lemma tryExtractHTTP_work: "tryExtractHTTP now proc s e = (s', e') \<Longrightarrow> work s' \<le> work s"
proof (induction now proc s e rule: tryExtractHTTP.induct)
  case (1 now proc s e)
  obtain ok s1 e1 where st: "extract_step now proc s e = (ok, s1, e1)" by (metis prod_cases3)
  show ?case
    using "1.prems" "1.IH" [OF st [symmetric] _ refl] extract_step_work [OF st] st
    by (cases ok) (auto simp: tryExtractHTTP.simps [of now proc s e])
qed


section \<open>Closing\<close>

text \<open>
  The server part of an iteration of \<open>tryExtractHTTPOnClose\<close>: the pending request with the response
  it gets, or \<open>None\<close> for the \<open>continue\<close> of an informational response.
\<close>

definition close_response ::
  "instant \<Rightarrow> bytes \<Rightarrow> captured_request \<Rightarrow> captured_request option" where
  "close_response now buf req =
     (if buf = [] then Some req
      else case indexDoubleCRLF buf of
        Some headerEnd \<Rightarrow>
          (case parseHTTPResponseFromHeader (take headerEnd buf) (drop (headerEnd + 4) buf) of
             None \<Rightarrow> Some req
           | Some resp \<Rightarrow>
               if resp_StatusCode resp \<ge> 100 \<and> resp_StatusCode resp < 200 then None
               else Some (with_response now resp (length buf) req))
      | None \<Rightarrow>
          if isHTTPResponse buf then
            (case parseHTTPResponse buf of
               None \<Rightarrow> Some req
             | Some resp \<Rightarrow>
                 if resp_StatusCode resp \<ge> 200 then Some (with_response now resp (length buf) req)
                 else Some req)
          else Some req)"

definition close_step ::
  "instant \<Rightarrow> process_info option \<Rightarrow> tcp_stream \<Rightarrow> engine \<Rightarrow> bool \<times> tcp_stream \<times> engine" where
  "close_step now proc s e =
     (case tryExtractHTTP now proc s e of
        (s, e) \<Rightarrow>
          if ts_pendingReq s = None \<and> ts_clientBuf s = [] then (False, s, e)
          else
            let s = (if ts_pendingReq s = None then snd (take_request now proc s) else s) in
            case ts_pendingReq s of
              None \<Rightarrow> (False, s\<lparr>ts_clientBuf := [], ts_serverBuf := []\<rparr>, e)
            | Some req \<Rightarrow>
                (case close_response now (ts_serverBuf s) req of
                   None \<Rightarrow> (True, s\<lparr>ts_serverBuf := []\<rparr>, e)
                 | Some req \<Rightarrow>
                     (True, s\<lparr>ts_pendingReq := None, ts_serverBuf := [], ts_clientBuf := []\<rparr>,
                      emitNonBlocking now req e)))"

lemma close_response_nonempty: "close_response now buf req = None \<Longrightarrow> buf \<noteq> []"
  by (auto simp: close_response_def)

lemma close_step_work:
  assumes "close_step now proc s e = (True, s', e')"
  shows "work s' < work s"
proof -
  obtain s1 e1 where t: "tryExtractHTTP now proc s e = (s1, e1)" by fastforce
  obtain ok s2 where r: "take_request now proc s1 = (ok, s2)" by fastforce
  define s3 where "s3 = (if ts_pendingReq s1 = None then s2 else s1)"
  have w: "work s3 \<le> work s"
    using tryExtractHTTP_work [OF t] take_request_work [OF r] by (simp add: s3_def)
  obtain req where p: "ts_pendingReq s3 = Some req"
    using assms t r by (auto simp: close_step_def s3_def Let_def split: if_splits option.splits)
  have "s' = s3\<lparr>ts_serverBuf := []\<rparr> \<and> ts_serverBuf s3 \<noteq> [] \<or>
      s' = s3\<lparr>ts_pendingReq := None, ts_serverBuf := [], ts_clientBuf := []\<rparr>"
  proof (cases "close_response now (ts_serverBuf s3) req")
    case None
    then show ?thesis
      using assms t r p close_response_nonempty [OF None]
      by (auto simp: close_step_def s3_def Let_def split: if_splits)
  next
    case (Some req')
    then show ?thesis
      using assms t r p by (auto simp: close_step_def s3_def Let_def split: if_splits)
  qed
  then have "work s' < work s3" using p by (auto simp: work_def)
  then show ?thesis using w by simp
qed

function tryExtractHTTPOnClose ::
  "instant \<Rightarrow> process_info option \<Rightarrow> tcp_stream \<Rightarrow> engine \<Rightarrow> tcp_stream \<times> engine" where
  "tryExtractHTTPOnClose now proc s e =
     (case close_step now proc s e of
        (False, s, e) \<Rightarrow> (s, e)
      | (True, s, e) \<Rightarrow> tryExtractHTTPOnClose now proc s e)"
  by pat_completeness auto
termination
  by (relation "measure (\<lambda>(now, proc, s, e). work s)") (auto dest: close_step_work [OF sym])

declare tryExtractHTTPOnClose.simps [simp del]

section \<open>Server-sent events\<close>

definition flushSSEEvents :: "tcp_stream \<Rightarrow> engine \<Rightarrow> engine" where
  "flushSSEEvents s e =
     (if ts_sseReqID s \<le> 0 \<or> ts_sseBuf s = [] then e
      else
        let events = ts_sseBuf s;
            st = snd (UpdateResBody (ts_sseReqID s) events events (int (length events)) (en_store e))
        in send_hub [Update (zero_request\<lparr>cr_ID := ts_sseReqID s, cr_IsSSE := True,
                               cr_SizeBytes := int (length events)\<rparr>)] (e\<lparr>en_store := st\<rparr>))"

text \<open>The end of a stream: its event buffer, or what is left in its message buffers.\<close>

definition flush_stream ::
  "instant \<Rightarrow> process_info option \<Rightarrow> tcp_stream \<Rightarrow> engine \<Rightarrow> tcp_stream \<times> engine" where
  "flush_stream now proc s e =
     (if ts_ssePending s then (s, flushSSEEvents s e) else tryExtractHTTPOnClose now proc s e)"

section \<open>Feeding\<close>

definition emitTLSRecord :: "instant \<Rightarrow> string \<Rightarrow> tcp_stream \<Rightarrow> engine \<Rightarrow> engine" where
  "emitTLSRecord now sni s e =
     (let headers = [(''TLS-SNI'', sni), (''Dst-Port'', show_nat (ts_dstPort s))];
          headers = (if ts_srcIP s \<noteq> []
                     then headers @ [(''Src-IP'', ip_string (ts_srcIP s)), (''Src-Port'', show_nat (ts_srcPort s))]
                     else headers)
      in emitNonBlocking now
           (zero_request\<lparr>cr_Method := ''TLS'', cr_URL := ''https://'' @ sni @ ''/'', cr_Host := sni,
              cr_Path := ''/'', cr_Protocol := ''HTTPS/TLS'', cr_IsHTTPS := True,
              cr_ReqHeaders := headers, cr_ResBody := ''[TLS encrypted - content not available]'',
              cr_CapturedAt := Some now, cr_CaptureMode := ''nic''\<rparr>) e)"

definition streamBufLimit :: "engine \<Rightarrow> nat" where
  "streamBufLimit e = (if en_maxResBytes e > 0 then nat (en_maxResBytes e) else 4 * 1024 * 1024)"

text \<open>Server data of a stream whose response is a server-sent-event stream.\<close>

definition feed_sse :: "bytes \<Rightarrow> tcp_stream \<Rightarrow> engine \<Rightarrow> tcp_stream \<times> engine" where
  "feed_sse data s e =
     (let s = s\<lparr>ts_sseBuf := ts_sseBuf s @ data\<rparr>;
          e = (if length (ts_sseBuf s) \<ge> 4096 then flushSSEEvents s e else e);
          s = (if int (length (ts_sseBuf s)) > en_maxResBytes e
               then s\<lparr>ts_sseBuf := drop (nat (int (length (ts_sseBuf s)) - en_maxResBytes e)) (ts_sseBuf s)\<rparr>
               else s)
      in (s, e))"

text \<open>
  The first data of a stream: what does not look like HTTP marks the stream, after the server
  name of a ClientHello was recorded. A panic of \<open>extractSNI\<close> cannot happen
  (\<open>extractSNI_never_panics\<close>).
\<close>

definition classify :: "instant \<Rightarrow> tcp_stream \<Rightarrow> engine \<Rightarrow> tcp_stream \<times> engine" where
  "classify now s e =
     (let s = s\<lparr>ts_firstData := True\<rparr>;
          first = (if ts_clientBuf s \<noteq> [] then ts_clientBuf s else ts_serverBuf s)
      in if first \<noteq> [] \<and> \<not> looksLikeHTTP first then
           (let (s, e) = (if isTLSClientHello first \<and> \<not> ts_sniEmitted s then
                            (let sni = the (extractSNI first) in
                             if sni \<noteq> [] then (s\<lparr>ts_sniEmitted := True\<rparr>, emitTLSRecord now sni s e)
                             else (s, e))
                          else (s, e))
            in (s\<lparr>ts_nonHTTP := True, ts_clientBuf := [], ts_serverBuf := []\<rparr>, e))
         else (s, e))"

definition limit_buffers :: "nat \<Rightarrow> tcp_stream \<Rightarrow> tcp_stream" where
  "limit_buffers bufLimit s =
     (let s = (if length (ts_clientBuf s) > bufLimit
               then s\<lparr>ts_clientBuf := truncateBuffer (ts_clientBuf s) bufLimit\<rparr> else s)
      in if length (ts_serverBuf s) > bufLimit
         then s\<lparr>ts_serverBuf := truncateBuffer (ts_serverBuf s) bufLimit\<rparr> else s)"

definition Feed ::
  "instant \<Rightarrow> process_info option \<Rightarrow> bytes \<Rightarrow> bool \<Rightarrow> tcp_stream \<Rightarrow> engine \<Rightarrow> tcp_stream \<times> engine" where
  "Feed now proc data clientToServer s e =
     (let s = s\<lparr>ts_lastActive := now\<rparr> in
      if ts_nonHTTP s then (s, e)
      else if ts_ssePending s \<and> \<not> clientToServer then feed_sse data s e
      else
        let s = (if clientToServer then s\<lparr>ts_clientBuf := ts_clientBuf s @ data\<rparr>
                 else s\<lparr>ts_serverBuf := ts_serverBuf s @ data\<rparr>);
            (s, e) = (if \<not> ts_firstData s then classify now s e else (s, e))
        in if ts_nonHTTP s then (s, e)
           else
             (let (s, e) = tryExtractHTTP now proc s e in (limit_buffers (streamBufLimit e) s, e)))"

end
