(* ===== verification/StreamProps.thy ===== *)
theory StreamProps
  imports Stream
begin

text \<open>
  What a stream does with the segments it is fed: the buffers stay within the configured limit;
  a well-formed exchange is recorded exactly once and as sent, however TCP cut it; what is lost.
\<close>

section \<open>What extraction leaves alone\<close>

lemma take_request_frame:
  "take_request now proc s = (ok, s') \<Longrightarrow>
     ts_sseBuf s' = ts_sseBuf s \<and> ts_firstData s' = ts_firstData s \<and> ts_nonHTTP s' = ts_nonHTTP s \<and>
     ts_ssePending s' = ts_ssePending s \<and> length (ts_clientBuf s') \<le> length (ts_clientBuf s)"
  by (auto simp: take_request_def Let_def split: if_splits option.splits)

lemma take_sse_frame:
  assumes "take_sse now idx pending s e = (s', e')"
  shows "en_maxResBytes e' = en_maxResBytes e \<and> ts_sseBuf s' = ts_sseBuf s"
  using assms by (auto simp: take_sse_def Let_def split: if_splits option.splits prod.splits sum.splits)

lemma take_response_frame:
  assumes "take_response now idx pending s e = (s', e')"
  shows "en_maxResBytes e' = en_maxResBytes e \<and> ts_sseBuf s' = ts_sseBuf s"
  using assms by (auto simp: take_response_def Let_def split: if_splits option.splits)

lemma extract_step_frame:
  assumes "extract_step now proc s e = (ok, s', e')"
  shows "en_maxResBytes e' = en_maxResBytes e \<and> ts_sseBuf s' = ts_sseBuf s"
proof -
  obtain ok1 s1 where t: "take_request now proc s = (ok1, s1)" by fastforce
  note f = take_request_frame [OF t]
  let ?i = "nat (findHTTPMessageEnd (ts_serverBuf s1))"
  consider (stop) "s' = s1" "e' = e"
    | (sse) "(s', e') = take_sse now ?i (the (ts_pendingReq s1)) s1 e"
    | (resp) "(s', e') = take_response now ?i (the (ts_pendingReq s1)) s1 e"
    using assms t by (cases ok1) (auto simp: extract_step_def Let_def split: if_splits)
  then show ?thesis
    using f take_sse_frame [OF sym] take_response_frame [OF sym] by cases (simp, metis, metis)
qed

lemma tryExtractHTTP_frame:
  "tryExtractHTTP now proc s e = (s', e') \<Longrightarrow> en_maxResBytes e' = en_maxResBytes e \<and> ts_sseBuf s' = ts_sseBuf s"
proof (induction now proc s e rule: tryExtractHTTP.induct)
  case (1 now proc s e)
  obtain ok s1 e1 where st: "extract_step now proc s e = (ok, s1, e1)" by (metis prod_cases3)
  show ?case
    using "1.prems" "1.IH" [OF st [symmetric] _ refl] extract_step_frame [OF st] st
    by (cases ok) (auto simp: tryExtractHTTP.simps [of now proc s e])
qed

section \<open>The buffers stay bounded\<close>

lemma truncateBuffer_le: "length (truncateBuffer buf n) \<le> n"
  by (auto simp: truncateBuffer_def Let_def split: option.splits)

lemma limit_buffers_le:
  "length (ts_clientBuf (limit_buffers n s)) \<le> n" "length (ts_serverBuf (limit_buffers n s)) \<le> n"
  "ts_sseBuf (limit_buffers n s) = ts_sseBuf s"
  by (auto simp: limit_buffers_def Let_def truncateBuffer_le)

definition within :: "engine \<Rightarrow> tcp_stream \<Rightarrow> bool" where
  "within e s \<longleftrightarrow> en_maxResBytes e > 0 \<and> int (length (ts_clientBuf s)) \<le> en_maxResBytes e \<and>
     int (length (ts_serverBuf s)) \<le> en_maxResBytes e \<and> int (length (ts_sseBuf s)) \<le> en_maxResBytes e"

lemma flushSSEEvents_frame [simp]: "en_maxResBytes (flushSSEEvents s e) = en_maxResBytes e"
  by (simp add: flushSSEEvents_def Let_def)

lemma feed_sse_within: "within e s \<Longrightarrow> feed_sse data s e = (s', e') \<Longrightarrow> within e' s'"
  by (auto simp: feed_sse_def within_def Let_def)

lemma emitTLSRecord_frame [simp]: "en_maxResBytes (emitTLSRecord now sni s e) = en_maxResBytes e"
  by (simp add: emitTLSRecord_def Let_def)

lemma classify_cases:
  assumes "classify now s e = (s', e')"
  shows "ts_sseBuf s' = ts_sseBuf s \<and> en_maxResBytes e' = en_maxResBytes e \<and>
    (ts_nonHTTP s' \<and> ts_clientBuf s' = [] \<and> ts_serverBuf s' = [] \<or> s' = s\<lparr>ts_firstData := True\<rparr> \<and> e' = e)"
  using assms by (auto simp: classify_def Let_def split: if_splits)

lemma Feed_within:
  assumes w: "within e s" and f: "Feed now proc data c2s s e = (s', e')"
  shows "within e' s'"
proof -
  define s0 where "s0 = s\<lparr>ts_lastActive := now\<rparr>"
  have w0: "within e s0" using w by (simp add: within_def s0_def)
  consider (non) "ts_nonHTTP s0" | (sse) "\<not> ts_nonHTTP s0" "ts_ssePending s0 \<and> \<not> c2s"
    | (msg) "\<not> ts_nonHTTP s0" "\<not> (ts_ssePending s0 \<and> \<not> c2s)" by blast
  then show ?thesis
  proof cases
    case non
    then show ?thesis using f w0 unfolding Feed_def s0_def [symmetric] Let_def by auto
  next
    case sse
    then have "feed_sse data s0 e = (s', e')" using f unfolding Feed_def s0_def [symmetric] Let_def by auto
    then show ?thesis by (rule feed_sse_within [OF w0])
  next
    case msg
    define s1 where "s1 = (if c2s then s0\<lparr>ts_clientBuf := ts_clientBuf s0 @ data\<rparr>
                 else s0\<lparr>ts_serverBuf := ts_serverBuf s0 @ data\<rparr>)"
    obtain s2 e2 where c: "(if \<not> ts_firstData s1 then classify now s1 e else (s1, e)) = (s2, e2)" by fastforce
    have c2: "ts_sseBuf s2 = ts_sseBuf s0" "en_maxResBytes e2 = en_maxResBytes e"
      "ts_nonHTTP s2 \<Longrightarrow> ts_clientBuf s2 = [] \<and> ts_serverBuf s2 = []"
      using c classify_cases [of now s1 e s2 e2] msg(1) by (auto simp: s1_def split: if_splits)
    obtain s3 e3 where t: "tryExtractHTTP now proc s2 e2 = (s3, e3)" by fastforce
    note tf = tryExtractHTTP_frame [OF t]
    have r: "(s', e') = (if ts_nonHTTP s2 then (s2, e2) else (limit_buffers (streamBufLimit e3) s3, e3))"
      using f msg c t unfolding Feed_def s0_def [symmetric] Let_def
      by (auto simp: s1_def split: if_splits)
    show ?thesis
    proof (cases "ts_nonHTTP s2")
      case True
      then show ?thesis using r c2 w0 by (simp add: within_def)
    next
      case False
      then have "s' = limit_buffers (streamBufLimit e3) s3" "e' = e3" using r by auto
      then show ?thesis
        using w0 c2 tf limit_buffers_le [of "streamBufLimit e3" s3]
        by (auto simp: within_def streamBufLimit_def)
    qed
  qed
qed

text \<open>A run of segments: time, data, and whether the client sent it.\<close>

fun feed_all ::
  "process_info option \<Rightarrow> (instant \<times> bytes \<times> bool) list \<Rightarrow> tcp_stream \<Rightarrow> engine \<Rightarrow> tcp_stream \<times> engine" where
  "feed_all proc [] s e = (s, e)"
| "feed_all proc ((now, data, c2s) # segs) s e =
     (case Feed now proc data c2s s e of (s, e) \<Rightarrow> feed_all proc segs s e)"

lemma feed_all_append:
  "feed_all proc (xs @ ys) s e = (case feed_all proc xs s e of (s, e) \<Rightarrow> feed_all proc ys s e)"
  by (induction proc xs s e rule: feed_all.induct) (auto split: prod.splits)

text \<open>C20: Whatever segments arrive, in whatever order and of whatever size and content, each of
  the three buffers of a stream stays within the engine's response limit.\<close>

theorem stream_buffers_bounded:
  assumes "en_maxResBytes e > 0"
    and "feed_all proc segs (New_stream now p cp sp) e = (s', e')"
  shows "int (length (ts_clientBuf s')) \<le> en_maxResBytes e' \<and>
    int (length (ts_serverBuf s')) \<le> en_maxResBytes e' \<and> int (length (ts_sseBuf s')) \<le> en_maxResBytes e'"
proof -
  have "within e1 s1 \<Longrightarrow> feed_all proc segs s1 e1 = (s2, e2) \<Longrightarrow> within e2 s2" for s1 e1 s2 e2
    by (induction proc segs s1 e1 rule: feed_all.induct) (auto intro: Feed_within split: prod.splits)
  moreover have "within e (New_stream now p cp sp)"
    using assms(1) by (simp add: within_def New_stream_def)
  ultimately have "within e' s'" using assms(2) by blast
  then show ?thesis by (simp add: within_def)
qed


section \<open>Messages that wait to be complete\<close>

text \<open>A complete message no strict prefix of which is taken for one.\<close>

definition is_message :: "bytes \<Rightarrow> bool" where
  "is_message R \<longleftrightarrow> R \<noteq> [] \<and> is_slice R \<and> findHTTPMessageEnd R = int (length R) \<and>
     (\<forall>k < length R. findHTTPMessageEnd (take k R) < 0)"

definition LF_after_CR :: "bytes \<Rightarrow> bool" where
  "LF_after_CR s \<longleftrightarrow> (\<forall>i < length s. s ! i = LF \<longrightarrow> 0 < i \<and> s ! (i - 1) = CR)"

lemma LF_after_CR_line:
  assumes l: "LF \<notin> set l" and s: "LF_after_CR s"
  shows "LF_after_CR (l @ CR # LF # s)"
proof (unfold LF_after_CR_def, intro allI impI)
  fix i assume i: "i < length (l @ CR # LF # s)" and at: "(l @ CR # LF # s) ! i = LF"
  consider "i < length l" | "i = length l" | "i = length l + 1" | "length l + 2 \<le> i" by linarith
  then show "0 < i \<and> (l @ CR # LF # s) ! (i - 1) = CR"
  proof cases
    case 1
    then show ?thesis using at l by (simp add: nth_append) (metis nth_mem)
  next
    case 2
    then show ?thesis using at by (simp add: nth_append)
  next
    case 3
    then show ?thesis by (simp add: nth_append)
  next
    case 4
    then obtain j where j: "i = length l + 2 + j" by (metis le_Suc_ex)
    then have "s ! j = LF" "j < length s" using at i by (simp_all add: nth_append)
    then have "0 < j" "s ! (j - 1) = CR" using s by (auto simp: LF_after_CR_def)
    then show ?thesis using j by (cases j) (simp_all add: nth_append)
  qed
qed

lemma LF_after_CR_block:
  assumes "\<forall>l \<in> set ls. clean l"
  shows "LF_after_CR (header_block ls)"
proof -
  have e: "LF_after_CR []" by (simp add: LF_after_CR_def)
  have "LF_after_CR (crlf_lines ls @ CR # LF # [])"
    using assms LF_after_CR_line [of "[]" "[]", OF _ e]
  proof (induction ls)
    case (Cons l ls)
    then show ?case using LF_after_CR_line [of l "crlf_lines ls @ CR # LF # []"] by (auto simp: clean_def)
  qed simp
  then show ?thesis by (simp add: header_block_def)
qed

lemma LF_after_CR_no_LFLF: "LF_after_CR s \<Longrightarrow> index_str (take k s) [LF, LF] = None"
proof (rule ccontr)
  assume a: "LF_after_CR s" and "index_str (take k s) [LF, LF] \<noteq> None"
  then have "\<exists>u v. take k s = u @ [LF, LF] @ v" using index_str_None [of "take k s" "[LF, LF]"] by simp
  then obtain u v where "take k s = u @ [LF, LF] @ v" by blast
  moreover obtain w where "take k s @ w = s" using append_take_drop_id [of k s] by metis
  ultimately have s: "s = u @ LF # LF # (v @ w)" by simp
  have at: "s ! (length u + 1) = LF" "s ! (length u) = LF"
    by (simp_all add: s nth_append)
  have "length u + 1 < length s" by (simp add: s)
  with a at(1) have "s ! (length u) = CR" by (auto simp: LF_after_CR_def)
  with at(2) show False by simp
qed

lemma complete_is_message:
  assumes ls: "ls \<noteq> []" "\<forall>l \<in> set ls. clean l \<and> l \<noteq> []"
    and sl: "is_slice (header_block ls @ body)"
    and fin: "findHTTPMessageEnd (header_block ls @ body) = int (length (header_block ls @ body))"
  shows "is_message (header_block ls @ body)"
proof -
  let ?R = "header_block ls @ body"
  have "findHTTPMessageEnd (take k ?R) < 0" if k: "k < length ?R" for k
  proof (rule ccontr)
    assume "\<not> findHTTPMessageEnd (take k ?R) < 0"
    then have pos: "0 \<le> findHTTPMessageEnd (take k ?R)" by simp
    show False
    proof (cases "indexDoubleCRLF (take k ?R)")
      case (Some i)
      have "findHTTPMessageEnd (take k ?R @ drop k ?R) = findHTTPMessageEnd (take k ?R)"
        by (rule findHTTPMessageEnd_prefix [OF Some refl pos])
      then have "int (length ?R) = findHTTPMessageEnd (take k ?R)"
        unfolding append_take_drop_id fin .
      also have "\<dots> \<le> int (length (take k ?R))"
        using findHTTPMessageEnd_bounds [OF _ pos] sl by (simp add: is_slice_def)
      finally show False using k by simp
    next
      case None
      have "k < length (header_block ls)"
      proof (rule ccontr)
        assume "\<not> k < length (header_block ls)"
        then have "take k ?R = header_block ls @ take (k - length (header_block ls)) body" by simp
        then show False using header_block_split(1) [OF ls] None by simp
      qed
      then have tk: "take k ?R = take k (header_block ls)" by simp
      have "index_str (take k (header_block ls)) [LF, LF] = None"
        by (rule LF_after_CR_no_LFLF [OF LF_after_CR_block]) (use ls(2) in blast)
      then have "index_str (take k ?R) [LF, LF] = None" unfolding tk .
      then show False using pos None by (simp add: findHTTPMessageEnd_def header_block_end_def)
    qed
  qed
  then show ?thesis using sl fin ls by (auto simp: is_message_def header_block_def)
qed

section \<open>Feeding an exchange\<close>

lemma take_request_pending: "ts_pendingReq s \<noteq> None \<Longrightarrow> take_request now proc s = (True, s)"
  by (simp add: take_request_def)

lemma take_request_empty:
  "ts_pendingReq s = None \<Longrightarrow> ts_clientBuf s = [] \<Longrightarrow> take_request now proc s = (False, s)"
  by (simp add: take_request_def)

lemma try_stops: "extract_step now proc s e = (False, s', e') \<Longrightarrow> tryExtractHTTP now proc s e = (s', e')"
  by (simp add: tryExtractHTTP.simps)

lemma try_idle:
  "ts_pendingReq s = None \<Longrightarrow> ts_clientBuf s = [] \<Longrightarrow> tryExtractHTTP now proc s e = (s, e)"
  by (intro try_stops) (simp add: extract_step_def take_request_empty)

lemma limit_buffers_id:
  "length (ts_clientBuf s) \<le> n \<Longrightarrow> length (ts_serverBuf s) \<le> n \<Longrightarrow> limit_buffers n s = s"
  by (simp add: limit_buffers_def Let_def)

text \<open>A stream that speaks HTTP and is not in an event stream.\<close>

definition talking :: "tcp_stream \<Rightarrow> bool" where
  "talking s \<longleftrightarrow> \<not> ts_nonHTTP s \<and> \<not> ts_ssePending s"

lemma Feed_client:
  assumes "talking s" and "ts_firstData s \<or> looksLikeHTTP (ts_clientBuf s @ d)" and "d \<noteq> []"
  shows "Feed now proc d True s e =
    (case tryExtractHTTP now proc (s\<lparr>ts_lastActive := now, ts_clientBuf := ts_clientBuf s @ d,
        ts_firstData := True\<rparr>) e of
       (s, e) \<Rightarrow> (limit_buffers (streamBufLimit e) s, e))"
proof -
  let ?s = "s\<lparr>ts_lastActive := now, ts_clientBuf := ts_clientBuf s @ d\<rparr>"
  let ?t = "s\<lparr>ts_lastActive := now, ts_clientBuf := ts_clientBuf s @ d, ts_firstData := True\<rparr>"
  have c: "(if \<not> ts_firstData ?s then classify now ?s e else (?s, e)) = (?t, e)"
    using assms by (cases s) (auto simp: classify_def Let_def)
  have "Feed now proc d True s e =
      (case (if \<not> ts_firstData ?s then classify now ?s e else (?s, e)) of (s, e) \<Rightarrow>
         if ts_nonHTTP s then (s, e)
         else (case tryExtractHTTP now proc s e of (s, e) \<Rightarrow> (limit_buffers (streamBufLimit e) s, e)))"
    using assms(1) unfolding Feed_def talking_def Let_def by simp
  then show ?thesis unfolding c using assms(1) by (simp add: talking_def)
qed

lemma Feed_server:
  assumes "talking s" and "ts_firstData s"
  shows "Feed now proc d False s e =
    (case tryExtractHTTP now proc (s\<lparr>ts_lastActive := now, ts_serverBuf := ts_serverBuf s @ d\<rparr>) e of
       (s, e) \<Rightarrow> (limit_buffers (streamBufLimit e) s, e))"
  using assms by (simp add: Feed_def talking_def Let_def)

text \<open>A segment of a request: the buffer grows until the message is complete.\<close>

lemma feed_request_part:
  assumes "talking s" and "ts_firstData s \<or> looksLikeHTTP (ts_clientBuf s @ d)" and "d \<noteq> []"
    and "ts_pendingReq s = None" and "ts_serverBuf s = []"
    and "findHTTPMessageEnd (ts_clientBuf s @ d) < 0" and "length (ts_clientBuf s @ d) \<le> streamBufLimit e"
  shows "Feed now proc d True s e =
    (s\<lparr>ts_lastActive := now, ts_clientBuf := ts_clientBuf s @ d, ts_firstData := True\<rparr>, e)"
proof -
  let ?s = "s\<lparr>ts_lastActive := now, ts_clientBuf := ts_clientBuf s @ d, ts_firstData := True\<rparr>"
  have "take_request now proc ?s = (False, ?s)" using assms by (simp add: take_request_def)
  then have "tryExtractHTTP now proc ?s e = (?s, e)" by (intro try_stops) (simp add: extract_step_def)
  then show ?thesis using Feed_client [OF assms(1-3)] assms(5,7) by (simp add: limit_buffers_id)
qed

lemma feed_request_done:
  assumes "talking s" and "ts_firstData s \<or> looksLikeHTTP (ts_clientBuf s @ d)" and "d \<noteq> []"
    and "ts_pendingReq s = None" and "ts_serverBuf s = []"
    and R: "ts_clientBuf s @ d = R" "is_message R" "\<not> isHTTPResponse R"
    and req: "parseHTTPRequest now proc R (ts_srcIP s) (ts_dstPort s) = Some req"
  shows "Feed now proc d True s e =
    (s\<lparr>ts_lastActive := now, ts_clientBuf := [], ts_firstData := True, ts_pendingReq := Some req\<rparr>, e)"
proof -
  let ?s = "s\<lparr>ts_lastActive := now, ts_clientBuf := R, ts_firstData := True\<rparr>"
  let ?t = "s\<lparr>ts_lastActive := now, ts_clientBuf := [], ts_firstData := True, ts_pendingReq := Some req\<rparr>"
  have "take_request now proc ?s = (True, ?t)"
    using assms by (simp add: take_request_def is_message_def Let_def)
  then have "tryExtractHTTP now proc ?s e = (?t, e)"
    using assms(5) by (intro try_stops) (simp add: extract_step_def)
  then show ?thesis using Feed_client [OF assms(1-3)] assms(5) R(1) by (simp add: limit_buffers_id)
qed

text \<open>A segment of a response.\<close>

lemma feed_response_part:
  assumes "talking s" and "ts_firstData s" and "ts_pendingReq s \<noteq> None" and "ts_clientBuf s = []"
    and "findHTTPMessageEnd (ts_serverBuf s @ d) < 0" and "length (ts_serverBuf s @ d) \<le> streamBufLimit e"
  shows "Feed now proc d False s e = (s\<lparr>ts_lastActive := now, ts_serverBuf := ts_serverBuf s @ d\<rparr>, e)"
proof -
  let ?s = "s\<lparr>ts_lastActive := now, ts_serverBuf := ts_serverBuf s @ d\<rparr>"
  have "tryExtractHTTP now proc ?s e = (?s, e)"
    using assms by (intro try_stops) (simp add: extract_step_def take_request_pending Let_def)
  then show ?thesis using Feed_server [OF assms(1,2)] assms(4,6) by (simp add: limit_buffers_id)
qed

lemma feed_response_done:
  assumes "talking s" and "ts_firstData s" and "ts_pendingReq s = Some req" and "ts_clientBuf s = []"
    and P: "ts_serverBuf s @ d = P" "is_message P" "isHTTPResponse P"
      "parseContentLength P \<ge> 0 \<or> has_chunked P"
    and resp: "parseHTTPResponse P = Some resp" "resp_StatusCode resp \<ge> 200"
  shows "Feed now proc d False s e =
    (s\<lparr>ts_lastActive := now, ts_serverBuf := [], ts_pendingReq := None\<rparr>,
     emitNonBlocking now (with_response now resp (length P) req) e)"
proof -
  let ?s = "s\<lparr>ts_lastActive := now, ts_serverBuf := P\<rparr>"
  let ?t = "s\<lparr>ts_lastActive := now, ts_serverBuf := [], ts_pendingReq := None\<rparr>"
  let ?e = "emitNonBlocking now (with_response now resp (length P) req) e"
  have st: "extract_step now proc ?s e = (True, ?t, ?e)"
    using assms by (auto simp: extract_step_def take_request_pending take_response_def is_message_def Let_def)
  have "tryExtractHTTP now proc ?t ?e = (?t, ?e)"
    using assms(4) by (intro try_idle) simp_all
  then have "tryExtractHTTP now proc ?s e = (?t, ?e)"
    using st by (simp add: tryExtractHTTP.simps [of now proc ?s])
  then show ?thesis using Feed_server [OF assms(1,2)] assms(4) P(1) by (simp add: limit_buffers_id)
qed


text \<open>The segments of one direction.\<close>

abbreviation sent_by :: "bool \<Rightarrow> (instant \<times> bytes) list \<Rightarrow> (instant \<times> bytes \<times> bool) list" where
  "sent_by c2s segs \<equiv> map (\<lambda>(t, d). (t, d, c2s)) segs"

abbreviation payload :: "(instant \<times> bytes) list \<Rightarrow> bytes" where
  "payload segs \<equiv> concat (map snd segs)"

lemma is_message_part:
  assumes "is_message R" and "buf @ rest = R" and "rest \<noteq> []"
  shows "findHTTPMessageEnd buf < 0"
proof -
  have "buf = take (length buf) R" "length buf < length R" using assms(2,3) by auto
  then show ?thesis using assms(1) unfolding is_message_def by metis
qed

lemma payload_nonempty: "segs \<noteq> [] \<Longrightarrow> \<forall>(t, d) \<in> set segs. d \<noteq> [] \<Longrightarrow> payload segs \<noteq> []"
  by (cases segs) auto

lemma feed_request_segments:
  assumes "segs \<noteq> []" and "\<forall>(t, d) \<in> set segs. d \<noteq> []" and "ts_clientBuf s @ payload segs = R"
    and "is_message R" and "\<not> isHTTPResponse R" and "length R \<le> streamBufLimit e"
    and "talking s" and "ts_firstData s \<or> looksLikeHTTP (ts_clientBuf s @ snd (hd segs))"
    and "ts_pendingReq s = None" and "ts_serverBuf s = []"
    and "parseHTTPRequest (fst (last segs)) proc R (ts_srcIP s) (ts_dstPort s) = Some req"
  shows "\<exists>t. feed_all proc (sent_by True segs) s e =
    (s\<lparr>ts_lastActive := t, ts_clientBuf := [], ts_firstData := True, ts_pendingReq := Some req\<rparr>, e)"
  using assms
proof (induction segs arbitrary: s)
  case Nil
  then show ?case by simp
next
  case (Cons seg segs)
  obtain t d where seg: "seg = (t, d)" by (cases seg)
  have d: "d \<noteq> []" using Cons.prems(2) seg by auto
  show ?case
  proof (cases "segs = []")
    case True
    then have "Feed t proc d True s e =
      (s\<lparr>ts_lastActive := t, ts_clientBuf := [], ts_firstData := True, ts_pendingReq := Some req\<rparr>, e)"
      using Cons.prems d by (intro feed_request_done) (simp_all add: seg)
    then show ?thesis using True by (auto simp: seg)
  next
    case False
    let ?s = "s\<lparr>ts_lastActive := t, ts_clientBuf := ts_clientBuf s @ d, ts_firstData := True\<rparr>"
    have R: "(ts_clientBuf s @ d) @ payload segs = R" using Cons.prems(3) by (simp add: seg)
    have "payload segs \<noteq> []" using False Cons.prems(2) by (intro payload_nonempty) auto
    then have "findHTTPMessageEnd (ts_clientBuf s @ d) < 0"
      using is_message_part [OF Cons.prems(4) R] by simp
    moreover have "length (ts_clientBuf s @ d) \<le> streamBufLimit e"
      using Cons.prems(6) arg_cong [OF R, of length] by simp
    ultimately have "Feed t proc d True s e = (?s, e)"
      using Cons.prems d by (intro feed_request_part) (simp_all add: seg)
    moreover have "\<exists>t'. feed_all proc (sent_by True segs) ?s e =
      (?s\<lparr>ts_lastActive := t', ts_clientBuf := [], ts_firstData := True, ts_pendingReq := Some req\<rparr>, e)"
      using Cons.prems R False by (intro Cons.IH) (auto simp: talking_def)
    ultimately show ?thesis by (auto simp: seg)
  qed
qed

lemma feed_response_segments:
  assumes "segs \<noteq> []" and "\<forall>(t, d) \<in> set segs. d \<noteq> []" and "ts_serverBuf s @ payload segs = P"
    and "is_message P" and "isHTTPResponse P" and "parseContentLength P \<ge> 0 \<or> has_chunked P"
    and "length P \<le> streamBufLimit e"
    and "talking s" and "ts_firstData s" and "ts_pendingReq s = Some req" and "ts_clientBuf s = []"
    and "parseHTTPResponse P = Some resp" and "resp_StatusCode resp \<ge> 200"
  shows "\<exists>t. feed_all proc (sent_by False segs) s e =
    (s\<lparr>ts_lastActive := t, ts_serverBuf := [], ts_pendingReq := None\<rparr>,
     emitNonBlocking (fst (last segs)) (with_response (fst (last segs)) resp (length P) req) e)"
  using assms
proof (induction segs arbitrary: s)
  case Nil
  then show ?case by simp
next
  case (Cons seg segs)
  obtain t d where seg: "seg = (t, d)" by (cases seg)
  have d: "d \<noteq> []" using Cons.prems(2) seg by auto
  show ?case
  proof (cases "segs = []")
    case True
    then have "Feed t proc d False s e =
      (s\<lparr>ts_lastActive := t, ts_serverBuf := [], ts_pendingReq := None\<rparr>,
       emitNonBlocking t (with_response t resp (length P) req) e)"
      using Cons.prems by (intro feed_response_done) (simp_all add: seg)
    then show ?thesis using True by (auto simp: seg)
  next
    case False
    let ?s = "s\<lparr>ts_lastActive := t, ts_serverBuf := ts_serverBuf s @ d\<rparr>"
    have P: "(ts_serverBuf s @ d) @ payload segs = P" using Cons.prems(3) by (simp add: seg)
    have "payload segs \<noteq> []" using False Cons.prems(2) by (intro payload_nonempty) auto
    then have "findHTTPMessageEnd (ts_serverBuf s @ d) < 0"
      using is_message_part [OF Cons.prems(4) P] by simp
    moreover have "length (ts_serverBuf s @ d) \<le> streamBufLimit e"
      using Cons.prems(7) arg_cong [OF P, of length] by simp
    ultimately have "Feed t proc d False s e = (?s, e)"
      using Cons.prems by (intro feed_response_part) simp_all
    moreover have "\<exists>t'. feed_all proc (sent_by False segs) ?s e =
      (?s\<lparr>ts_lastActive := t', ts_serverBuf := [], ts_pendingReq := None\<rparr>,
       emitNonBlocking (fst (last segs)) (with_response (fst (last segs)) resp (length P) req) e)"
      using Cons.prems P False by (intro Cons.IH) (auto simp: talking_def)
    ultimately show ?thesis using False by (auto simp: seg)
  qed
qed

section \<open>Conversations\<close>

text \<open>
  An exchange: the segments of a request and those of its response. It is good for a stream
  (client address, server port) and a buffer limit when both are complete messages within the
  limit, the request parses and the response is a final one with a length or the chunked coding.
\<close>

type_synonym exchange = "(instant \<times> bytes) list \<times> (instant \<times> bytes) list"

definition exchange_request :: "process_info option \<Rightarrow> ip \<Rightarrow> nat \<Rightarrow> exchange \<Rightarrow> captured_request option" where
  "exchange_request proc srcIP port x =
     parseHTTPRequest (fst (last (fst x))) proc (payload (fst x)) srcIP port"

definition good_exchange :: "process_info option \<Rightarrow> ip \<Rightarrow> nat \<Rightarrow> nat \<Rightarrow> exchange \<Rightarrow> bool" where
  "good_exchange proc srcIP port lim x \<longleftrightarrow>
     fst x \<noteq> [] \<and> snd x \<noteq> [] \<and> list_all (\<lambda>(t, d). d \<noteq> []) (fst x @ snd x) \<and>
     is_message (payload (fst x)) \<and> \<not> isHTTPResponse (payload (fst x)) \<and> length (payload (fst x)) \<le> lim \<and>
     exchange_request proc srcIP port x \<noteq> None \<and>
     is_message (payload (snd x)) \<and> isHTTPResponse (payload (snd x)) \<and> length (payload (snd x)) \<le> lim \<and>
     (parseContentLength (payload (snd x)) \<ge> 0 \<or> has_chunked (payload (snd x))) \<and>
     (case parseHTTPResponse (payload (snd x)) of Some r \<Rightarrow> resp_StatusCode r \<ge> 200 | None \<Rightarrow> False)"

text \<open>The record of an exchange.\<close>

definition exchange_record :: "process_info option \<Rightarrow> ip \<Rightarrow> nat \<Rightarrow> exchange \<Rightarrow> captured_request" where
  "exchange_record proc srcIP port x =
     nic (with_response (fst (last (snd x))) (the (parseHTTPResponse (payload (snd x))))
            (length (payload (snd x))) (the (exchange_request proc srcIP port x)))"

definition exchange_segments :: "exchange \<Rightarrow> (instant \<times> bytes \<times> bool) list" where
  "exchange_segments x = sent_by True (fst x) @ sent_by False (snd x)"

text \<open>A stream between two exchanges.\<close>

definition between :: "tcp_stream \<Rightarrow> bool" where
  "between s \<longleftrightarrow> talking s \<and> ts_pendingReq s = None \<and> ts_clientBuf s = [] \<and> ts_serverBuf s = []"

lemma feed_exchange:
  assumes "between s" and "ts_firstData s \<or> looksLikeHTTP (snd (hd (fst x)))"
    and "good_exchange proc (ts_srcIP s) (ts_dstPort s) (streamBufLimit e) x"
  shows "\<exists>s' e'. feed_all proc (exchange_segments x) s e = (s', e') \<and> between s' \<and> ts_firstData s' \<and>
    ts_srcIP s' = ts_srcIP s \<and> ts_dstPort s' = ts_dstPort s \<and> streamBufLimit e' = streamBufLimit e \<and>
    en_emitted e' = en_emitted e @ [exchange_record proc (ts_srcIP s) (ts_dstPort s) x]"
proof -
  note g = assms(3) [unfolded good_exchange_def]
  obtain req where req: "exchange_request proc (ts_srcIP s) (ts_dstPort s) x = Some req" using g by blast
  obtain resp where resp: "parseHTTPResponse (payload (snd x)) = Some resp" "resp_StatusCode resp \<ge> 200"
    using g by (cases "parseHTTPResponse (payload (snd x))") auto
  obtain t where t: "feed_all proc (sent_by True (fst x)) s e =
      (s\<lparr>ts_lastActive := t, ts_clientBuf := [], ts_firstData := True, ts_pendingReq := Some req\<rparr>, e)"
    using feed_request_segments [of "fst x" s "payload (fst x)" e proc req] assms g req
    by (auto simp: between_def exchange_request_def list_all_iff)
  let ?s = "s\<lparr>ts_lastActive := t, ts_clientBuf := [], ts_firstData := True, ts_pendingReq := Some req\<rparr>"
  obtain t' where t': "feed_all proc (sent_by False (snd x)) ?s e =
      (?s\<lparr>ts_lastActive := t', ts_serverBuf := [], ts_pendingReq := None\<rparr>,
       emitNonBlocking (fst (last (snd x)))
         (with_response (fst (last (snd x))) resp (length (payload (snd x))) req) e)"
    using feed_response_segments [of "snd x" ?s "payload (snd x)" e req resp proc] assms g resp
    by (auto simp: between_def talking_def list_all_iff)
  show ?thesis
    using t t' req resp assms(1)
    by (simp add: exchange_segments_def feed_all_append exchange_record_def between_def talking_def
        streamBufLimit_def)
qed

text \<open>C2: A keep-alive conversation is recorded exactly: for any number of good exchanges, each
  request and response cut into segments in any way (the first segment of the stream recognisable
  as HTTP), the stream emits one record per exchange, in order, with the fields of the request,
  the status, headers and body of its response and its size; and it ends up ready for the next.\<close>

theorem conversation_recorded:
  assumes "xs \<noteq> []" and "looksLikeHTTP (snd (hd (fst (hd xs))))"
    and "\<forall>x \<in> set xs. good_exchange proc cip sport (streamBufLimit e) x"
    and "feed_all proc (concat (map exchange_segments xs)) (New_stream now cip cport sport) e = (s', e')"
  shows "between s' \<and> en_emitted e' = en_emitted e @ map (exchange_record proc cip sport) xs"
proof -
  have run: "between s' \<and> en_emitted e' = en_emitted e @ map (exchange_record proc cip sport) xs"
    if "between s" "ts_srcIP s = cip" "ts_dstPort s = sport"
      "xs \<noteq> [] \<longrightarrow> ts_firstData s \<or> looksLikeHTTP (snd (hd (fst (hd xs))))"
      "\<forall>x \<in> set xs. good_exchange proc cip sport (streamBufLimit e) x"
      "feed_all proc (concat (map exchange_segments xs)) s e = (s', e')" for xs s e
    using that
  proof (induction xs arbitrary: s e)
    case Nil
    then show ?case by simp
  next
    case (Cons x xs)
    obtain s1 e1 where x: "feed_all proc (exchange_segments x) s e = (s1, e1)" "between s1" "ts_firstData s1"
      "ts_srcIP s1 = cip" "ts_dstPort s1 = sport" "streamBufLimit e1 = streamBufLimit e"
      "en_emitted e1 = en_emitted e @ [exchange_record proc cip sport x]"
      using feed_exchange [of s x proc e] Cons.prems by auto
    have "between s' \<and> en_emitted e' = en_emitted e1 @ map (exchange_record proc cip sport) xs"
      using Cons.prems x by (intro Cons.IH) (auto simp: feed_all_append)
    then show ?case using x by simp
  qed
  show ?thesis
    using assms by (intro run [of "New_stream now cip cport sport"])
      (auto simp: between_def talking_def New_stream_def)
qed


section \<open>Bodies that end with the connection\<close>

lemma status_code_read:
  assumes "100 \<le> code" and "code \<le> 599" and "clean reason" and "ls = status_line code reason # rest"
  shows "parseStatusCodeFromHeader (header_block ls) = int code"
proof -
  let ?s = "status_line code reason"
  have num: "clean (show_nat code)" "CHR '' '' \<notin> set (show_nat code)"
    using show_nat_digits [of _ code] digit_not_special by (fastforce simp: clean_def)+
  have cl: "clean ?s" using num assms(3) by (auto simp: status_line_def clean_def)
  have hb: "header_block ls = ?s @ CR # LF # (crlf_lines rest @ CRLF)"
    by (simp add: header_block_def assms(4))
  have nl: "indexByte (header_block ls) LF = Some (length ?s + 1)"
    unfolding hb by (rule indexByte_LF [OF cl])
  have "take (length ?s + 1) (header_block ls) = ?s @ [CR]" unfolding hb by simp
  moreover have "bytesTrimSpace (?s @ [CR]) = ?s @ [CR]"
    by (rule bytesTrimSpace_id) (simp add: status_line_def)
  ultimately have first: "bytesTrimSpace (take (length ?s + 1) (header_block ls)) = ?s @ [CR]" by simp
  have sp1: "indexByte (?s @ [CR]) (CHR '' '') = Some 8"
    using index_byte_append [of "CHR '' ''" "''HTTP/1.1''" "show_nat code @ '' '' @ reason @ [CR]"]
    by (simp add: status_line_def indexByte_def index_byte_def)
  have rest: "drop (8 + 1) (?s @ [CR]) = show_nat code @ CHR '' '' # (reason @ [CR])"
    by (simp add: status_line_def)
  have sp2: "indexByte (show_nat code @ CHR '' '' # (reason @ [CR])) (CHR '' '') = Some (length (show_nat code))"
    using index_byte_append [OF num(2)] by (simp add: indexByte_def index_byte_def)
  have "sscanf_d (show_nat code) = Some (int code)"
    using assms(2) by (intro sscanf_d_show_nat) simp
  then show ?thesis
    unfolding parseStatusCodeFromHeader_def nl option.case first Let_def sp1 rest sp2 by simp
qed

lemma close_idle: "ts_pendingReq s = None \<Longrightarrow> ts_clientBuf s = [] \<Longrightarrow> tryExtractHTTPOnClose now proc s e = (s, e)"
  by (subst tryExtractHTTPOnClose.simps) (simp add: close_step_def try_idle)

lemma close_response_final:
  assumes "buf \<noteq> []" and "indexDoubleCRLF buf = Some i" and "resp_StatusCode resp \<ge> 200"
    and "parseHTTPResponseFromHeader (take i buf) (drop (i + 4) buf) = Some resp"
  shows "close_response now buf req = Some (with_response now resp (length buf) req)"
  using assms by (simp add: close_response_def)

text \<open>A response with neither a length nor the chunked coding waits for the end of the
  connection: while it is open nothing is emitted, and when it closes (or the stream is evicted
  or times out) the record is emitted once, with the whole body received.\<close>

theorem close_records_body:
  assumes "talking s" and "ts_firstData s" and "ts_pendingReq s = Some req" and "ts_clientBuf s = []"
    and "ts_serverBuf s = []"
    and "200 \<le> code" and "code \<le> 599" and "\<not> responseCanHaveNoBody (int code)" and "clean reason"
    and "\<forall>kv \<in> set hs. good_field kv" and "distinct (map fst hs)"
    and "h = header_block (status_line code reason # map field_line hs)"
    and "parseContentLength h < 0" and "\<not> has_chunked h" and "\<not> isSSEHeader h"
    and "length (h @ body) \<le> streamBufLimit e" and "length (h @ body) < 2 ^ 62"
  shows "\<exists>s1. Feed now proc (h @ body) False s e = (s1, e) \<and>
    (case flush_stream now' proc' s1 e of (s2, e2) \<Rightarrow>
       between s2 \<and> en_emitted e2 = en_emitted e @
         [nic (with_response now' \<lparr>resp_StatusCode = int code, resp_Headers = hs, resp_Body = body\<rparr>
                 (length (h @ body)) req)])"
proof -
  let ?ls = "status_line code reason # map field_line hs" and ?P = "h @ body"
  let ?resp = "\<lparr>resp_StatusCode = int code, resp_Headers = hs, resp_Body = body\<rparr>"
  let ?s = "s\<lparr>ts_lastActive := now, ts_serverBuf := ?P\<rparr>"
  have num: "clean (show_nat code)"
    using show_nat_digits [of _ code] digit_not_special by (fastforce simp: clean_def)
  have ok: "?ls \<noteq> []" "\<forall>l \<in> set ?ls. clean l \<and> l \<noteq> []"
    using num assms(9,10) clean_field by (auto simp: status_line_def clean_def)
  have parsed: "parseHTTPResponse ?P = Some ?resp"
    using response_roundtrip [of code reason hs body] assms(6-12) by (simp add: render_response_def)
  have idx: "indexDoubleCRLF ?P = Some (length (header_text ?ls))"
    unfolding assms(12) by (rule header_block_split(1) [OF ok])
  then have fromhd: "parseHTTPResponseFromHeader (take (length (header_text ?ls)) ?P)
      (drop (length (header_text ?ls) + 4) ?P) = Some ?resp"
    using parsed by (simp add: parseHTTPResponse_def)
  have fin: "findHTTPMessageEnd ?P = int (length h)" "take (length h) ?P = h"
    using message_framing [OF ok, of "[]" body "[]"] assms(12-14,17) by auto
  have http: "isHTTPResponse ?P" "?P \<noteq> []" "is_slice ?P"
    using assms(12,17) by (auto simp: isHTTPResponse_def has_prefix_def status_line_def header_block_def is_slice_def)
  have code: "parseStatusCodeFromHeader h = int code"
    using status_code_read [of code reason ?ls "map field_line hs"] assms(6-9,12) by simp
  have ext: "extract_step t p ?s e = (False, ?s, e)" for t p
    using assms(3,8,13-15) http code assms(6)
    unfolding extract_step_def
    by (simp add: take_request_pending Let_def fin)
  have quiet: "tryExtractHTTP t p ?s e = (?s, e)" for t p by (rule try_stops [OF ext])
  have f: "Feed now proc ?P False s e = (?s, e)"
    using Feed_server [OF assms(1,2)] quiet assms(4,5,16) by (simp add: limit_buffers_id)
  let ?s2 = "?s\<lparr>ts_pendingReq := None, ts_serverBuf := [], ts_clientBuf := []\<rparr>"
  let ?e2 = "emitNonBlocking now' (with_response now' ?resp (length ?P) req) e"
  have "close_response now' ?P req = Some (with_response now' ?resp (length ?P) req)"
    using assms(6) by (intro close_response_final [OF http(2) idx _ fromhd]) simp
  then have "close_step now' proc' ?s e = (True, ?s2, ?e2)"
    using assms(3) by (simp add: close_step_def quiet)
  then have "tryExtractHTTPOnClose now' proc' ?s e = (?s2, ?e2)"
    by (subst tryExtractHTTPOnClose.simps) (simp add: close_idle)
  then have fl: "flush_stream now' proc' ?s e = (?s2, ?e2)"
    using assms(1) by (simp add: flush_stream_def talking_def)
  show ?thesis
    by (intro exI conjI, rule f) (use fl assms(1) in \<open>simp add: between_def talking_def\<close>)
qed

section \<open>What a stream loses\<close>

lemma Feed_nonHTTP: "ts_nonHTTP s \<Longrightarrow> Feed now proc d c2s s e = (s\<lparr>ts_lastActive := now\<rparr>, e)"
  by (simp add: Feed_def Let_def)

lemma feed_all_nonHTTP:
  "ts_nonHTTP s \<Longrightarrow> feed_all proc segs s e = (s', e') \<Longrightarrow> ts_nonHTTP s' \<and> e' = e"
  by (induction proc segs s e rule: feed_all.induct) (auto simp: Feed_nonHTTP)

lemma short_not_HTTP: "d \<noteq> [] \<Longrightarrow> length d < 4 \<Longrightarrow> \<not> looksLikeHTTP d \<and> \<not> isTLSClientHello d"
  by (auto simp: looksLikeHTTP_def httpMethodPrefixes_def has_prefix_def isTLSClientHello_def)

text \<open>A stream whose first segment has fewer than four bytes is given up for good, even if it
  goes on to speak HTTP: nothing that arrives later is buffered, recorded or reported.\<close>

theorem short_first_segment_lost:
  assumes "d \<noteq> []" and "length d < 4"
    and "feed_all proc ((t, d, c2s) # segs) (New_stream now p cp sp) e = (s', e')"
  shows "ts_nonHTTP s' \<and> e' = e"
proof -
  have "\<exists>s1. Feed t proc d c2s (New_stream now p cp sp) e = (s1, e) \<and> ts_nonHTTP s1"
    using assms(1) short_not_HTTP [OF assms(1,2)]
    by (cases c2s) (simp_all add: Feed_def New_stream_def classify_def Let_def)
  then show ?thesis using assms(3) feed_all_nonHTTP by auto
qed

lemma feed_sse_suffix:
  assumes "ts_ssePending s" and "\<not> ts_nonHTTP s" and "Feed t proc d False s e = (s', e')"
  shows "ts_ssePending s' \<and> \<not> ts_nonHTTP s' \<and> ts_serverBuf s' = ts_serverBuf s \<and> suffix (ts_sseBuf s') (ts_sseBuf s @ d)"
proof -
  have "feed_sse d (s\<lparr>ts_lastActive := t\<rparr>) e = (s', e')"
    using assms by (simp add: Feed_def Let_def)
  then show ?thesis
    using assms(1,2) by (auto simp: feed_sse_def Let_def suffix_drop simp del: drop_append split: if_splits)
qed

lemma feed_all_sse_suffix:
  "ts_ssePending s \<Longrightarrow> \<not> ts_nonHTTP s \<Longrightarrow> feed_all proc (sent_by False segs) s e = (s', e') \<Longrightarrow>
     ts_serverBuf s' = ts_serverBuf s \<and> suffix (ts_sseBuf s') (ts_sseBuf s @ payload segs)"
proof (induction segs arbitrary: s e)
  case Nil
  then show ?case by simp
next
  case (Cons seg segs)
  obtain t d where seg: "seg = (t, d)" by (cases seg)
  obtain s1 e1 where f: "Feed t proc d False s e = (s1, e1)" by fastforce
  note f1 = feed_sse_suffix [OF Cons.prems(1,2) f]
  have "ts_serverBuf s' = ts_serverBuf s1 \<and> suffix (ts_sseBuf s') (ts_sseBuf s1 @ payload segs)"
    using Cons.prems(3) f f1 by (intro Cons.IH [of s1 e1]) (simp_all add: seg)
  moreover have "suffix (ts_sseBuf s1 @ payload segs) ((ts_sseBuf s @ d) @ payload segs)"
    using f1 by (auto simp: suffix_def)
  ultimately show ?case using f1 by (auto simp: seg intro: suffix_order.trans)
qed

text \<open>Events that arrive in the same segment as the header of a server-sent-event response are
  never recorded: they stay in the message buffer, and the event buffer, the only thing written to
  the store from then on, holds only data of later segments.\<close>

theorem sse_events_with_header_lost:
  assumes "talking s" and "ts_firstData s" and "ts_pendingReq s = Some req" and "ts_clientBuf s = []"
    and "ts_serverBuf s = []" and "ts_sseBuf s = []"
    and "indexDoubleCRLF h = Some i" and "findHTTPMessageEnd h = int (length h)"
    and "parseContentLength h < 0" and "\<not> has_chunked h" and "isSSEHeader h" and "isHTTPResponse h"
    and "parseHTTPResponse h = Some resp" and "resp_StatusCode resp \<ge> 200"
    and "\<And>r. \<exists>k r' st. Save now r (en_store e) = (Inr k, r', st)"
    and "length ev \<le> streamBufLimit e" and "is_slice (h @ ev)"
    and "feed_all proc ((now, h @ ev, False) # sent_by False segs) s e = (s', e')"
  shows "ts_serverBuf s' = ev \<and> suffix (ts_sseBuf s') (payload segs)"
proof -
  let ?s = "s\<lparr>ts_lastActive := now, ts_serverBuf := h @ ev\<rparr>"
  have fin: "findHTTPMessageEnd (h @ ev) = int (length h)"
    using findHTTPMessageEnd_prefix [OF assms(7,8)] by simp
  have http: "isHTTPResponse (h @ ev)" "h @ ev \<noteq> []"
    using assms(12) by (auto simp: isHTTPResponse_def has_prefix_iff)
  let ?req = "(with_response now resp (length h) req)\<lparr>cr_IsSSE := True, cr_SSEEvents := resp_Body resp\<rparr>"
  obtain k r' st where sv: "Save now ?req (en_store e) = (Inr k, r', st)" using assms(15) by blast
  let ?t = "s\<lparr>ts_lastActive := now, ts_serverBuf := ev, ts_pendingReq := None, ts_ssePending := True, ts_sseReqID := k\<rparr>"
  let ?e = "send_hub [Update (set_ID k r')] (e\<lparr>en_store := st, en_HTTPFound := en_HTTPFound e + 1\<rparr>)"
  have "take_sse now (length h) req ?s e = (?t, ?e)"
    using assms(13,14) sv by (simp add: take_sse_def Let_def)
  then have ext: "extract_step now proc ?s e = (True, ?t, ?e)"
    using assms(3,9-11,17) http unfolding extract_step_def
    by (simp add: take_request_pending Let_def fin)
  then have "tryExtractHTTP now proc ?s e = (?t, ?e)"
    using assms(4) by (subst tryExtractHTTP.simps) (simp add: try_idle)
  moreover have "streamBufLimit ?e = streamBufLimit e" by (simp add: streamBufLimit_def)
  ultimately have f: "Feed now proc (h @ ev) False s e = (?t, ?e)"
    using Feed_server [OF assms(1,2)] assms(4,5,16) by (simp add: limit_buffers_id)
  then have "feed_all proc (sent_by False segs) ?t ?e = (s', e')" using assms(18) by simp
  from feed_all_sse_suffix [OF _ _ this] show ?thesis using assms(1,6) by (simp add: talking_def)
qed


section \<open>The properties at concrete streams\<close>

definition small_engine :: engine where
  "small_engine = (New_engine (weak_store\<lparr>st_replies := [ExecOk 9 None]\<rparr>) True)\<lparr>en_ringBuf := Some two_slots\<rparr>"

lemma small_engine_facts [simp]:
  "en_maxResBytes small_engine = 4194304" "streamBufLimit small_engine = 4194304" "en_emitted small_engine = []"
  by (simp_all add: small_engine_def New_engine_def streamBufLimit_def)

theorem stream_buffers_bounded_witness:
  "\<exists>s' e'. feed_all None [(1, ''POST'', True), (2, ''HTTP'', False)] (New_stream 0 [] 5 80) small_engine = (s', e') \<and>
     int (length (ts_clientBuf s')) \<le> en_maxResBytes e'"
proof -
  obtain s' e' where f: "feed_all None [(1, ''POST'', True), (2, ''HTTP'', False)] (New_stream 0 [] 5 80) small_engine = (s', e')"
    by fastforce
  then show ?thesis using stream_buffers_bounded [OF _ f] by simp
qed

definition get_lines :: "bytes list" where
  "get_lines = [''GET /a HTTP/1.1'', ''Host: a'']"

definition get_a :: exchange where
  "get_a = ([(1, ''GET /a ''), (2, drop 7 (header_block get_lines))], [(3, header_block ok_lines @ ''hi'')])"

lemma get_a_payload:
  "payload (fst get_a) = header_block get_lines" "payload (snd get_a) = header_block ok_lines @ ''hi''"
  by (simp_all add: get_a_def header_block_def get_lines_def)

lemma get_a_messages: "is_message (header_block get_lines)" "is_message (header_block ok_lines @ ''hi'')"
proof -
  have ok: "get_lines \<noteq> []" "\<forall>l \<in> set get_lines. clean l \<and> l \<noteq> []"
    by (simp_all add: get_lines_def clean_def)
  have "parseContentLength (header_block get_lines) = -1" "\<not> has_chunked (header_block get_lines)" by code_simp+
  then show "is_message (header_block get_lines)"
    using complete_is_message [OF ok, of "[]"] message_framing [OF ok, of "[]" "[]" "[]"]
    by (simp add: is_slice_def header_block_def get_lines_def)
  show "is_message (header_block ok_lines @ ''hi'')"
    using complete_is_message [OF ok_lines_facts(1,2), of "''hi''"]
      message_framing [OF ok_lines_facts(1,2), of "''hi''" "[]" "[]"] ok_lines_facts
    by (simp add: is_slice_def)
qed

lemma get_a_good: "good_exchange None [10, 0, 0, 7] 80 4194304 get_a"
proof -
  have req: "parseHTTPRequest 2 None (header_block get_lines) [10, 0, 0, 7] 80 \<noteq> None" by code_simp
  have resp: "case parseHTTPResponse (header_block ok_lines @ ''hi'') of Some r \<Rightarrow> resp_StatusCode r \<ge> 200 | None \<Rightarrow> False"
    "parseContentLength (header_block ok_lines @ ''hi'') \<ge> 0" by code_simp+
  have len: "length (header_block get_lines) = 28" "length (header_block ok_lines @ ''hi'') = 40"
    by (simp_all add: header_block_def get_lines_def ok_lines_def)
  have kind: "\<not> isHTTPResponse (header_block get_lines)" "isHTTPResponse (header_block ok_lines @ ''hi'')"
    by (simp_all add: isHTTPResponse_def has_prefix_def header_block_def get_lines_def ok_lines_def)
  have segs: "fst get_a \<noteq> [] \<and> snd get_a \<noteq> [] \<and> list_all (\<lambda>(t, d). d \<noteq> []) (fst get_a @ snd get_a)"
    by (simp add: get_a_def header_block_def get_lines_def)
  have last: "fst (last (fst get_a)) = 2" by (simp add: get_a_def)
  show ?thesis
    using segs req resp len kind get_a_messages
    unfolding good_exchange_def get_a_payload exchange_request_def last by simp
qed

theorem conversation_recorded_witness:
  "\<exists>s' e'. feed_all None (concat (map exchange_segments [get_a, get_a])) (New_stream 0 [10, 0, 0, 7] 5000 80) small_engine
      = (s', e') \<and> between s' \<and> length (en_emitted e') = 2"
proof -
  obtain s' e' where f: "feed_all None (concat (map exchange_segments [get_a, get_a]))
      (New_stream 0 [10, 0, 0, 7] 5000 80) small_engine = (s', e')" by fastforce
  have "looksLikeHTTP (snd (hd (fst get_a)))"
    by (simp add: get_a_def looksLikeHTTP_def httpMethodPrefixes_def has_prefix_def)
  then show ?thesis
    using conversation_recorded [OF _ _ _ f] get_a_good f by simp
qed

definition waiting_stream :: tcp_stream where
  "waiting_stream = (New_stream 0 [10, 0, 0, 7] 5000 80)\<lparr>ts_firstData := True, ts_pendingReq := Some zero_request\<rparr>"

theorem close_records_body_witness:
  "\<exists>s1. Feed 5 None (header_block [status_line 200 ''OK'', ''A: b''] @ ''xyz'') False waiting_stream small_engine = (s1, small_engine) \<and>
    (case flush_stream 6 None s1 small_engine of (s2, e2) \<Rightarrow> length (en_emitted e2) = 1 \<and> cr_ResBody (hd (en_emitted e2)) = ''xyz'')"
proof -
  let ?h = "header_block [status_line 200 ''OK'', ''A: b'']"
  have f: "field_line (''A'', ''b'') = ''A: b''" by (simp add: field_line_def)
  have t: "trim_space ''A'' = ''A''" "trim_space ''b'' = ''b''" by code_simp+
  have h: "parseContentLength ?h < 0" "\<not> has_chunked ?h" "\<not> isSSEHeader ?h" "length ?h = 25" by code_simp+
  show ?thesis
    using close_records_body [of waiting_stream zero_request 200 "''OK''" "[(''A'', ''b'')]" ?h "''xyz''" small_engine 5 None 6 None]
      f t h
    by (force simp: waiting_stream_def New_stream_def talking_def responseCanHaveNoBody_def clean_def good_field_def
        with_response_def split: prod.splits)
qed

theorem short_first_segment_lost_witness:
  "\<exists>s'. feed_all None [(1, ''GE'', True), (2, ''T / HTTP/1.1'', True)] (New_stream 0 [] 5 80) small_engine =
     (s', small_engine) \<and> ts_nonHTTP s'"
proof -
  obtain s' e' where f: "feed_all None [(1, ''GE'', True), (2, ''T / HTTP/1.1'', True)] (New_stream 0 [] 5 80) small_engine
      = (s', e')" by fastforce
  then show ?thesis using short_first_segment_lost [OF _ _ f] by simp
qed

theorem sse_events_with_header_lost_witness:
  "\<exists>s' e'. feed_all None ((3, header_block [''HTTP/1.1 200 OK'', ''Content-Type: text/event-stream''] @ ''data: 1'', False)
      # sent_by False [(4, ''data: 2'')]) waiting_stream small_engine = (s', e') \<and>
    ts_serverBuf s' = ''data: 1'' \<and> suffix (ts_sseBuf s') ''data: 2''"
proof -
  let ?ls = "[''HTTP/1.1 200 OK'', ''Content-Type: text/event-stream'']"
  let ?h = "header_block ?ls"
  obtain s' e' where f: "feed_all None ((3, ?h @ ''data: 1'', False) # sent_by False [(4, ''data: 2'')])
      waiting_stream small_engine = (s', e')" by fastforce
  have ok: "?ls \<noteq> []" "\<forall>l \<in> set ?ls. clean l \<and> l \<noteq> []" by (simp_all add: clean_def)
  have h: "parseContentLength ?h < 0" "\<not> has_chunked ?h" "isSSEHeader ?h" "isHTTPResponse ?h" "length ?h = 52"
    "case parseHTTPResponse ?h of Some r \<Rightarrow> resp_StatusCode r \<ge> 200 | None \<Rightarrow> False" by code_simp+
  obtain resp where resp: "parseHTTPResponse ?h = Some resp" "resp_StatusCode resp \<ge> 200"
    using h(6) by (cases "parseHTTPResponse ?h") auto
  have fin: "findHTTPMessageEnd ?h = int (length ?h)"
    using message_framing [OF ok, of "[]" "[]" "[]"] h by simp
  have idx: "indexDoubleCRLF ?h = Some (length (header_text ?ls))"
    using header_block_split(1) [OF ok, of "[]"] by simp
  have save: "\<exists>k r' st. Save 3 r (en_store small_engine) = (Inr k, r', st)" for r
    by (simp add: small_engine_def New_engine_def Save_def next_reply_def Let_def)
  have "ts_serverBuf s' = ''data: 1'' \<and> suffix (ts_sseBuf s') (payload [(4 :: instant, ''data: 2'')])"
    by (rule sse_events_with_header_lost [OF _ _ _ _ _ _ idx fin h(1-4) resp save _ _ f])
       (use h in \<open>simp_all add: waiting_stream_def New_stream_def talking_def is_slice_def\<close>)
  with f show ?thesis by simp
qed

end
