(* ===== verification/Assembler.thy ===== *)
theory Assembler
  imports StreamProps
begin

unbundle bit_operations_syntax

text \<open>
  \<open>Assembler\<close>, the worker hash and the packet loop of \<^verbatim>\<open>internal/capture/engine.go\<close>. A packet is
  what the decoder (a third-party package) hands over: its TCP segment, if it has one, and the
  addresses of its IP layer. The Go map of streams is an association list, whose order stands for
  the order in which Go happens to iterate; the claims hold for every order.
\<close>

section \<open>Packets\<close>

record tcp_segment =
  seg_SrcPort :: nat
  seg_DstPort :: nat
  seg_SYN :: bool
  seg_ACK :: bool
  seg_FIN :: bool
  seg_RST :: bool
  seg_Payload :: bytes

datatype ip_layer = IPv4 ip ip | IPv6 ip ip | NoIP

record packet =
  pk_tcp :: "tcp_segment option"
  pk_ip :: ip_layer

section \<open>Workers\<close>

text \<open>The big-endian value of an IPv4 address; nil folds to 0.\<close>

definition fold_bytes :: "8 word list \<Rightarrow> 32 word" where
  "fold_bytes bs = foldl (\<lambda>v b. push_bit 8 v OR ucast b) 0 bs"

fun foldIPv6_groups :: "8 word list \<Rightarrow> 32 word" where
  "foldIPv6_groups (a # b # c # d # bs) =
     (push_bit 24 (ucast a) OR push_bit 16 (ucast b) OR push_bit 8 (ucast c) OR ucast d)
       XOR foldIPv6_groups bs"
| "foldIPv6_groups _ = 0"

definition foldIPv6 :: "ip \<Rightarrow> 32 word" where
  "foldIPv6 p = (case To16 p of None \<Rightarrow> 0 | Some b \<Rightarrow> foldIPv6_groups b)"

definition flowHash :: "nat \<Rightarrow> packet \<Rightarrow> nat" where
  "flowHash workers p =
     (case pk_tcp p of
        None \<Rightarrow> 0
      | Some tcp \<Rightarrow>
          (case pk_ip p of
             NoIP \<Rightarrow> 0
           | l \<Rightarrow>
               (let (sIP, dIP) =
                      (case l of
                         IPv4 s d \<Rightarrow> (fold_bytes (case To4 s of Some b \<Rightarrow> b | None \<Rightarrow> []),
                                      fold_bytes (case To4 d of Some b \<Rightarrow> b | None \<Rightarrow> []))
                       | IPv6 s d \<Rightarrow> (foldIPv6 s, foldIPv6 d)
                       | NoIP \<Rightarrow> (0, 0));
                    h = sIP XOR dIP XOR of_nat (seg_SrcPort tcp) XOR of_nat (seg_DstPort tcp);
                    h = drop_bit 16 h XOR h
                in unat h mod workers)))"

section \<open>Stream keys and directions\<close>

definition streamKey :: "string \<Rightarrow> nat \<Rightarrow> string \<Rightarrow> nat \<Rightarrow> string" where
  "streamKey srcIP srcPort dstIP dstPort =
     (let (keyA, portA, keyB, portB) =
            (if str_less srcIP dstIP \<or> (srcIP = dstIP \<and> srcPort < dstPort)
             then (srcIP, srcPort, dstIP, dstPort) else (dstIP, dstPort, srcIP, srcPort))
      in join_with (CHR ''#'') [keyA, show_nat portA, keyB, show_nat portB])"

definition isLikelyServerPort :: "nat \<Rightarrow> bool" where
  "isLikelyServerPort port \<longleftrightarrow>
     port \<in> {80, 443, 8080, 8443, 3000, 5000, 8000, 8888, 9000, 9090, 2080, 2083, 2086, 2087, 4443, 7443, 11180}
     \<or> port < 1024"

definition determineDirection :: "nat \<Rightarrow> nat \<Rightarrow> bool" where
  "determineDirection srcPort dstPort =
     (if isLikelyServerPort dstPort then True
      else if isLikelyServerPort srcPort then False
      else srcPort > dstPort)"

section \<open>State and operations\<close>

record assembler =
  as_streams :: "(string \<times> tcp_stream) list"
  as_maxStreams :: nat

definition NewAssembler :: "engine option \<Rightarrow> assembler" where
  "NewAssembler eng =
     \<lparr>as_streams = [],
      as_maxStreams = (case eng of
          Some e \<Rightarrow> if en_maxStreams e > 0 then nat (en_maxStreams e) else 1000
        | None \<Rightarrow> 1000)\<rparr>"

text \<open>The oldest stream: the first one met, then every strictly older one.\<close>

definition oldest :: "(string \<times> tcp_stream) list \<Rightarrow> (string \<times> tcp_stream) option" where
  "oldest ss =
     foldl (\<lambda>best (k, s). case best of
              None \<Rightarrow> Some (k, s)
            | Some (k', s') \<Rightarrow> if ts_lastActive s < ts_lastActive s' then Some (k, s) else Some (k', s'))
       None ss"

definition evictOldestIdleStream :: "assembler \<Rightarrow> tcp_stream option \<times> assembler" where
  "evictOldestIdleStream a =
     (case oldest (as_streams a) of
        None \<Rightarrow> (None, a)
      | Some (k, s) \<Rightarrow> (Some s, a\<lparr>as_streams := AList.delete k (as_streams a)\<rparr>))"

definition flushEvictedStream ::
  "instant \<Rightarrow> process_info option \<Rightarrow> tcp_stream option \<Rightarrow> engine \<Rightarrow> engine" where
  "flushEvictedStream now proc ev e =
     (case ev of
        None \<Rightarrow> e
      | Some s \<Rightarrow> if ts_nonHTTP s then e else snd (flush_stream now proc s e))"

text \<open>\<open>HandleClose\<close>: whatever the stream is, it is removed; one that speaks HTTP is flushed first.\<close>

definition HandleClose ::
  "instant \<Rightarrow> process_info option \<Rightarrow> tcp_stream \<Rightarrow> assembler \<Rightarrow> engine \<Rightarrow> assembler \<times> engine" where
  "HandleClose now proc s a e =
     (let e = (if ts_nonHTTP s then e else snd (flush_stream now proc s e))
      in (a\<lparr>as_streams := AList.delete (ts_key s) (as_streams a)\<rparr>, e))"

text \<open>
  Looking up or making the stream of a key; \<open>None\<close> when the new flow is dropped. The third
  component is the stream evicted to make room.
\<close>

definition lookup_stream ::
  "instant \<Rightarrow> string \<Rightarrow> ip \<Rightarrow> nat \<Rightarrow> nat \<Rightarrow> assembler \<Rightarrow> engine \<Rightarrow>
   tcp_stream option \<times> tcp_stream option \<times> assembler \<times> engine" where
  "lookup_stream now key clientIP clientPort serverPort a e =
     (case map_of (as_streams a) key of
        Some s \<Rightarrow> (Some s, None, a, e)
      | None \<Rightarrow>
          (let (ev, a, e) =
                 (if length (as_streams a) \<ge> as_maxStreams a then
                    (case evictOldestIdleStream a of
                       (ev, a) \<Rightarrow>
                         (ev, a, if ev \<noteq> None then e\<lparr>en_StreamsEvicted := en_StreamsEvicted e + 1\<rparr> else e))
                  else (None, a, e))
           in if length (as_streams a) \<ge> as_maxStreams a
              then (None, ev, a, e\<lparr>en_StreamsDrop := en_StreamsDrop e + 1\<rparr>)
              else
                let s = (New_stream now clientIP clientPort serverPort)\<lparr>ts_key := key\<rparr>
                in (Some s, ev, a\<lparr>as_streams := AList.update key s (as_streams a)\<rparr>, e)))"

text \<open>The direction of a segment, corrected by the handshake, and the stream's client port.\<close>

definition segment_direction :: "tcp_segment \<Rightarrow> tcp_stream \<Rightarrow> bool \<times> tcp_stream" where
  "segment_direction tcp s =
     (if seg_SYN tcp \<and> \<not> seg_ACK tcp then (True, s\<lparr>ts_clientPort := seg_SrcPort tcp\<rparr>)
      else if seg_SYN tcp \<and> seg_ACK tcp \<and> ts_clientPort s \<noteq> 0
      then (False, s\<lparr>ts_clientPort := seg_DstPort tcp\<rparr>)
      else if ts_clientPort s \<noteq> 0 then (seg_SrcPort tcp = ts_clientPort s, s)
      else (determineDirection (seg_SrcPort tcp) (seg_DstPort tcp), s))"

definition assemble_segment ::
  "instant \<Rightarrow> process_info option \<Rightarrow> tcp_segment \<Rightarrow> ip \<Rightarrow> ip \<Rightarrow> assembler \<Rightarrow> engine \<Rightarrow> assembler \<times> engine" where
  "assemble_segment now proc tcp srcIP dstIP a e =
     (let srcPort = seg_SrcPort tcp; dstPort = seg_DstPort tcp;
          (clientIP, clientPort, serverPort) =
            (if determineDirection srcPort dstPort then (srcIP, srcPort, dstPort)
             else (dstIP, dstPort, srcPort));
          key = streamKey (ip_string srcIP) srcPort (ip_string dstIP) dstPort
      in case lookup_stream now key clientIP clientPort serverPort a e of
           (None, ev, a, e) \<Rightarrow> (a, flushEvictedStream now proc ev e)
         | (Some s, ev, a, e) \<Rightarrow>
             (let e = flushEvictedStream now proc ev e;
                  (c2s, s) = segment_direction tcp s;
                  (s, e) = (if seg_Payload tcp \<noteq> [] then Feed now proc (seg_Payload tcp) c2s s e else (s, e));
                  a = a\<lparr>as_streams := AList.update key s (as_streams a)\<rparr>
              in if seg_FIN tcp \<or> seg_RST tcp then HandleClose now proc s a e else (a, e)))"

definition Assemble ::
  "instant \<Rightarrow> process_info option \<Rightarrow> packet \<Rightarrow> assembler \<Rightarrow> engine \<Rightarrow> assembler \<times> engine" where
  "Assemble now proc p a e =
     (case pk_tcp p of
        None \<Rightarrow> (a, e)
      | Some tcp \<Rightarrow>
          (case pk_ip p of
             IPv4 s d \<Rightarrow> assemble_segment now proc tcp s d a e
           | IPv6 s d \<Rightarrow> assemble_segment now proc tcp s d a e
           | NoIP \<Rightarrow> (a, e)))"

text \<open>\<open>FlushOlderThan\<close>: the streams that stay, and the engine after the others were flushed.\<close>

fun flush_older ::
  "instant \<Rightarrow> process_info option \<Rightarrow> instant \<Rightarrow> (string \<times> tcp_stream) list \<Rightarrow> engine \<Rightarrow>
   (string \<times> tcp_stream) list \<times> engine" where
  "flush_older now proc t [] e = ([], e)"
| "flush_older now proc t ((k, s) # ss) e =
     (if ts_nonHTTP s then flush_older now proc t ss e
      else if ts_lastActive s < t then
        flush_older now proc t ss (snd (flush_stream now proc s e))
      else (case flush_older now proc t ss e of (ss, e) \<Rightarrow> ((k, s) # ss, e)))"

definition FlushOlderThan ::
  "instant \<Rightarrow> process_info option \<Rightarrow> instant \<Rightarrow> assembler \<Rightarrow> engine \<Rightarrow> assembler \<times> engine" where
  "FlushOlderThan now proc t a e =
     (case flush_older now proc t (as_streams a) e of (ss, e) \<Rightarrow> (a\<lparr>as_streams := ss\<rparr>, e))"

definition FlushAllWithPending ::
  "instant \<Rightarrow> process_info option \<Rightarrow> assembler \<Rightarrow> engine \<Rightarrow> assembler \<times> engine" where
  "FlushAllWithPending now proc a e =
     (a\<lparr>as_streams := []\<rparr>,
      foldl (\<lambda>e (k, s). if ts_nonHTTP s then e else snd (flush_stream now proc s e)) e (as_streams a))"

text \<open>One turn of \<open>workerLoop\<close>: a packet, the GC ticker, or the closed channel.\<close>

datatype worker_event = Packet instant "process_info option" packet | Gc instant "process_info option" | Closed instant "process_info option"

fun worker_turn :: "worker_event \<Rightarrow> assembler \<Rightarrow> engine \<Rightarrow> assembler \<times> engine" where
  "worker_turn (Packet now proc p) a e = Assemble now proc p a e"
| "worker_turn (Gc now proc) a e = FlushOlderThan now proc (now - en_streamTimeout e) a e"
| "worker_turn (Closed now proc) a e = FlushAllWithPending now proc a e"

end
