(* ===== verification/StreamEffects.thy ===== *)
theory StreamEffects
  imports Stream
begin

text \<open>
  What the code of a stream may do to the engine: emit a record, write to the store, send to the
  hub and count a found record. A relation closed under these four effects holds between the
  engine before and after any stream operation; the locale proves this once, and is interpreted
  for the engine's counters and for the history of emitted records.
\<close>

locale engine_effects =
  fixes R :: "engine \<Rightarrow> engine \<Rightarrow> bool"
  assumes R_refl: "R e e"
    and R_trans: "R e e' \<Longrightarrow> R e' e'' \<Longrightarrow> R e e''"
    and R_emit: "R e (emitNonBlocking now req e)"
    and R_store: "R e (e\<lparr>en_store := st\<rparr>)"
    and R_hub: "R e (send_hub ms e)"
    and R_found: "R e (e\<lparr>en_HTTPFound := en_HTTPFound e + 1\<rparr>)"
begin

lemma R_saved: "R e (send_hub ms (e\<lparr>en_store := st, en_HTTPFound := en_HTTPFound e + 1\<rparr>))"
proof -
  have "R (e\<lparr>en_store := st\<rparr>) (e\<lparr>en_store := st, en_HTTPFound := en_HTTPFound e + 1\<rparr>)"
    using R_found [of "e\<lparr>en_store := st\<rparr>"] by simp
  then show ?thesis by (blast intro: R_trans R_store R_hub)
qed

lemma take_sse_R: "take_sse now idx pending s e = (s', e') \<Longrightarrow> R e e'"
  by (auto simp: take_sse_def Let_def R_refl R_store R_saved
      split: option.splits prod.splits sum.splits if_splits)

lemma take_response_R: "take_response now idx pending s e = (s', e') \<Longrightarrow> R e e'"
  by (auto simp: take_response_def Let_def R_refl R_emit split: option.splits if_splits)

lemma extract_step_R: "extract_step now proc s e = (ok, s', e') \<Longrightarrow> R e e'"
  by (cases "take_request now proc s", cases "fst (take_request now proc s)")
     (auto simp: extract_step_def Let_def R_refl dest: take_sse_R take_response_R
       split: if_splits)

lemma tryExtractHTTP_R: "tryExtractHTTP now proc s e = (s', e') \<Longrightarrow> R e e'"
proof (induction now proc s e rule: tryExtractHTTP.induct)
  case (1 now proc s e)
  obtain ok s1 e1 where st: "extract_step now proc s e = (ok, s1, e1)" by (metis prod_cases3)
  show ?case
    using "1.prems" "1.IH" [OF st [symmetric] _ refl] extract_step_R [OF st] st R_trans
    by (cases ok) (auto simp: tryExtractHTTP.simps [of now proc s e])
qed

lemma close_step_R: "close_step now proc s e = (ok, s', e') \<Longrightarrow> R e e'"
proof -
  assume c: "close_step now proc s e = (ok, s', e')"
  obtain s1 e1 where t: "tryExtractHTTP now proc s e = (s1, e1)" by fastforce
  have "e' = e1 \<or> (\<exists>req. e' = emitNonBlocking now req e1)"
    using c t by (auto simp: close_step_def Let_def split: if_splits option.splits)
  then show "R e e'" using tryExtractHTTP_R [OF t] R_trans R_emit by blast
qed

lemma tryExtractHTTPOnClose_R: "tryExtractHTTPOnClose now proc s e = (s', e') \<Longrightarrow> R e e'"
proof (induction now proc s e rule: tryExtractHTTPOnClose.induct)
  case (1 now proc s e)
  obtain ok s1 e1 where st: "close_step now proc s e = (ok, s1, e1)" by (metis prod_cases3)
  show ?case
    using "1.prems" "1.IH" [OF st [symmetric] _ refl] close_step_R [OF st] st R_trans
    by (cases ok) (auto simp: tryExtractHTTPOnClose.simps [of now proc s e])
qed

lemma flushSSEEvents_R: "R e (flushSSEEvents s e)"
  unfolding flushSSEEvents_def Let_def
  by (auto intro: R_refl R_trans [OF R_store R_hub] split: prod.splits)

lemma flush_stream_R: "R e (snd (flush_stream now proc s e))"
  using tryExtractHTTPOnClose_R [of now proc s e] flushSSEEvents_R
  by (cases "tryExtractHTTPOnClose now proc s e") (auto simp: flush_stream_def)

lemma feed_sse_R: "feed_sse data s e = (s', e') \<Longrightarrow> R e e'"
  by (auto simp: feed_sse_def Let_def R_refl flushSSEEvents_R split: if_splits)

lemma classify_R: "classify now s e = (s', e') \<Longrightarrow> R e e'"
  by (auto simp: classify_def emitTLSRecord_def Let_def R_refl R_emit split: if_splits)

lemma Feed_R:
  assumes f: "Feed now proc data c2s s e = (s', e')"
  shows "R e e'"
proof -
  define s0 where "s0 = s\<lparr>ts_lastActive := now\<rparr>"
  define s1 where "s1 = (if c2s then s0\<lparr>ts_clientBuf := ts_clientBuf s0 @ data\<rparr>
                 else s0\<lparr>ts_serverBuf := ts_serverBuf s0 @ data\<rparr>)"
  obtain s2 e2 where c: "(if \<not> ts_firstData s1 then classify now s1 e else (s1, e)) = (s2, e2)" by fastforce
  obtain s3 e3 where t: "tryExtractHTTP now proc s2 e2 = (s3, e3)" by fastforce
  have "R e e2" using c classify_R by (auto simp: R_refl split: if_splits)
  moreover have "R e2 e3" by (rule tryExtractHTTP_R [OF t])
  ultimately have e3: "R e e3" by (rule R_trans)
  have "(s', e') = (s0, e) \<or> (s', e') = feed_sse data s0 e \<or> e' = e2 \<or> e' = e3"
    using f c t unfolding Feed_def s0_def [symmetric] Let_def
    by (auto simp: s1_def split: if_splits)
  then show ?thesis
    using e3 \<open>R e e2\<close> feed_sse_R [OF sym] R_refl by auto
qed

end

section \<open>The engine's counters and settings\<close>

definition same_counters :: "engine \<Rightarrow> engine \<Rightarrow> bool" where
  "same_counters e e' \<longleftrightarrow>
     en_StreamsDrop e' = en_StreamsDrop e \<and> en_StreamsEvicted e' = en_StreamsEvicted e \<and>
     en_PacketsRecv e' = en_PacketsRecv e \<and> en_PacketsDrop e' = en_PacketsDrop e \<and>
     en_maxStreams e' = en_maxStreams e \<and> en_streamTimeout e' = en_streamTimeout e \<and>
     en_maxResBytes e' = en_maxResBytes e"

lemma same_counters_bulkEmit: "same_counters e (bulkEmit now reqs e)"
  by (auto simp: same_counters_def bulkEmit_def send_hub_def Let_def split: prod.splits sum.splits)

lemma same_counters_flushEmitBuf: "same_counters e (flushEmitBuf now e)"
  using same_counters_bulkEmit [of "e\<lparr>en_emitHead := 0, en_emitTail := 0\<rparr>" now]
  by (simp add: flushEmitBuf_def Let_def) (simp add: same_counters_def)

lemma same_counters_trans: "same_counters e e' \<Longrightarrow> same_counters e' e'' \<Longrightarrow> same_counters e e''"
  by (simp add: same_counters_def)

lemma flushEmitBuf_counters [simp]:
  "en_StreamsDrop (flushEmitBuf now e) = en_StreamsDrop e"
  "en_StreamsEvicted (flushEmitBuf now e) = en_StreamsEvicted e"
  "en_PacketsRecv (flushEmitBuf now e) = en_PacketsRecv e"
  "en_PacketsDrop (flushEmitBuf now e) = en_PacketsDrop e"
  "en_maxStreams (flushEmitBuf now e) = en_maxStreams e"
  "en_streamTimeout (flushEmitBuf now e) = en_streamTimeout e"
  using same_counters_flushEmitBuf [of e now] by (simp_all add: same_counters_def)

lemma same_counters_emit: "same_counters e (emitNonBlocking now req e)"
  by (auto simp: same_counters_def emitNonBlocking_def emit_buffered_def Let_def split: option.splits)

interpretation counters: engine_effects same_counters
proof
  show "same_counters e e" for e by (simp add: same_counters_def)
  show "same_counters e e' \<Longrightarrow> same_counters e' e'' \<Longrightarrow> same_counters e e''" for e e' e''
    by (rule same_counters_trans)
  show "same_counters e (emitNonBlocking now req e)" for e now req by (rule same_counters_emit)
  show "same_counters e (send_hub ms e)" for e ms by (simp add: same_counters_def send_hub_def)
qed (simp_all add: same_counters_def)

section \<open>The identity of a stream\<close>

definition same_stream :: "tcp_stream \<Rightarrow> tcp_stream \<Rightarrow> bool" where
  "same_stream s s' \<longleftrightarrow>
     ts_key s' = ts_key s \<and> ts_srcIP s' = ts_srcIP s \<and> ts_srcPort s' = ts_srcPort s \<and>
     ts_dstPort s' = ts_dstPort s \<and> ts_clientPort s' = ts_clientPort s \<and> ts_lastActive s' = ts_lastActive s"

lemma same_stream_take_request: "take_request now proc s = (ok, s') \<Longrightarrow> same_stream s s'"
  by (auto simp: take_request_def same_stream_def Let_def split: if_splits option.splits)

lemma same_stream_take_sse: "take_sse now idx pending s e = (s', e') \<Longrightarrow> same_stream s s'"
  by (auto simp: take_sse_def same_stream_def Let_def split: if_splits option.splits prod.splits sum.splits)

lemma same_stream_take_response: "take_response now idx pending s e = (s', e') \<Longrightarrow> same_stream s s'"
  by (auto simp: take_response_def same_stream_def Let_def split: if_splits option.splits)

lemma same_stream_trans: "same_stream s s' \<Longrightarrow> same_stream s' s'' \<Longrightarrow> same_stream s s''"
  by (simp add: same_stream_def)

lemma same_stream_extract_step:
  assumes "extract_step now proc s e = (ok, s', e')"
  shows "same_stream s s'"
proof -
  obtain ok1 s1 where t: "take_request now proc s = (ok1, s1)" by fastforce
  have "s' = s1 \<or> same_stream s1 s'"
    using assms t
    by (cases ok1)
       (auto simp: extract_step_def Let_def dest: same_stream_take_sse same_stream_take_response split: if_splits)
  then show ?thesis using same_stream_take_request [OF t] same_stream_trans by auto
qed

lemma same_stream_tryExtractHTTP: "tryExtractHTTP now proc s e = (s', e') \<Longrightarrow> same_stream s s'"
proof (induction now proc s e rule: tryExtractHTTP.induct)
  case (1 now proc s e)
  obtain ok s1 e1 where st: "extract_step now proc s e = (ok, s1, e1)" by (metis prod_cases3)
  show ?case
    using "1.prems" "1.IH" [OF st [symmetric] _ refl] same_stream_extract_step [OF st] st same_stream_trans
    by (cases ok) (auto simp: tryExtractHTTP.simps [of now proc s e])
qed

text \<open>A segment stamps the stream and leaves its identity alone.\<close>

lemma Feed_same_stream:
  assumes f: "Feed now proc data c2s s e = (s', e')"
  shows "same_stream (s\<lparr>ts_lastActive := now\<rparr>) s'"
proof -
  define s0 where "s0 = s\<lparr>ts_lastActive := now\<rparr>"
  define s1 where "s1 = (if c2s then s0\<lparr>ts_clientBuf := ts_clientBuf s0 @ data\<rparr>
                 else s0\<lparr>ts_serverBuf := ts_serverBuf s0 @ data\<rparr>)"
  obtain s2 e2 where c: "(if \<not> ts_firstData s1 then classify now s1 e else (s1, e)) = (s2, e2)" by fastforce
  obtain s3 e3 where t: "tryExtractHTTP now proc s2 e2 = (s3, e3)" by fastforce
  have s01: "same_stream s0 s1" by (simp add: s1_def same_stream_def)
  have s12: "same_stream s1 s2"
    using c by (auto simp: classify_def Let_def same_stream_def split: if_splits)
  have s02: "same_stream s0 s2" by (rule same_stream_trans [OF s01 s12])
  note s03 = same_stream_trans [OF s02 same_stream_tryExtractHTTP [OF t]]
  have lim: "same_stream s (limit_buffers n s)" for n s
    by (simp add: limit_buffers_def same_stream_def Let_def)
  have sse: "feed_sse data s0 e = (s', e') \<Longrightarrow> same_stream s0 s'"
    by (auto simp: feed_sse_def same_stream_def Let_def)
  have "s' = s0 \<or> feed_sse data s0 e = (s', e') \<or> s' = s2 \<or> s' = limit_buffers (streamBufLimit e3) s3"
    using f c t unfolding Feed_def s0_def [symmetric] Let_def
    by (auto simp: s1_def split: if_splits)
  moreover have "same_stream s0 s0" by (simp add: same_stream_def)
  ultimately show ?thesis
    unfolding s0_def [symmetric] using s02 sse same_stream_trans [OF s03 lim] by blast
qed

section \<open>The history of emitted records\<close>

text \<open>Records are only added, and each is counted.\<close>

definition emits_more :: "engine \<Rightarrow> engine \<Rightarrow> bool" where
  "emits_more e e' \<longleftrightarrow>
     (\<exists>rs. en_emitted e' = en_emitted e @ rs \<and> en_HTTPFound e + int (length rs) \<le> en_HTTPFound e')"

interpretation history: engine_effects emits_more
proof
  show "emits_more e e" for e by (simp add: emits_more_def)
  show "emits_more e e' \<Longrightarrow> emits_more e' e'' \<Longrightarrow> emits_more e e''" for e e' e''
    by (force simp: emits_more_def)
  show "emits_more e (emitNonBlocking now req e)" for e now req
    by (simp add: emits_more_def emit_frame)
qed (simp_all add: emits_more_def send_hub_def)

end
