(* ===== verification/NetIPProps.thy ===== *)
theory NetIPProps
  imports NetIP
begin

text \<open>
  The text of an address determines the address: splitting what was joined, the text of a number,
  and the abbreviated text of an IPv6 address read back.
\<close>

section \<open>Joined text splits back\<close>

lemma show_nat_inject [simp]: "show_nat m = show_nat n \<longleftrightarrow> m = n"
  by (metis show_nat_value)

lemma show_nat_plain: "c \<in> set (show_nat n) \<Longrightarrow> c \<notin> {CHR ''#'', CHR ''.'', CHR '':''}"
  using show_nat_digits [of c n] by (auto simp: is_digit_def)

lemma set_join_with: "set (join_with sep ws) \<subseteq> insert sep (\<Union> (set ` set ws))"
  by (induction sep ws rule: join_with.induct) auto

lemma hex_digit_no_hash: "d < 16 \<Longrightarrow> hex_digit d \<noteq> CHR ''#''"
proof
  assume "d < 16" and "hex_digit d = CHR ''#''"
  then have "char_code (hex_digit d) = 35" by simp
  then show False using code_hex_digit [OF \<open>d < 16\<close>] by (simp split: if_splits)
qed

lemma show_hex_no_hash: "CHR ''#'' \<notin> set (show_hex n)"
  using show_hex_digits hex_digit_no_hash by metis

lemma join_groups_no_hash: "CHR ''#'' \<notin> set (join_groups gs)"
  using set_join_with [of "CHR '':''" "map show_hex gs"] show_hex_no_hash
  by (auto simp: join_groups_def)

lemma ip_string_no_hash: "CHR ''#'' \<notin> set (ip_string p)"
proof -
  have v4: "CHR ''#'' \<notin> set (join_with (CHR ''.'') (map (\<lambda>b. show_nat (unat b)) q))" for q :: ip
    using set_join_with [of "CHR ''.''" "map (\<lambda>b. show_nat (unat b)) q"] show_nat_plain by fastforce
  have "unat b div 16 < 16" for b :: "8 word"
    using unsigned_less [where 'a = nat, of b] by (simp add: less_mult_imp_div_less)
  then have hex: "CHR ''#'' \<noteq> hex_digit (unat b div 16)" "CHR ''#'' \<noteq> hex_digit (unat b mod 16)"
    for b :: "8 word"
    using hex_digit_no_hash by (metis mod_less_divisor zero_less_numeral)+
  show ?thesis
    using v4 hex join_groups_no_hash
    by (auto simp: ip_string_def ip6_string_def Let_def split: option.splits)
qed


section \<open>The text of an address is unambiguous\<close>

lemma show_hex_inject [simp]: "show_hex m = show_hex n \<longleftrightarrow> m = n"
  by (metis show_hex_value)

lemma show_hex_Nil [simp]: "[] \<noteq> show_hex n"
  using show_hex_nonempty [of n] by metis

lemma map_show_hex_inject [simp]: "map show_hex xs = map show_hex ys \<longleftrightarrow> xs = ys"
  by (rule inj_map_eq_map) (simp add: inj_def)

lemma hex_digit_plain: "d < 16 \<Longrightarrow> hex_digit d \<notin> {CHR '':'', CHR ''.''}"
proof -
  assume d: "d < 16"
  have "char_code (hex_digit d) \<notin> {58, 46}" using d by (simp add: code_hex_digit)
  moreover have "char_code (CHR '':'') = 58" "char_code (CHR ''.'') = 46" by simp_all
  ultimately show ?thesis by (metis empty_iff insert_iff)
qed

lemma show_hex_plain: "c \<in> set (show_hex n) \<Longrightarrow> c \<notin> {CHR '':'', CHR ''.''}"
  using show_hex_digits hex_digit_plain by metis

lemma best_run_Some:
  assumes "best_run gs = Some (i, l)"
  shows "l = zero_run gs i \<and> 2 \<le> l"
proof -
  have "\<forall>i l. foldl (\<lambda>best i. let l = zero_run gs i in
      if 2 \<le> l \<and> (case best of None \<Rightarrow> True | Some (_, l') \<Rightarrow> l > l') then Some (i, l) else best)
      b js = Some (i, l) \<longrightarrow> l = zero_run gs i \<and> 2 \<le> l"
    if "\<forall>i l. b = Some (i, l) \<longrightarrow> l = zero_run gs i \<and> 2 \<le> l" for b js
    using that
  proof (induction js arbitrary: b)
    case Nil
    then show ?case by simp
  next
    case (Cons j js)
    show ?case
      unfolding foldl_Cons by (rule Cons.IH) (use Cons.prems in \<open>auto simp: Let_def split: if_splits\<close>)
  qed
  note fold = this [of None "[0..<8]"]
  show ?thesis using fold assms unfolding best_run_def by blast
qed

lemma zero_run_split:
  assumes "l = zero_run gs i"
  shows "gs = take i gs @ replicate l 0 @ drop (i + l) gs"
proof -
  have t: "takeWhile (\<lambda>g. g = 0) xs = replicate (length (takeWhile (\<lambda>g. g = 0) xs)) 0" for xs :: "nat list"
    by (rule replicate_length_same [symmetric]) (auto dest: set_takeWhileD)
  have "drop i gs = takeWhile (\<lambda>g. g = 0) (drop i gs) @ dropWhile (\<lambda>g. g = 0) (drop i gs)" by simp
  also have "dropWhile (\<lambda>g. g = 0) (drop i gs) = drop (i + l) gs"
    using assms by (simp add: zero_run_def dropWhile_eq_drop add.commute)
  also have "takeWhile (\<lambda>g. g = 0) (drop i gs) = replicate l 0"
    by (subst t) (simp add: assms zero_run_def)
  finally have "drop i gs = replicate l 0 @ drop (i + l) gs" .
  then show ?thesis by (metis append_take_drop_id)
qed

text \<open>The pieces between the colons: an empty one stands for the end of the text.\<close>

definition side :: "nat list \<Rightarrow> string list" where
  "side gs = (if gs = [] then [[]] else map show_hex gs)"

lemma side_inject: "side gs = side hs \<Longrightarrow> gs = hs"
  by (auto simp: side_def Cons_eq_map_conv map_eq_Cons_conv split: if_splits)

lemma ip6_pieces:
  "split_on (CHR '':'') (join_groups gs @ ''::'' @ join_groups hs) = side gs @ [] # side hs"
proof -
  have no: "\<forall>w \<in> set (map show_hex ks). CHR '':'' \<notin> set w" for ks
    using show_hex_plain by fastforce
  have s: "split_on (CHR '':'') (join_groups ks) = side ks" for ks
    using no split_join [of "map show_hex ks"] by (simp add: join_groups_def side_def)
  have a: "split_on (CHR '':'') (u @ CHR '':'' # v) = split_on (CHR '':'') u @ split_on (CHR '':'') v" for u v
    by (induction u) (auto split: list.splits)
  show ?thesis using a [of "join_groups gs" "CHR '':'' # join_groups hs"] by (simp add: s)
qed

lemma side_split:
  assumes "side gs @ [] # side hs = side gs' @ [] # side hs'"
  shows "gs = gs' \<and> hs = hs'"
proof -
  have ne: "[] \<notin> set (map show_hex ks)" for ks by auto
  have "side gs = side gs' \<and> side hs = side hs'"
  proof (cases "gs = [] \<or> gs' = []")
    case True
    then show ?thesis using assms by (auto simp: side_def Cons_eq_append_conv append_eq_Cons_conv split: if_splits)
  next
    case False
    then have "takeWhile (\<lambda>w. w \<noteq> []) (side gs @ [] # side hs) = side gs"
      "takeWhile (\<lambda>w. w \<noteq> []) (side gs' @ [] # side hs') = side gs'"
      using ne by (auto simp: side_def takeWhile_append)
    then show ?thesis using assms by simp
  qed
  then show ?thesis using side_inject by blast
qed

lemma ip6_string_groups:
  assumes "ip6_string p = ip6_string q" and "length (groups16 p) = 8" and "length (groups16 q) = 8"
  shows "groups16 p = groups16 q"
proof -
  let ?sp = "split_on (CHR '':'')"
  have no: "\<forall>w \<in> set (map show_hex ks). CHR '':'' \<notin> set w" for ks
    using show_hex_plain by fastforce
  have none: "?sp (ip6_string r) = map show_hex (groups16 r)"
    if "best_run (groups16 r) = None" "length (groups16 r) = 8" for r
  proof -
    have "map show_hex (groups16 r) \<noteq> []" using that(2) by auto
    then show ?thesis using that(1) no by (simp add: ip6_string_def join_groups_def split_join)
  qed
  have some: "?sp (ip6_string r) = side (take i (groups16 r)) @ [] # side (drop (i + l) (groups16 r))"
    if "best_run (groups16 r) = Some (i, l)" for r i l
    using that ip6_pieces by (simp add: ip6_string_def Let_def)
  have eq: "?sp (ip6_string p) = ?sp (ip6_string q)" using assms(1) by simp
  show ?thesis
  proof (cases "best_run (groups16 p)")
    case None
    note p = none [OF None assms(2)]
    show ?thesis
    proof (cases "best_run (groups16 q)")
      case None
      show ?thesis using eq p none [OF None assms(3)] by auto
    next
      case (Some il)
      then have "[] \<in> set (?sp (ip6_string q))" using some by (cases il) auto
      then have False unfolding eq [symmetric] p by auto
      then show ?thesis ..
    qed
  next
    case (Some il)
    obtain i l where il: "best_run (groups16 p) = Some (i, l)" using Some by (cases il) auto
    note p = some [OF il]
    show ?thesis
    proof (cases "best_run (groups16 q)")
      case None
      then have "[] \<in> set (map show_hex (groups16 q))"
        using eq p none [OF None assms(3)] by (metis in_set_conv_decomp)
      then show ?thesis by auto
    next
      case (Some jm)
      obtain j m where jm: "best_run (groups16 q) = Some (j, m)" using Some by (cases jm) auto
      have parts: "take i (groups16 p) = take j (groups16 q)" "drop (i + l) (groups16 p) = drop (j + m) (groups16 q)"
        using side_split eq p some [OF jm] by metis+
      have P: "groups16 p = take i (groups16 p) @ replicate l 0 @ drop (i + l) (groups16 p)"
        using zero_run_split best_run_Some [OF il] by blast
      have Q: "groups16 q = take j (groups16 q) @ replicate m 0 @ drop (j + m) (groups16 q)"
        using zero_run_split best_run_Some [OF jm] by blast
      have "l = m"
        using arg_cong [OF P, of length] arg_cong [OF Q, of length]
        unfolding length_append length_replicate parts assms(2,3) by linarith
      then show ?thesis using P Q parts by argo
    qed
  qed
qed

lemma groups16_length: "length p = 2 * n \<Longrightarrow> length (groups16 p) = n"
proof (induction p arbitrary: n rule: groups16.induct)
  case (1 a b bs)
  then obtain m where "n = Suc m" by (cases n) auto
  with 1 show ?case by auto
qed auto

lemma two_bytes: "a * 256 + b = c * 256 + d \<Longrightarrow> b < 256 \<Longrightarrow> d < (256 :: nat) \<Longrightarrow> a = c \<and> b = d"
proof -
  assume e: "a * 256 + b = c * 256 + d" and b: "b < 256" "d < 256"
  have "a = (a * 256 + b) div 256" "c = (c * 256 + d) div 256" using b by simp_all
  then have "a = c" using e by simp
  then show ?thesis using e by simp
qed

lemma groups16_inject: "length p = 2 * n \<Longrightarrow> length q = 2 * n \<Longrightarrow> groups16 p = groups16 q \<Longrightarrow> p = q"
proof (induction p arbitrary: n q rule: groups16.induct)
  case (1 a b bs)
  then obtain c d cs where q: "q = c # d # cs" by (cases q rule: groups16.cases) auto
  have "unat a * 256 + unat b = unat c * 256 + unat d" using "1.prems" q by simp
  moreover have "unat b < 256" "unat d < 256"
    using unsigned_less [where 'a = nat, of b] unsigned_less [where 'a = nat, of d] by simp_all
  ultimately have "unat a = unat c \<and> unat b = unat d" by (rule two_bytes)
  then have ab: "a = c" "b = d" by (simp_all add: word_unat_eq_iff)
  obtain m where "n = Suc m" using "1.prems"(1) by (cases n) simp_all
  then have "length bs = 2 * m" "length cs = 2 * m" using "1.prems"(1,2) q by simp_all
  moreover have "groups16 bs = groups16 cs" using "1.prems"(3) q by simp
  ultimately have "bs = cs" by (rule "1.IH")
  then show ?case using q ab by simp
next
  case "2_1"
  then show ?case by simp
next
  case "2_2"
  then show ?case by (metis dvd_triv_left even_Suc length_Cons list.size(3) odd_one One_nat_def)
qed

lemma ip4_text_pieces:
  assumes "q \<noteq> []"
  shows "split_on (CHR ''.'') (join_with (CHR ''.'') (map (\<lambda>b. show_nat (unat b)) q)) =
    map (\<lambda>b. show_nat (unat b)) q"
  using assms show_nat_plain by (intro split_join) fastforce+

lemma ip6_no_dot: "CHR ''.'' \<notin> set (ip6_string p)"
proof -
  have "CHR ''.'' \<notin> set (join_groups gs)" for gs
    using set_join_with [of "CHR '':''" "map show_hex gs"] show_hex_plain by (fastforce simp: join_groups_def)
  then show ?thesis by (auto simp: ip6_string_def Let_def split: option.splits)
qed

lemma To4_length: "To4 p = Some q \<Longrightarrow> length q = 4"
  by (auto simp: To4_def split: if_splits)

lemma To4_To16: "To4 p = Some q \<Longrightarrow> To16 p = Some (replicate 10 0 @ [0xff, 0xff] @ q)"
proof -
  assume t: "To4 p = Some q"
  show ?thesis
  proof (cases "length p = 4")
    case True
    then show ?thesis using t by (simp add: To4_def To16_def)
  next
    case False
    with t have l: "length p = 16" and p: "take 10 p = replicate 10 0" "p ! 10 = 0xff" "p ! 11 = 0xff" "q = drop 12 p"
      by (auto simp: To4_def split: if_splits)
    have "drop 10 p = p ! 10 # p ! 11 # drop 12 p"
      using l Cons_nth_drop_Suc [of 10 p] Cons_nth_drop_Suc [of 11 p] by simp
    then have "p = replicate 10 0 @ [0xff, 0xff] @ q"
      using append_take_drop_id [of 10 p] p by simp
    then show ?thesis using l by (simp add: To16_def)
  qed
qed

text \<open>Two addresses with the same text have the same 16-byte form.\<close>

lemma ip_string_inject:
  assumes "length p \<in> {4, 16}" and "length q \<in> {4, 16}" and eq: "ip_string p = ip_string q"
  shows "To4 p = To4 q \<and> To16 p = To16 q"
proof -
  have ne: "p \<noteq> []" "q \<noteq> []" using assms(1,2) by auto
  have v4: "ip_string r = join_with (CHR ''.'') (map (\<lambda>b. show_nat (unat b)) r4)"
    if "To4 r = Some r4" "r \<noteq> []" for r r4 using that by (simp add: ip_string_def)
  have v6: "ip_string r = ip6_string r \<and> length r = 16" if "To4 r = None" "length r \<in> {4, 16}" for r
    using that by (auto simp: ip_string_def To4_def split: if_splits)
  have dot: "CHR ''.'' \<in> set (ip_string r)" if r: "To4 r = Some r4" "r \<noteq> []" for r r4
  proof -
    have l: "length r4 = 4" by (rule To4_length [OF r(1)])
    then have "r4 \<noteq> []" by auto
    then have "length (split_on (CHR ''.'') (ip_string r)) = 4"
      unfolding v4 [OF r] ip4_text_pieces [OF \<open>r4 \<noteq> []\<close>] using l by simp
    then show ?thesis using split_on_none [of "CHR ''.''" "ip_string r"] by fastforce
  qed
  show ?thesis
  proof (cases "To4 p")
    case None
    then have p: "ip_string p = ip6_string p" "length p = 16" using v6 assms(1) by auto
    have "To4 q = None"
      using dot [of q] eq ip6_no_dot [of p] p(1) ne(2) by (cases "To4 q") auto
    moreover from this have q: "ip_string q = ip6_string q" "length q = 16" using v6 assms(2) by auto
    have "p = q"
      using ip6_string_groups [of p q] groups16_length [of p 8] groups16_length [of q 8]
        groups16_inject [of p 8 q] eq p q by simp
    ultimately show ?thesis using None by simp
  next
    case (Some p4)
    have "To4 q \<noteq> None"
      using dot [OF Some ne(1)] eq ip6_no_dot [of q] v6 [OF _ assms(2)] by fastforce
    then obtain q4 where q4: "To4 q = Some q4" by auto
    have ne4: "p4 \<noteq> []" "q4 \<noteq> []" using To4_length Some q4 by force+
    have "map (\<lambda>b. show_nat (unat b)) p4 = map (\<lambda>b. show_nat (unat b)) q4"
      using arg_cong [OF eq, of "split_on (CHR ''.'')"]
      unfolding v4 [OF Some ne(1)] v4 [OF q4 ne(2)] ip4_text_pieces [OF ne4(1)] ip4_text_pieces [OF ne4(2)] .
    then have "p4 = q4" by (rule map_injective) (simp add: inj_def word_unat_eq_iff)
    then show ?thesis using Some q4 To4_To16 by simp
  qed
qed

end
