(* ===== verification/AssemblerProps.thy ===== *)
theory AssemblerProps
  imports Assembler StreamEffects NetIPProps
begin

unbundle bit_operations_syntax

text \<open>
  What the assembler and its workers guarantee: one key per flow and one worker per key, a bounded
  set of streams that evicts the longest idle one, what the collector keeps, and what the
  handshake correction does not correct.
\<close>

section \<open>Stream keys\<close>

text \<open>The endpoints in the order the key lists them.\<close>

definition endpoints :: "string \<Rightarrow> nat \<Rightarrow> string \<Rightarrow> nat \<Rightarrow> (string \<times> nat) \<times> (string \<times> nat)" where
  "endpoints a p b q = (if str_less a b \<or> (a = b \<and> p < q) then ((a, p), (b, q)) else ((b, q), (a, p)))"

lemma streamKey_endpoints:
  "streamKey a p b q =
     (case endpoints a p b q of ((a, p), (b, q)) \<Rightarrow> join_with (CHR ''#'') [a, show_nat p, b, show_nat q])"
  by (simp add: streamKey_def endpoints_def)

lemma streamKey_inject:
  assumes "\<forall>w \<in> {a, b, c, d}. CHR ''#'' \<notin> set w"
  shows "streamKey a p b q = streamKey c r d s \<longleftrightarrow> endpoints a p b q = endpoints c r d s"
proof -
  have "join_with (CHR ''#'') [a', show_nat p', b', show_nat q'] =
      join_with (CHR ''#'') [c', show_nat r', d', show_nat s'] \<longleftrightarrow>
      ((a', p'), (b', q')) = ((c', r'), (d', s'))"
    if "\<forall>w \<in> {a', b', c', d'}. CHR ''#'' \<notin> set w" for a' b' c' d' p' q' r' s'
  proof -
    have "\<forall>w \<in> set [a', show_nat p', b', show_nat q']. CHR ''#'' \<notin> set w"
      "\<forall>w \<in> set [c', show_nat r', d', show_nat s']. CHR ''#'' \<notin> set w"
      using that show_nat_plain by auto
    then have "[a', show_nat p', b', show_nat q'] = [c', show_nat r', d', show_nat s']"
      if "join_with (CHR ''#'') [a', show_nat p', b', show_nat q'] =
        join_with (CHR ''#'') [c', show_nat r', d', show_nat s']"
      using that by (metis list.distinct(1) split_join)
    then show ?thesis by auto
  qed
  then show ?thesis
    using assms by (auto simp: streamKey_endpoints endpoints_def)
qed

lemma endpoints_eq:
  "endpoints a p b q = endpoints c r d s \<longleftrightarrow>
     (a, p) = (c, r) \<and> (b, q) = (d, s) \<or> (a, p) = (d, s) \<and> (b, q) = (c, r)"
  using str_less_linear [of a b] str_less_asym [of a b] str_less_asym [of b a]
  by (auto simp: endpoints_def split: if_splits)


lemma streamKey_swap: "streamKey a p b q = streamKey b q a p"
  using endpoints_eq [of a p b q b q a p] by (simp add: streamKey_endpoints)

lemma To16_ip_string:
  assumes "length a \<in> {4, 16}" and "length c \<in> {4, 16}"
  shows "ip_string a = ip_string c \<longleftrightarrow> To16 a = To16 c"
proof
  assume eq: "To16 a = To16 c"
  have "To4 a = To4 c"
    using eq assms by (auto simp: To16_def To4_def nth_append split: if_splits)
  moreover have "a = c" if "To4 a = None"
    using that eq assms \<open>To4 a = To4 c\<close> by (auto simp: To16_def To4_def split: if_splits)
  moreover have "a \<noteq> []" "c \<noteq> []" using assms by auto
  ultimately show "ip_string a = ip_string c" by (cases "To4 c") (auto simp: ip_string_def)
qed (use ip_string_inject [OF assms] in blast)

text \<open>The key of a stream identifies its connection: two segments get the same key exactly if
  they run between the same two endpoints, in either direction.\<close>
theorem stream_key_identifies_connection:
  assumes "\<forall>x \<in> {a, b, c, d}. length x \<in> {4, 16}"
  shows "streamKey (ip_string a) p (ip_string b) q = streamKey (ip_string c) r (ip_string d) s \<longleftrightarrow>
    (To16 a, p) = (To16 c, r) \<and> (To16 b, q) = (To16 d, s) \<or>
    (To16 a, p) = (To16 d, s) \<and> (To16 b, q) = (To16 c, r)"
proof -
  have l: "length a \<in> {4, 16}" "length b \<in> {4, 16}" "length c \<in> {4, 16}" "length d \<in> {4, 16}"
    using assms by simp_all
  have "ip_string a = ip_string c \<longleftrightarrow> To16 a = To16 c" "ip_string b = ip_string d \<longleftrightarrow> To16 b = To16 d"
    "ip_string a = ip_string d \<longleftrightarrow> To16 a = To16 d" "ip_string b = ip_string c \<longleftrightarrow> To16 b = To16 c"
    by (rule To16_ip_string [OF l(1,3)] To16_ip_string [OF l(2,4)]
      To16_ip_string [OF l(1,4)] To16_ip_string [OF l(2,3)])+
  moreover have "\<forall>w \<in> {ip_string a, ip_string b, ip_string c, ip_string d}. CHR ''#'' \<notin> set w"
    using ip_string_no_hash by auto
  ultimately show ?thesis by (simp add: streamKey_inject endpoints_eq)
qed

section \<open>Workers\<close>

text \<open>The addresses of a packet's IP layer, and whether it is an IPv6 layer.\<close>

definition addresses :: "packet \<Rightarrow> (bool \<times> ip \<times> ip) option" where
  "addresses p = (case pk_ip p of
      IPv4 s d \<Rightarrow> Some (False, s, d) | IPv6 s d \<Rightarrow> Some (True, s, d) | NoIP \<Rightarrow> None)"

definition packet_key :: "packet \<Rightarrow> string option" where
  "packet_key p = (case (pk_tcp p, addresses p) of
      (Some t, Some (_, s, d)) \<Rightarrow> Some (streamKey (ip_string s) (seg_SrcPort t) (ip_string d) (seg_DstPort t))
    | _ \<Rightarrow> None)"

definition fold_address :: "bool \<Rightarrow> ip \<Rightarrow> 32 word" where
  "fold_address v6 a = (if v6 then foldIPv6 a else fold_bytes (case To4 a of Some b \<Rightarrow> b | None \<Rightarrow> []))"

lemma flowHash_addresses:
  assumes "pk_tcp p = Some t" and "addresses p = Some (v6, s, d)"
  shows "flowHash w p =
    (let h = fold_address v6 s XOR fold_address v6 d XOR of_nat (seg_SrcPort t) XOR of_nat (seg_DstPort t)
     in unat (drop_bit 16 h XOR h) mod w)"
  using assms by (auto simp: flowHash_def addresses_def fold_address_def Let_def split: ip_layer.splits)

lemma fold_address_cong:
  assumes "length a \<in> {4, 16}" and "length c \<in> {4, 16}" and "To16 a = To16 c"
  shows "fold_address v6 a = fold_address v6 c"
  using assms To16_ip_string [OF assms(1,2)] ip_string_inject [OF assms(1,2)]
  by (simp add: fold_address_def foldIPv6_def)

text \<open>C18: All segments of a connection, in both directions, go to one worker, and it exists.\<close>
theorem connection_has_one_worker:
  assumes "0 < workers" and "packet_key p = Some k" and "packet_key p' = Some k"
    and "addresses p = Some (v6, s, d)" and "addresses p' = Some (v6, s', d')"
    and "\<forall>x \<in> {s, d, s', d'}. length x \<in> {4, 16}"
  shows "flowHash workers p = flowHash workers p' \<and> flowHash workers p < workers"
proof -
  obtain t t' where t: "pk_tcp p = Some t" "pk_tcp p' = Some t'"
    using assms(2,3) by (auto simp: packet_key_def split: option.splits)
  have "streamKey (ip_string s) (seg_SrcPort t) (ip_string d) (seg_DstPort t) =
      streamKey (ip_string s') (seg_SrcPort t') (ip_string d') (seg_DstPort t')"
    using assms(2-5) t by (auto simp: packet_key_def)
  then have ends: "(To16 s, seg_SrcPort t) = (To16 s', seg_SrcPort t') \<and> (To16 d, seg_DstPort t) = (To16 d', seg_DstPort t') \<or>
      (To16 s, seg_SrcPort t) = (To16 d', seg_DstPort t') \<and> (To16 d, seg_DstPort t) = (To16 s', seg_SrcPort t')"
    using stream_key_identifies_connection [of s d s' d'] assms(6) by blast
  have "fold_address v6 a = fold_address v6 c"
    if "a \<in> {s, d}" "c \<in> {s', d'}" "To16 a = To16 c" for a c
    using that assms(6) by (intro fold_address_cong) blast+
  note folds = this [of s s'] this [of d d'] this [of s d'] this [of d s']
  have "fold_address v6 s XOR fold_address v6 d XOR of_nat (seg_SrcPort t) XOR of_nat (seg_DstPort t) =
      fold_address v6 s' XOR fold_address v6 d' XOR of_nat (seg_SrcPort t') XOR of_nat (seg_DstPort t')"
    using ends
  proof
    assume "(To16 s, seg_SrcPort t) = (To16 s', seg_SrcPort t') \<and> (To16 d, seg_DstPort t) = (To16 d', seg_DstPort t')"
    then show ?thesis using folds(1,2) by simp
  next
    assume "(To16 s, seg_SrcPort t) = (To16 d', seg_DstPort t') \<and> (To16 d, seg_DstPort t) = (To16 s', seg_SrcPort t')"
    then show ?thesis using folds(3,4) by (simp add: xor.left_commute xor.commute)
  qed
  then have "flowHash workers p = flowHash workers p'"
    by (simp add: flowHash_addresses [OF t(1) assms(4)] flowHash_addresses [OF t(2) assms(5)])
  moreover have "flowHash workers p < workers"
    using assms(1) by (simp add: flowHash_addresses [OF t(1) assms(4)] Let_def)
  ultimately show ?thesis by simp
qed

section \<open>The streams of a worker\<close>

definition asm_inv :: "assembler \<Rightarrow> bool" where
  "asm_inv a \<longleftrightarrow> distinct (map fst (as_streams a)) \<and> length (as_streams a) \<le> as_maxStreams a \<and>
     0 < as_maxStreams a \<and> (\<forall>(k, s) \<in> set (as_streams a). ts_key s = k)"

lemma set_delete: "set (AList.delete k al) \<subseteq> set al"
  by (auto simp: AList.delete_eq)

lemma asm_inv_delete: "asm_inv a \<Longrightarrow> asm_inv (a\<lparr>as_streams := AList.delete k (as_streams a)\<rparr>)"
  using length_delete_le [of k "as_streams a"] set_delete [of k "as_streams a"]
  by (auto simp: asm_inv_def distinct_delete)

lemma length_update:
  "length (AList.update k v al) = (if k \<in> fst ` set al then length al else Suc (length al))"
  by (induction al) auto

lemma set_update: "distinct (map fst al) \<Longrightarrow> set (AList.update k v al) \<subseteq> insert (k, v) {(k', v') \<in> set al. k' \<noteq> k}"
  by (induction al) (auto simp: rev_image_eqI)

lemma asm_inv_update:
  assumes "asm_inv a" and "ts_key s = k"
    and "k \<in> fst ` set (as_streams a) \<or> length (as_streams a) < as_maxStreams a"
  shows "asm_inv (a\<lparr>as_streams := AList.update k s (as_streams a)\<rparr>)"
  using assms set_update [of "as_streams a" k s]
  by (auto simp: asm_inv_def length_update distinct_update)

lemma asm_inv_New: "asm_inv (NewAssembler eng)"
  by (auto simp: asm_inv_def NewAssembler_def split: option.splits)

text \<open>Eviction picks a stream that has been idle longest.\<close>

lemma oldest_fold:
  assumes "foldl (\<lambda>best (k, s). case best of
              None \<Rightarrow> Some (k, s)
            | Some (k', s') \<Rightarrow> if ts_lastActive s < ts_lastActive s' then Some (k, s) else Some (k', s'))
       b ss = r"
  shows "(r = None \<longleftrightarrow> b = None \<and> ss = []) \<and>
    (\<forall>k s. r = Some (k, s) \<longrightarrow> (Some (k, s) = b \<or> (k, s) \<in> set ss) \<and>
       (\<forall>(k', s') \<in> set ss \<union> set_option b. ts_lastActive s \<le> ts_lastActive s'))"
  using assms
proof (induction ss arbitrary: b)
  case Nil
  then show ?case by auto
next
  case (Cons x ss)
  obtain k s where x: "x = (k, s)" by (cases x)
  show ?case
    using Cons.IH [OF Cons.prems [unfolded foldl_Cons]]
    by (cases b) (auto simp: x split: if_splits)
qed

lemma oldest_Some:
  assumes "oldest ss = Some (k, s)"
  shows "(k, s) \<in> set ss \<and> (\<forall>(k', s') \<in> set ss. ts_lastActive s \<le> ts_lastActive s')"
  using oldest_fold [of None ss "Some (k, s)"] assms by (auto simp: oldest_def)

lemma oldest_None: "oldest ss = None \<longleftrightarrow> ss = []"
  using oldest_fold [of None ss "oldest ss"] by (simp add: oldest_def)

lemma evict_makes_room:
  assumes i: "asm_inv a" and "length (as_streams a) \<ge> as_maxStreams a"
    and e: "evictOldestIdleStream a = (ev, a')"
  shows "asm_inv a' \<and> length (as_streams a') < as_maxStreams a' \<and> as_maxStreams a' = as_maxStreams a \<and>
    (\<exists>k s. ev = Some s \<and> (k, s) \<in> set (as_streams a) \<and> as_streams a' = AList.delete k (as_streams a) \<and>
       (\<forall>(k', s') \<in> set (as_streams a). ts_lastActive s \<le> ts_lastActive s'))"
proof -
  have "as_streams a \<noteq> []" using i assms(2) by (auto simp: asm_inv_def)
  then obtain k s where o: "oldest (as_streams a) = Some (k, s)" using oldest_None by (cases "oldest (as_streams a)") auto
  note os = oldest_Some [OF o]
  have a': "ev = Some s" "a' = a\<lparr>as_streams := AList.delete k (as_streams a)\<rparr>"
    using e o by (auto simp: evictOldestIdleStream_def)
  have "length (AList.delete k (as_streams a)) < length (as_streams a)"
    using os by (auto simp: AList.delete_eq intro!: length_filter_less)
  then show ?thesis using i os a' asm_inv_delete [OF i, of k] by (auto simp: asm_inv_def)
qed

lemma evict_engine:
  "as_maxStreams (snd (evictOldestIdleStream a)) = as_maxStreams a"
  by (auto simp: evictOldestIdleStream_def split: option.splits prod.splits)

definition packet_counters :: "engine \<Rightarrow> int \<times> int \<times> int" where
  "packet_counters e = (en_PacketsRecv e, en_PacketsDrop e, en_StreamsDrop e)"

text \<open>What the lookup returns: the stream of the key, never a dropped flow.\<close>

lemma lookup_stream_found:
  assumes i: "asm_inv a" and l: "lookup_stream now key ip cp sp a e = (r, ev, a', e')"
  shows "\<exists>s. r = Some s \<and> asm_inv a' \<and> as_maxStreams a' = as_maxStreams a \<and>
    key \<in> fst ` set (as_streams a') \<and> ts_key s = key \<and> packet_counters e' = packet_counters e"
proof (cases "map_of (as_streams a) key")
  case (Some s)
  then have "(key, s) \<in> set (as_streams a)" by (rule map_of_SomeD)
  then show ?thesis
    using i l Some by (auto simp: lookup_stream_def packet_counters_def asm_inv_def rev_image_eqI)
next
  case None
  define s where "s = (New_stream now ip cp sp)\<lparr>ts_key := key\<rparr>"
  have sk: "ts_key s = key" by (simp add: s_def)
  have upd: "asm_inv (b\<lparr>as_streams := AList.update key s (as_streams b)\<rparr>)"
    if "asm_inv b" "length (as_streams b) < as_maxStreams b" for b
    by (rule asm_inv_update) (use that in \<open>auto simp: s_def\<close>)
  have key: "key \<in> fst ` set (AList.update key s al)" for al
    by (induction al) auto
  show ?thesis
  proof (cases "length (as_streams a) \<ge> as_maxStreams a")
    case False
    then show ?thesis
      using i l None upd [of a] key sk by (auto simp: lookup_stream_def packet_counters_def s_def [symmetric] Let_def)
  next
    case True
    obtain ev1 a1 where e1: "evictOldestIdleStream a = (ev1, a1)" by fastforce
    note room = evict_makes_room [OF i True e1]
    have "r = Some s \<and> a' = a1\<lparr>as_streams := AList.update key s (as_streams a1)\<rparr> \<and> packet_counters e' = packet_counters e"
      using l None True e1 room by (auto simp: lookup_stream_def packet_counters_def s_def [symmetric] Let_def)
    then show ?thesis using upd [of a1] room key sk by auto
  qed
qed

lemma flushEvicted_counters: "same_counters e (flushEvictedStream now proc ev e)"
  using counters.flush_stream_R counters.R_refl
  by (auto simp: flushEvictedStream_def split: option.splits)

lemma HandleClose_inv:
  assumes "asm_inv a" and "HandleClose now proc s a e = (a', e')"
  shows "asm_inv a' \<and> as_maxStreams a' = as_maxStreams a \<and> same_counters e e'"
  using assms asm_inv_delete counters.flush_stream_R [of e now proc s] counters.R_refl
  by (auto simp: HandleClose_def Let_def)

lemma segment_direction_key: "segment_direction tcp s = (c, s') \<Longrightarrow> ts_key s' = ts_key s"
  by (auto simp: segment_direction_def split: if_splits)

lemma assemble_segment_inv:
  assumes i: "asm_inv a" and m: "assemble_segment now proc tcp src dst a e = (a', e')"
  shows "asm_inv a' \<and> as_maxStreams a' = as_maxStreams a \<and> packet_counters e' = packet_counters e"
proof -
  let ?key = "streamKey (ip_string src) (seg_SrcPort tcp) (ip_string dst) (seg_DstPort tcp)"
  obtain cip cp sp where d: "(if determineDirection (seg_SrcPort tcp) (seg_DstPort tcp)
      then (src, seg_SrcPort tcp, seg_DstPort tcp) else (dst, seg_DstPort tcp, seg_SrcPort tcp)) = (cip, cp, sp)"
    by (metis prod_cases3)
  obtain r ev a1 e1 where l: "lookup_stream now ?key cip cp sp a e = (r, ev, a1, e1)" by (metis prod_cases4)
  obtain s where s: "r = Some s" "asm_inv a1" "as_maxStreams a1 = as_maxStreams a"
    "?key \<in> fst ` set (as_streams a1)" "ts_key s = ?key" "packet_counters e1 = packet_counters e"
    using lookup_stream_found [OF i l] by blast
  define e2 where "e2 = flushEvictedStream now proc ev e1"
  have e2: "packet_counters e2 = packet_counters e1"
    using flushEvicted_counters [of e1 now proc ev] by (simp add: e2_def same_counters_def packet_counters_def)
  obtain c s1 where sd: "segment_direction tcp s = (c, s1)" by fastforce
  have k1: "ts_key s1 = ?key" using segment_direction_key [OF sd] s(5) by simp
  obtain s2 e3 where f: "(if seg_Payload tcp \<noteq> [] then Feed now proc (seg_Payload tcp) c s1 e2 else (s1, e2)) = (s2, e3)"
    by fastforce
  have k2: "ts_key s2 = ?key" and e3: "packet_counters e3 = packet_counters e2"
    using f k1 Feed_same_stream [of now proc "seg_Payload tcp" c s1 e2 s2 e3]
      counters.Feed_R [of now proc "seg_Payload tcp" c s1 e2 s2 e3]
    by (auto simp: same_stream_def same_counters_def packet_counters_def split: if_splits)
  define a2 where "a2 = a1\<lparr>as_streams := AList.update ?key s2 (as_streams a1)\<rparr>"
  have a2: "asm_inv a2" using asm_inv_update [OF s(2) k2] s(4) by (simp add: a2_def)
  have r: "(a', e') = (if seg_FIN tcp \<or> seg_RST tcp then HandleClose now proc s2 a2 e3 else (a2, e3))"
    using m unfolding assemble_segment_def Let_def d prod.case l s(1) option.case e2_def [symmetric]
      sd f a2_def [symmetric] by simp
  have max: "as_maxStreams a2 = as_maxStreams a" using s(3) by (simp add: a2_def)
  have "asm_inv a' \<and> as_maxStreams a' = as_maxStreams a2 \<and> packet_counters e' = packet_counters e3"
  proof (cases "seg_FIN tcp \<or> seg_RST tcp")
    case True
    then show ?thesis
      using HandleClose_inv [OF a2, of now proc s2 e3 a' e'] r by (simp add: same_counters_def packet_counters_def)
  next
    case False
    then show ?thesis using r a2 by simp
  qed
  then show ?thesis using max e2 e3 s(6) by simp
qed

text \<open>What the collector keeps.\<close>

definition live :: "instant \<Rightarrow> string \<times> tcp_stream \<Rightarrow> bool" where
  "live t = (\<lambda>(k, s). \<not> ts_nonHTTP s \<and> t \<le> ts_lastActive s)"

lemma flush_older_filter:
  "flush_older now proc t ss e = (ss', e') \<Longrightarrow>
     ss' = filter (live t) ss \<and> same_counters e e' \<and> emits_more e e'"
proof (induction now proc t ss e arbitrary: ss' e' rule: flush_older.induct)
  case (1 now proc t e)
  then show ?case using counters.R_refl history.R_refl by simp
next
  case (2 now proc t k s ss e)
  note fl = counters.flush_stream_R [of e now proc s] history.flush_stream_R [of e now proc s]
  consider (non) "ts_nonHTTP s" | (old) "\<not> ts_nonHTTP s" "ts_lastActive s < t"
    | (keep) "\<not> ts_nonHTTP s" "\<not> ts_lastActive s < t" by blast
  then show ?case
  proof cases
    case non
    then show ?thesis using "2.IH"(1) [OF non] "2.prems" by (simp add: live_def)
  next
    case old
    then have "ss' = filter (live t) ss \<and> same_counters (snd (flush_stream now proc s e)) e' \<and>
        emits_more (snd (flush_stream now proc s e)) e'"
      using "2.IH"(2) [OF old] "2.prems" by simp
    then show ?thesis
      using old fl counters.R_trans history.R_trans by (auto simp: live_def)
  next
    case keep
    obtain ss1 e1 where f: "flush_older now proc t ss e = (ss1, e1)" by fastforce
    then show ?thesis
      using "2.IH"(3) [OF keep f] "2.prems" keep by (auto simp: live_def)
  qed
qed

lemma worker_turn_inv:
  assumes i: "asm_inv a" and w: "worker_turn ev a e = (a', e')"
  shows "asm_inv a' \<and> as_maxStreams a' = as_maxStreams a \<and> packet_counters e' = packet_counters e"
proof (cases ev)
  case (Packet now proc p)
  then show ?thesis
    using i w assemble_segment_inv [OF i] by (auto simp: Assemble_def split: option.splits ip_layer.splits)
next
  case (Gc now proc)
  obtain ss e1 where f: "flush_older now proc (now - en_streamTimeout e) (as_streams a) e = (ss, e1)" by fastforce
  note ff = flush_older_filter [OF f]
  have "asm_inv (a\<lparr>as_streams := filter P (as_streams a)\<rparr>)" for P
    using i order_trans [OF length_filter_le] by (auto simp: asm_inv_def distinct_map_filter)
  then show ?thesis using w f ff Gc by (auto simp: FlushOlderThan_def same_counters_def packet_counters_def)
next
  case (Closed now proc)
  have "same_counters e (foldl (\<lambda>e (k, s). if ts_nonHTTP s then e else snd (flush_stream now proc s e)) e ss)" for ss
    using counters.flush_stream_R counters.R_trans counters.R_refl
    by (induction ss arbitrary: e) (auto split: prod.splits, blast+)
  then show ?thesis using i w Closed by (auto simp: FlushAllWithPending_def asm_inv_def same_counters_def packet_counters_def)
qed

fun run_worker :: "worker_event list \<Rightarrow> assembler \<Rightarrow> engine \<Rightarrow> assembler \<times> engine" where
  "run_worker [] a e = (a, e)"
| "run_worker (ev # evs) a e = (case worker_turn ev a e of (a, e) \<Rightarrow> run_worker evs a e)"

lemma run_worker_inv:
  "asm_inv a \<Longrightarrow> run_worker evs a e = (a', e') \<Longrightarrow>
     asm_inv a' \<and> as_maxStreams a' = as_maxStreams a \<and> packet_counters e' = packet_counters e"
  by (induction evs arbitrary: a e) (fastforce split: prod.splits dest: worker_turn_inv)+

text \<open>Whatever packets, collector ticks and closings a worker goes through, its streams have
  distinct keys, each stream knows its key, there are never more of them than the limit, and the
  fall-back branch that drops a new flow is never taken.\<close>
theorem worker_streams_bounded:
  "asm_inv (fst (run_worker evs (NewAssembler eng) e)) \<and>
   as_maxStreams (fst (run_worker evs (NewAssembler eng) e)) = as_maxStreams (NewAssembler eng) \<and>
   en_StreamsDrop (snd (run_worker evs (NewAssembler eng) e)) = en_StreamsDrop e"
  using run_worker_inv [OF asm_inv_New, of evs eng e]
  by (cases "run_worker evs (NewAssembler eng) e") (auto simp: packet_counters_def)

text \<open>A new flow at the limit replaces a stream that has been idle longest, which is handed back
  to be flushed and counted.\<close>
theorem eviction_is_least_recently_active:
  assumes "asm_inv a" and "length (as_streams a) = as_maxStreams a" and "map_of (as_streams a) key = None"
  shows "\<exists>k s. (k, s) \<in> set (as_streams a) \<and> (\<forall>(k', s') \<in> set (as_streams a). ts_lastActive s \<le> ts_lastActive s') \<and>
    lookup_stream now key ip cp sp a e =
      (Some ((New_stream now ip cp sp)\<lparr>ts_key := key\<rparr>), Some s,
       a\<lparr>as_streams := AList.update key ((New_stream now ip cp sp)\<lparr>ts_key := key\<rparr>) (AList.delete k (as_streams a))\<rparr>,
       e\<lparr>en_StreamsEvicted := en_StreamsEvicted e + 1\<rparr>)"
proof -
  have full: "length (as_streams a) \<ge> as_maxStreams a" using assms(2) by simp
  obtain ev a1 where e1: "evictOldestIdleStream a = (ev, a1)" by fastforce
  obtain k s where room: "ev = Some s" "(k, s) \<in> set (as_streams a)" "as_streams a1 = AList.delete k (as_streams a)"
    "\<forall>(k', s') \<in> set (as_streams a). ts_lastActive s \<le> ts_lastActive s'"
    "length (as_streams a1) < as_maxStreams a1" "as_maxStreams a1 = as_maxStreams a"
    using evict_makes_room [OF assms(1) full e1] by blast
  have "a1\<lparr>as_streams := x\<rparr> = a\<lparr>as_streams := x\<rparr>" for x
    using room(6) by (cases a; cases a1) simp
  then show ?thesis
    using full e1 room assms(3)
    by (intro exI [of _ k] exI [of _ s]) (simp add: lookup_stream_def Let_def)
qed

text \<open>A collector tick keeps exactly the HTTP streams active since the cutoff, in their order; the
  closing of the worker's channel keeps none; neither takes back or uncounts an emitted record.\<close>
theorem collector_keeps_live_streams:
  "as_streams (fst (FlushOlderThan now proc t a e)) = filter (\<lambda>(k, s). \<not> ts_nonHTTP s \<and> t \<le> ts_lastActive s) (as_streams a) \<and>
   emits_more e (snd (FlushOlderThan now proc t a e)) \<and>
   as_streams (fst (FlushAllWithPending now proc a e)) = [] \<and>
   emits_more e (snd (FlushAllWithPending now proc a e))"
proof -
  obtain ss e1 where f: "flush_older now proc t (as_streams a) e = (ss, e1)" by fastforce
  have "emits_more e (foldl (\<lambda>e (k, s). if ts_nonHTTP s then e else snd (flush_stream now proc s e)) e ss)" for ss
    using history.flush_stream_R history.R_trans history.R_refl
    by (induction ss arbitrary: e) (auto split: prod.splits, blast+)
  then show ?thesis
    using flush_older_filter [OF f] f by (simp add: FlushOlderThan_def FlushAllWithPending_def live_def)
qed

section \<open>The handshake correction\<close>

text \<open>When both ports are unlisted and the client's is not the larger one, a SYN corrects the
  client port of the new stream but not its addresses: the stream keeps the server as its source
  and the client's port as its destination.\<close>
theorem SYN_leaves_ends_swapped:
  assumes "seg_SYN t" and "\<not> seg_ACK t" and "seg_Payload t = []" and "\<not> seg_FIN t" and "\<not> seg_RST t"
    and "\<not> isLikelyServerPort (seg_SrcPort t)" and "\<not> isLikelyServerPort (seg_DstPort t)"
    and "seg_SrcPort t \<le> seg_DstPort t"
  shows "\<exists>k s. as_streams (fst (assemble_segment now proc t client server (NewAssembler eng) e)) = [(k, s)] \<and>
    ts_clientPort s = seg_SrcPort t \<and> ts_srcIP s = server \<and> ts_srcPort s = seg_DstPort t \<and>
    ts_dstPort s = seg_SrcPort t"
proof -
  have d: "determineDirection (seg_SrcPort t) (seg_DstPort t) = False"
    using assms(6-8) by (simp add: determineDirection_def)
  have max: "\<not> as_maxStreams (NewAssembler eng) \<le> 0" and empty: "as_streams (NewAssembler eng) = []"
    using asm_inv_New [of eng] by (auto simp: asm_inv_def NewAssembler_def)
  show ?thesis
    using assms(1-5) max
    by (simp add: assemble_segment_def lookup_stream_def empty d Let_def segment_direction_def
        flushEvictedStream_def New_stream_def)
qed

section \<open>Concrete instances\<close>

definition syn_segment :: "nat \<Rightarrow> nat \<Rightarrow> tcp_segment" where
  "syn_segment sp dp = \<lparr>seg_SrcPort = sp, seg_DstPort = dp, seg_SYN = True, seg_ACK = False,
     seg_FIN = False, seg_RST = False, seg_Payload = []\<rparr>"

theorem stream_key_identifies_connection_witness:
  "streamKey (ip_string [10, 0, 0, 7]) 40000 (ip_string [10, 0, 0, 1]) 80 =
   streamKey (ip_string (replicate 10 0 @ [0xff, 0xff, 10, 0, 0, 1])) 80 (ip_string [10, 0, 0, 7]) 40000 \<and>
   streamKey (ip_string [10, 0, 0, 7]) 40000 (ip_string [10, 0, 0, 1]) 80 \<noteq>
   streamKey (ip_string [10, 0, 0, 7]) 40001 (ip_string [10, 0, 0, 1]) 80"
  using stream_key_identifies_connection [of "[10, 0, 0, 7]" "[10, 0, 0, 1]"
      "replicate 10 0 @ [0xff, 0xff, 10, 0, 0, 1]" "[10, 0, 0, 7]" 40000 80 80 40000]
    stream_key_identifies_connection [of "[10, 0, 0, 7]" "[10, 0, 0, 1]" "[10, 0, 0, 7]" "[10, 0, 0, 1]" 40000 80 40001 80]
  by (simp add: To16_def)

theorem connection_has_one_worker_witness:
  "flowHash 8 \<lparr>pk_tcp = Some (syn_segment 40000 80), pk_ip = IPv4 [10, 0, 0, 7] [10, 0, 0, 1]\<rparr> =
     flowHash 8 \<lparr>pk_tcp = Some (syn_segment 80 40000), pk_ip = IPv4 [10, 0, 0, 1] [10, 0, 0, 7]\<rparr> \<and>
   flowHash 8 \<lparr>pk_tcp = Some (syn_segment 40000 80), pk_ip = IPv4 [10, 0, 0, 7] [10, 0, 0, 1]\<rparr> < 8"
proof (rule connection_has_one_worker [where ?v6.0 = False and s = "[10, 0, 0, 7]" and d = "[10, 0, 0, 1]"
      and s' = "[10, 0, 0, 1]" and d' = "[10, 0, 0, 7]"])
  show "packet_key \<lparr>pk_tcp = Some (syn_segment 80 40000), pk_ip = IPv4 [10, 0, 0, 1] [10, 0, 0, 7]\<rparr> =
      Some (streamKey (ip_string [10, 0, 0, 7]) 40000 (ip_string [10, 0, 0, 1]) 80)"
    using streamKey_swap [of "ip_string [10, 0, 0, 1]" 80 "ip_string [10, 0, 0, 7]" 40000]
    by (simp add: packet_key_def addresses_def syn_segment_def)
qed (simp_all add: packet_key_def addresses_def syn_segment_def)

definition two_streams :: assembler where
  "two_streams = \<lparr>as_streams = [(''a'', (New_stream 5 [10, 0, 0, 7] 40000 80)\<lparr>ts_key := ''a''\<rparr>),
     (''b'', (New_stream 3 [10, 0, 0, 8] 40000 80)\<lparr>ts_key := ''b''\<rparr>)], as_maxStreams = 2\<rparr>"

theorem eviction_is_least_recently_active_witness:
  "\<exists>k s. (k, s) \<in> set (as_streams two_streams) \<and> (\<forall>(k', s') \<in> set (as_streams two_streams). ts_lastActive s \<le> ts_lastActive s') \<and>
    lookup_stream 9 ''c'' [10, 0, 0, 9] 40000 80 two_streams small_engine =
      (Some ((New_stream 9 [10, 0, 0, 9] 40000 80)\<lparr>ts_key := ''c''\<rparr>), Some s,
       two_streams\<lparr>as_streams := AList.update ''c'' ((New_stream 9 [10, 0, 0, 9] 40000 80)\<lparr>ts_key := ''c''\<rparr>)
         (AList.delete k (as_streams two_streams))\<rparr>,
       small_engine\<lparr>en_StreamsEvicted := en_StreamsEvicted small_engine + 1\<rparr>)"
  by (rule eviction_is_least_recently_active) (simp_all add: asm_inv_def two_streams_def)

theorem SYN_leaves_ends_swapped_witness:
  "\<exists>k s. as_streams (fst (assemble_segment 1 None (syn_segment 30000 40000) [10, 0, 0, 7] [10, 0, 0, 1]
      (NewAssembler None) small_engine)) = [(k, s)] \<and>
    ts_clientPort s = 30000 \<and> ts_srcIP s = [10, 0, 0, 1] \<and> ts_srcPort s = 40000 \<and> ts_dstPort s = 30000"
  using SYN_leaves_ends_swapped [of "syn_segment 30000 40000" 1 None "[10, 0, 0, 7]" "[10, 0, 0, 1]" None small_engine]
  by (simp add: syn_segment_def isLikelyServerPort_def)

end
