(* ===== verification/Capture.thy ===== *)
theory Capture
  imports AssemblerProps
begin

text \<open>
  The running capture of \<^verbatim>\<open>internal/capture/engine_pcap.go\<close>: the packet loop hands each packet to the
  channel of its connection's worker, or counts it as dropped; each worker takes packets from its
  channel, runs its collector, and flushes everything when the channel is closed. The goroutines
  interleave freely: a step is one turn of the packet loop or of one worker. The interface list is
  what the capture library reports.
\<close>

section \<open>Choosing an interface\<close>

record pcap_device =
  dev_Name :: string
  dev_Addresses :: "ip list" \<comment> \<open>the empty list is a nil address\<close>

text \<open>\<open>None\<close> is an error of the library.\<close>

definition ListInterfaces :: "pcap_device list option \<Rightarrow> string list option" where
  "ListInterfaces devs =
     map_option (\<lambda>ds. map dev_Name (filter (\<lambda>d. 0 < length (dev_Addresses d)) ds)) devs"

definition preferred_interfaces :: "string list" where
  "preferred_interfaces = [''en0'', ''en1'', ''eth0'', ''wlp2s0'', ''wlan0'']"

definition usable_address :: "ip \<Rightarrow> bool" where
  "usable_address p \<longleftrightarrow>
     p \<noteq> [] \<and> \<not> IsLoopback p \<and> To4 p \<noteq> None \<and> \<not> has_prefix (ip_string p) ''169.254''"

definition DetectInterface :: "pcap_device list option \<Rightarrow> string" where
  "DetectInterface devs =
     (case devs of
        None \<Rightarrow> ''en0''
      | Some ds \<Rightarrow>
          (case find (\<lambda>n. \<exists>d \<in> set ds. dev_Name d = n \<and> 0 < length (dev_Addresses d)) preferred_interfaces of
             Some n \<Rightarrow> n
           | None \<Rightarrow>
               (case find (\<lambda>d. \<not> (has_prefix (dev_Name d) ''utun'' \<or> has_prefix (dev_Name d) ''lo'') \<and>
                        (\<exists>a \<in> set (dev_Addresses d). usable_address a)) ds of
                  Some d \<Rightarrow> dev_Name d
                | None \<Rightarrow> ''en0'')))"

section \<open>State\<close>

text \<open>
  The histories: \<open>cp_seen\<close>, the packets the loop read, and \<open>cp_taken\<close>, those each worker assembled.
\<close>

record capture =
  cp_engine :: engine
  cp_running :: bool
  cp_chans :: "packet chan list"
  cp_closed :: bool
  cp_asms :: "assembler list"
  cp_done :: "bool list"
  cp_seen :: "packet list"
  cp_taken :: "packet list list"

definition capture_workers :: nat where "capture_workers = 4"

definition packet_chan_cap :: nat where "packet_chan_cap = 256"

text \<open>\<open>Start\<close>, after the handle was opened and the filter set: \<open>None\<close> when it already runs.\<close>

definition Start :: "engine \<Rightarrow> bool \<Rightarrow> capture option" where
  "Start e running =
     (if running then None
      else
        let e = e\<lparr>en_ringBuf := Some (NewMemRingBuffer (en_ringBufSize e))\<rparr>
        in Some \<lparr>cp_engine = e, cp_running = True,
             cp_chans = replicate capture_workers \<lparr>ch_cap = packet_chan_cap, ch_queue = [], ch_refused = 0\<rparr>,
             cp_closed = False, cp_asms = replicate capture_workers (NewAssembler (Some e)),
             cp_done = replicate capture_workers False, cp_seen = [],
             cp_taken = replicate capture_workers []\<rparr>)"

text \<open>One turn of \<open>packetLoop\<close>.\<close>

definition packet_turn :: "packet \<Rightarrow> capture \<Rightarrow> capture" where
  "packet_turn p c =
     (if \<not> cp_running c then c\<lparr>cp_closed := True\<rparr>
      else
        let e = cp_engine c;
            e = e\<lparr>en_PacketsRecv := en_PacketsRecv e + 1\<rparr>;
            workerIdx = flowHash (length (cp_chans c)) p;
            c = c\<lparr>cp_engine := e, cp_seen := cp_seen c @ [p]\<rparr>
        in if workerIdx \<ge> length (cp_chans c) then c
           else
             let ch = cp_chans c ! workerIdx;
                 ch' = snd (try_send p ch)
             in if ch_refused ch' > ch_refused ch
                then c\<lparr>cp_chans := (cp_chans c)[workerIdx := ch'],
                       cp_engine := e\<lparr>en_PacketsDrop := en_PacketsDrop e + 1\<rparr>\<rparr>
                else c\<lparr>cp_chans := (cp_chans c)[workerIdx := ch']\<rparr>)"

text \<open>A turn of worker \<open>i\<close>: it takes the oldest packet, or runs its collector, or returns.\<close>

definition run_turn :: "nat \<Rightarrow> worker_event \<Rightarrow> capture \<Rightarrow> capture" where
  "run_turn i ev c =
     (case worker_turn ev (cp_asms c ! i) (cp_engine c) of
        (a, e) \<Rightarrow> c\<lparr>cp_asms := (cp_asms c)[i := a], cp_engine := e\<rparr>)"

definition take_packet :: "nat \<Rightarrow> instant \<Rightarrow> process_info option \<Rightarrow> capture \<Rightarrow> capture option" where
  "take_packet i now proc c =
     (case ch_queue (cp_chans c ! i) of
        [] \<Rightarrow> None
      | p # q \<Rightarrow>
          Some (run_turn i (Packet now proc p)
            (c\<lparr>cp_chans := (cp_chans c)[i := (cp_chans c ! i)\<lparr>ch_queue := q\<rparr>],
               cp_taken := (cp_taken c)[i := cp_taken c ! i @ [p]]\<rparr>)))"

definition worker_returns :: "nat \<Rightarrow> instant \<Rightarrow> process_info option \<Rightarrow> capture \<Rightarrow> capture" where
  "worker_returns i now proc c =
     (run_turn i (Closed now proc) c)\<lparr>cp_done := (cp_done c)[i := True]\<rparr>"

inductive cap_step :: "capture \<Rightarrow> capture \<Rightarrow> bool" where
  arrive: "\<not> cp_closed c \<Longrightarrow> cap_step c (packet_turn p c)"
| source_ends: "\<not> cp_closed c \<Longrightarrow> cap_step c (c\<lparr>cp_closed := True\<rparr>)"
| stop: "cap_step c (c\<lparr>cp_running := False\<rparr>)"
| work: "i < length (cp_done c) \<Longrightarrow> \<not> cp_done c ! i \<Longrightarrow> take_packet i now proc c = Some c' \<Longrightarrow> cap_step c c'"
| gc: "i < length (cp_done c) \<Longrightarrow> \<not> cp_done c ! i \<Longrightarrow> cap_step c (run_turn i (Gc now proc) c)"
| drained: "i < length (cp_done c) \<Longrightarrow> \<not> cp_done c ! i \<Longrightarrow> cp_closed c \<Longrightarrow>
    ch_queue (cp_chans c ! i) = [] \<Longrightarrow> cap_step c (worker_returns i now proc c)"

inductive cap_reach :: "engine \<Rightarrow> capture \<Rightarrow> bool" for e where
  start: "Start e False = Some c \<Longrightarrow> cap_reach e c"
| step: "cap_reach e c \<Longrightarrow> cap_step c c' \<Longrightarrow> cap_reach e c'"

section \<open>Invariant\<close>

text \<open>
  Each worker's packets, assembled and waiting, are in capture order among the packets of its
  connections; every received packet was assembled, waits or was counted as dropped.
\<close>

definition cap_inv :: "engine \<Rightarrow> capture \<Rightarrow> bool" where
  "cap_inv e0 c \<longleftrightarrow>
     length (cp_chans c) = capture_workers \<and> length (cp_asms c) = capture_workers \<and>
     length (cp_done c) = capture_workers \<and> length (cp_taken c) = capture_workers \<and>
     (\<forall>i < capture_workers.
        chan_inv (cp_chans c ! i) \<and> ch_cap (cp_chans c ! i) = packet_chan_cap \<and>
        asm_inv (cp_asms c ! i) \<and> as_maxStreams (cp_asms c ! i) = as_maxStreams (NewAssembler (Some e0)) \<and>
        subseq (cp_taken c ! i @ ch_queue (cp_chans c ! i))
          (filter (\<lambda>p. flowHash capture_workers p = i) (cp_seen c)) \<and>
        (cp_done c ! i \<longrightarrow> cp_closed c \<and> ch_queue (cp_chans c ! i) = [] \<and> as_streams (cp_asms c ! i) = [])) \<and>
     en_PacketsRecv (cp_engine c) = en_PacketsRecv e0 + int (length (cp_seen c)) \<and>
     int (length (cp_seen c)) =
       (\<Sum>i < capture_workers. int (length (cp_taken c ! i)) + int (length (ch_queue (cp_chans c ! i)))) +
       (en_PacketsDrop (cp_engine c) - en_PacketsDrop e0) \<and>
     en_StreamsDrop (cp_engine c) = en_StreamsDrop e0"

lemma flowHash_less: "0 < w \<Longrightarrow> flowHash w p < w"
  by (auto simp: flowHash_def Let_def split: option.splits ip_layer.splits)

lemma cap_inv_start: "Start e False = Some c \<Longrightarrow> cap_inv e c"
proof -
  assume s: "Start e False = Some c"
  have "NewAssembler (Some (e\<lparr>en_ringBuf := r\<rparr>)) = NewAssembler (Some e)" for r
    by (simp add: NewAssembler_def)
  then show ?thesis
    using s asm_inv_New [of "Some e"] by (auto simp: Start_def Let_def cap_inv_def chan_inv_def)
qed

lemma sum_update:
  fixes f g :: "nat \<Rightarrow> int"
  assumes "j < n" and "\<And>i. i < n \<Longrightarrow> i \<noteq> j \<Longrightarrow> g i = f i"
  shows "sum g {..<n} = sum f {..<n} - f j + g j"
proof -
  have "sum g {..<n} = g j + sum g ({..<n} - {j})" "sum f {..<n} = f j + sum f ({..<n} - {j})"
    using assms(1) by (simp_all add: sum.remove)
  moreover have "sum g ({..<n} - {j}) = sum f ({..<n} - {j})"
    by (rule sum.cong) (use assms(2) in auto)
  ultimately show ?thesis by simp
qed

text \<open>What the packets a worker has or had contribute to the balance.\<close>

definition held :: "capture \<Rightarrow> nat \<Rightarrow> int" where
  "held c i = int (length (cp_taken c ! i)) + int (length (ch_queue (cp_chans c ! i)))"

lemma cap_inv_held:
  "cap_inv e0 c \<longleftrightarrow>
     length (cp_chans c) = capture_workers \<and> length (cp_asms c) = capture_workers \<and>
     length (cp_done c) = capture_workers \<and> length (cp_taken c) = capture_workers \<and>
     (\<forall>i < capture_workers.
        chan_inv (cp_chans c ! i) \<and> ch_cap (cp_chans c ! i) = packet_chan_cap \<and>
        asm_inv (cp_asms c ! i) \<and> as_maxStreams (cp_asms c ! i) = as_maxStreams (NewAssembler (Some e0)) \<and>
        subseq (cp_taken c ! i @ ch_queue (cp_chans c ! i))
          (filter (\<lambda>p. flowHash capture_workers p = i) (cp_seen c)) \<and>
        (cp_done c ! i \<longrightarrow> cp_closed c \<and> ch_queue (cp_chans c ! i) = [] \<and> as_streams (cp_asms c ! i) = [])) \<and>
     en_PacketsRecv (cp_engine c) = en_PacketsRecv e0 + int (length (cp_seen c)) \<and>
     int (length (cp_seen c)) = sum (held c) {..<capture_workers} + (en_PacketsDrop (cp_engine c) - en_PacketsDrop e0) \<and>
     en_StreamsDrop (cp_engine c) = en_StreamsDrop e0"
  by (simp add: cap_inv_def held_def [abs_def])

lemma packet_turn_inv:
  assumes i: "cap_inv e0 c" and "\<not> cp_closed c"
  shows "cap_inv e0 (packet_turn p c)"
proof (cases "cp_running c")
  case False
  then show ?thesis using i by (simp add: packet_turn_def cap_inv_def)
next
  case True
  define w where "w = flowHash capture_workers p"
  have w: "w < capture_workers" by (simp add: w_def flowHash_less capture_workers_def)
  have open_: "\<not> cp_done c ! w" using i w assms(2) by (auto simp: cap_inv_def)
  define q where "q = ch_queue (cp_chans c ! w)"
  have q: "length q \<le> packet_chan_cap" "ch_cap (cp_chans c ! w) = packet_chan_cap"
    using i w by (auto simp: cap_inv_def chan_inv_def q_def)
  show ?thesis
  proof (cases "length q < packet_chan_cap")
    case True
    define c' where "c' = c\<lparr>cp_engine := (cp_engine c)\<lparr>en_PacketsRecv := en_PacketsRecv (cp_engine c) + 1\<rparr>,
      cp_seen := cp_seen c @ [p], cp_chans := (cp_chans c)[w := (cp_chans c ! w)\<lparr>ch_queue := q @ [p]\<rparr>]\<rparr>"
    have r: "packet_turn p c = c'"
      using \<open>cp_running c\<close> i w q True
      by (simp add: packet_turn_def cap_inv_def Let_def w_def [symmetric] try_send_def q_def [symmetric] c'_def)
    have "sum (held c') {..<capture_workers} = sum (held c) {..<capture_workers} - held c w + held c' w"
      by (rule sum_update [OF w]) (simp add: held_def c'_def)
    moreover have "held c' w = held c w + 1"
      using i w by (simp add: held_def c'_def q_def cap_inv_def)
    ultimately show ?thesis
      using i w True q open_ unfolding r cap_inv_held
      by (auto simp: c'_def nth_list_update chan_inv_def w_def [symmetric] q_def [symmetric]
          simp flip: append_assoc intro: list_emb_append_mono subseq_rev_drop_many)
  next
    case False
    define c' where "c' = c\<lparr>cp_engine := (cp_engine c)\<lparr>en_PacketsRecv := en_PacketsRecv (cp_engine c) + 1,
        en_PacketsDrop := en_PacketsDrop (cp_engine c) + 1\<rparr>,
      cp_seen := cp_seen c @ [p],
      cp_chans := (cp_chans c)[w := (cp_chans c ! w)\<lparr>ch_refused := ch_refused (cp_chans c ! w) + 1\<rparr>]\<rparr>"
    have r: "packet_turn p c = c'"
      using \<open>cp_running c\<close> i w q False
      by (simp add: packet_turn_def cap_inv_def Let_def w_def [symmetric] try_send_def q_def [symmetric] c'_def)
    have "sum (held c') {..<capture_workers} = sum (held c) {..<capture_workers} - held c w + held c' w"
      by (rule sum_update [OF w]) (simp add: held_def c'_def)
    moreover have "held c' w = held c w"
      using i w by (simp add: held_def c'_def cap_inv_def)
    ultimately show ?thesis
      using i w open_ unfolding r cap_inv_held
      by (auto simp: c'_def nth_list_update chan_inv_def w_def [symmetric] intro: subseq_order.trans)
  qed
qed

lemma run_turn_inv:
  assumes i: "cap_inv e0 c" and w: "w < capture_workers" and nd: "\<not> cp_done c ! w"
  shows "cap_inv e0 (run_turn w ev c)"
proof -
  obtain a e where t: "worker_turn ev (cp_asms c ! w) (cp_engine c) = (a, e)" by fastforce
  have "asm_inv (cp_asms c ! w)" using i w by (simp add: cap_inv_def)
  note wt = worker_turn_inv [OF this t]
  show ?thesis
    using i w nd wt by (auto simp: run_turn_def t cap_inv_def nth_list_update packet_counters_def)
qed

lemma take_packet_inv:
  assumes i: "cap_inv e0 c" and w: "w < capture_workers" and nd: "\<not> cp_done c ! w"
    and t: "take_packet w now proc c = Some c'"
  shows "cap_inv e0 c'"
proof -
  obtain p q where pq: "ch_queue (cp_chans c ! w) = p # q"
    using t by (auto simp: take_packet_def split: list.splits)
  define c1 where "c1 = c\<lparr>cp_chans := (cp_chans c)[w := (cp_chans c ! w)\<lparr>ch_queue := q\<rparr>],
               cp_taken := (cp_taken c)[w := cp_taken c ! w @ [p]]\<rparr>"
  have "sum (held c1) {..<capture_workers} = sum (held c) {..<capture_workers} - held c w + held c1 w"
    by (rule sum_update [OF w]) (simp add: held_def c1_def)
  moreover have "held c1 w = held c w"
    using i w pq by (simp add: held_def c1_def cap_inv_def)
  ultimately have "cap_inv e0 c1"
    using i w nd pq unfolding cap_inv_held
    by (auto simp: c1_def nth_list_update chan_inv_def)
  moreover have "\<not> cp_done c1 ! w" using nd by (simp add: c1_def)
  ultimately show ?thesis
    using t pq run_turn_inv [OF _ w] by (auto simp: take_packet_def c1_def)
qed

lemma cap_step_inv: "cap_step c c' \<Longrightarrow> cap_inv e0 c \<Longrightarrow> cap_inv e0 c'"
proof (induction rule: cap_step.induct)
  case (arrive c p)
  then show ?case using packet_turn_inv by blast
next
  case (source_ends c)
  then show ?case by (auto simp: cap_inv_def)
next
  case (stop c)
  then show ?case by (simp add: cap_inv_def)
next
  case (work w c now proc c')
  have "w < capture_workers" using work by (simp add: cap_inv_def)
  then show ?case using take_packet_inv work by blast
next
  case (gc w c now proc)
  have "w < capture_workers" using gc by (simp add: cap_inv_def)
  then show ?case using run_turn_inv gc by blast
next
  case (drained w c now proc)
  have w: "w < capture_workers" using drained by (simp add: cap_inv_def)
  then have "cap_inv e0 (run_turn w (Closed now proc) c)" using run_turn_inv drained by blast
  then show ?case
    using drained(1,3,4) w
    by (auto simp: worker_returns_def cap_inv_def run_turn_def FlushAllWithPending_def nth_list_update split: prod.splits)
qed

lemma cap_reach_inv: "cap_reach e c \<Longrightarrow> cap_inv e c"
  by (induction rule: cap_reach.induct) (auto intro: cap_inv_start cap_step_inv)

section \<open>What a capture guarantees\<close>

text \<open>C6: In every interleaving, each worker assembled, and holds in its channel, packets of its own
  connections in capture order; a channel holds at most 256 and a worker at most its limit of
  streams; and every received packet was assembled, waits, or was counted as dropped.\<close>
theorem capture_conserves_packets:
  assumes "cap_reach e c"
  shows "(\<forall>i < capture_workers.
      subseq (cp_taken c ! i @ ch_queue (cp_chans c ! i))
        (filter (\<lambda>p. flowHash capture_workers p = i) (cp_seen c)) \<and>
      length (ch_queue (cp_chans c ! i)) \<le> 256 \<and>
      length (as_streams (cp_asms c ! i)) \<le> as_maxStreams (NewAssembler (Some e))) \<and>
    en_PacketsRecv (cp_engine c) - en_PacketsRecv e = int (length (cp_seen c)) \<and>
    int (length (cp_seen c)) =
      (\<Sum>i < capture_workers. int (length (cp_taken c ! i)) + int (length (ch_queue (cp_chans c ! i)))) +
      (en_PacketsDrop (cp_engine c) - en_PacketsDrop e)"
  using cap_reach_inv [OF assms] by (auto simp: cap_inv_def chan_inv_def packet_chan_cap_def asm_inv_def)

text \<open>What a closed capture still has to do.\<close>

definition to_drain :: "capture \<Rightarrow> nat" where
  "to_drain c = (\<Sum>i < capture_workers. length (ch_queue (cp_chans c ! i)) + (if cp_done c ! i then 0 else 1))"

lemma sum_less: "j < (n :: nat) \<Longrightarrow> (\<And>i. i < n \<Longrightarrow> i \<noteq> j \<Longrightarrow> g i = f i) \<Longrightarrow> g j < (f j :: nat) \<Longrightarrow>
    sum g {..<n} < sum f {..<n}"
  by (rule sum_strict_mono_ex1) (auto simp: le_less)

lemma work_drains:
  assumes i: "cap_inv e0 c" and w: "w < capture_workers" and nd: "\<not> cp_done c ! w" and cl: "cp_closed c"
  shows "\<exists>c'. cap_step c c' \<and> cp_closed c' \<and> to_drain c' < to_drain c"
proof -
  have len: "w < length (cp_done c)" "w < length (cp_chans c)" using i w by (simp_all add: cap_inv_def)
  show ?thesis
  proof (cases "ch_queue (cp_chans c ! w)")
    case Nil
    define c' where "c' = worker_returns w 0 None c"
    have fields: "cp_chans c' = cp_chans c" "cp_done c' = (cp_done c)[w := True]" "cp_closed c'"
      using cl by (auto simp: c'_def worker_returns_def run_turn_def split: prod.splits)
    have "to_drain c' < to_drain c"
      unfolding to_drain_def by (rule sum_less [OF w]) (use fields len nd in auto)
    moreover have "cap_step c c'" unfolding c'_def by (rule drained [OF len(1) nd cl Nil])
    ultimately show ?thesis using fields(3) by blast
  next
    case (Cons p q)
    obtain c' where t: "take_packet w 0 None c = Some c'" using Cons by (simp add: take_packet_def)
    have fields: "cp_chans c' = (cp_chans c)[w := (cp_chans c ! w)\<lparr>ch_queue := q\<rparr>]" "cp_done c' = cp_done c" "cp_closed c'"
      using t Cons cl by (auto simp: take_packet_def run_turn_def split: prod.splits)
    have "to_drain c' < to_drain c"
      unfolding to_drain_def by (rule sum_less [OF w]) (use fields len Cons in auto)
    moreover have "cap_step c c'" by (rule work [OF len(1) nd t])
    ultimately show ?thesis using fields(3) by blast
  qed
qed

lemma closed_drains:
  "cap_inv e0 c \<Longrightarrow> cp_closed c \<Longrightarrow> \<exists>c'. cap_step\<^sup>*\<^sup>* c c' \<and> (\<forall>i < capture_workers. cp_done c' ! i)"
proof (induction "to_drain c" arbitrary: c rule: less_induct)
  case less
  show ?case
  proof (cases "\<forall>i < capture_workers. cp_done c ! i")
    case True
    then show ?thesis by blast
  next
    case False
    then obtain w where w: "w < capture_workers" "\<not> cp_done c ! w" by blast
    obtain c1 where c1: "cap_step c c1" "cp_closed c1" "to_drain c1 < to_drain c"
      using work_drains [OF less.prems(1) w less.prems(2)] by blast
    have "cap_inv e0 c1" using cap_step_inv c1(1) less.prems(1) by blast
    then obtain c2 where "cap_step\<^sup>*\<^sup>* c1 c2" "\<forall>i < capture_workers. cp_done c2 ! i"
      using less.hyps [OF c1(3)] c1(2) by blast
    then show ?thesis using c1(1) by (meson converse_rtranclp_into_rtranclp)
  qed
qed

lemma cap_reach_steps: "cap_step\<^sup>*\<^sup>* c c' \<Longrightarrow> cap_reach e c \<Longrightarrow> cap_reach e c'"
  by (induction rule: rtranclp_induct) (auto intro: cap_reach.step)

text \<open>C36: From every reachable state the capture can end: the channels are closed, every worker drains
  its channel and returns, and then no stream is left and every received packet was assembled or
  counted as dropped.\<close>
theorem capture_can_end:
  assumes "cap_reach e c"
  shows "\<exists>c'. cap_step\<^sup>*\<^sup>* c c' \<and> (\<forall>i < capture_workers. cp_done c' ! i \<and> as_streams (cp_asms c' ! i) = []) \<and>
    int (length (cp_seen c')) =
      (\<Sum>i < capture_workers. int (length (cp_taken c' ! i))) + (en_PacketsDrop (cp_engine c') - en_PacketsDrop e)"
proof -
  obtain c1 where c1: "cap_step\<^sup>*\<^sup>* c c1" "cp_closed c1"
  proof (cases "cp_closed c")
    case True
    then show thesis using that by blast
  next
    case False
    then show thesis using that [of "c\<lparr>cp_closed := True\<rparr>"] source_ends [OF False] by auto
  qed
  have "cap_inv e c1" using cap_reach_steps [OF c1(1) assms] cap_reach_inv by blast
  then obtain c2 where c2: "cap_step\<^sup>*\<^sup>* c1 c2" "\<forall>i < capture_workers. cp_done c2 ! i"
    using closed_drains c1(2) by blast
  have steps: "cap_step\<^sup>*\<^sup>* c c2" using c1(1) c2(1) by simp
  have "cap_inv e c2" using cap_reach_steps [OF steps assms] cap_reach_inv by blast
  then show ?thesis
    using steps c2(2) by (intro exI [of _ c2]) (simp add: cap_inv_def)
qed

section \<open>Concrete instances\<close>

definition first_syn :: packet where
  "first_syn = \<lparr>pk_tcp = Some (syn_segment 40000 80), pk_ip = IPv4 [10, 0, 0, 7] [10, 0, 0, 1]\<rparr>"

definition first_turn :: capture where
  "first_turn = packet_turn first_syn (the (Start small_engine False))"

lemma first_turn_reached: "cap_reach small_engine first_turn"
proof -
  obtain c where c: "Start small_engine False = Some c" by (simp add: Start_def Let_def)
  have "\<not> cp_closed c" using c by (auto simp: Start_def Let_def)
  then show ?thesis
    unfolding first_turn_def c option.sel
    by (intro cap_reach.step [OF cap_reach.start [OF c]] cap_step.arrive)
qed

theorem capture_conserves_packets_witness:
  "en_PacketsRecv (cp_engine first_turn) - en_PacketsRecv small_engine = 1 \<and>
   int (length (cp_seen first_turn)) =
      (\<Sum>i < capture_workers. int (length (cp_taken first_turn ! i)) + int (length (ch_queue (cp_chans first_turn ! i)))) +
      (en_PacketsDrop (cp_engine first_turn) - en_PacketsDrop small_engine)"
proof -
  have "length (cp_seen first_turn) = 1"
    by (simp add: first_turn_def Start_def packet_turn_def Let_def)
  then show ?thesis using capture_conserves_packets [OF first_turn_reached] by simp
qed

theorem capture_can_end_witness:
  "\<exists>c'. cap_step\<^sup>*\<^sup>* first_turn c' \<and> (\<forall>i < capture_workers. cp_done c' ! i \<and> as_streams (cp_asms c' ! i) = []) \<and>
    int (length (cp_seen c')) =
      (\<Sum>i < capture_workers. int (length (cp_taken c' ! i))) + (en_PacketsDrop (cp_engine c') - en_PacketsDrop small_engine)"
  by (rule capture_can_end [OF first_turn_reached])

end
