(* ===== verification/Intercept.thy ===== *)
theory Intercept
  imports Models GoText
begin

text \<open>
  The decisions of \<^verbatim>\<open>internal/proxy/interceptor.go\<close>: matching a rule, the rule loop of the automatic
  mode, the body previews, and what a user's decision makes of a request or a response. The
  messages are those of \<^verbatim>\<open>net/http\<close>, field by field as the code uses them; \<open>url.Parse\<close> is an
  argument, \<open>None\<close> being its error. A body is the bytes a reader still delivers.
\<close>

section \<open>Messages of net/http\<close>

type_synonym http_header = "(string \<times> string list) list"

record http_url =
  url_String :: string
  url_Host :: string
  url_Path :: string

record http_request =
  hr_Method :: string
  hr_URL :: http_url
  hr_Header :: http_header
  hr_Body :: "bytes option" \<comment> \<open>\<open>None\<close> is a nil body\<close>
  hr_GetBody :: "bytes option option" \<comment> \<open>\<open>None\<close> without one, \<open>Some None\<close> when it fails\<close>
  hr_ContentLength :: int

record http_reply =
  rp_StatusCode :: int
  rp_Status :: string
  rp_Header :: http_header
  rp_Body :: "bytes option"
  rp_ContentLength :: int

text \<open>The bytes of a token, and the canonical form of a header name.\<close>

definition is_letter :: "char \<Rightarrow> bool" where
  "is_letter c \<longleftrightarrow> 65 \<le> char_code c \<and> char_code c \<le> 90 \<or> 97 \<le> char_code c \<and> char_code c \<le> 122"

definition is_token_char :: "char \<Rightarrow> bool" where
  "is_token_char c \<longleftrightarrow> is_letter c \<or> is_digit c \<or>
     char_code c \<in> {33, 35, 36, 37, 38, 39, 42, 43, 45, 46, 94, 95, 96, 124, 126}"

fun canonical_from :: "bool \<Rightarrow> string \<Rightarrow> string" where
  "canonical_from up [] = []"
| "canonical_from up (c # s) = (if up then upper_char c else lower_char c) # canonical_from (c = CHR ''-'') s"

definition canonical_key :: "string \<Rightarrow> string" where
  "canonical_key k = (if list_all is_token_char k then canonical_from True k else k)"

definition Header_Set :: "http_header \<Rightarrow> string \<Rightarrow> string \<Rightarrow> http_header" where
  "Header_Set h k v = AList.update (canonical_key k) [v] h"

definition Header_Get :: "http_header \<Rightarrow> string \<Rightarrow> string" where
  "Header_Get h k = (case map_of h (canonical_key k) of Some (v # _) \<Rightarrow> v | _ \<Rightarrow> [])"

text \<open>Setting the fields of a map, in the order of its iteration.\<close>

definition set_headers :: "header_map \<Rightarrow> http_header \<Rightarrow> http_header" where
  "set_headers kvs h = foldl (\<lambda>h (k, v). Header_Set h k v) h kvs"

text \<open>\<open>http.NewRequest\<close>: an invalid method or URL is an error; a string reader gives a length.\<close>

definition NewRequest :: "(string \<Rightarrow> http_url option) \<Rightarrow> string \<Rightarrow> string \<Rightarrow> bytes option \<Rightarrow> int \<Rightarrow> http_request option" where
  "NewRequest parse mthd target body len =
     (let mthd = (if mthd = [] then ''GET'' else mthd) in
      if \<not> list_all is_token_char mthd then None
      else map_option (\<lambda>u. \<lparr>hr_Method = mthd, hr_URL = u, hr_Header = [], hr_Body = body,
                            hr_GetBody = None, hr_ContentLength = len\<rparr>) (parse target))"

section \<open>Rules\<close>

definition method_matches :: "string \<Rightarrow> string \<Rightarrow> bool" where
  "method_matches rule_method mthd \<longleftrightarrow>
     rule_method = [] \<or>
     list_ex (\<lambda>rm. to_upper (trim_space rm) = to_upper mthd) (split_on (CHR '','') rule_method)"

text \<open>A pattern for hosts: the host itself, or a wildcard for the hosts below a domain.\<close>

definition host_matches :: "string \<Rightarrow> string \<Rightarrow> bool" where
  "host_matches pattern host \<longleftrightarrow>
     pattern = host \<or> has_prefix pattern ''*.'' \<and> has_suffix host (drop 1 pattern)"

definition matchRule :: "intercept_rule \<Rightarrow> string \<Rightarrow> string \<Rightarrow> string \<Rightarrow> bool" where
  "matchRule rule mthd host path =
     (if \<not> method_matches (ir_Method rule) mthd then False
      else
        let pattern = to_lower (ir_Pattern rule); host = to_lower host in
        if pattern = host then True
        else if has_prefix pattern ''*.'' \<and> has_suffix host (drop 1 pattern) then True
        else
          case index_byte pattern (CHR ''/'') of
            Some idx \<Rightarrow>
              (let hp = take idx pattern; pp = drop idx pattern in
               0 < idx \<and> (hp = host \<or> has_prefix hp ''*.'' \<and> has_suffix host (drop 1 hp)) \<and> has_prefix path pp)
          | None \<Rightarrow> False)"

section \<open>Verdicts\<close>

text \<open>
  What a handler returns: the request to forward, or a reply made up by the proxy, with its
  status and text.
\<close>

datatype verdict = Forward http_request | Respond nat string

definition rule_log :: "string \<Rightarrow> intercept_rule \<Rightarrow> http_request \<Rightarrow> intercept_log" where
  "rule_log act rule req =
     \<lparr>il_Action = act, il_RequestURL = url_String (hr_URL req), il_RequestMethod = hr_Method req,
      il_RequestHost = url_Host (hr_URL req), il_RulePattern = ir_Pattern rule, il_Mode = ''auto''\<rparr>"

text \<open>The rule loop of the automatic mode: the log written, if any, and the verdict.\<close>

fun auto_rules :: "intercept_rule list \<Rightarrow> http_request \<Rightarrow> intercept_log list \<times> verdict" where
  "auto_rules [] req = ([], Forward req)"
| "auto_rules (rule # rules) req =
     (if \<not> ir_Enabled rule then auto_rules rules req
      else if matchRule rule (hr_Method req) (url_Host (hr_URL req)) (url_Path (hr_URL req)) then
        (if ir_Action rule = ''block'' then
           ([rule_log ''drop'' rule req],
            Respond 403 (''Blocked by PacketLab rule: '' @ ir_Pattern rule))
         else ([rule_log ''allow'' rule req], Forward req))
      else auto_rules rules req)"

section \<open>Body previews\<close>

definition maxBodyPreview :: nat where "maxBodyPreview = 64 * 1024"

text \<open>Reading a prefix of a body and putting it back in front of the rest.\<close>

definition preview_body :: "bytes option \<Rightarrow> string \<times> bytes option" where
  "preview_body body =
     (case body of
        None \<Rightarrow> ([], None)
      | Some b \<Rightarrow>
          (let preview = take maxBodyPreview b; rest = drop maxBodyPreview b in
           if preview = [] then ([], Some rest) else (preview, Some (preview @ rest))))"

definition readBody :: "http_request \<Rightarrow> string \<times> http_request" where
  "readBody req =
     (if hr_Body req = None then ([], req)
      else
        let fallback = (case preview_body (hr_Body req) of (preview, body) \<Rightarrow> (preview, req\<lparr>hr_Body := body\<rparr>)) in
        case hr_GetBody req of
          Some (Some b) \<Rightarrow>
            (let raw = take maxBodyPreview b in if raw \<noteq> [] then (raw, req) else fallback)
        | _ \<Rightarrow> fallback)"

definition readRespBody :: "http_reply \<Rightarrow> string \<times> http_reply" where
  "readRespBody resp = (case preview_body (rp_Body resp) of (preview, body) \<Rightarrow> (preview, resp\<lparr>rp_Body := body\<rparr>))"

section \<open>Decisions on requests\<close>

text \<open>\<open>handleResult\<close> of \<open>Handle\<close>: the request handed to \<open>storeFunc\<close>, if any, and the verdict.\<close>

definition handleResult :: "(string \<Rightarrow> http_url option) \<Rightarrow> http_request \<Rightarrow> intercept_result \<Rightarrow> http_request option \<times> verdict" where
  "handleResult parse req r =
     (if ires_Action r = ''allow'' \<or> ires_Action r = ''modify'' then
        (if ires_Method r \<noteq> [] \<or> ires_URL r \<noteq> [] \<or> ires_NewBody r \<noteq> [] \<or> 0 < length (ires_NewHeaders r) then
           (let mthd = (if ires_Method r \<noteq> [] then ires_Method r else hr_Method req);
                target = (if ires_URL r \<noteq> [] then ires_URL r else url_String (hr_URL req));
                (body, len) = (if ires_NewBody r \<noteq> [] then (Some (ires_NewBody r), int (length (ires_NewBody r)))
                               else (hr_Body req, 0))
            in case NewRequest parse mthd target body len of
                 None \<Rightarrow> (None, Respond 400 ''Invalid modified request'')
               | Some newReq \<Rightarrow>
                   (let h = set_headers (ires_NewHeaders r) (hr_Header req);
                        h = (if Header_Get h ''User-Agent'' = [] then Header_Set h ''User-Agent'' ''PacketLab/1.0'' else h);
                        newReq = newReq\<lparr>hr_Header := h\<rparr>
                    in (Some newReq, Forward newReq)))
         else (Some req, Forward req))
      else if ires_Action r = ''drop'' then (None, Respond 403 ''Blocked by PacketLab'')
      else (None, Forward req))"

section \<open>Decisions on responses\<close>

text \<open>\<open>http.StatusText\<close>\<close>

definition status_texts :: "(int \<times> string) list" where
  "status_texts =
    [(100, ''Continue''), (101, ''Switching Protocols''), (102, ''Processing''), (103, ''Early Hints''),
     (200, ''OK''), (201, ''Created''), (202, ''Accepted''), (203, ''Non-Authoritative Information''),
     (204, ''No Content''), (205, ''Reset Content''), (206, ''Partial Content''), (207, ''Multi-Status''),
     (208, ''Already Reported''), (226, ''IM Used''), (300, ''Multiple Choices''),
     (301, ''Moved Permanently''), (302, ''Found''), (303, ''See Other''), (304, ''Not Modified''),
     (305, ''Use Proxy''), (307, ''Temporary Redirect''), (308, ''Permanent Redirect''),
     (400, ''Bad Request''), (401, ''Unauthorized''), (402, ''Payment Required''), (403, ''Forbidden''),
     (404, ''Not Found''), (405, ''Method Not Allowed''), (406, ''Not Acceptable''),
     (407, ''Proxy Authentication Required''), (408, ''Request Timeout''), (409, ''Conflict''),
     (410, ''Gone''), (411, ''Length Required''), (412, ''Precondition Failed''),
     (413, ''Request Entity Too Large''), (414, ''Request URI Too Long''), (415, ''Unsupported Media Type''),
     (416, ''Requested Range Not Satisfiable''), (417, ''Expectation Failed''), (418, ''I'' @ [char_of (39 :: nat)] @ ''m a teapot''),
     (421, ''Misdirected Request''), (422, ''Unprocessable Entity''), (423, ''Locked''),
     (424, ''Failed Dependency''), (425, ''Too Early''), (426, ''Upgrade Required''),
     (428, ''Precondition Required''), (429, ''Too Many Requests''),
     (431, ''Request Header Fields Too Large''), (451, ''Unavailable For Legal Reasons''),
     (500, ''Internal Server Error''), (501, ''Not Implemented''), (502, ''Bad Gateway''),
     (503, ''Service Unavailable''), (504, ''Gateway Timeout''), (505, ''HTTP Version Not Supported''),
     (506, ''Variant Also Negotiates''), (507, ''Insufficient Storage''), (508, ''Loop Detected''),
     (510, ''Not Extended''), (511, ''Network Authentication Required'')]"

definition StatusText :: "int \<Rightarrow> string" where
  "StatusText code = (case map_of status_texts code of Some t \<Rightarrow> t | None \<Rightarrow> [])"

datatype reply_verdict = Deliver http_reply | Replace nat string

text \<open>
  \<open>handleResult\<close> of \<open>HandleResponse\<close>: what \<open>storeFunc\<close> is called with, if it is (the reply and
  whether its body was replaced), and the verdict.
\<close>

definition handleReply :: "http_reply \<Rightarrow> intercept_result \<Rightarrow> (http_reply \<times> bool) option \<times> reply_verdict" where
  "handleReply resp r =
     (if ires_Action r = ''allow'' \<or> ires_Action r = ''modify'' then
        (let resp = (if ires_StatusCode r > 0 then
                       resp\<lparr>rp_StatusCode := ires_StatusCode r,
                            rp_Status := (if StatusText (ires_StatusCode r) \<noteq> []
                                          then show_int (ires_StatusCode r) @ '' '' @ StatusText (ires_StatusCode r)
                                          else show_int (ires_StatusCode r))\<rparr>
                     else resp);
             resp = resp\<lparr>rp_Header := set_headers (ires_NewHeaders r) (rp_Header resp)\<rparr>;
             bodyReplaced = (ires_NewBody r \<noteq> []);
             resp = (if bodyReplaced then
                       resp\<lparr>rp_Body := Some (ires_NewBody r),
                            rp_ContentLength := int (length (ires_NewBody r)),
                            rp_Header := Header_Set (rp_Header resp) ''Content-Length''
                              (show_nat (length (ires_NewBody r)))\<rparr>
                     else resp)
         in (if ires_StatusCode r > 0 \<or> 0 < length (ires_NewHeaders r) \<or> bodyReplaced
             then Some (resp, bodyReplaced) else None,
             Deliver resp))
      else if ires_Action r = ''drop'' then (None, Replace 403 ''Blocked by PacketLab'')
      else (None, Deliver resp))"

section \<open>Rules: the first match decides\<close>

definition rule_applies :: "http_request \<Rightarrow> intercept_rule \<Rightarrow> bool" where
  "rule_applies req rule \<longleftrightarrow>
     ir_Enabled rule \<and> matchRule rule (hr_Method req) (url_Host (hr_URL req)) (url_Path (hr_URL req))"

text \<open>The rule loop is the decision of the first enabled rule that matches: later rules and
  disabled ones have no effect, a blocking rule answers 403 without forwarding, anything else
  forwards the request unchanged, and a log is written exactly when a rule decided.\<close>
theorem auto_rules_first_match:
  "auto_rules rules req =
     (case find (rule_applies req) rules of
        None \<Rightarrow> ([], Forward req)
      | Some rule \<Rightarrow>
          if ir_Action rule = ''block''
          then ([rule_log ''drop'' rule req], Respond 403 (''Blocked by PacketLab rule: '' @ ir_Pattern rule))
          else ([rule_log ''allow'' rule req], Forward req))"
  by (induction rules) (auto simp: rule_applies_def)

lemma to_lower_append [simp]: "to_lower (s @ t) = to_lower s @ to_lower t"
  by (simp add: to_lower_def)

lemma to_lower_Cons [simp]: "to_lower (c # t) = lower_char c # to_lower t"
  by (simp add: to_lower_def)

lemma lower_char_special [simp]:
  "lower_char (CHR ''/'') = CHR ''/''" "lower_char (CHR ''*'') = CHR ''*''" "lower_char (CHR ''.'') = CHR ''.''"
  by (simp_all add: lower_char_def)

text \<open>A wildcard matches exactly the hosts below its domain, in any case.\<close>

lemma matchRule_wildcard:
  assumes "ir_Pattern rule = ''*.'' @ d" and "to_lower d = d" and "CHR ''/'' \<notin> set d"
  shows "matchRule rule mthd host path \<longleftrightarrow>
    method_matches (ir_Method rule) mthd \<and> (\<exists>x. to_lower host = x @ ''.'' @ d)"
proof -
  have none: "index_byte (''*.'' @ d) (CHR ''/'') = None" using assms(3) by (simp add: index_byte_None)
  have pat: "to_lower (ir_Pattern rule) = ''*.'' @ d" using assms(1,2) by simp
  have pre: "has_prefix (''*.'' @ d) ''*.''" by (rule has_prefix_append)
  have suf: "has_suffix s (drop 1 (''*.'' @ d)) \<longleftrightarrow> (\<exists>x. s = x @ ''.'' @ d)" for s
    by (simp add: has_suffix_iff)
  show ?thesis
  proof (cases "''*.'' @ d = to_lower host")
    case True
    then have "to_lower host = ''*'' @ ''.'' @ d" by simp
    then show ?thesis using True unfolding matchRule_def Let_def pat by auto
  next
    case False
    then show ?thesis unfolding matchRule_def Let_def pat none option.case suf using pre by auto
  qed
qed

lemma lower_char_slash: "lower_char c = CHR ''/'' \<longleftrightarrow> c = CHR ''/''"
proof
  assume l: "lower_char c = CHR ''/''"
  show "c = CHR ''/''"
  proof (cases "65 \<le> char_code c \<and> char_code c \<le> 90")
    case True
    then have "char_code (lower_char c) = char_code c + 32"
      by (simp add: lower_char_def take_bit_eq_mod)
    moreover have "char_code (CHR ''/'') = 47" by simp
    ultimately show ?thesis using l True by simp
  next
    case False
    then show ?thesis using l by (simp add: lower_char_def split: if_splits)
  qed
qed simp

lemma to_lower_slash: "CHR ''/'' \<in> set (to_lower s) \<longleftrightarrow> CHR ''/'' \<in> set s"
  by (metis imageE imageI lower_char_slash set_map to_lower_def)

text \<open>A rule for a host and a path does not match the URL it spells when the path contains an
  upper-case letter: the pattern is lowered, the path of the request is not.\<close>
theorem rule_path_case:
  assumes "ir_Pattern rule = h @ CHR ''/'' # p" and "CHR ''/'' \<notin> set h" and "to_lower p \<noteq> p"
    and "CHR ''/'' \<notin> set host"
  shows "\<not> matchRule rule mthd host (CHR ''/'' # p @ rest)"
proof
  assume m: "matchRule rule mthd host (CHR ''/'' # p @ rest)"
  let ?pat = "to_lower h @ CHR ''/'' # to_lower p"
  have pat: "to_lower (ir_Pattern rule) = ?pat" using assms(1) by simp
  have no: "CHR ''/'' \<notin> set (to_lower h)" "CHR ''/'' \<notin> set (to_lower host)"
    using assms(2,4) to_lower_slash by blast+
  have "CHR ''/'' \<in> set ?pat" by simp
  then have "?pat \<noteq> to_lower host" using no(2) by metis
  moreover have "\<not> (has_prefix ?pat ''*.'' \<and> has_suffix (to_lower host) (drop 1 ?pat))"
  proof
    assume a: "has_prefix ?pat ''*.'' \<and> has_suffix (to_lower host) (drop 1 ?pat)"
    then have "h \<noteq> []" by (cases h) (auto simp: has_prefix_iff to_lower_def)
    then have "CHR ''/'' \<in> set (drop 1 ?pat)" by (cases h) auto
    moreover have "set (drop 1 ?pat) \<subseteq> set (to_lower host)"
      using a unfolding has_suffix_iff by auto
    ultimately show False using no(2) by blast
  qed
  moreover have "index_byte ?pat (CHR ''/'') = Some (length (to_lower h))"
    by (rule index_byte_append [OF no(1)])
  ultimately have "has_prefix (CHR ''/'' # p @ rest) (CHR ''/'' # to_lower p)"
    using m by (simp add: matchRule_def pat Let_def split: if_splits)
  then obtain t where "p @ rest = to_lower p @ t" by (auto simp: has_prefix_iff)
  moreover have "length (to_lower p) = length p" by (simp add: to_lower_def)
  ultimately have "p = to_lower p" by (metis append_eq_append_conv)
  then show False using assms(3) by simp
qed

theorem rule_path_case_witness:
  "\<not> matchRule \<lparr>ir_ID = 1, ir_Pattern = ''a.io/API'', ir_Method = [], ir_Action = ''block'', ir_Enabled = True\<rparr>
     ''GET'' ''a.io'' ''/API/x''"
proof -
  have "to_lower ''API'' \<noteq> ''API''" by code_simp
  then show ?thesis
  using rule_path_case [of "\<lparr>ir_ID = 1, ir_Pattern = ''a.io/API'', ir_Method = [], ir_Action = ''block'', ir_Enabled = True\<rparr>"
      "''a.io''" "''API''" "''a.io''" "''GET''" "''/x''"]
    by simp
qed

section \<open>Previews do not consume\<close>

lemma preview_body_keeps:
  "snd (preview_body body) = body \<and> length (fst (preview_body body)) \<le> maxBodyPreview \<and>
   (\<forall>b. body = Some b \<longrightarrow> fst (preview_body body) = take maxBodyPreview b)"
  by (cases body) (auto simp: preview_body_def Let_def maxBodyPreview_def)

lemma readBody_keeps: "snd (readBody req) = req \<and> length (fst (readBody req)) \<le> maxBodyPreview"
proof -
  have "req\<lparr>hr_Body := snd (preview_body (hr_Body req))\<rparr> = req" by (simp add: preview_body_keeps)
  then show ?thesis
    using preview_body_keeps [of "hr_Body req"]
    by (auto simp: readBody_def Let_def split: option.splits prod.splits)
qed

lemma readRespBody_keeps: "snd (readRespBody resp) = resp \<and> length (fst (readRespBody resp)) \<le> maxBodyPreview"
proof -
  have "resp\<lparr>rp_Body := snd (preview_body (rp_Body resp))\<rparr> = resp" by (simp add: preview_body_keeps)
  then show ?thesis
    using preview_body_keeps [of "rp_Body resp"] by (auto simp: readRespBody_def split: prod.splits)
qed

section \<open>A modified request keeps the rest\<close>

lemma set_headers_other:
  "k \<notin> canonical_key ` fst ` set kvs \<Longrightarrow> map_of (set_headers kvs h) k = map_of h k"
  unfolding set_headers_def by (induction kvs arbitrary: h) (auto simp: Header_Set_def update_conv)

lemma set_headers_dom: "dom (map_of h) \<subseteq> dom (map_of (set_headers kvs h))"
proof (induction kvs arbitrary: h)
  case Nil
  then show ?case by (simp add: set_headers_def)
next
  case (Cons kv kvs)
  obtain k v where kv: "kv = (k, v)" by (cases kv)
  have "dom (map_of h) \<subseteq> dom (map_of (Header_Set h k v))" by (auto simp: Header_Set_def update_conv)
  also have "\<dots> \<subseteq> dom (map_of (set_headers kvs (Header_Set h k v)))" by (rule Cons.IH)
  finally show ?case by (simp add: set_headers_def kv)
qed

text \<open>A modification changes what it names and nothing else: method, URL and body stay those of
  the request unless given, every header of the request is still set, those not named keep their
  values, and what is forwarded is what is recorded; only a bad method or URL is refused.\<close>
theorem modified_request_keeps_rest:
  assumes "ires_Action r \<in> {''allow'', ''modify''}"
    and "handleResult parse req r = (stored, Forward fwd)"
  shows "stored = Some fwd \<and>
    (ires_NewBody r = [] \<longrightarrow> hr_Body fwd = hr_Body req) \<and>
    (ires_NewBody r \<noteq> [] \<longrightarrow> hr_Body fwd = Some (ires_NewBody r) \<and> hr_ContentLength fwd = int (length (ires_NewBody r))) \<and>
    (ires_Method r = [] \<and> hr_Method req \<noteq> [] \<longrightarrow> hr_Method fwd = hr_Method req) \<and>
    (ires_URL r = [] \<longrightarrow> hr_URL fwd = hr_URL req \<or> parse (url_String (hr_URL req)) = Some (hr_URL fwd)) \<and>
    dom (map_of (hr_Header req)) \<subseteq> dom (map_of (hr_Header fwd)) \<and>
    (\<forall>k. k \<notin> canonical_key ` fst ` set (ires_NewHeaders r) \<and> k \<noteq> ''User-Agent'' \<longrightarrow>
       map_of (hr_Header fwd) k = map_of (hr_Header req) k)"
proof -
  have ua: "canonical_key ''User-Agent'' = ''User-Agent''" by code_simp
  let ?h = "set_headers (ires_NewHeaders r) (hr_Header req)"
  define h2 where "h2 = (if Header_Get ?h ''User-Agent'' = [] then Header_Set ?h ''User-Agent'' ''PacketLab/1.0'' else ?h)"
  have dom2: "dom (map_of (hr_Header req)) \<subseteq> dom (map_of h2)"
    using set_headers_dom [of "hr_Header req" "ires_NewHeaders r"] by (auto simp: h2_def Header_Set_def update_conv)
  have other2: "map_of h2 k = map_of (hr_Header req) k"
    if "k \<notin> canonical_key ` fst ` set (ires_NewHeaders r)" "k \<noteq> ''User-Agent''" for k
    using set_headers_other [OF that(1), of "hr_Header req"] that(2) ua by (auto simp: h2_def Header_Set_def update_conv)
  show ?thesis
  proof (cases "ires_Method r \<noteq> [] \<or> ires_URL r \<noteq> [] \<or> ires_NewBody r \<noteq> [] \<or> 0 < length (ires_NewHeaders r)")
    case False
    then show ?thesis using assms by (auto simp: handleResult_def split: if_splits)
  next
    case True
    define m where "m = (if ires_Method r \<noteq> [] then ires_Method r else hr_Method req)"
    define u where "u = (if ires_URL r \<noteq> [] then ires_URL r else url_String (hr_URL req))"
    define b where "b = (if ires_NewBody r \<noteq> [] then Some (ires_NewBody r) else hr_Body req)"
    define l where "l = (if ires_NewBody r \<noteq> [] then int (length (ires_NewBody r)) else 0)"
    have bl: "(if ires_NewBody r \<noteq> [] then (Some (ires_NewBody r), int (length (ires_NewBody r)))
                               else (hr_Body req, 0)) = (b, l)"
      by (simp add: b_def l_def)
    have act: "ires_Action r = ''allow'' \<or> ires_Action r = ''modify''" using assms(1) by simp
    have "handleResult parse req r = (case NewRequest parse m u b l of
        None \<Rightarrow> (None, Respond 400 ''Invalid modified request'')
      | Some n \<Rightarrow> (Some (n\<lparr>hr_Header := h2\<rparr>), Forward (n\<lparr>hr_Header := h2\<rparr>)))"
      unfolding handleResult_def Let_def if_P [OF act] if_P [OF True] bl prod.case
        m_def [symmetric] u_def [symmetric] h2_def [symmetric] ..
    then obtain n where n: "NewRequest parse m u b l = Some n"
      and f: "stored = Some fwd" "fwd = n\<lparr>hr_Header := h2\<rparr>"
      using assms(2) by (cases "NewRequest parse m u b l") auto
    have n': "hr_Body n = (if ires_NewBody r \<noteq> [] then Some (ires_NewBody r) else hr_Body req)"
      "hr_ContentLength n = (if ires_NewBody r \<noteq> [] then int (length (ires_NewBody r)) else 0)"
      "parse (if ires_URL r \<noteq> [] then ires_URL r else url_String (hr_URL req)) = Some (hr_URL n)"
      "ires_Method r = [] \<Longrightarrow> hr_Method req \<noteq> [] \<Longrightarrow> hr_Method n = hr_Method req"
      using n by (auto simp: NewRequest_def Let_def m_def u_def b_def l_def split: if_splits)
    have "map_of (hr_Header fwd) = map_of h2" "hr_Body fwd = hr_Body n" "hr_URL fwd = hr_URL n"
      "hr_ContentLength fwd = hr_ContentLength n" "hr_Method fwd = hr_Method n"
      using f(2) by simp_all
    then show ?thesis using f(1) n' dom2 other2 by auto
  qed
qed

definition plain_url :: "string \<Rightarrow> http_url option" where
  "plain_url s = Some \<lparr>url_String = s, url_Host = ''a.io'', url_Path = ''/''\<rparr>"

definition post_request :: http_request where
  "post_request = \<lparr>hr_Method = ''POST'', hr_URL = the (plain_url ''http://a.io/''),
     hr_Header = [(''Cookie'', [''k=1'']), (''Accept'', [''*/*''])], hr_Body = Some ''old'',
     hr_GetBody = None, hr_ContentLength = 3\<rparr>"

definition header_change :: intercept_result where
  "header_change = \<lparr>ires_RequestID = ''req_1'', ires_Action = ''modify'', ires_Method = [], ires_URL = [],
     ires_NewHeaders = [(''accept'', ''text/html'')], ires_NewBody = [], ires_StatusCode = 0\<rparr>"

theorem modified_request_keeps_rest_witness:
  "\<exists>fwd. handleResult plain_url post_request header_change = (Some fwd, Forward fwd) \<and>
     hr_Body fwd = Some ''old'' \<and> hr_Method fwd = ''POST'' \<and> map_of (hr_Header fwd) ''Cookie'' = Some [''k=1''] \<and>
     map_of (hr_Header fwd) ''Accept'' = Some [''text/html'']"
proof -
  define fwd where "fwd = post_request\<lparr>hr_Header := [(''Cookie'', [''k=1'']), (''Accept'', [''text/html'']),
    (''User-Agent'', [''PacketLab/1.0''])], hr_ContentLength := 0\<rparr>"
  have h: "handleResult plain_url post_request header_change = (Some fwd, Forward fwd)"
    unfolding fwd_def by code_simp
  have "canonical_key ''accept'' = ''Accept''" by code_simp
  then show ?thesis
    using modified_request_keeps_rest [OF _ h] h
    by (auto simp: header_change_def post_request_def fwd_def)
qed

end
