(* ===== verification/PendingQueue.thy ===== *)
theory PendingQueue
  imports Intercept LossyQueue
begin

text \<open>
  \<open>Interceptor\<close> of \<^verbatim>\<open>internal/proxy/interceptor.go\<close>: the handlers that wait for a user's decision, the
  calls that resolve them, the timers, and the log. A waiting handler and its \<open>pendingReq\<close> are one
  entry of \<open>it_waiters\<close>, its position standing for the pointer; the map of pending entries goes from
  ids to positions. A step is a critical section or a channel operation of one goroutine, and the
  goroutines interleave freely. Since Go 1.23 a stopped timer never delivers a stale value.
\<close>

section \<open>State\<close>

datatype phase =
    Waiting
  | Checking \<comment> \<open>the timer fired, the result channel is looked at once more\<close>
  | TimedOut \<comment> \<open>it was empty; the entry is about to be removed\<close>
  | Decided intercept_result bool \<comment> \<open>the decision, and whether it is the time-out's\<close>

record waiter =
  wt_id :: string
  wt_kind :: string
  wt_method :: string
  wt_url :: string
  wt_host :: string
  wt_path :: string
  wt_header :: http_header
  wt_status :: int
  wt_preview :: string
  wt_createdAt :: instant
  wt_stopped :: bool \<comment> \<open>the timer was stopped\<close>
  wt_result :: "intercept_result option" \<comment> \<open>the result channel, of capacity one\<close>
  wt_phase :: phase

text \<open>
  \<open>it_resolving\<close> holds the calls of \<open>Resolve\<close> that removed their entry and have not yet sent;
  \<open>it_resolved\<close> is the history of the calls that found theirs.
\<close>

record interceptor =
  it_mode :: string
  it_rules :: "intercept_rule list"
  it_timeout :: int
  it_pending :: "(string \<times> nat) list"
  it_waiters :: "waiter list"
  it_logCh :: "intercept_log chan"
  it_closed :: bool
  it_resolving :: "(nat \<times> intercept_result) list"
  it_resolved :: "(nat \<times> intercept_result) list"

definition maxPending :: nat where "maxPending = 512"

definition NewInterceptor :: "int \<Rightarrow> interceptor" where
  "NewInterceptor timeout =
     \<lparr>it_mode = ''auto'', it_rules = [], it_timeout = (if timeout \<le> 0 then 15 * 1000000000 else timeout),
      it_pending = [], it_waiters = [], it_logCh = \<lparr>ch_cap = 1024, ch_queue = [], ch_refused = 0\<rparr>,
      it_closed = False, it_resolving = [], it_resolved = []\<rparr>"

definition SetMode :: "string \<Rightarrow> interceptor \<Rightarrow> interceptor" where
  "SetMode mode it = it\<lparr>it_mode := mode\<rparr>"

definition GetMode :: "interceptor \<Rightarrow> string" where
  "GetMode it = it_mode it"

definition SetRules :: "intercept_rule list \<Rightarrow> interceptor \<Rightarrow> interceptor" where
  "SetRules rules it = it\<lparr>it_rules := rules\<rparr>"

definition it_Stop :: "interceptor \<Rightarrow> interceptor" where
  "it_Stop it = it\<lparr>it_closed := True\<rparr>"

text \<open>\<open>writeLog\<close>: nothing after the close, and nothing when the channel is full.\<close>

definition writeLog :: "intercept_log \<Rightarrow> interceptor \<Rightarrow> interceptor" where
  "writeLog l it = (if it_closed it then it else it\<lparr>it_logCh := snd (try_send l (it_logCh it))\<rparr>)"

definition manual_log :: "string \<Rightarrow> waiter \<Rightarrow> intercept_log" where
  "manual_log act w =
     \<lparr>il_Action = act, il_RequestURL = wt_url w, il_RequestMethod = wt_method w,
      il_RequestHost = wt_host w, il_RulePattern = [], il_Mode = ''manual''\<rparr>"

section \<open>The pending list\<close>

definition FlattenHeaders :: "http_header \<Rightarrow> header_map" where
  "FlattenHeaders h =
     map (\<lambda>(k, vs). (k, fold (\<lambda>v acc. acc @ '', '' @ v) (tl vs) (hd vs))) (filter (\<lambda>(k, vs). 0 < length vs) h)"

definition pending_of :: "waiter \<Rightarrow> pending_request" where
  "pending_of p =
     \<lparr>pr_ID = wt_id p, pr_Method = wt_method p, pr_URL = wt_url p, pr_Host = wt_host p,
      pr_Path = wt_path p, pr_Headers = FlattenHeaders (wt_header p), pr_Body = wt_preview p,
      pr_Timestamp = wt_createdAt p,
      pr_Kind = (if wt_kind p = PendingKindResponse then wt_kind p else PendingKindRequest),
      pr_StatusCode = (if wt_kind p = PendingKindResponse then wt_status p else 0)\<rparr>"

definition GetPending :: "interceptor \<Rightarrow> pending_request list" where
  "GetPending it = map (\<lambda>(k, h). pending_of (it_waiters it ! h)) (it_pending it)"

text \<open>\<open>enqueuePending\<close>: the entry is refused, and a drop logged, when the queue is full.\<close>

definition enqueuePending :: "waiter \<Rightarrow> interceptor \<Rightarrow> bool \<times> interceptor" where
  "enqueuePending w it =
     (if length (it_pending it) \<ge> maxPending then (False, writeLog (manual_log ''drop'' w) it)
      else (True, it\<lparr>it_pending := AList.update (wt_id w) (length (it_waiters it)) (it_pending it),
                     it_waiters := it_waiters it @ [w]\<rparr>))"

text \<open>\<open>Resolve\<close> until it released the lock (\<open>None\<close>: not found), and the rest of it.\<close>

definition Resolve_begin :: "string \<Rightarrow> intercept_result \<Rightarrow> interceptor \<Rightarrow> interceptor option" where
  "Resolve_begin i result it =
     (case map_of (it_pending it) i of
        None \<Rightarrow> None
      | Some h \<Rightarrow>
          (let result = result\<lparr>ires_RequestID := i\<rparr> in
           Some (it\<lparr>it_pending := AList.delete i (it_pending it),
                    it_resolving := (h, result) # it_resolving it,
                    it_resolved := (h, result) # it_resolved it\<rparr>)))"

definition set_waiter :: "nat \<Rightarrow> waiter \<Rightarrow> interceptor \<Rightarrow> interceptor" where
  "set_waiter h w it = it\<lparr>it_waiters := (it_waiters it)[h := w]\<rparr>"

text \<open>The send blocks, which is \<open>None\<close>, while the channel is full.\<close>

definition Resolve_end :: "nat \<Rightarrow> intercept_result \<Rightarrow> interceptor \<Rightarrow> interceptor option" where
  "Resolve_end h result it =
     (let p = it_waiters it ! h;
          it = writeLog (manual_log (ires_Action result) p) it
      in if wt_result p \<noteq> None then None
         else Some ((set_waiter h (p\<lparr>wt_stopped := True, wt_result := Some result\<rparr>) it)
                \<lparr>it_resolving := removeAll (h, result) (it_resolving it)\<rparr>))"

section \<open>Waiting for a decision\<close>

text \<open>\<open>awaitDecision\<close>, one channel operation or critical section at a time.\<close>

definition allow_result :: intercept_result where
  "allow_result = \<lparr>ires_RequestID = [], ires_Action = ''allow'', ires_Method = [], ires_URL = [],
     ires_NewHeaders = [], ires_NewBody = [], ires_StatusCode = 0\<rparr>"

definition take_result :: "nat \<Rightarrow> interceptor \<Rightarrow> interceptor option" where
  "take_result h it =
     (let p = it_waiters it ! h in
      case wt_result p of
        Some r \<Rightarrow> if wt_phase p = Waiting
                  then Some (set_waiter h (p\<lparr>wt_result := None, wt_phase := Decided r False\<rparr>) it) else None
      | None \<Rightarrow> None)"

definition timer_fires :: "nat \<Rightarrow> interceptor \<Rightarrow> interceptor option" where
  "timer_fires h it =
     (let p = it_waiters it ! h in
      if wt_phase p = Waiting \<and> \<not> wt_stopped p then Some (set_waiter h (p\<lparr>wt_phase := Checking\<rparr>) it) else None)"

definition check_result :: "nat \<Rightarrow> interceptor \<Rightarrow> interceptor option" where
  "check_result h it =
     (let p = it_waiters it ! h in
      if wt_phase p \<noteq> Checking then None
      else case wt_result p of
        Some r \<Rightarrow> Some (set_waiter h (p\<lparr>wt_result := None, wt_phase := Decided r False\<rparr>) it)
      | None \<Rightarrow> Some (set_waiter h (p\<lparr>wt_phase := TimedOut\<rparr>) it))"

definition give_up :: "nat \<Rightarrow> interceptor \<Rightarrow> interceptor option" where
  "give_up h it =
     (let p = it_waiters it ! h in
      if wt_phase p \<noteq> TimedOut then None
      else
        let it = it\<lparr>it_pending := AList.delete (wt_id p) (it_pending it)\<rparr>;
            it = writeLog (manual_log ''allow'' p) it
        in Some (set_waiter h (p\<lparr>wt_phase := Decided allow_result True\<rparr>) it))"

section \<open>The handlers\<close>

text \<open>
  \<open>Handle\<close> until it waits: a verdict when it does not. The ids come from the clock.
\<close>

definition request_waiter :: "instant \<Rightarrow> string \<Rightarrow> http_request \<Rightarrow> waiter" where
  "request_waiter now preview req =
     \<lparr>wt_id = ''req_'' @ show_int now, wt_kind = PendingKindRequest, wt_method = hr_Method req,
      wt_url = url_String (hr_URL req), wt_host = url_Host (hr_URL req), wt_path = url_Path (hr_URL req),
      wt_header = hr_Header req, wt_status = 0, wt_preview = preview, wt_createdAt = now,
      wt_stopped = False, wt_result = None, wt_phase = Waiting\<rparr>"

definition Handle_begin :: "instant \<Rightarrow> http_request \<Rightarrow> interceptor \<Rightarrow> verdict option \<times> http_request \<times> interceptor" where
  "Handle_begin now req it =
     (if it_mode it = ''auto'' then
        (case auto_rules (it_rules it) req of (logs, v) \<Rightarrow> (Some v, req, fold writeLog logs it))
      else
        (case readBody req of (preview, req) \<Rightarrow>
          (case enqueuePending (request_waiter now preview req) it of
             (True, it) \<Rightarrow> (None, req, it)
           | (False, it) \<Rightarrow> (Some (Respond 429 ''PacketLab: pending queue full, request dropped''), req, it))))"

text \<open>\<open>Handle\<close> after the decision: the request recorded, and the verdict.\<close>

definition Handle_end ::
  "(string \<Rightarrow> http_url option) \<Rightarrow> http_request \<Rightarrow> intercept_result \<Rightarrow> bool \<Rightarrow> http_request option \<times> verdict" where
  "Handle_end parse req r timeout = (if timeout then (Some req, Forward req) else handleResult parse req r)"

definition response_waiter :: "instant \<Rightarrow> string \<Rightarrow> http_request \<Rightarrow> http_reply \<Rightarrow> waiter" where
  "response_waiter now preview req resp =
     (request_waiter now preview req)
       \<lparr>wt_id := ''res_'' @ show_int now, wt_kind := PendingKindResponse,
        wt_header := rp_Header resp, wt_status := rp_StatusCode resp\<rparr>"

text \<open>\<open>HandleResponse\<close> likewise; a response without a request is delivered as it is.\<close>

definition HandleResponse_begin ::
  "instant \<Rightarrow> http_request option \<Rightarrow> http_reply \<Rightarrow> interceptor \<Rightarrow> reply_verdict option \<times> http_reply \<times> interceptor" where
  "HandleResponse_begin now oreq resp it =
     (case oreq of
        None \<Rightarrow> (Some (Deliver resp), resp, it)
      | Some req \<Rightarrow>
          if it_mode it \<noteq> ''manual'' then (Some (Deliver resp), resp, it)
          else
            (case readRespBody resp of (preview, resp) \<Rightarrow>
              (case enqueuePending (response_waiter now preview req resp) it of
                 (True, it) \<Rightarrow> (None, resp, it)
               | (False, it) \<Rightarrow> (Some (Replace 429 ''PacketLab: pending queue full, response dropped''), resp, it))))"

definition HandleResponse_end ::
  "http_reply \<Rightarrow> intercept_result \<Rightarrow> bool \<Rightarrow> (http_reply \<times> bool) option \<times> reply_verdict" where
  "HandleResponse_end resp r timeout = (if timeout then (None, Deliver resp) else handleReply resp r)"

section \<open>Steps\<close>

text \<open>The log writer takes the oldest log.\<close>

definition log_taken :: "interceptor \<Rightarrow> interceptor" where
  "log_taken it = it\<lparr>it_logCh := (it_logCh it)\<lparr>ch_queue := tl (ch_queue (it_logCh it))\<rparr>\<rparr>"

inductive it_step :: "interceptor \<Rightarrow> interceptor \<Rightarrow> bool" where
  mode: "it_step it (SetMode m it)"
| rules: "it_step it (SetRules rs it)"
| handle: "Handle_begin now req it = (v, req', it') \<Longrightarrow> it_step it it'"
| handle_response: "HandleResponse_begin now oreq resp it = (v, resp', it') \<Longrightarrow> it_step it it'"
| resolve: "Resolve_begin i r it = Some it' \<Longrightarrow> it_step it it'"
| send: "(h, r) \<in> set (it_resolving it) \<Longrightarrow> Resolve_end h r it = Some it' \<Longrightarrow> it_step it it'"
| result: "h < length (it_waiters it) \<Longrightarrow> take_result h it = Some it' \<Longrightarrow> it_step it it'"
| timer: "h < length (it_waiters it) \<Longrightarrow> timer_fires h it = Some it' \<Longrightarrow> it_step it it'"
| check: "h < length (it_waiters it) \<Longrightarrow> check_result h it = Some it' \<Longrightarrow> it_step it it'"
| expire: "h < length (it_waiters it) \<Longrightarrow> give_up h it = Some it' \<Longrightarrow> it_step it it'"
| log_taken: "it_step it (log_taken it)"
| stop: "it_step it (it_Stop it)"

inductive it_reach :: "int \<Rightarrow> interceptor \<Rightarrow> bool" for timeout where
  new: "it_reach timeout (NewInterceptor timeout)"
| step: "it_reach timeout it \<Longrightarrow> it_step it it' \<Longrightarrow> it_reach timeout it'"

section \<open>Invariant\<close>

lemma writeLog_frame [simp]:
  "it_mode (writeLog l it) = it_mode it" "it_rules (writeLog l it) = it_rules it"
  "it_pending (writeLog l it) = it_pending it" "it_waiters (writeLog l it) = it_waiters it"
  "it_resolving (writeLog l it) = it_resolving it" "it_resolved (writeLog l it) = it_resolved it"
  by (simp_all add: writeLog_def)

lemma writeLog_chan: "chan_inv (it_logCh it) \<Longrightarrow> ch_cap (it_logCh it) = 1024 \<Longrightarrow>
    chan_inv (it_logCh (writeLog l it)) \<and> ch_cap (it_logCh (writeLog l it)) = 1024"
  using chan.push_inv [of "it_logCh it" l] by (auto simp: writeLog_def try_send_def)

text \<open>
  A pending entry belongs to a handler that is still undecided and was never resolved; a result on
  its way finds an empty channel; a result in the channel, or taken from it, is that of a resolved
  entry.
\<close>

definition undecided :: "waiter \<Rightarrow> bool" where
  "undecided w \<longleftrightarrow> wt_phase w \<in> {Waiting, Checking, TimedOut}"

definition waiter_inv :: "interceptor \<Rightarrow> nat \<Rightarrow> bool" where
  "waiter_inv it h \<longleftrightarrow>
     (let w = it_waiters it ! h in
       ((wt_id w, h) \<in> set (it_pending it) \<longrightarrow>
          undecided w \<and> \<not> wt_stopped w \<and> wt_result w = None \<and> h \<notin> fst ` set (it_resolved it)) \<and>
       (\<forall>r. (h, r) \<in> set (it_resolving it) \<longrightarrow>
          \<not> wt_stopped w \<and> wt_result w = None \<and> (h, r) \<in> set (it_resolved it)) \<and>
       (wt_stopped w \<and> wt_phase w = Waiting \<longrightarrow> wt_result w \<noteq> None) \<and>
       (\<forall>r. wt_result w = Some r \<longrightarrow> (h, r) \<in> set (it_resolved it) \<and> h \<notin> fst ` set (it_resolving it) \<and> wt_stopped w) \<and>
       (\<forall>r. wt_phase w = Decided r False \<longrightarrow> (h, r) \<in> set (it_resolved it)))"

definition it_inv :: "interceptor \<Rightarrow> bool" where
  "it_inv it \<longleftrightarrow>
     distinct (map fst (it_pending it)) \<and> length (it_pending it) \<le> maxPending \<and>
     (\<forall>(i, h) \<in> set (it_pending it). h < length (it_waiters it) \<and> wt_id (it_waiters it ! h) = i) \<and>
     distinct (map fst (it_resolving it)) \<and> distinct (map fst (it_resolved it)) \<and>
     (\<forall>(h, r) \<in> set (it_resolved it). h < length (it_waiters it)) \<and>
     (\<forall>(h, r) \<in> set (it_resolving it). h < length (it_waiters it)) \<and>
     (\<forall>h < length (it_waiters it). waiter_inv it h) \<and>
     chan_inv (it_logCh it) \<and> ch_cap (it_logCh it) = 1024"

lemma it_inv_writeLog: "it_inv it \<Longrightarrow> it_inv (writeLog l it)"
  using writeLog_chan [of it l] by (auto simp: it_inv_def waiter_inv_def)

text \<open>Replacing the waiter at one position.\<close>

lemma it_inv_set_waiter:
  assumes "it_inv it" and "h < length (it_waiters it)" and "wt_id w = wt_id (it_waiters it ! h)"
    and "waiter_inv (set_waiter h w it) h"
  shows "it_inv (set_waiter h w it)"
  using assms
  by (auto simp: it_inv_def set_waiter_def waiter_inv_def nth_list_update Let_def split: prod.splits)

lemma length_update_le: "length (AList.update k v al) \<le> Suc (length al)"
  by (induction al) auto

lemma set_update_subset: "set (AList.update k v al) \<subseteq> insert (k, v) (set al)"
  by (induction al) auto

lemma enqueue_inv:
  assumes i: "it_inv it" and e: "enqueuePending w it = (ok, it')"
    and w: "wt_phase w = Waiting" "\<not> wt_stopped w" "wt_result w = None"
  shows "it_inv it'"
proof (cases "length (it_pending it) \<ge> maxPending")
  case True
  then show ?thesis using i e it_inv_writeLog by (auto simp: enqueuePending_def)
next
  case False
  let ?n = "length (it_waiters it)" and ?p = "AList.update (wt_id w) (length (it_waiters it)) (it_pending it)"
  have it': "it' = it\<lparr>it_pending := ?p, it_waiters := it_waiters it @ [w]\<rparr>"
    using e False by (auto simp: enqueuePending_def)
  note s = set_update_subset [of "wt_id w" ?n "it_pending it"]
  have wi: "waiter_inv it' h" if "h < Suc ?n" for h
  proof (cases "h = ?n")
    case True
    have "h \<notin> fst ` set (it_resolved it)" "h \<notin> fst ` set (it_resolving it)"
      using i True by (auto simp: it_inv_def)
    then show ?thesis using w True by (auto simp: waiter_inv_def it' undecided_def Let_def image_iff)
  next
    case False
    then have "h < ?n" using that by simp
    then have "waiter_inv it h" using i by (simp add: it_inv_def)
    moreover have "(k, h) \<in> set ?p \<Longrightarrow> (k, h) \<in> set (it_pending it)" for k using s False by auto
    ultimately show ?thesis using \<open>h < ?n\<close> by (auto simp: waiter_inv_def it' nth_append Let_def)
  qed
  have "\<forall>(i, h) \<in> set ?p. h < Suc ?n \<and> wt_id ((it_waiters it @ [w]) ! h) = i"
    using i s by (fastforce simp: it_inv_def nth_append)
  moreover have "\<forall>(h, r) \<in> set (it_resolved it). h < Suc ?n" "\<forall>(h, r) \<in> set (it_resolving it). h < Suc ?n"
    using i by (auto simp: it_inv_def)
  ultimately show ?thesis
    using i False length_update_le [of "wt_id w" ?n "it_pending it"] wi
    unfolding it_inv_def it' by (simp add: distinct_update)
qed

lemma Resolve_begin_inv:
  assumes i: "it_inv it" and r: "Resolve_begin k res it = Some it'"
  shows "it_inv it'"
proof -
  obtain h where h: "map_of (it_pending it) k = Some h" using r by (auto simp: Resolve_begin_def split: option.splits)
  define res' where "res' = res\<lparr>ires_RequestID := k\<rparr>"
  have it': "it' = it\<lparr>it_pending := AList.delete k (it_pending it), it_resolving := (h, res') # it_resolving it,
      it_resolved := (h, res') # it_resolved it\<rparr>"
    using r h by (simp add: Resolve_begin_def Let_def res'_def)
  have mem: "(k, h) \<in> set (it_pending it)" by (rule map_of_SomeD [OF h])
  then have hl: "h < length (it_waiters it)" and id: "wt_id (it_waiters it ! h) = k"
    using i by (auto simp: it_inv_def)
  have wh: "waiter_inv it h" using i hl by (simp add: it_inv_def)
  then have fresh: "h \<notin> fst ` set (it_resolved it)" using mem id by (simp add: waiter_inv_def Let_def)
  have nr: "h \<notin> fst ` set (it_resolving it)"
  proof
    assume "h \<in> fst ` set (it_resolving it)"
    then obtain r' where "(h, r') \<in> set (it_resolving it)" by auto
    then have "(h, r') \<in> set (it_resolved it)" using wh by (simp add: waiter_inv_def Let_def)
    then show False using fresh by force
  qed
  have del: "(k', h') \<in> set (AList.delete k (it_pending it)) \<longleftrightarrow> k' \<noteq> k \<and> (k', h') \<in> set (it_pending it)" for k' h'
    by (auto simp: AList.delete_eq)
  have wi: "waiter_inv it' h'" if "h' < length (it_waiters it)" for h'
  proof -
    have "waiter_inv it h'" using i that by (simp add: it_inv_def)
    then show ?thesis
      using wh mem id nr by (auto simp: waiter_inv_def it' del Let_def)
  qed
  show ?thesis
    using i wi hl fresh nr length_delete_le [of k "it_pending it"] unfolding it_inv_def it'
    by (auto simp: del distinct_delete)
qed

lemma Resolve_end_inv:
  assumes i: "it_inv it" and m: "(h, r) \<in> set (it_resolving it)" and e: "Resolve_end h r it = Some it'"
  shows "it_inv it'"
proof -
  define it1 where "it1 = writeLog (manual_log (ires_Action r) (it_waiters it ! h)) it"
  have i1: "it_inv it1" unfolding it1_def by (rule it_inv_writeLog [OF i])
  have same: "it_resolving it1 = it_resolving it" by (simp add: it1_def)
  define w where "w = (it_waiters it ! h)\<lparr>wt_stopped := True, wt_result := Some r\<rparr>"
  have it': "it' = (set_waiter h w it1)\<lparr>it_resolving := removeAll (h, r) (it_resolving it)\<rparr>"
    using e by (auto simp: Resolve_end_def Let_def it1_def [symmetric] w_def same split: if_splits)
  have hl: "h < length (it_waiters it)" using i m by (auto simp: it_inv_def)
  have wh: "waiter_inv it h" using i hl by (simp add: it_inv_def)
  then have rs: "(h, r) \<in> set (it_resolved it)" using m by (simp add: waiter_inv_def Let_def)
  then have np: "(wt_id (it_waiters it ! h), h) \<notin> set (it_pending it)"
    using wh by (force simp: waiter_inv_def Let_def)
  have only: "(h, r') \<in> set (it_resolving it) \<Longrightarrow> r' = r" for r'
    using i m by (auto simp: it_inv_def dest: eq_key_imp_eq_value)
  have fields: "it_pending it' = it_pending it" "it_resolved it' = it_resolved it"
    "it_resolving it' = removeAll (h, r) (it_resolving it)" "it_waiters it' = (it_waiters it)[h := w]"
    by (simp_all add: it' set_waiter_def it1_def)
  have wi: "waiter_inv it' h'" if h': "h' < length (it_waiters it)" for h'
  proof (cases "h' = h")
    case True
    have "\<forall>r'. (h, r') \<notin> set (removeAll (h, r) (it_resolving it))" using only by auto
    moreover have "wt_phase w = wt_phase (it_waiters it ! h)" "wt_id w = wt_id (it_waiters it ! h)"
      "wt_result w = Some r" "wt_stopped w" by (simp_all add: w_def)
    ultimately show ?thesis
      using True hl wh rs np unfolding waiter_inv_def fields by (auto simp: Let_def)
  next
    case False
    have "waiter_inv it h'" using i h' by (simp add: it_inv_def)
    then show ?thesis using False unfolding waiter_inv_def fields by (auto simp: Let_def)
  qed
  have "distinct (map fst (removeAll (h, r) (it_resolving it)))"
    using i by (simp add: it_inv_def removeAll_filter_not_eq distinct_map_filter)
  moreover have "wt_id ((it_waiters it)[h := w] ! k) = wt_id (it_waiters it ! k)" for k
    using hl by (cases "k = h") (simp_all add: w_def)
  moreover have "it_logCh it' = it_logCh it1" by (simp add: it' set_waiter_def)
  ultimately show ?thesis
    using i i1 wi unfolding it_inv_def fields by auto
qed

lemma take_result_inv:
  assumes i: "it_inv it" and h: "h < length (it_waiters it)" and t: "take_result h it = Some it'"
  shows "it_inv it'"
proof -
  have wh: "waiter_inv it h" using i h by (simp add: it_inv_def)
  obtain r where r: "wt_result (it_waiters it ! h) = Some r"
    and it': "it' = set_waiter h ((it_waiters it ! h)\<lparr>wt_result := None, wt_phase := Decided r False\<rparr>) it"
    using t by (auto simp: take_result_def Let_def split: option.splits if_splits)
  have "waiter_inv it' h"
    using wh r h by (auto simp: waiter_inv_def it' set_waiter_def Let_def)
  then show ?thesis using it_inv_set_waiter [OF i h] by (simp add: it')
qed

lemma timer_fires_inv:
  assumes i: "it_inv it" and h: "h < length (it_waiters it)" and t: "timer_fires h it = Some it'"
  shows "it_inv it'"
proof -
  have wh: "waiter_inv it h" using i h by (simp add: it_inv_def)
  have it': "it' = set_waiter h ((it_waiters it ! h)\<lparr>wt_phase := Checking\<rparr>) it"
    using t by (auto simp: timer_fires_def Let_def split: if_splits)
  have "waiter_inv it' h"
    using wh h by (auto simp: waiter_inv_def it' set_waiter_def Let_def undecided_def)
  then show ?thesis using it_inv_set_waiter [OF i h] by (simp add: it')
qed

lemma check_result_inv:
  assumes i: "it_inv it" and h: "h < length (it_waiters it)" and t: "check_result h it = Some it'"
  shows "it_inv it'"
proof -
  have wh: "waiter_inv it h" using i h by (simp add: it_inv_def)
  obtain w where it': "it' = set_waiter h w it" and id: "wt_id w = wt_id (it_waiters it ! h)"
    and w: "wt_result (it_waiters it ! h) = None \<and> w = (it_waiters it ! h)\<lparr>wt_phase := TimedOut\<rparr> \<or>
      (\<exists>r. wt_result (it_waiters it ! h) = Some r \<and> w = (it_waiters it ! h)\<lparr>wt_result := None, wt_phase := Decided r False\<rparr>)"
    using t by (auto simp: check_result_def Let_def split: option.splits if_splits)
  have "waiter_inv it' h"
    using wh h w by (force simp: waiter_inv_def it' set_waiter_def Let_def undecided_def)
  then show ?thesis using it_inv_set_waiter [OF i h id] by (simp add: it')
qed

lemma give_up_inv:
  assumes i: "it_inv it" and h: "h < length (it_waiters it)" and t: "give_up h it = Some it'"
  shows "it_inv it'"
proof -
  let ?p = "it_waiters it ! h"
  define it1 where "it1 = it\<lparr>it_pending := AList.delete (wt_id ?p) (it_pending it)\<rparr>"
  define it2 where "it2 = writeLog (manual_log ''allow'' ?p) it1"
  have it': "it' = set_waiter h (?p\<lparr>wt_phase := Decided allow_result True\<rparr>) it2"
    using t by (auto simp: give_up_def Let_def it1_def it2_def split: if_splits)
  have sub: "set (it_pending it1) \<subseteq> set (it_pending it)" and gone: "(wt_id ?p, h) \<notin> set (it_pending it1)"
    by (auto simp: it1_def AList.delete_eq)
  have "waiter_inv it1 k" if "k < length (it_waiters it)" for k
  proof -
    have "waiter_inv it k" using i that by (simp add: it_inv_def)
    then show ?thesis using sub by (auto simp: waiter_inv_def it1_def Let_def)
  qed
  then have "it_inv it1"
    using i sub length_delete_le [of "wt_id ?p" "it_pending it"]
    unfolding it_inv_def by (auto simp: it1_def distinct_delete)
  then have i2: "it_inv it2" unfolding it2_def by (rule it_inv_writeLog)
  have h2: "h < length (it_waiters it2)" and p2: "it_waiters it2 = it_waiters it"
    using h by (simp_all add: it2_def it1_def)
  have "waiter_inv it2 h" using i2 h2 by (simp add: it_inv_def)
  then have "waiter_inv it' h"
    using h2 gone p2 by (auto simp: waiter_inv_def it' set_waiter_def it2_def Let_def)
  then show ?thesis using it_inv_set_waiter [OF i2 h2] p2 by (simp add: it')
qed

lemma fold_writeLog_inv: "it_inv it \<Longrightarrow> it_inv (fold writeLog logs it)"
  by (induction logs arbitrary: it) (auto intro: it_inv_writeLog)

lemma Handle_begin_inv:
  assumes i: "it_inv it" and e: "Handle_begin now req it = (v, req', it')"
  shows "it_inv it'"
proof (cases "it_mode it = ''auto''")
  case True
  obtain logs v' where "auto_rules (it_rules it) req = (logs, v')" by fastforce
  then show ?thesis using e True fold_writeLog_inv [OF i] by (auto simp: Handle_begin_def)
next
  case False
  obtain preview req1 where r: "readBody req = (preview, req1)" by fastforce
  obtain ok it1 where q: "enqueuePending (request_waiter now preview req1) it = (ok, it1)" by fastforce
  have "it_inv it1" by (rule enqueue_inv [OF i q]) (simp_all add: request_waiter_def)
  then show ?thesis using e False r q by (cases ok) (simp_all add: Handle_begin_def)
qed

lemma HandleResponse_begin_inv:
  assumes i: "it_inv it" and e: "HandleResponse_begin now oreq resp it = (v, resp', it')"
  shows "it_inv it'"
proof (cases "oreq = None \<or> it_mode it \<noteq> ''manual''")
  case True
  then show ?thesis using e i by (cases oreq) (simp_all add: HandleResponse_begin_def)
next
  case False
  then obtain req where req: "oreq = Some req" by auto
  obtain preview resp1 where r: "readRespBody resp = (preview, resp1)" by fastforce
  obtain ok it1 where q: "enqueuePending (response_waiter now preview req resp1) it = (ok, it1)" by fastforce
  have "it_inv it1" by (rule enqueue_inv [OF i q]) (simp_all add: request_waiter_def response_waiter_def)
  then show ?thesis using e False r q req by (cases ok) (simp_all add: HandleResponse_begin_def)
qed

lemma it_step_inv: "it_step it it' \<Longrightarrow> it_inv it \<Longrightarrow> it_inv it'"
proof (induction rule: it_step.induct)
  case (mode it m)
  then show ?case by (simp add: SetMode_def it_inv_def waiter_inv_def)
next
  case (rules it rs)
  then show ?case by (simp add: SetRules_def it_inv_def waiter_inv_def)
next
  case (log_taken it)
  then show ?case by (auto simp: log_taken_def it_inv_def waiter_inv_def chan_inv_def)
next
  case (stop it)
  then show ?case by (simp add: it_Stop_def it_inv_def waiter_inv_def)
qed (blast intro: Handle_begin_inv HandleResponse_begin_inv Resolve_begin_inv Resolve_end_inv
    take_result_inv timer_fires_inv check_result_inv give_up_inv)+

lemma it_reach_inv: "it_reach timeout it \<Longrightarrow> it_inv it"
proof (induction rule: it_reach.induct)
  case new
  then show ?case by (simp add: NewInterceptor_def it_inv_def chan_inv_def)
next
  case (step it it')
  then show ?case using it_step_inv by blast
qed

section \<open>What waiting guarantees\<close>

text \<open>C8: In every interleaving at most 512 entries are pending; a pending entry can be found by its
  id and its handler is undecided; a result on its way finds its channel empty, so that
  \<open>Resolve\<close> never blocks; and a handler only ever acts on a decision that was resolved for it, or
  on the allow of its own time-out. No handler is resolved twice.\<close>
theorem pending_queue_safe:
  assumes "it_reach timeout it"
  shows "length (it_pending it) \<le> 512 \<and>
    (\<forall>(i, h) \<in> set (it_pending it). map_of (it_pending it) i = Some h \<and> undecided (it_waiters it ! h)) \<and>
    (\<forall>(h, r) \<in> set (it_resolving it). Resolve_end h r it \<noteq> None) \<and>
    (\<forall>h < length (it_waiters it). \<forall>r. wt_phase (it_waiters it ! h) = Decided r False \<longrightarrow> (h, r) \<in> set (it_resolved it)) \<and>
    distinct (map fst (it_resolved it))"
proof -
  have i: "it_inv it" by (rule it_reach_inv [OF assms])
  have "\<forall>(k, h) \<in> set (it_pending it). map_of (it_pending it) k = Some h \<and> undecided (it_waiters it ! h)"
    using i by (fastforce simp: it_inv_def waiter_inv_def Let_def)
  moreover have "\<forall>(h, r) \<in> set (it_resolving it). Resolve_end h r it \<noteq> None"
    using i by (fastforce simp: it_inv_def waiter_inv_def Let_def Resolve_end_def)
  moreover have "\<forall>h < length (it_waiters it). \<forall>r. wt_phase (it_waiters it ! h) = Decided r False \<longrightarrow> (h, r) \<in> set (it_resolved it)"
    using i by (auto simp: it_inv_def waiter_inv_def Let_def)
  ultimately show ?thesis using i by (auto simp: it_inv_def maxPending_def)
qed

text \<open>C37: No handler waits for ever: from every reachable state, each has steps to a decision.\<close>
theorem handler_can_decide:
  assumes "it_reach timeout it" and h: "h < length (it_waiters it)"
  shows "\<exists>it' r t. it_step\<^sup>*\<^sup>* it it' \<and> wt_phase (it_waiters it' ! h) = Decided r t"
proof -
  have wh: "waiter_inv it h" using it_reach_inv [OF assms(1)] h by (simp add: it_inv_def)
  have timed_out: "\<exists>it' r t. it_step\<^sup>*\<^sup>* it it' \<and> wt_phase (it_waiters it' ! h) = Decided r t"
    if l: "h < length (it_waiters it)" and p: "wt_phase (it_waiters it ! h) = TimedOut" for it
  proof -
    obtain it' where g: "give_up h it = Some it'" using p by (simp add: give_up_def Let_def)
    then have "wt_phase (it_waiters it' ! h) = Decided allow_result True"
      using l p by (auto simp: give_up_def Let_def set_waiter_def)
    then show ?thesis using it_step.expire [OF l g] by blast
  qed
  have rechecked: "\<exists>it' r t. it_step\<^sup>*\<^sup>* it it' \<and> wt_phase (it_waiters it' ! h) = Decided r t"
    if l: "h < length (it_waiters it)" and p: "wt_phase (it_waiters it ! h) = Checking" for it
  proof -
    obtain it1 where c: "check_result h it = Some it1" "length (it_waiters it1) = length (it_waiters it)"
      "wt_phase (it_waiters it1 ! h) = TimedOut \<or> (\<exists>r. wt_phase (it_waiters it1 ! h) = Decided r False)"
      using l p by (cases "wt_result (it_waiters it ! h)") (auto simp: check_result_def Let_def set_waiter_def)
    have st: "it_step it it1" by (rule it_step.check [OF l c(1)])
    show ?thesis
      using c(3) timed_out [of it1] l c(2) st by (metis converse_rtranclp_into_rtranclp rtranclp.rtrancl_refl)
  qed
  show ?thesis
  proof (cases "wt_phase (it_waiters it ! h)")
    case Waiting
    show ?thesis
    proof (cases "wt_result (it_waiters it ! h)")
      case (Some r)
      then obtain it' where g: "take_result h it = Some it'" "wt_phase (it_waiters it' ! h) = Decided r False"
        using Waiting h by (simp add: take_result_def Let_def set_waiter_def)
      then show ?thesis using it_step.result [OF h g(1)] by blast
    next
      case None
      then have "\<not> wt_stopped (it_waiters it ! h)" using wh Waiting by (auto simp: waiter_inv_def Let_def)
      then obtain it1 where g: "timer_fires h it = Some it1" "wt_phase (it_waiters it1 ! h) = Checking"
        "length (it_waiters it1) = length (it_waiters it)"
        using Waiting h by (simp add: timer_fires_def Let_def set_waiter_def)
      have st: "it_step it it1" by (rule it_step.timer [OF h g(1)])
      show ?thesis using rechecked [of it1] g h st by (metis converse_rtranclp_into_rtranclp)
    qed
  next
    case Checking
    then show ?thesis using rechecked h by blast
  next
    case TimedOut
    then show ?thesis using timed_out h by blast
  next
    case (Decided r t)
    then show ?thesis by blast
  qed
qed

section \<open>A decision that comes with the time-out\<close>

definition waiting_for :: "int \<Rightarrow> instant \<Rightarrow> http_request \<Rightarrow> interceptor" where
  "waiting_for timeout now req = snd (snd (Handle_begin now req (SetMode ''manual'' (NewInterceptor timeout))))"

lemma waiting_for_reached: "it_reach timeout (waiting_for timeout now req)"
proof -
  obtain v req' it' where h: "Handle_begin now req (SetMode ''manual'' (NewInterceptor timeout)) = (v, req', it')"
    by (metis prod_cases3)
  show ?thesis
    unfolding waiting_for_def h snd_conv
    by (rule it_reach.step [OF it_reach.step [OF it_reach.new it_step.mode] it_step.handle [OF h]])
qed

lemma waiting_for_facts:
  "it_waiters (waiting_for timeout now req) = [request_waiter now (fst (readBody req)) (snd (readBody req))]"
  "it_pending (waiting_for timeout now req) = [(''req_'' @ show_int now, 0)]"
  by (simp_all add: waiting_for_def Handle_begin_def SetMode_def NewInterceptor_def enqueuePending_def maxPending_def
      request_waiter_def split: prod.splits)

text \<open>A decision can be lost: when the timer fires just before a user drops the request, the call
  that resolves it succeeds, and the request is nevertheless forwarded by the time-out.\<close>
theorem resolved_decision_lost:
  "\<exists>it it'. it_reach timeout it \<and> Resolve_begin (''req_'' @ show_int now) (r\<lparr>ires_Action := ''drop''\<rparr>) it = Some it' \<and>
     (\<exists>it''. it_step it' it'' \<and> wt_phase (it_waiters it'' ! 0) = Decided allow_result True \<and>
        Handle_end parse req allow_result True = (Some req, Forward req))"
proof -
  let ?i = "''req_'' @ show_int now" and ?w = "waiting_for timeout now req"
  define it2 where "it2 = the (timer_fires 0 ?w)"
  define it3 where "it3 = the (check_result 0 it2)"
  have t: "timer_fires 0 ?w = Some it2" and w2: "it_waiters it2 = [(it_waiters ?w ! 0)\<lparr>wt_phase := Checking\<rparr>]"
    and p2: "it_pending it2 = [(?i, 0)]"
    by (simp_all add: it2_def timer_fires_def waiting_for_facts set_waiter_def request_waiter_def Let_def)
  have c: "check_result 0 it2 = Some it3" and w3: "it_waiters it3 = [(it_waiters ?w ! 0)\<lparr>wt_phase := TimedOut\<rparr>]"
    and p3: "it_pending it3 = [(?i, 0)]"
    by (simp_all add: it3_def check_result_def w2 p2 set_waiter_def waiting_for_facts request_waiter_def Let_def)
  have "it_reach timeout it2"
    by (rule it_reach.step [OF waiting_for_reached it_step.timer [OF _ t]]) (simp add: waiting_for_facts)
  then have "it_reach timeout it3"
    by (rule it_reach.step [OF _ it_step.check [OF _ c]]) (simp add: w2)
  moreover obtain it4 where r: "Resolve_begin ?i (r\<lparr>ires_Action := ''drop''\<rparr>) it3 = Some it4"
    by (simp add: Resolve_begin_def p3 Let_def)
  then have w4: "it_waiters it4 = it_waiters it3"
    by (auto simp: Resolve_begin_def p3 Let_def)
  moreover obtain it5 where g: "give_up 0 it4 = Some it5"
    by (simp add: give_up_def w4 w3 Let_def)
  then have "wt_phase (it_waiters it5 ! 0) = Decided allow_result True"
    by (auto simp: give_up_def w4 w3 Let_def set_waiter_def)
  moreover have "it_step it4 it5" by (rule it_step.expire [OF _ g]) (simp add: w4 w3)
  ultimately show ?thesis using r by (auto simp: Handle_end_def)
qed

section \<open>Concrete instances\<close>

theorem pending_queue_safe_witness:
  "length (it_pending (waiting_for 5 7 post_request)) \<le> 512 \<and>
   map_of (it_pending (waiting_for 5 7 post_request)) (''req_'' @ show_int 7) = Some 0 \<and>
   undecided (it_waiters (waiting_for 5 7 post_request) ! 0)"
  using pending_queue_safe [OF waiting_for_reached [of 5 7 post_request]] by (simp add: waiting_for_facts(2))

theorem handler_can_decide_witness:
  "\<exists>it' r t. it_step\<^sup>*\<^sup>* (waiting_for 5 7 post_request) it' \<and> wt_phase (it_waiters it' ! 0) = Decided r t"
  by (rule handler_can_decide [OF waiting_for_reached]) (simp add: waiting_for_facts)

end
