(* ===== verification/BatchWriter.thy ===== *)
theory BatchWriter
  imports Writer "HOL-Library.Multiset"
begin

text \<open>
  \<open>BatchWriter\<close> of \<^verbatim>\<open>internal/proxy/batch.go\<close>: requests go through a channel of 16384 entries to
  two workers, each with a batch of its own, and from there to the store. The goroutines and the
  callers are the steps of a transition relation; a step is what one of them does between two
  points where another can observe it. \<open>Stop\<close> holds the enqueue lock from its first step to its
  last, so no \<open>Enqueue\<close> step is possible while it runs.
\<close>

section \<open>State and operations\<close>

text \<open>The control state of a worker, with its local batch.\<close>

datatype worker = Looping "captured_request list" | Draining "captured_request list" | Exited

datatype phase = Running | Stopping | Stopped

record batch_writer =
  bw_ch :: "captured_request list"
  bw_workers :: "worker list"
  bw_phase :: phase
  bw_batchSize :: nat
  bw_store :: store

definition chan_capacity :: nat where "chan_capacity = 16384"

definition NewBatchWriter :: "store \<Rightarrow> int \<Rightarrow> batch_writer" where
  "NewBatchWriter st batchSize =
     (let batchSize = (if batchSize \<le> 0 then 500 else batchSize);
          workers = 2
      in \<lparr>bw_ch = [], bw_workers = replicate workers (Looping []), bw_phase = Running,
          bw_batchSize = nat batchSize, bw_store = st\<rparr>)"

text \<open>
  \<open>saveSync\<close>, with the request and whether it was saved; \<open>onSave\<close> is called on those that were.
\<close>

definition saveSync :: "instant \<Rightarrow> captured_request \<Rightarrow> store \<Rightarrow> (captured_request \<times> bool) \<times> store" where
  "saveSync now req s =
     (case Save now req s of
        (Inl e, req, s) \<Rightarrow> ((req, False), s)
      | (Inr i, req, s) \<Rightarrow> ((set_ID i req, True), s))"

definition Enqueue ::
  "instant \<Rightarrow> captured_request \<Rightarrow> batch_writer \<Rightarrow> (captured_request \<times> bool) list \<times> batch_writer" where
  "Enqueue now req bw =
     (if bw_phase bw \<noteq> Running then
        (case saveSync now req (bw_store bw) of (x, s) \<Rightarrow> ([x], bw\<lparr>bw_store := s\<rparr>))
      else if length (bw_ch bw) < chan_capacity then ([], bw\<lparr>bw_ch := bw_ch bw @ [req]\<rparr>)
      else (case saveSync now req (bw_store bw) of (x, s) \<Rightarrow> ([x], bw\<lparr>bw_store := s\<rparr>)))"

text \<open>The closure \<open>flush\<close> of a worker: the report and the store.\<close>

definition bw_flush ::
  "instant \<Rightarrow> captured_request list \<Rightarrow> store \<Rightarrow> (captured_request \<times> bool) list \<times> store" where
  "bw_flush now batch s =
     (if batch = [] then ([], s)
      else store_batch (Save now) (SaveBatch now) set_ID (\<lambda>_. False) batch s)"

definition set_worker :: "nat \<Rightarrow> worker \<Rightarrow> batch_writer \<Rightarrow> batch_writer" where
  "set_worker w x bw = bw\<lparr>bw_workers := (bw_workers bw)[w := x]\<rparr>"

text \<open>A worker takes a request from the channel; a full batch is flushed.\<close>

definition worker_recv ::
  "instant \<Rightarrow> nat \<Rightarrow> batch_writer \<Rightarrow> ((captured_request \<times> bool) list \<times> batch_writer) option" where
  "worker_recv now w bw =
     (case (bw_workers bw ! w, bw_ch bw) of
        (Looping batch, req # ch) \<Rightarrow>
          (let batch = batch @ [req] in
           if length batch \<ge> bw_batchSize bw then
             (case bw_flush now batch (bw_store bw) of (res, s) \<Rightarrow>
                Some (res, set_worker w (Looping []) (bw\<lparr>bw_ch := ch, bw_store := s\<rparr>)))
           else Some ([], set_worker w (Looping batch) (bw\<lparr>bw_ch := ch\<rparr>)))
      | (Draining batch, req # ch) \<Rightarrow>
          Some ([], set_worker w (Draining (batch @ [req])) (bw\<lparr>bw_ch := ch\<rparr>))
      | _ \<Rightarrow> None)"

text \<open>The ticker fires.\<close>

definition worker_tick ::
  "instant \<Rightarrow> nat \<Rightarrow> batch_writer \<Rightarrow> ((captured_request \<times> bool) list \<times> batch_writer) option" where
  "worker_tick now w bw =
     (case bw_workers bw ! w of
        Looping batch \<Rightarrow>
          (case bw_flush now batch (bw_store bw) of (res, s) \<Rightarrow>
             Some (res, set_worker w (Looping []) (bw\<lparr>bw_store := s\<rparr>)))
      | _ \<Rightarrow> None)"

text \<open>
  The worker sees that the writer stopped; later, having found the channel empty, it flushes and
  exits.
\<close>

definition worker_stop ::
  "instant \<Rightarrow> nat \<Rightarrow> batch_writer \<Rightarrow> ((captured_request \<times> bool) list \<times> batch_writer) option" where
  "worker_stop now w bw =
     (case bw_workers bw ! w of
        Looping batch \<Rightarrow>
          (if bw_phase bw \<noteq> Running then Some ([], set_worker w (Draining batch) bw) else None)
      | Draining batch \<Rightarrow>
          (if bw_ch bw = [] then
             (case bw_flush now batch (bw_store bw) of (res, s) \<Rightarrow>
                Some (res, set_worker w Exited (bw\<lparr>bw_store := s\<rparr>)))
           else None)
      | Exited \<Rightarrow> None)"

text \<open>
  \<open>Stop\<close>: the swap of the flag and the close of \<open>stopCh\<close>; then, when both workers are gone, the
  drain of the channel. A second call finds the flag set and does nothing.
\<close>

definition Stop_begin :: "batch_writer \<Rightarrow> batch_writer" where
  "Stop_begin bw = (if bw_phase bw = Running then bw\<lparr>bw_phase := Stopping\<rparr> else bw)"

definition Stop_end ::
  "instant \<Rightarrow> batch_writer \<Rightarrow> ((captured_request \<times> bool) list \<times> batch_writer) option" where
  "Stop_end now bw =
     (if bw_phase bw = Stopping \<and> (\<forall>w \<in> set (bw_workers bw). w = Exited) then
        (case save_each (Save now) set_ID (bw_ch bw) (bw_store bw) of (res, s) \<Rightarrow>
           Some (res, bw\<lparr>bw_ch := [], bw_store := s, bw_phase := Stopped\<rparr>))
      else None)"

text \<open>
  One step: the requests a caller enqueues in it, the requests handed to the store in it with
  whether they were saved, and the state after it.
\<close>

inductive bw_step ::
  "batch_writer \<Rightarrow> captured_request list \<Rightarrow> (captured_request \<times> bool) list \<Rightarrow> batch_writer \<Rightarrow> bool" where
  enqueue: "bw_phase bw \<noteq> Stopping \<Longrightarrow> Enqueue now req bw = (res, bw') \<Longrightarrow> bw_step bw [req] res bw'"
| recv: "w < length (bw_workers bw) \<Longrightarrow> worker_recv now w bw = Some (res, bw') \<Longrightarrow> bw_step bw [] res bw'"
| tick: "w < length (bw_workers bw) \<Longrightarrow> worker_tick now w bw = Some (res, bw') \<Longrightarrow> bw_step bw [] res bw'"
| quit: "w < length (bw_workers bw) \<Longrightarrow> worker_stop now w bw = Some (res, bw') \<Longrightarrow> bw_step bw [] res bw'"
| stop: "bw_step bw [] [] (Stop_begin bw)"
| finish: "Stop_end now bw = Some (res, bw') \<Longrightarrow> bw_step bw [] res bw'"

inductive bw_run ::
  "batch_writer \<Rightarrow> captured_request list \<Rightarrow> (captured_request \<times> bool) list \<Rightarrow> batch_writer \<Rightarrow> bool" where
  refl: "bw_run bw [] [] bw"
| step: "bw_run bw enq rep bw1 \<Longrightarrow> bw_step bw1 e r bw2 \<Longrightarrow> bw_run bw (enq @ e) (rep @ r) bw2"

section \<open>What every step keeps\<close>

fun batch_of :: "worker \<Rightarrow> captured_request list" where
  "batch_of (Looping b) = b"
| "batch_of (Draining b) = b"
| "batch_of Exited = []"

text \<open>The contents in flight: in the channel and in the workers' batches.\<close>

definition in_flight :: "batch_writer \<Rightarrow> captured_request multiset" where
  "in_flight bw = mset (map content (bw_ch bw)) +
     sum_list (map (\<lambda>w. mset (map content (batch_of w))) (bw_workers bw))"

definition reported :: "(captured_request \<times> bool) list \<Rightarrow> captured_request list" where
  "reported rep = map (\<lambda>p. content (fst p)) rep"

lemma in_flight_set_worker:
  assumes "w < length (bw_workers bw)"
  shows "in_flight (set_worker w x bw) + mset (map content (batch_of (bw_workers bw ! w))) =
    in_flight bw + mset (map content (batch_of x))"
proof -
  let ?f = "\<lambda>w. mset (map content (batch_of w))"
  have "bw_workers bw = take w (bw_workers bw) @ bw_workers bw ! w # drop (Suc w) (bw_workers bw)"
    by (rule id_take_nth_drop [OF assms])
  then have "sum_list (map ?f (bw_workers bw)) =
      sum_list (map ?f (take w (bw_workers bw))) + ?f (bw_workers bw ! w) +
      sum_list (map ?f (drop (Suc w) (bw_workers bw)))"
    by (metis (no_types, lifting) add.assoc list.simps(9) map_append sum_list.Cons sum_list.append)
  moreover have "sum_list (map ?f ((bw_workers bw)[w := x])) =
      sum_list (map ?f (take w (bw_workers bw))) + ?f x +
      sum_list (map ?f (drop (Suc w) (bw_workers bw)))"
    by (simp add: upd_conv_take_nth_drop [OF assms] add.assoc)
  ultimately show ?thesis by (simp add: in_flight_def set_worker_def add_ac)
qed

lemma bw_flush_adds: "bw_flush now batch s = (res, s') \<Longrightarrow> adds s s' res (map content batch)"
  by (auto simp: bw_flush_def adds_refl split: if_splits intro: store_batch_adds)

lemma saveSync_adds: "saveSync now req s = (x, s') \<Longrightarrow> adds s s' [x] [content req]"
  using save_each_adds [of now "[req]" s "[x]" s']
  by (auto simp: saveSync_def split: prod.splits sum.splits)

text \<open>
  One step keeps the balance: what was in flight or is enqueued is afterwards in flight or handed
  to the store, once; and the store's rows are accounted for by the report.
\<close>

definition accounts ::
  "batch_writer \<Rightarrow> captured_request list \<Rightarrow> (captured_request \<times> bool) list \<Rightarrow> batch_writer \<Rightarrow> bool" where
  "accounts bw enq rep bw' \<longleftrightarrow>
     in_flight bw + mset (map content enq) = in_flight bw' + mset (reported rep) \<and>
     adds (bw_store bw) (bw_store bw') rep (reported rep)"

lemma adds_reported: "adds s s' rep cs \<Longrightarrow> adds s s' rep (reported rep) \<and> reported rep = cs"
  by (auto simp: adds_def reported_def)

lemma in_flight_fields [simp]:
  "in_flight (bw\<lparr>bw_store := s\<rparr>) = in_flight bw" "in_flight (bw\<lparr>bw_phase := p\<rparr>) = in_flight bw"
  "set_worker w x (bw\<lparr>bw_store := s\<rparr>) = (set_worker w x bw)\<lparr>bw_store := s\<rparr>"
  by (simp_all add: in_flight_def set_worker_def)

lemma in_flight_take: "bw_ch bw = req # ch \<Longrightarrow> in_flight bw = in_flight (bw\<lparr>bw_ch := ch\<rparr>) + {#content req#}"
  by (simp add: in_flight_def)

lemma Enqueue_accounts:
  assumes "Enqueue now req bw = (res, bw')"
  shows "accounts bw [req] res bw'"
proof -
  obtain x s where x: "saveSync now req (bw_store bw) = (x, s)" by fastforce
  consider (queued) "res = []" "bw' = bw\<lparr>bw_ch := bw_ch bw @ [req]\<rparr>"
    | (saved) "res = [x]" "bw' = bw\<lparr>bw_store := s\<rparr>"
    using assms x by (auto simp: Enqueue_def split: if_splits)
  then show ?thesis
  proof cases
    case queued
    then show ?thesis by (simp add: accounts_def reported_def adds_refl in_flight_def)
  next
    case saved
    then show ?thesis
      using saveSync_adds [OF x] adds_reported [OF saveSync_adds [OF x]] by (simp add: accounts_def)
  qed
qed

lemma worker_flush_accounts:
  assumes "w < length (bw_workers bw)" and "bw_flush now batch (bw_store bw) = (res, s)"
    and "batch_of x = []"
    and "mset (map content batch) = mset (map content (batch_of (bw_workers bw ! w))) + extra"
  shows "in_flight bw + extra = in_flight ((set_worker w x bw)\<lparr>bw_store := s\<rparr>) + mset (reported res) \<and>
    adds (bw_store bw) s res (reported res)"
proof -
  have r: "adds (bw_store bw) s res (reported res)" "reported res = map content batch"
    using adds_reported [OF bw_flush_adds [OF assms(2)]] by auto
  have "in_flight bw + extra = in_flight (set_worker w x bw) + mset (map content batch)"
    using in_flight_set_worker [OF assms(1), of x] assms(3,4) by (simp add: union_assoc)
  with r show ?thesis by simp
qed

lemma recv_accounts:
  assumes w: "w < length (bw_workers bw)" and r: "worker_recv now w bw = Some (res, bw')"
  shows "accounts bw [] res bw'"
proof -
  obtain req ch where ch: "bw_ch bw = req # ch"
    using r by (cases "bw_ch bw") (auto simp: worker_recv_def split: worker.splits)
  let ?bw = "bw\<lparr>bw_ch := ch\<rparr>"
  have w': "w < length (bw_workers ?bw)" using w by simp
  obtain res1 s1 where f: "bw_flush now (batch_of (bw_workers bw ! w) @ [req]) (bw_store ?bw) = (res1, s1)"
    by fastforce
  from r ch consider (flush) "res = res1" "bw' = (set_worker w (Looping []) ?bw)\<lparr>bw_store := s1\<rparr>"
    | (keep) x where "res = []" "bw' = set_worker w x ?bw" "batch_of x = batch_of (bw_workers bw ! w) @ [req]"
    using f by (cases "bw_workers bw ! w") (auto simp: worker_recv_def Let_def split: if_splits)
  then show ?thesis
  proof cases
    case flush
    then show ?thesis
      using worker_flush_accounts [OF w' f, of "Looping []" "{#content req#}"] in_flight_take [OF ch]
      by (simp add: accounts_def set_worker_def)
  next
    case keep
    then show ?thesis
      using in_flight_set_worker [OF w', of x] in_flight_take [OF ch]
      by (simp add: accounts_def reported_def adds_refl set_worker_def)
  qed
qed

lemma tick_accounts:
  assumes w: "w < length (bw_workers bw)" and r: "worker_tick now w bw = Some (res, bw')"
  shows "accounts bw [] res bw'"
proof -
  obtain batch where b: "bw_workers bw ! w = Looping batch"
    using r by (cases "bw_workers bw ! w") (auto simp: worker_tick_def)
  obtain s1 where "bw_flush now batch (bw_store bw) = (res, s1)"
      "bw' = (set_worker w (Looping []) bw)\<lparr>bw_store := s1\<rparr>"
    using r b by (auto simp: worker_tick_def split: prod.splits)
  then show ?thesis
    using worker_flush_accounts [OF w, of now batch res s1 "Looping []" "{#}"] b
    by (simp add: accounts_def)
qed

lemma quit_accounts:
  assumes w: "w < length (bw_workers bw)" and r: "worker_stop now w bw = Some (res, bw')"
  shows "accounts bw [] res bw'"
proof (cases "bw_workers bw ! w")
  case (Looping batch)
  then have "res = []" "bw' = set_worker w (Draining batch) bw"
    using r by (auto simp: worker_stop_def split: if_splits)
  then show ?thesis
    using in_flight_set_worker [OF w, of "Draining batch"] Looping
    by (simp add: accounts_def reported_def adds_refl set_worker_def)
next
  case (Draining batch)
  then obtain s1 where "bw_flush now batch (bw_store bw) = (res, s1)"
      "bw' = (set_worker w Exited bw)\<lparr>bw_store := s1\<rparr>"
    using r by (auto simp: worker_stop_def split: prod.splits if_splits)
  then show ?thesis
    using worker_flush_accounts [OF w, of now batch res s1 Exited "{#}"] Draining
    by (simp add: accounts_def)
next
  case Exited
  then show ?thesis using r by (simp add: worker_stop_def)
qed

lemma finish_accounts:
  assumes "Stop_end now bw = Some (res, bw')"
  shows "accounts bw [] res bw'"
proof -
  obtain s1 where "save_each (Save now) set_ID (bw_ch bw) (bw_store bw) = (res, s1)"
      "bw' = bw\<lparr>bw_ch := [], bw_store := s1, bw_phase := Stopped\<rparr>"
    using assms by (auto simp: Stop_end_def split: if_splits prod.splits)
  then show ?thesis
    using save_each_adds [of now "bw_ch bw" "bw_store bw" res s1]
      adds_reported [OF save_each_adds [of now "bw_ch bw" "bw_store bw" res s1]]
    by (simp add: accounts_def in_flight_def)
qed

lemma bw_step_accounts: "bw_step bw enq rep bw' \<Longrightarrow> accounts bw enq rep bw'"
proof (induction rule: bw_step.induct)
  case (stop bw)
  then show ?case by (simp add: Stop_begin_def accounts_def reported_def adds_refl)
qed (blast intro: Enqueue_accounts recv_accounts tick_accounts quit_accounts finish_accounts)+

lemma accounts_trans:
  assumes "accounts bw enq rep bw1" and "accounts bw1 e r bw2"
  shows "accounts bw (enq @ e) (rep @ r) bw2"
proof -
  have "adds (bw_store bw) (bw_store bw2) (rep @ r) (reported rep @ reported r)"
    using assms by (auto simp: accounts_def intro: adds_trans)
  moreover have "in_flight bw + mset (map content (enq @ e)) =
      in_flight bw2 + mset (reported r) + mset (reported rep)"
    using assms unfolding accounts_def map_append mset_append
    by (metis (no_types, lifting) union_assoc union_commute)
  ultimately show ?thesis by (simp add: accounts_def reported_def add_ac)
qed

lemma bw_run_accounts: "bw_run bw enq rep bw' \<Longrightarrow> accounts bw enq rep bw'"
proof (induction rule: bw_run.induct)
  case (refl bw)
  then show ?case by (simp add: accounts_def reported_def adds_refl)
next
  case (step bw enq rep bw1 e r bw2)
  show ?case by (rule accounts_trans [OF step.IH bw_step_accounts [OF step.hyps(2)]])
qed

section \<open>Reachable writers\<close>

definition bw_inv :: "batch_writer \<Rightarrow> bool" where
  "bw_inv bw \<longleftrightarrow> length (bw_ch bw) \<le> chan_capacity \<and> 1 \<le> bw_batchSize bw \<and>
     (\<forall>w \<in> set (bw_workers bw). case w of
        Looping b \<Rightarrow> length b < bw_batchSize bw
      | Draining b \<Rightarrow> bw_phase bw \<noteq> Running
      | Exited \<Rightarrow> bw_phase bw \<noteq> Running \<and> bw_ch bw = []) \<and>
     (bw_phase bw = Stopped \<longrightarrow> bw_ch bw = [] \<and> (\<forall>w \<in> set (bw_workers bw). w = Exited))"

lemma NewBatchWriter_inv: "bw_inv (NewBatchWriter s n)"
  by (auto simp: NewBatchWriter_def bw_inv_def Let_def chan_capacity_def)

lemma NewBatchWriter_in_flight [simp]: "in_flight (NewBatchWriter s n) = {#}"
  by (simp add: NewBatchWriter_def in_flight_def Let_def numeral_2_eq_2)

lemma set_update_cases: "x \<in> set (xs[i := y]) \<Longrightarrow> x = y \<or> x \<in> set xs"
  using set_update_subset_insert [of xs i y] by auto

lemma set_worker_same_store [simp]: "s = bw_store bw \<Longrightarrow> (set_worker w x bw)\<lparr>bw_store := s\<rparr> = set_worker w x bw"
  by (simp add: set_worker_def)

text \<open>Replacing one worker, and shortening the channel, keeps the invariant.\<close>

lemma bw_inv_set_worker:
  assumes "bw_inv bw" and "length ch \<le> length (bw_ch bw)"
    and "\<forall>v \<in> set (bw_workers bw). v = Exited \<longrightarrow> ch = bw_ch bw"
    and "bw_phase bw \<noteq> Stopped"
    and "case x of Looping b \<Rightarrow> length b < bw_batchSize bw
        | Draining b \<Rightarrow> bw_phase bw \<noteq> Running
        | Exited \<Rightarrow> bw_phase bw \<noteq> Running \<and> ch = []"
  shows "bw_inv ((set_worker w x (bw\<lparr>bw_ch := ch\<rparr>))\<lparr>bw_store := s\<rparr>)"
  using assms
  by (auto simp: bw_inv_def set_worker_def split: worker.splits dest!: set_update_cases)

lemma bw_step_inv: "bw_step bw enq rep bw' \<Longrightarrow> bw_inv bw \<Longrightarrow> bw_inv bw'"
proof (induction rule: bw_step.induct)
  case (enqueue bw now req res bw')
  then show ?case
    by (cases "saveSync now req (bw_store bw)")
       (auto simp: Enqueue_def bw_inv_def split: if_splits worker.splits)
next
  case (recv w bw now res bw')
  obtain req ch where ch: "bw_ch bw = req # ch"
    using recv.hyps by (cases "bw_ch bw") (auto simp: worker_recv_def split: worker.splits)
  have no: "bw_phase bw \<noteq> Stopped" "\<forall>v \<in> set (bw_workers bw). v \<noteq> Exited"
    using recv.prems ch by (auto simp: bw_inv_def)
  have d: "bw_workers bw ! w = Draining b \<Longrightarrow> bw_phase bw \<noteq> Running" for b
    using recv.prems nth_mem [OF recv.hyps(1)] by (auto simp: bw_inv_def split: worker.splits)
  obtain x t where x: "bw' = (set_worker w x (bw\<lparr>bw_ch := ch\<rparr>))\<lparr>bw_store := t\<rparr>"
      "x = Looping [] \<or> (\<exists>b. x = Looping b \<and> length b < bw_batchSize bw) \<or>
       (\<exists>b. x = Draining b \<and> bw_phase bw \<noteq> Running)"
  proof (cases "bw_workers bw ! w")
    case (Looping b)
    then show thesis
      using that [of _ "Looping []"] that [of "bw_store bw" "Looping (b @ [req])"] recv.hyps(2) ch
      by (auto simp: worker_recv_def Let_def split: if_splits prod.splits)
  next
    case (Draining b)
    then show thesis
      using that [of "bw_store bw" "Draining (b @ [req])"] recv.hyps(2) ch d
      by (auto simp: worker_recv_def)
  next
    case Exited
    then show thesis using recv.hyps(2) by (simp add: worker_recv_def)
  qed
  moreover have "1 \<le> bw_batchSize bw" using recv.prems by (simp add: bw_inv_def)
  ultimately show ?case using bw_inv_set_worker [where ch = ch and x = x and w = w and s = t, OF recv.prems] ch no by auto
next
  case (tick w bw now res bw')
  obtain batch where b: "bw_workers bw ! w = Looping batch"
    using tick.hyps by (cases "bw_workers bw ! w") (auto simp: worker_tick_def)
  then obtain t where "bw' = (set_worker w (Looping []) (bw\<lparr>bw_ch := bw_ch bw\<rparr>))\<lparr>bw_store := t\<rparr>"
    using tick.hyps by (auto simp: worker_tick_def split: prod.splits)
  moreover have "bw_phase bw \<noteq> Stopped"
    using tick.prems nth_mem [OF tick.hyps(1)] b by (auto simp: bw_inv_def)
  ultimately show ?case
    using bw_inv_set_worker [where ch = "bw_ch bw" and x = "Looping []" and w = w and s = t, OF tick.prems] tick.prems
    by (auto simp: bw_inv_def)
next
  case (quit w bw now res bw')
  have p: "bw_phase bw \<noteq> Stopped"
    using quit.hyps quit.prems nth_mem [OF quit.hyps(1)]
    by (cases "bw_workers bw ! w") (auto simp: bw_inv_def worker_stop_def)
  obtain x t where "bw' = (set_worker w x (bw\<lparr>bw_ch := bw_ch bw\<rparr>))\<lparr>bw_store := t\<rparr>"
      "x = Exited \<and> bw_ch bw = [] \<or> (\<exists>b. x = Draining b)" "bw_phase bw \<noteq> Running"
  proof (cases "bw_workers bw ! w")
    case (Looping b)
    then show thesis
      using that [of "bw_store bw" "Draining b"] quit.hyps(2)
      by (auto simp: worker_stop_def split: if_splits)
  next
    case (Draining b)
    then have "bw_phase bw \<noteq> Running"
      using quit.prems nth_mem [OF quit.hyps(1)] by (auto simp: bw_inv_def split: worker.splits)
    with Draining show thesis
      using that [of _ Exited] quit.hyps(2)
      by (auto simp: worker_stop_def split: if_splits prod.splits)
  next
    case Exited
    then show thesis using quit.hyps(2) by (simp add: worker_stop_def)
  qed
  then show ?case
    using bw_inv_set_worker [where ch = "bw_ch bw" and x = x and w = w and s = t, OF quit.prems _ _ p] by auto
next
  case (stop bw)
  then show ?case by (auto simp: Stop_begin_def bw_inv_def split: worker.splits)
next
  case (finish now bw res bw')
  then obtain t where bw': "bw' = bw\<lparr>bw_ch := [], bw_store := t, bw_phase := Stopped\<rparr>"
      and gone: "\<forall>w \<in> set (bw_workers bw). w = Exited"
    by (auto simp: Stop_end_def split: if_splits prod.splits)
  have "case w of Looping b \<Rightarrow> length b < bw_batchSize bw' | Draining b \<Rightarrow> bw_phase bw' \<noteq> Running
      | Exited \<Rightarrow> bw_phase bw' \<noteq> Running \<and> bw_ch bw' = []" if "w \<in> set (bw_workers bw')" for w
    using that gone by (cases w) (auto simp: bw')
  then show ?case using finish.prems gone unfolding bw_inv_def by (auto simp: bw')
qed


lemma bw_run_inv: "bw_run bw enq rep bw' \<Longrightarrow> bw_inv bw \<Longrightarrow> bw_inv bw'"
  by (induction rule: bw_run.induct) (auto intro: bw_step_inv)

lemma stopped_in_flight: "bw_inv bw \<Longrightarrow> bw_phase bw = Stopped \<Longrightarrow> in_flight bw = {#}"
proof -
  assume "bw_inv bw" "bw_phase bw = Stopped"
  then have c: "bw_ch bw = []" and w: "\<forall>w \<in> set (bw_workers bw). w = Exited" by (auto simp: bw_inv_def)
  have "sum_list (map (\<lambda>w. mset (map content (batch_of w))) (bw_workers bw)) = {#}"
  proof -
    have "map (\<lambda>w. mset (map content (batch_of w))) (bw_workers bw) = map (\<lambda>_. {#}) (bw_workers bw)"
      using w by auto
    then show ?thesis by (simp only: sum_list_0)
  qed
  with c show ?thesis by (simp add: in_flight_def)
qed

section \<open>Properties\<close>

text \<open>C7: Whatever callers, workers and \<open>Stop\<close> do, in any interleaving, every request given to
  \<open>Enqueue\<close> is in the channel, in one worker's batch, or was handed to the store exactly once;
  once \<open>Stop\<close> has returned nothing is left in flight, so every request was handed over. The rows
  the store gained are rows of requests handed over, each at most once, and every request
  reported saved has its row under the id it carries. The channel never exceeds 16384.\<close>

theorem BatchWriter_loses_nothing:
  assumes "bw_run (NewBatchWriter s n) enq rep bw"
  shows "mset (map content enq) = in_flight bw + mset (reported rep) \<and>
    (bw_phase bw = Stopped \<longrightarrow> mset (map content enq) = mset (reported rep)) \<and>
    adds s (bw_store bw) rep (reported rep) \<and> length (bw_ch bw) \<le> chan_capacity"
proof -
  note inv = bw_run_inv [OF assms NewBatchWriter_inv]
  have "accounts (NewBatchWriter s n) enq rep bw" by (rule bw_run_accounts [OF assms])
  moreover have "bw_store (NewBatchWriter s n) = s" by (simp add: NewBatchWriter_def Let_def)
  ultimately show ?thesis
    using inv stopped_in_flight [OF inv] by (auto simp: accounts_def bw_inv_def)
qed

text \<open>
  \<open>Stop\<close> can always finish: the measure of what the workers still have to do falls with each of
  their steps, and one of those steps is possible until the end.
\<close>

fun rank :: "worker \<Rightarrow> nat" where
  "rank (Looping b) = 2"
| "rank (Draining b) = 1"
| "rank Exited = 0"

definition to_do :: "batch_writer \<Rightarrow> nat" where
  "to_do bw = length (bw_ch bw) + sum_list (map rank (bw_workers bw))"

lemma rank_update:
  "w < length ws \<Longrightarrow> sum_list (map rank (ws[w := x])) + rank (ws ! w) = sum_list (map rank ws) + rank x"
  by (induction ws arbitrary: w) (auto split: nat.splits)

lemma stopping_progress:
  assumes "bw_phase bw = Stopping" and "\<exists>w \<in> set (bw_workers bw). w \<noteq> Exited"
  shows "\<exists>rep bw'. bw_step bw [] rep bw' \<and> bw_phase bw' = Stopping \<and> to_do bw' < to_do bw"
proof -
  obtain w where w: "w < length (bw_workers bw)" "bw_workers bw ! w \<noteq> Exited"
    using assms(2) by (metis in_set_conv_nth)
  consider (loop) b where "bw_workers bw ! w = Looping b"
    | (take) b req ch where "bw_workers bw ! w = Draining b" "bw_ch bw = req # ch"
    | (leave) b where "bw_workers bw ! w = Draining b" "bw_ch bw = []"
    using w(2) by (cases "bw_workers bw ! w"; cases "bw_ch bw") auto
  then show ?thesis
  proof cases
    case loop
    then have "worker_stop 0 w bw = Some ([], set_worker w (Draining b) bw)"
      using assms(1) by (simp add: worker_stop_def)
    note st = bw_step.quit [OF w(1) this]
    show ?thesis
      by (intro exI conjI, rule st)
         (use rank_update [OF w(1), of "Draining b"] loop assms(1) in \<open>simp_all add: to_do_def set_worker_def\<close>)
  next
    case take
    then have "worker_recv 0 w bw = Some ([], set_worker w (Draining (b @ [req])) (bw\<lparr>bw_ch := ch\<rparr>))"
      by (simp add: worker_recv_def)
    note st = bw_step.recv [OF w(1) this]
    show ?thesis
      by (intro exI conjI, rule st)
         (use rank_update [OF w(1), of "Draining (b @ [req])"] take assms(1) in \<open>simp_all add: to_do_def set_worker_def\<close>)
  next
    case leave
    obtain res t where f: "bw_flush 0 b (bw_store bw) = (res, t)" by fastforce
    then have "worker_stop 0 w bw = Some (res, set_worker w Exited (bw\<lparr>bw_store := t\<rparr>))"
      using leave by (simp add: worker_stop_def)
    note st = bw_step.quit [OF w(1) this]
    show ?thesis
      by (intro exI conjI, rule st)
         (use rank_update [OF w(1), of Exited] leave assms(1) in \<open>simp_all add: to_do_def set_worker_def\<close>)
  qed
qed

lemma bw_run_step_first:
  "bw_run bw1 enq rep bw2 \<Longrightarrow> bw_step bw e r bw1 \<Longrightarrow> bw_run bw (e @ enq) (r @ rep) bw2"
proof (induction rule: bw_run.induct)
  case (refl bw1)
  then show ?case using bw_run.step [OF bw_run.refl] by fastforce
next
  case (step bw1 enq rep bw3 e' r' bw4)
  then show ?case using bw_run.step [OF step.IH [OF step.prems] step.hyps(2)] by simp
qed

text \<open>C38: \<open>Stop\<close> does not deadlock: from every state in which it has begun, whatever the channel
  and the batches hold and however the driver answers, the workers can finish without any further
  call and \<open>Stop\<close> then returns.\<close>

theorem Stop_can_return:
  assumes "bw_phase bw = Stopping"
  shows "\<exists>rep bw'. bw_run bw [] rep bw' \<and> bw_phase bw' = Stopped"
  using assms
proof (induction "to_do bw" arbitrary: bw rule: less_induct)
  case less
  show ?case
  proof (cases "\<exists>w \<in> set (bw_workers bw). w \<noteq> Exited")
    case True
    obtain r bw1 where s: "bw_step bw [] r bw1" "bw_phase bw1 = Stopping" "to_do bw1 < to_do bw"
      using stopping_progress [OF less.prems True] by blast
    obtain rep bw2 where "bw_run bw1 [] rep bw2" "bw_phase bw2 = Stopped"
      using less.hyps [OF s(3,2)] by blast
    then show ?thesis using bw_run_step_first [OF _ s(1)] by fastforce
  next
    case False
    obtain res t where "save_each (Save 0) set_ID (bw_ch bw) (bw_store bw) = (res, t)" by fastforce
    then have "Stop_end 0 bw = Some (res, bw\<lparr>bw_ch := [], bw_store := t, bw_phase := Stopped\<rparr>)"
      using False less.prems by (auto simp: Stop_end_def)
    note st = bw_run.step [OF bw_run.refl bw_step.finish [OF this], simplified]
    show ?thesis by (intro exI conjI, rule st) simp
  qed
qed

theorem Stop_can_return_witness:
  "\<exists>rep bw'. bw_run (Stop_begin (snd (Enqueue 1 zero_request (NewBatchWriter weak_store 50)))) [] rep bw' \<and>
     bw_phase bw' = Stopped"
  by (rule Stop_can_return)
     (simp add: Stop_begin_def Enqueue_def NewBatchWriter_def Let_def chan_capacity_def)

theorem BatchWriter_loses_nothing_witness:
  "\<exists>enq rep bw. bw_run (NewBatchWriter weak_store 1) enq rep bw \<and> length enq = 1 \<and>
     mset (map content enq) = mset (reported rep) \<and> adds weak_store (bw_store bw) rep (reported rep) \<and>
     fst (hd rep) = set_ID 7 (stamp 2 zero_request) \<and> snd (hd rep)"
proof -
  let ?bw0 = "NewBatchWriter weak_store 1"
  let ?bw1 = "?bw0\<lparr>bw_ch := [zero_request]\<rparr>"
  have "Enqueue 1 zero_request ?bw0 = ([], ?bw1)"
    by (simp add: Enqueue_def NewBatchWriter_def Let_def chan_capacity_def)
  from bw_step.enqueue [OF _ this] have s1: "bw_step ?bw0 [zero_request] [] ?bw1"
    by (simp add: NewBatchWriter_def Let_def)
  obtain t where "worker_recv 2 0 ?bw1 =
      Some ([(set_ID 7 (stamp 2 zero_request), True)], set_worker 0 (Looping []) (?bw0\<lparr>bw_store := t\<rparr>))"
    by (simp add: worker_recv_def bw_flush_def NewBatchWriter_def numeral_2_eq_2 writer_eval)
  then have "bw_step ?bw1 [] [(set_ID 7 (stamp 2 zero_request), True)]
      (set_worker 0 (Looping []) (?bw0\<lparr>bw_store := t\<rparr>))"
    by (intro bw_step.recv) (simp_all add: NewBatchWriter_def Let_def)
  from bw_run.step [OF bw_run.step [OF bw_run.refl s1] this]
  have r: "bw_run ?bw0 [zero_request] [(set_ID 7 (stamp 2 zero_request), True)]
      (set_worker 0 (Looping []) (?bw0\<lparr>bw_store := t\<rparr>))" by simp
  show ?thesis
    by (intro exI conjI, rule r)
       (use BatchWriter_loses_nothing [OF r] in \<open>auto simp: set_worker_def reported_def columns_set_ID\<close>)
qed

end
