(* ===== verification/Json.thy ===== *)
theory Json
  imports StoreText Complex_Main
begin

text \<open>
  What the program uses of \<^verbatim>\<open>encoding/json\<close>: checking and reading a text, and storing what it
  holds into Go values (\<^verbatim>\<open>json.Unmarshal\<close>). A text is split into tokens, each with the white space
  before it, and the tokens are read by a stack machine, so that every value keeps its own text:
  that is what a \<^verbatim>\<open>json.RawMessage\<close> holds.

  A decoder takes the value a Go variable has and returns the one it gets, so that a field an object
  repeats is decoded over what the first occurrence left, \<^verbatim>\<open>null\<close> leaves a scalar or a struct as it
  was, and a type mismatch is an error, \<^const>\<open>None\<close>: every caller discards what was stored then.
  Floats are the rational their literal denotes, and the spare capacity of a slice decoded three
  times or more is taken to be zeroed.
\<close>

section \<open>Tokens\<close>

datatype token = Punct char | Str string | Atom string

text \<open>\<open>Str\<close> holds the text between the quotes, escapes included.\<close>

type_synonym lexeme = "string \<times> token"

abbreviation QUOTE :: char where "QUOTE \<equiv> CHR 0x22"

abbreviation BACKSLASH :: char where "BACKSLASH \<equiv> CHR 0x5C"

definition json_space :: "char \<Rightarrow> bool" where
  "json_space c \<longleftrightarrow> c \<in> {CHR '' '', CHR 0x09, CR, LF}"

definition json_punct :: "char \<Rightarrow> bool" where
  "json_punct c \<longleftrightarrow> c \<in> {CHR ''['', CHR '']'', CHR ''{'', CHR ''}'', CHR '','', CHR '':''}"

definition simple_escape :: "char \<Rightarrow> char option" where
  "simple_escape c =
     map_of [(QUOTE, QUOTE), (BACKSLASH, BACKSLASH), (CHR ''/'', CHR ''/''), (CHR ''b'', CHR 0x08),
             (CHR ''f'', CHR 0x0C), (CHR ''n'', LF), (CHR ''r'', CR), (CHR ''t'', CHR 0x09)] c"

text \<open>Between tokens; in a number or a literal; in a string, after its backslash, in its hex digits.\<close>

datatype lex_state =
    Between string
  | InAtom string string
  | InStr string string
  | Escape string string
  | Hex nat string string

fun lex :: "lex_state \<Rightarrow> string \<Rightarrow> lexeme list option" where
  "lex (Between w) [] = Some []"
| "lex (InAtom w a) [] = Some [(w, Atom a)]"
| "lex _ [] = None"
| "lex (Between w) (c # s) =
     (if json_space c then lex (Between (w @ [c])) s
      else if c = QUOTE then lex (InStr w []) s
      else if json_punct c then map_option ((#) (w, Punct c)) (lex (Between []) s)
      else lex (InAtom w [c]) s)"
| "lex (InAtom w a) (c # s) =
     (if json_space c then map_option ((#) (w, Atom a)) (lex (Between [c]) s)
      else if c = QUOTE then map_option ((#) (w, Atom a)) (lex (InStr [] []) s)
      else if json_punct c then map_option (\<lambda>l. (w, Atom a) # ([], Punct c) # l) (lex (Between []) s)
      else lex (InAtom w (a @ [c])) s)"
| "lex (InStr w a) (c # s) =
     (if c = QUOTE then map_option ((#) (w, Str a)) (lex (Between []) s)
      else if c = BACKSLASH then lex (Escape w (a @ [c])) s
      else if char_code c < 32 then None
      else lex (InStr w (a @ [c])) s)"
| "lex (Escape w a) (c # s) =
     (if simple_escape c \<noteq> None then lex (InStr w (a @ [c])) s
      else if c = CHR ''u'' then lex (Hex 4 w (a @ [c])) s
      else None)"
| "lex (Hex n w a) (c # s) =
     (if hex_value c = None then None
      else if n \<le> 1 then lex (InStr w (a @ [c])) s
      else lex (Hex (n - 1) w (a @ [c])) s)"

fun token_text :: "token \<Rightarrow> string" where
  "token_text (Punct c) = [c]"
| "token_text (Str a) = QUOTE # a @ [QUOTE]"
| "token_text (Atom a) = a"

section \<open>Values\<close>

text \<open>A value and its text.\<close>

datatype json = Json (json_raw: string) (json_val: jval)
  and jval = JNull | JBool bool | JNum string | JStr string | JArr "json list" | JObj "(string \<times> json) list"

text \<open>\<^verbatim>\<open>-?(0|[1-9][0-9]*)(\.[0-9]+)?([eE][+-]?[0-9]+)?\<close>, split into its four parts.\<close>

definition split_number :: "string \<Rightarrow> (bool \<times> string \<times> string \<times> string) option" where
  "split_number s =
     (let neg = (s \<noteq> [] \<and> hd s = CHR ''-'');
          s1 = (if neg then tl s else s);
          ip = takeWhile is_digit s1; s2 = dropWhile is_digit s1;
          dot = (s2 \<noteq> [] \<and> hd s2 = CHR ''.'');
          fp = (if dot then takeWhile is_digit (tl s2) else []);
          s3 = (if dot then dropWhile is_digit (tl s2) else s2);
          e = (s3 \<noteq> [] \<and> hd s3 \<in> {CHR ''e'', CHR ''E''});
          ep = (if e then tl s3 else []);
          ed = (if ep \<noteq> [] \<and> hd ep \<in> {CHR ''+'', CHR ''-''} then tl ep else ep)
      in if ip \<noteq> [] \<and> (hd ip \<noteq> CHR ''0'' \<or> length ip = 1) \<and> (dot \<longrightarrow> fp \<noteq> []) \<and>
            (if e then ed \<noteq> [] \<and> list_all is_digit ed else s3 = [])
         then Some (neg, ip, fp, ep) else None)"

definition read_digits :: "string \<Rightarrow> nat" where
  "read_digits s = digits_value 10 (map digit_value s)"

definition read_signed :: "string \<Rightarrow> int" where
  "read_signed s =
     (case s of [] \<Rightarrow> 0
      | c # s' \<Rightarrow> if c = CHR ''-'' then - int (read_digits s') else if c = CHR ''+'' then int (read_digits s')
                 else int (read_digits s))"

text \<open>\<^verbatim>\<open>strconv.ParseInt\<close> and \<^verbatim>\<open>strconv.ParseFloat\<close> on a JSON number.\<close>

definition parse_int64 :: "string \<Rightarrow> int option" where
  "parse_int64 s =
     (let neg = (s \<noteq> [] \<and> hd s = CHR ''-''); ds = (if neg then tl s else s);
          v = (if neg then - int (read_digits ds) else int (read_digits ds))
      in if ds \<noteq> [] \<and> list_all is_digit ds \<and> - (2 ^ 63) \<le> v \<and> v < 2 ^ 63 then Some v else None)"

definition parse_float64 :: "string \<Rightarrow> rat option" where
  "parse_float64 s =
     (case split_number s of None \<Rightarrow> None
      | Some (neg, ip, fp, ep) \<Rightarrow>
          let m = of_nat (read_digits (ip @ fp)) / 10 ^ length fp;
              e = read_signed ep;
              v = (if e < 0 then m / 10 ^ nat (- e) else m * 10 ^ nat e)
          in if v \<ge> 2 ^ 1024 - 2 ^ 970 then None else Some (if neg then - v else v))"

definition hex4 :: "string \<Rightarrow> nat option" where
  "hex4 s =
     (case s of a # u # h1 # h2 # h3 # h4 # _ \<Rightarrow>
        (if a = BACKSLASH \<and> u = CHR ''u'' then
           (case map hex_value [h1, h2, h3, h4] of
              [Some x1, Some x2, Some x3, Some x4] \<Rightarrow> Some (((x1 * 16 + x2) * 16 + x3) * 16 + x4)
            | _ \<Rightarrow> None)
         else None)
      | _ \<Rightarrow> None)"

text \<open>The string between two quotes: an unpaired surrogate and an invalid byte become U+FFFD.\<close>

function unquote :: "string \<Rightarrow> string" where
  "unquote s =
     (case s of [] \<Rightarrow> []
      | c # s' \<Rightarrow>
          if c = BACKSLASH then
            (case hex4 s of
               Some r \<Rightarrow>
                 if 0xD800 \<le> r \<and> r < 0xE000 then
                   (case hex4 (drop 6 s) of
                      Some r' \<Rightarrow>
                        if r < 0xDC00 \<and> 0xDC00 \<le> r' \<and> r' < 0xE000
                        then utf8_encode (0x10000 + (r - 0xD800) * 1024 + (r' - 0xDC00)) @ unquote (drop 12 s)
                        else utf8_encode 0xFFFD @ unquote (drop 6 s)
                    | None \<Rightarrow> utf8_encode 0xFFFD @ unquote (drop 6 s))
                 else utf8_encode r @ unquote (drop 6 s)
             | None \<Rightarrow>
                 (case s' of [] \<Rightarrow> []
                  | d # s'' \<Rightarrow> (case simple_escape d of Some x \<Rightarrow> x # unquote s'' | None \<Rightarrow> [])))
          else if char_code c < 128 then c # unquote s'
          else (case rune_at s of
                  Some n \<Rightarrow> take n s @ unquote (drop (max 1 n) s)
                | None \<Rightarrow> utf8_encode 0xFFFD @ unquote s'))"
  by pat_completeness auto
termination
  by (relation "measure length") auto

declare unquote.simps [simp del]

definition atom_value :: "string \<Rightarrow> jval option" where
  "atom_value a =
     (if a = ''null'' then Some JNull else if a = ''true'' then Some (JBool True)
      else if a = ''false'' then Some (JBool False)
      else if split_number a \<noteq> None then Some (JNum a) else None)"

section \<open>The stack machine\<close>

text \<open>An open array or object: its text so far and, last first, what it holds.\<close>

datatype frame =
    ArrFrame string "json list"
  | ObjFrame string "(string \<times> json) list"
  | KeyFrame string "(string \<times> json) list" string

datatype expect = Value | FirstValue | FirstKey | Key | Colon | Comma | Done json

definition maxNestingDepth :: nat where
  "maxNestingDepth = 10000"

fun add_text :: "string \<Rightarrow> frame list \<Rightarrow> frame list" where
  "add_text w [] = []"
| "add_text w (ArrFrame r vs # st) = ArrFrame (r @ w) vs # st"
| "add_text w (ObjFrame r ms # st) = ObjFrame (r @ w) ms # st"
| "add_text w (KeyFrame r ms k # st) = KeyFrame (r @ w) ms k # st"

fun complete :: "json \<Rightarrow> frame list \<Rightarrow> (frame list \<times> expect) option" where
  "complete v [] = Some ([], Done v)"
| "complete v (ArrFrame r vs # st) = Some (ArrFrame (r @ json_raw v) (v # vs) # st, Comma)"
| "complete v (KeyFrame r ms k # st) = Some (ObjFrame (r @ json_raw v) ((k, v) # ms) # st, Comma)"
| "complete v (ObjFrame r ms # st) = None"

definition begin_value :: "token \<Rightarrow> frame list \<Rightarrow> (frame list \<times> expect) option" where
  "begin_value tk st =
     (case tk of
        Atom a \<Rightarrow> (case atom_value a of Some v \<Rightarrow> complete (Json a v) st | None \<Rightarrow> None)
      | Str a \<Rightarrow> complete (Json (token_text tk) (JStr (unquote a))) st
      | Punct c \<Rightarrow>
          if length st \<ge> maxNestingDepth then None
          else if c = CHR ''['' then Some (ArrFrame [c] [] # st, FirstValue)
          else if c = CHR ''{'' then Some (ObjFrame [c] [] # st, FirstKey)
          else None)"

fun close :: "char \<Rightarrow> frame list \<Rightarrow> (frame list \<times> expect) option" where
  "close c (ArrFrame r vs # st) =
     (if c = CHR '']'' then complete (Json (r @ [c]) (JArr (rev vs))) st else None)"
| "close c (ObjFrame r ms # st) =
     (if c = CHR ''}'' then complete (Json (r @ [c]) (JObj (rev ms))) st else None)"
| "close c _ = None"

definition read_key :: "token \<Rightarrow> frame list \<Rightarrow> (frame list \<times> expect) option" where
  "read_key tk st =
     (case (tk, st) of (Str a, ObjFrame r ms # st') \<Rightarrow>
        Some (KeyFrame (r @ token_text tk) ms (unquote a) # st', Colon)
      | _ \<Rightarrow> None)"

definition comma :: "frame list \<Rightarrow> (frame list \<times> expect) option" where
  "comma st =
     (case st of ArrFrame _ _ # _ \<Rightarrow> Some (add_text '','' st, Value)
      | ObjFrame _ _ # _ \<Rightarrow> Some (add_text '','' st, Key)
      | _ \<Rightarrow> None)"

definition parse_step :: "frame list \<Rightarrow> expect \<Rightarrow> lexeme \<Rightarrow> (frame list \<times> expect) option" where
  "parse_step st e l =
     (case l of (w, tk) \<Rightarrow>
        let st = add_text w st in
        case e of
          Value \<Rightarrow> begin_value tk st
        | FirstValue \<Rightarrow> if tk = Punct (CHR '']'') then close (CHR '']'') st else begin_value tk st
        | FirstKey \<Rightarrow> if tk = Punct (CHR ''}'') then close (CHR ''}'') st else read_key tk st
        | Key \<Rightarrow> read_key tk st
        | Colon \<Rightarrow> if tk = Punct (CHR '':'') then Some (add_text '':'' st, Value) else None
        | Comma \<Rightarrow>
            (case tk of Punct c \<Rightarrow> if c = CHR '','' then comma st else close c st
             | _ \<Rightarrow> None)
        | Done _ \<Rightarrow> None)"

fun parse_tokens :: "frame list \<Rightarrow> expect \<Rightarrow> lexeme list \<Rightarrow> json option" where
  "parse_tokens st e [] = (case e of Done v \<Rightarrow> Some v | _ \<Rightarrow> None)"
| "parse_tokens st e (l # ls) = (case parse_step st e l of Some (st', e') \<Rightarrow> parse_tokens st' e' ls | None \<Rightarrow> None)"

definition parse_json :: "string \<Rightarrow> json option" where
  "parse_json s = (case lex (Between []) s of Some ls \<Rightarrow> parse_tokens [] Value ls | None \<Rightarrow> None)"

section \<open>Decoding into Go values\<close>

type_synonym 'a decoder = "json \<Rightarrow> 'a \<Rightarrow> 'a option"

definition dec_string :: "string decoder" where
  "dec_string j old = (case json_val j of JStr s \<Rightarrow> Some s | JNull \<Rightarrow> Some old | _ \<Rightarrow> None)"

definition dec_bool :: "bool decoder" where
  "dec_bool j old = (case json_val j of JBool b \<Rightarrow> Some b | JNull \<Rightarrow> Some old | _ \<Rightarrow> None)"

definition dec_int :: "int decoder" where
  "dec_int j old = (case json_val j of JNum s \<Rightarrow> parse_int64 s | JNull \<Rightarrow> Some old | _ \<Rightarrow> None)"

definition dec_float :: "rat decoder" where
  "dec_float j old = (case json_val j of JNum s \<Rightarrow> parse_float64 s | JNull \<Rightarrow> Some old | _ \<Rightarrow> None)"

definition dec_raw :: "string decoder" where
  "dec_raw j old = Some (json_raw j)"

fun dec_elements :: "'a decoder \<Rightarrow> 'a \<Rightarrow> json list \<Rightarrow> 'a list \<Rightarrow> 'a list option" where
  "dec_elements d z [] old = Some []"
| "dec_elements d z (j # js) old =
     (case d j (case old of [] \<Rightarrow> z | x # _ \<Rightarrow> x) of
        None \<Rightarrow> None
      | Some x \<Rightarrow> map_option ((#) x) (dec_elements d z js (tl old)))"

definition dec_slice :: "'a decoder \<Rightarrow> 'a \<Rightarrow> 'a list decoder" where
  "dec_slice d z j old =
     (case json_val j of JArr js \<Rightarrow> dec_elements d z js old | JNull \<Rightarrow> Some [] | _ \<Rightarrow> None)"

definition dec_ptr :: "'a decoder \<Rightarrow> 'a \<Rightarrow> 'a option decoder" where
  "dec_ptr d z j old =
     (if json_val j = JNull then Some None
      else map_option Some (d j (case old of None \<Rightarrow> z | Some x \<Rightarrow> x)))"

text \<open>
  A key names a field that differs from it in case only: \<^verbatim>\<open>foldName\<close>, which identifies the Kelvin
  sign with \<open>k\<close> and the long s with \<open>s\<close>.
\<close>

function fold_name :: "string \<Rightarrow> string" where
  "fold_name s =
     (if s = [] then []
      else if take 3 s = [CHR 0xE2, CHR 0x84, CHR 0xAA] then CHR ''k'' # fold_name (drop 3 s)
      else if take 2 s = [CHR 0xC5, CHR 0xBF] then CHR ''s'' # fold_name (drop 2 s)
      else lower_char (hd s) # fold_name (tl s))"
  by pat_completeness auto
termination
  by (relation "measure length") auto

declare fold_name.simps [simp del]

type_synonym 'r fields = "(string \<times> 'r decoder) list"

definition field :: "string \<Rightarrow> ('r \<Rightarrow> 'a) \<Rightarrow> (('a \<Rightarrow> 'a) \<Rightarrow> 'r \<Rightarrow> 'r) \<Rightarrow> 'a decoder \<Rightarrow> string \<times> 'r decoder" where
  "field name get upd d = (name, \<lambda>j r. map_option (\<lambda>x. upd (\<lambda>_. x) r) (d j (get r)))"

fun dec_members :: "'r fields \<Rightarrow> (string \<times> json) list \<Rightarrow> 'r \<Rightarrow> 'r option" where
  "dec_members fs [] r = Some r"
| "dec_members fs ((k, j) # ms) r =
     (case find (\<lambda>f. fold_name (fst f) = fold_name k) fs of
        None \<Rightarrow> dec_members fs ms r
      | Some (_, d) \<Rightarrow> (case d j r of None \<Rightarrow> None | Some r' \<Rightarrow> dec_members fs ms r'))"

definition dec_struct :: "'r fields \<Rightarrow> 'r decoder" where
  "dec_struct fs j old =
     (case json_val j of JObj ms \<Rightarrow> dec_members fs ms old | JNull \<Rightarrow> Some old | _ \<Rightarrow> None)"

definition Unmarshal :: "'a decoder \<Rightarrow> 'a \<Rightarrow> string \<Rightarrow> 'a option" where
  "Unmarshal d z data = (case parse_json data of Some j \<Rightarrow> d j z | None \<Rightarrow> None)"

section \<open>Writing a string\<close>

text \<open>\<^verbatim>\<open>json.Marshal\<close> of a string: HTML characters, controls and line separators are escaped.\<close>

definition hex_digit :: "nat \<Rightarrow> char" where
  "hex_digit n = ''0123456789abcdef'' ! n"

definition marshal_ascii :: "char \<Rightarrow> string" where
  "marshal_ascii c =
     (if c = QUOTE \<or> c = BACKSLASH then [BACKSLASH, c]
      else if char_code c = 8 then [BACKSLASH, CHR ''b''] else if char_code c = 12 then [BACKSLASH, CHR ''f'']
      else if c = LF then [BACKSLASH, CHR ''n''] else if c = CR then [BACKSLASH, CHR ''r'']
      else if char_code c = 9 then [BACKSLASH, CHR ''t'']
      else if char_code c < 32 \<or> c \<in> {CHR ''<'', CHR ''>'', CHR ''&''}
      then BACKSLASH # ''u00'' @ [hex_digit (char_code c div 16), hex_digit (char_code c mod 16)]
      else [c])"

function marshal_body :: "string \<Rightarrow> string" where
  "marshal_body s =
     (case s of [] \<Rightarrow> []
      | c # s' \<Rightarrow>
          if char_code c < 128 then marshal_ascii c @ marshal_body s'
          else (case rune_at s of
                  None \<Rightarrow> BACKSLASH # ''ufffd'' @ marshal_body s'
                | Some n \<Rightarrow>
                    let r = rune_value (map char_code (take n s)) in
                    (if r = 0x2028 then BACKSLASH # ''u2028''
                     else if r = 0x2029 then BACKSLASH # ''u2029'' else take n s) @
                    marshal_body (drop (max 1 n) s)))"
  by pat_completeness auto
termination
  by (relation "measure length") auto

declare marshal_body.simps [simp del]

definition marshal_string :: "string \<Rightarrow> string" where
  "marshal_string s = QUOTE # marshal_body s @ [QUOTE]"

section \<open>A value is longer than what it holds\<close>

definition children :: "json \<Rightarrow> json list" where
  "children j = (case json_val j of JArr js \<Rightarrow> js | JObj ms \<Rightarrow> map snd ms | _ \<Rightarrow> [])"

inductive nested :: "json \<Rightarrow> bool" where
  nestedI: "(\<And>c. c \<in> set (children j) \<Longrightarrow> nested c \<and> length (json_raw c) < length (json_raw j)) \<Longrightarrow> nested j"

inductive_cases nestedE: "nested j"

lemma nested_child: "nested j \<Longrightarrow> c \<in> set (children j) \<Longrightarrow> nested c \<and> length (json_raw c) < length (json_raw j)"
  by (erule nestedE) blast

fun frame_text :: "frame \<Rightarrow> string" where
  "frame_text (ArrFrame r vs) = r"
| "frame_text (ObjFrame r ms) = r"
| "frame_text (KeyFrame r ms k) = r"

fun frame_values :: "frame \<Rightarrow> json list" where
  "frame_values (ArrFrame r vs) = vs"
| "frame_values (ObjFrame r ms) = map snd ms"
| "frame_values (KeyFrame r ms k) = map snd ms"

definition frame_ok :: "frame \<Rightarrow> bool" where
  "frame_ok f \<longleftrightarrow> frame_text f \<noteq> [] \<and>
     (\<forall>v \<in> set (frame_values f). nested v \<and> length (json_raw v) < length (frame_text f))"

fun expect_ok :: "expect \<Rightarrow> bool" where
  "expect_ok (Done v) \<longleftrightarrow> nested v"
| "expect_ok _ \<longleftrightarrow> True"

definition machine_ok :: "(frame list \<times> expect) option \<Rightarrow> bool" where
  "machine_ok m \<longleftrightarrow> (case m of Some (st, e) \<Rightarrow> list_all frame_ok st \<and> expect_ok e | None \<Rightarrow> True)"

lemma machine_ok_simps [simp]:
  "machine_ok None" "machine_ok (Some (st, e)) \<longleftrightarrow> list_all frame_ok st \<and> expect_ok e"
  by (simp_all add: machine_ok_def)

lemma add_text_ok: "list_all frame_ok st \<Longrightarrow> list_all frame_ok (add_text w st)"
  by (induction w st rule: add_text.induct) (auto simp: frame_ok_def intro: trans_less_add1)

lemma complete_ok: "nested v \<Longrightarrow> list_all frame_ok st \<Longrightarrow> machine_ok (complete v st)"
  by (induction v st rule: complete.induct) (auto simp: frame_ok_def intro: trans_less_add1)

lemma nested_leaf: "children j = [] \<Longrightarrow> nested j"
  by (rule nestedI) simp

lemma begin_value_ok:
  assumes "list_all frame_ok st"
  shows "machine_ok (begin_value tk st)"
proof (cases tk)
  case (Punct c)
  then show ?thesis using assms by (simp add: begin_value_def frame_ok_def)
next
  case (Str a)
  then show ?thesis using assms by (simp add: begin_value_def complete_ok nested_leaf children_def)
next
  case (Atom a)
  have "nested (Json a v)" if "atom_value a = Some v" for v
    using that by (intro nested_leaf) (auto simp: atom_value_def children_def split: if_splits)
  then show ?thesis using assms by (auto simp: begin_value_def Atom complete_ok split: option.split)
qed

lemma close_ok: "list_all frame_ok st \<Longrightarrow> machine_ok (close c st)"
proof (induction c st rule: close.induct)
  case (1 c r vs st)
  then have "nested (Json (r @ [c]) (JArr (rev vs)))"
    by (intro nestedI) (auto simp: frame_ok_def children_def)
  then show ?case using 1 by (auto simp: complete_ok)
next
  case (2 c r ms st)
  then have "nested (Json (r @ [c]) (JObj (rev ms)))"
    by (intro nestedI) (auto simp: frame_ok_def children_def dest!: bspec)
  then show ?case using 2 by (auto simp: complete_ok)
qed simp_all

lemma read_key_ok: "list_all frame_ok st \<Longrightarrow> machine_ok (read_key tk st)"
  by (auto simp: read_key_def frame_ok_def dest!: bspec split: token.split list.split frame.split)

lemma comma_ok: "list_all frame_ok st \<Longrightarrow> machine_ok (comma st)"
  using add_text_ok [of st "'',''"] by (auto simp: comma_def split: list.split frame.split)

lemma parse_step_ok:
  assumes "list_all frame_ok st"
  shows "machine_ok (parse_step st e l)"
proof -
  obtain w tk where l: "l = (w, tk)" by (cases l)
  have s: "list_all frame_ok (add_text w st)" by (rule add_text_ok [OF assms])
  show ?thesis
    unfolding l parse_step_def Let_def prod.case
    using s by (auto simp: begin_value_ok close_ok read_key_ok comma_ok add_text_ok split: expect.split token.split)
qed

lemma parse_tokens_nested:
  "list_all frame_ok st \<Longrightarrow> expect_ok e \<Longrightarrow> parse_tokens st e ls = Some j \<Longrightarrow> nested j"
proof (induction ls arbitrary: st e)
  case Nil
  then show ?case by (auto split: expect.splits)
next
  case (Cons l ls)
  then obtain st' e' where s: "parse_step st e l = Some (st', e')" and p: "parse_tokens st' e' ls = Some j"
    by (auto split: option.splits)
  have "list_all frame_ok st' \<and> expect_ok e'" using parse_step_ok [OF Cons.prems(1), of e l] by (simp add: s)
  then show ?case using Cons.IH p by blast
qed

lemma parse_json_nested: "parse_json s = Some j \<Longrightarrow> nested j"
  using parse_tokens_nested [of "[]" Value] by (auto simp: parse_json_def split: option.splits)

section \<open>The text of a value is no longer than the input\<close>

fun lexeme_size :: "lexeme \<Rightarrow> nat" where
  "lexeme_size (w, tk) = length w + length (token_text tk)"

fun state_size :: "lex_state \<Rightarrow> nat" where
  "state_size (Between w) = length w"
| "state_size (InAtom w a) = length w + length a"
| "state_size (InStr w a) = length w + length a + 1"
| "state_size (Escape w a) = length w + length a + 1"
| "state_size (Hex n w a) = length w + length a + 1"

lemma lex_size: "lex st s = Some ls \<Longrightarrow> sum_list (map lexeme_size ls) \<le> state_size st + length s"
  by (induction st s arbitrary: ls rule: lex.induct)
     (force split: if_splits)+

definition stack_size :: "frame list \<Rightarrow> nat" where
  "stack_size st = sum_list (map (\<lambda>f. length (frame_text f)) st)"

fun machine_size :: "(frame list \<times> expect) option \<Rightarrow> nat" where
  "machine_size None = 0"
| "machine_size (Some (st, Done v)) = length (json_raw v)"
| "machine_size (Some (st, _)) = stack_size st"

lemma stack_size_simps [simp]:
  "stack_size [] = 0" "stack_size (f # st) = length (frame_text f) + stack_size st"
  by (simp_all add: stack_size_def)

lemma add_text_size: "stack_size (add_text w st) \<le> stack_size st + length w"
  by (induction w st rule: add_text.induct) simp_all

lemma complete_size: "machine_size (complete v st) \<le> stack_size st + length (json_raw v)"
  by (induction v st rule: complete.induct) simp_all

lemma begin_value_size: "machine_size (begin_value tk st) \<le> stack_size st + length (token_text tk)"
proof (cases tk)
  case (Str a)
  then show ?thesis using complete_size [of "Json (token_text tk) (JStr (unquote a))" st] by (simp add: begin_value_def)
next
  case (Atom a)
  then show ?thesis using complete_size [of "Json a (the (atom_value a))" st]
    by (auto simp: begin_value_def split: option.split)
qed (simp add: begin_value_def)

lemma close_size: "machine_size (close c st) \<le> stack_size st + 1"
  using complete_size by (induction c st rule: close.induct) (fastforce intro: order_trans)+

lemma read_key_size: "machine_size (read_key tk st) \<le> stack_size st + length (token_text tk)"
  by (auto simp: read_key_def split: token.split list.split frame.split)

lemma comma_size: "machine_size (comma st) \<le> stack_size st + 1"
  using add_text_size [of "'',''" st] by (auto simp: comma_def split: list.split frame.split)

lemma parse_step_size:
  "machine_size (parse_step st e l) \<le> stack_size st + lexeme_size l"
proof -
  obtain w tk where l: "l = (w, tk)" by (cases l)
  let ?st = "add_text w st"
  have s: "stack_size ?st \<le> stack_size st + length w" by (rule add_text_size)
  have colon: "machine_size (Some (add_text '':'' ?st, Value)) \<le> stack_size ?st + 1"
    using add_text_size [of "'':''" ?st] by simp
  have "machine_size (parse_step st e l) \<le> stack_size ?st + length (token_text tk)"
    unfolding l parse_step_def Let_def prod.case
    using begin_value_size [of tk ?st] close_size [of _ ?st] read_key_size [of tk ?st] comma_size [of ?st] colon
    by (auto split: expect.split token.split)
  then show ?thesis using s by (simp add: l)
qed

lemma parse_tokens_size:
  "parse_tokens st e ls = Some j \<Longrightarrow>
   length (json_raw j) \<le> machine_size (Some (st, e)) + sum_list (map lexeme_size ls)"
proof (induction ls arbitrary: st e)
  case Nil
  then show ?case by (auto split: expect.splits)
next
  case (Cons l ls)
  then obtain st' e' where s: "parse_step st e l = Some (st', e')" and p: "parse_tokens st' e' ls = Some j"
    by (auto split: option.splits)
  have "\<not> (\<exists>v. e = Done v)" using s by (auto simp: parse_step_def Let_def split: prod.splits)
  then have "machine_size (Some (st, e)) = stack_size st" by (cases e) auto
  then show ?case using Cons.IH [OF p] parse_step_size [of st e l] by (simp add: s)
qed

lemma parse_json_size: "parse_json s = Some j \<Longrightarrow> length (json_raw j) \<le> length s"
proof -
  assume "parse_json s = Some j"
  then obtain ls where l: "lex (Between []) s = Some ls" and p: "parse_tokens [] Value ls = Some j"
    by (auto simp: parse_json_def split: option.splits)
  show ?thesis using parse_tokens_size [OF p] lex_size [OF l] by simp
qed

section \<open>What a decoder keeps\<close>

definition keeps :: "('r \<Rightarrow> bool) \<Rightarrow> json \<Rightarrow> 'r decoder \<Rightarrow> bool" where
  "keeps P j d \<longleftrightarrow> (\<forall>x x'. P x \<longrightarrow> d j x = Some x' \<longrightarrow> P x')"

lemma keepsD: "keeps P j d \<Longrightarrow> P x \<Longrightarrow> d j x = Some x' \<Longrightarrow> P x'"
  by (auto simp: keeps_def)

lemma dec_members_keep:
  "dec_members fs ms r = Some r' \<Longrightarrow> P r \<Longrightarrow>
   (\<forall>f \<in> set fs. \<forall>j \<in> snd ` set ms. keeps P j (snd f)) \<Longrightarrow> P r'"
proof (induction fs ms r rule: dec_members.induct)
  case (2 fs k j ms r)
  show ?case
  proof (cases "find (\<lambda>f. fold_name (fst f) = fold_name k) fs")
    case None
    then have "dec_members fs ms r = Some r'" using "2.prems"(1) by simp
    from "2.IH"(1) [OF None this "2.prems"(2)] show ?thesis using "2.prems"(3) by simp
  next
    case (Some f)
    then have f: "f \<in> set fs" by (auto simp: find_Some_iff)
    obtain n d where nd: "f = (n, d)" by (cases f)
    from "2.prems"(1) Some obtain x where x: "d j r = Some x" "dec_members fs ms x = Some r'"
      by (auto simp: nd split: option.splits)
    have "keeps P j d" using "2.prems"(3) f by (auto simp: nd)
    then have px: "P x" using "2.prems"(2) x(1) by (rule keepsD)
    show ?thesis by (rule "2.IH"(2) [OF Some nd [symmetric] x(1) x(2) px]) (use "2.prems"(3) in simp)
  qed
qed simp

lemma dec_elements_keep:
  "dec_elements d z js old = Some xs \<Longrightarrow> P z \<Longrightarrow> list_all P old \<Longrightarrow> \<forall>j \<in> set js. keeps P j d \<Longrightarrow> list_all P xs"
proof (induction js arbitrary: old xs)
  case (Cons j js)
  obtain x xs' where x: "d j (case old of [] \<Rightarrow> z | x # _ \<Rightarrow> x) = Some x" "xs = x # xs'"
    "dec_elements d z js (tl old) = Some xs'"
    using Cons.prems(1) by (auto split: option.splits)
  have "P (case old of [] \<Rightarrow> z | x # _ \<Rightarrow> x)" using Cons.prems(2,3) by (cases old) auto
  then have "P x" using Cons.prems(4) x(1) by (auto intro: keepsD)
  moreover have "list_all P (tl old)" using Cons.prems(3) by (cases old) auto
  then have "list_all P xs'" using Cons.IH [OF x(3) Cons.prems(2)] Cons.prems(4) by simp
  ultimately show ?case by (simp add: x(2))
qed simp

end
