(* ===== verification/LlmProvider.thy ===== *)
theory LlmProvider
  imports GoText
begin

text \<open>
  \<^verbatim>\<open>internal/llm/provider.go\<close> and \<^verbatim>\<open>custom_endpoints.go\<close>: which LLM provider a host belongs to,
  how its messages are parsed, and the registry of endpoints a user adds. The registry is an
  argument, returned updated; its lock makes every operation atomic.
\<close>

section \<open>Host matching\<close>

definition toLowerASCII :: "string \<Rightarrow> string" where
  "toLowerASCII s = map (\<lambda>c. if 65 \<le> char_code c \<and> char_code c \<le> 90 then char_of (char_code c + 32) else c) s"

definition hasPrefix :: "string \<Rightarrow> string \<Rightarrow> bool" where
  "hasPrefix s p \<longleftrightarrow> length p \<le> length s \<and> take (length p) s = p"

definition hasSuffix :: "string \<Rightarrow> string \<Rightarrow> bool" where
  "hasSuffix s suf \<longleftrightarrow> length suf \<le> length s \<and> drop (length s - length suf) s = suf"

definition hostMatches :: "string \<Rightarrow> string \<Rightarrow> bool" where
  "hostMatches host pattern =
     (let host = toLowerASCII host; pattern = toLowerASCII pattern;
          host = (case split_host_port host of Some (h, _) \<Rightarrow> h | None \<Rightarrow> host)
      in if host = pattern then True else hasSuffix host (''.'' @ pattern))"

section \<open>Custom endpoints\<close>

record custom_endpoint =
  ep_Host :: string
  ep_Path :: string
  ep_Name :: string

fun replace_endpoint :: "custom_endpoint \<Rightarrow> custom_endpoint list \<Rightarrow> custom_endpoint list option" where
  "replace_endpoint ep [] = None"
| "replace_endpoint ep (x # eps) =
     (if equal_fold (ep_Host x) (ep_Host ep) \<and> ep_Path x = ep_Path ep then Some (ep # eps)
      else map_option ((#) x) (replace_endpoint ep eps))"

definition RegisterCustomEndpoint :: "custom_endpoint \<Rightarrow> custom_endpoint list \<Rightarrow> custom_endpoint list" where
  "RegisterCustomEndpoint ep eps =
     (if ep_Host ep = [] then eps
      else case replace_endpoint ep eps of Some eps' \<Rightarrow> eps' | None \<Rightarrow> eps @ [ep])"

fun UnregisterCustomEndpoint :: "string \<Rightarrow> string \<Rightarrow> custom_endpoint list \<Rightarrow> custom_endpoint list" where
  "UnregisterCustomEndpoint host path [] = []"
| "UnregisterCustomEndpoint host path (x # eps) =
     (if ep_Host x = host \<and> ep_Path x = path then eps else x # UnregisterCustomEndpoint host path eps)"

definition ListCustomEndpoints :: "custom_endpoint list \<Rightarrow> custom_endpoint list" where
  "ListCustomEndpoints eps = eps"

definition matchCustomEndpoint :: "string \<Rightarrow> string \<Rightarrow> custom_endpoint list \<Rightarrow> custom_endpoint option" where
  "matchCustomEndpoint host path eps =
     (let host = toLowerASCII host; path = toLowerASCII path in
      find (\<lambda>ep. hostMatches host (toLowerASCII (ep_Host ep)) \<and>
              (ep_Path ep = [] \<or> hasPrefix path (toLowerASCII (ep_Path ep)))) eps)"

section \<open>Providers\<close>

type_synonym provider = string

definition ProviderOpenAI :: provider where "ProviderOpenAI = ''openai''"
definition ProviderAnthropic :: provider where "ProviderAnthropic = ''anthropic''"
definition ProviderGemini :: provider where "ProviderGemini = ''gemini''"
definition ProviderUnknown :: provider where "ProviderUnknown = ''unknown''"

datatype parse_protocol = ParseOpenAI | ParseAnthropic | ParseGemini

record provider_def =
  pd_name :: provider
  pd_displayName :: string
  pd_hostSuffixes :: "string list"
  pd_protocol :: parse_protocol

text \<open>The display names of two providers are Chinese, written as their UTF-8 bytes.\<close>

definition zhipu_name :: string where
  "zhipu_name = map char_of [0xE6, 0x99, 0xBA, 0xE8, 0xB0, 0xB1 :: nat] @ '' GLM''"

definition qwen_name :: string where
  "qwen_name = map char_of [0xE9, 0x98, 0xBF, 0xE9, 0x87, 0x8C, 0xE4, 0xBA, 0x91 :: nat] @ '' Qwen''"

definition provider_table :: "provider_def list" where
  "provider_table =
    [\<lparr>pd_name = ProviderOpenAI, pd_displayName = ''OpenAI'',
       pd_hostSuffixes = [''api.openai.com'', ''openai.com''], pd_protocol = ParseOpenAI\<rparr>,
     \<lparr>pd_name = ProviderAnthropic, pd_displayName = ''Anthropic'',
       pd_hostSuffixes = [''api.anthropic.com'', ''anthropic.com''], pd_protocol = ParseAnthropic\<rparr>,
     \<lparr>pd_name = ProviderGemini, pd_displayName = ''Google Gemini'',
       pd_hostSuffixes = [''generativelanguage.googleapis.com'', ''aiplatform.googleapis.com''],
       pd_protocol = ParseGemini\<rparr>,
     \<lparr>pd_name = ''deepseek'', pd_displayName = ''DeepSeek'',
       pd_hostSuffixes = [''api.deepseek.com'', ''deepseek.com''], pd_protocol = ParseOpenAI\<rparr>,
     \<lparr>pd_name = ''moonshot'', pd_displayName = ''Moonshot (Kimi)'',
       pd_hostSuffixes = [''api.moonshot.cn'', ''api.moonshot.ai'', ''moonshot.cn''], pd_protocol = ParseOpenAI\<rparr>,
     \<lparr>pd_name = ''zhipu'', pd_displayName = zhipu_name,
       pd_hostSuffixes = [''open.bigmodel.cn'', ''bigmodel.cn''], pd_protocol = ParseOpenAI\<rparr>,
     \<lparr>pd_name = ''minimax'', pd_displayName = ''MiniMax'',
       pd_hostSuffixes = [''api.minimax.chat'', ''api.minimaxi.com'', ''minimaxi.com''], pd_protocol = ParseOpenAI\<rparr>,
     \<lparr>pd_name = ''qwen'', pd_displayName = qwen_name,
       pd_hostSuffixes = [''dashscope.aliyuncs.com''], pd_protocol = ParseOpenAI\<rparr>,
     \<lparr>pd_name = ''xai'', pd_displayName = ''xAI (Grok)'',
       pd_hostSuffixes = [''api.x.ai'', ''x.ai''], pd_protocol = ParseOpenAI\<rparr>]"

text \<open>\<open>init\<close>: the longer a suffix, the earlier it is tried; both sorts keep ties in order.\<close>

definition sort_suffixes :: "provider_def \<Rightarrow> provider_def" where
  "sort_suffixes d = d\<lparr>pd_hostSuffixes := sort_key (\<lambda>s. - int (length s)) (pd_hostSuffixes d)\<rparr>"

definition builtinProviders :: "provider_def list" where
  "builtinProviders =
     sort_key (\<lambda>d. - int (length (hd (pd_hostSuffixes d)))) (map sort_suffixes provider_table)"

definition DetectProvider :: "custom_endpoint list \<Rightarrow> string \<Rightarrow> string \<Rightarrow> provider" where
  "DetectProvider eps host path =
     (let host = to_lower (trim_space host); path = to_lower path in
      case find (\<lambda>d. list_ex (hostMatches host) (pd_hostSuffixes d)) builtinProviders of
        Some d \<Rightarrow> pd_name d
      | None \<Rightarrow>
          if has_suffix host ''-aiplatform.googleapis.com'' then ProviderGemini
          else if matchCustomEndpoint host path eps \<noteq> None then ProviderOpenAI
          else ProviderUnknown)"

definition ProtocolFor :: "provider \<Rightarrow> parse_protocol" where
  "ProtocolFor p =
     (case find (\<lambda>d. pd_name d = p) builtinProviders of Some d \<Rightarrow> pd_protocol d | None \<Rightarrow> ParseOpenAI)"

definition DisplayName :: "provider \<Rightarrow> string" where
  "DisplayName p =
     (case find (\<lambda>d. pd_name d = p) builtinProviders of Some d \<Rightarrow> pd_displayName d | None \<Rightarrow> p)"

definition IsLLMRequest :: "custom_endpoint list \<Rightarrow> string \<Rightarrow> string \<Rightarrow> bool" where
  "IsLLMRequest eps host path \<longleftrightarrow> DetectProvider eps host path \<noteq> ProviderUnknown"

definition IsValidProvider :: "provider \<Rightarrow> bool" where
  "IsValidProvider p \<longleftrightarrow> p \<noteq> ProviderUnknown \<and> p \<noteq> []"

section \<open>The registry\<close>

lemma equal_fold_lower: "equal_fold s t \<longleftrightarrow> to_lower s = to_lower t"
  by (simp add: equal_fold_def)

lemma replace_endpoint_Some:
  "replace_endpoint ep eps = Some eps' \<Longrightarrow>
     \<exists>us x vs. eps = us @ x # vs \<and> eps' = us @ ep # vs \<and> equal_fold (ep_Host x) (ep_Host ep) \<and> ep_Path x = ep_Path ep"
proof (induction eps arbitrary: eps')
  case (Cons a eps)
  show ?case
  proof (cases "equal_fold (ep_Host a) (ep_Host ep) \<and> ep_Path a = ep_Path ep")
    case True
    then show ?thesis using Cons.prems by (intro exI [of _ "[]"]) auto
  next
    case False
    then obtain eps1 where e: "replace_endpoint ep eps = Some eps1" "eps' = a # eps1"
      using Cons.prems by (auto split: if_splits)
    obtain us x vs where "eps = us @ x # vs" "eps1 = us @ ep # vs" "equal_fold (ep_Host x) (ep_Host ep)" "ep_Path x = ep_Path ep"
      using Cons.IH [OF e(1)] by blast
    then show ?thesis using e(2) by (intro exI [of _ "a # us"]) auto
  qed
qed simp

lemma replace_endpoint_None:
  "replace_endpoint ep eps = None \<longleftrightarrow>
     (\<forall>x \<in> set eps. \<not> (equal_fold (ep_Host x) (ep_Host ep) \<and> ep_Path x = ep_Path ep))"
  by (induction eps) auto

text \<open>What identifies an endpoint: its host in lower case, and its path.\<close>

definition ep_key :: "custom_endpoint \<Rightarrow> string \<times> string" where
  "ep_key ep = (to_lower (ep_Host ep), ep_Path ep)"

fun registrations :: "(custom_endpoint + string \<times> string) list \<Rightarrow> custom_endpoint list \<Rightarrow> custom_endpoint list" where
  "registrations [] eps = eps"
| "registrations (Inl ep # ops) eps = registrations ops (RegisterCustomEndpoint ep eps)"
| "registrations (Inr (h, p) # ops) eps = registrations ops (UnregisterCustomEndpoint h p eps)"

lemma register_keys:
  assumes "ep_Host ep \<noteq> []"
  shows "map ep_key (RegisterCustomEndpoint ep eps) =
    (if ep_key ep \<in> ep_key ` set eps then map ep_key eps else map ep_key eps @ [ep_key ep]) \<and>
    ep \<in> set (RegisterCustomEndpoint ep eps)"
proof (cases "replace_endpoint ep eps")
  case None
  then have "ep_key ep \<notin> ep_key ` set eps"
    by (auto simp: replace_endpoint_None ep_key_def equal_fold_lower)
  then show ?thesis using assms None by (simp add: RegisterCustomEndpoint_def)
next
  case (Some eps')
  obtain us x vs where e: "eps = us @ x # vs" "eps' = us @ ep # vs" "ep_key x = ep_key ep"
    using replace_endpoint_Some [OF Some] by (auto simp: ep_key_def equal_fold_lower)
  then show ?thesis using assms Some by (auto simp: RegisterCustomEndpoint_def intro: rev_image_eqI)
qed

lemma unregister_subseq: "set (UnregisterCustomEndpoint h p eps) \<subseteq> set eps"
  by (induction h p eps rule: UnregisterCustomEndpoint.induct) auto

lemma unregister_distinct: "distinct (map ep_key eps) \<Longrightarrow> distinct (map ep_key (UnregisterCustomEndpoint h p eps))"
proof (induction h p eps rule: UnregisterCustomEndpoint.induct)
  case (2 host path x eps)
  have "ep_key ` set (UnregisterCustomEndpoint host path eps) \<subseteq> ep_key ` set eps"
    using unregister_subseq by (rule image_mono)
  then show ?case using 2 by auto
qed simp

lemma registrations_distinct: "distinct (map ep_key eps) \<Longrightarrow> distinct (map ep_key (registrations ops eps))"
proof (induction ops eps rule: registrations.induct)
  case (2 ep ops eps)
  have "distinct (map ep_key (RegisterCustomEndpoint ep eps))"
    using "2.prems" register_keys [of ep eps] by (cases "ep_Host ep = []") (auto simp: RegisterCustomEndpoint_def)
  then show ?case using "2.IH" by simp
qed (auto simp: unregister_distinct)

lemma toLowerASCII_lower: "toLowerASCII s = to_lower s"
  by (simp add: toLowerASCII_def to_lower_def lower_char_def [abs_def])

lemma lower_char_idem: "lower_char (lower_char c) = lower_char c"
proof (cases "65 \<le> char_code c \<and> char_code c \<le> 90")
  case True
  then have "char_code (lower_char c) = char_code c + 32"
    by (simp add: lower_char_def take_bit_eq_mod)
  then have "\<not> char_code (lower_char c) \<le> 90" using True by simp
  then show ?thesis unfolding lower_char_def [of "lower_char c"] by simp
next
  case False
  then have "lower_char c = c" by (auto simp: lower_char_def)
  then show ?thesis by simp
qed

lemma to_lower_idem [simp]: "to_lower (to_lower s) = to_lower s"
  by (simp add: to_lower_def lower_char_idem)

lemma lower_char_stays: "lower_char c \<noteq> c \<Longrightarrow> 97 \<le> char_code (lower_char c) \<and> char_code (lower_char c) \<le> 122"
  by (cases "65 \<le> char_code c \<and> char_code c \<le> 90")
     (auto simp: lower_char_def take_bit_eq_mod split: if_splits)

lemma to_lower_plain: "CHR '':'' \<notin> set s \<Longrightarrow> CHR '':'' \<notin> set (to_lower s)"
proof
  assume s: "CHR '':'' \<notin> set s" and "CHR '':'' \<in> set (to_lower s)"
  then obtain c where c: "c \<in> set s" "lower_char c = CHR '':''" by (auto simp: to_lower_def)
  then have "c \<noteq> lower_char c" using s by auto
  then have "97 \<le> char_code (CHR '':'')" using lower_char_stays [of c] c(2) by simp
  moreover have "char_code (CHR '':'') = 58" by simp
  ultimately show False by simp
qed

lemma trim_space_plain: "list_all (\<lambda>c. \<not> is_space_char c) s \<Longrightarrow> trim_space s = s"
proof -
  assume "list_all (\<lambda>c. \<not> is_space_char c) s"
  then have "dropWhile is_space_char s = s" "dropWhile is_space_char (rev s) = rev s"
    by (cases "s = []"; simp add: dropWhile_eq_self_iff list_all_iff hd_rev)+
  then show ?thesis by (simp add: trim_space_def trim_left_def trim_right_def)
qed

lemma provider_names: "d \<in> set builtinProviders \<Longrightarrow> pd_name d \<noteq> ProviderUnknown"
  by (auto simp: builtinProviders_def provider_table_def sort_suffixes_def ProviderUnknown_def
      ProviderOpenAI_def ProviderAnthropic_def ProviderGemini_def)

text \<open>However endpoints were registered and removed before, no two registered ones have the same
  host up to case and the same path, and a request to the endpoint registered last, in any case of
  its host, below its path, is recognised as an LLM request.\<close>
theorem registered_endpoint_recognised:
  assumes "ep_Host ep \<noteq> []" and "CHR '':'' \<notin> set (ep_Host ep)" and "list_all (\<lambda>c. \<not> is_space_char c) (ep_Host ep)"
    and "host \<in> {ep_Host ep, to_lower (ep_Host ep)}"
  shows "distinct (map ep_key (RegisterCustomEndpoint ep (registrations ops []))) \<and>
    IsLLMRequest (RegisterCustomEndpoint ep (registrations ops [])) host (ep_Path ep @ rest)"
proof -
  let ?eps = "RegisterCustomEndpoint ep (registrations ops [])"
  have "distinct (map ep_key (registrations (ops @ [Inl ep]) []))" by (rule registrations_distinct) simp
  moreover have "registrations (ops1 @ ops2) eps = registrations ops2 (registrations ops1 eps)" for ops1 ops2 eps
    by (induction ops1 eps rule: registrations.induct) simp_all
  ultimately have d: "distinct (map ep_key ?eps)" by simp
  have sp: "list_all (\<lambda>c. \<not> is_space_char c) (to_lower s)" if "list_all (\<lambda>c. \<not> is_space_char c) s" for s
  proof -
    have "\<not> is_space_char (lower_char c)" if "\<not> is_space_char c" for c
      using that lower_char_stays [of c] by (cases "lower_char c = c") (auto simp: is_space_char_def)
    then show ?thesis using that by (auto simp: to_lower_def list_all_iff)
  qed
  have low: "to_lower (trim_space host) = to_lower (ep_Host ep)"
    using assms(3,4) sp [OF assms(3)] by (auto simp: trim_space_plain)
  have mem: "ep \<in> set ?eps" using register_keys [OF assms(1)] by blast
  have "split_host_port (to_lower (ep_Host ep)) = None"
    by (rule split_host_port_no_colon [OF to_lower_plain [OF assms(2)]])
  then have hm: "hostMatches (to_lower (ep_Host ep)) (to_lower (ep_Host ep))"
    by (simp add: hostMatches_def toLowerASCII_lower Let_def)
  have pm: "hasPrefix (to_lower (ep_Path ep @ rest)) (to_lower (ep_Path ep))"
    by (simp add: hasPrefix_def to_lower_def)
  have "matchCustomEndpoint (to_lower (ep_Host ep)) (to_lower (ep_Path ep @ rest)) ?eps \<noteq> None"
    using mem hm pm unfolding matchCustomEndpoint_def Let_def toLowerASCII_lower to_lower_idem
    by (auto simp: find_None_iff)
  then have "IsLLMRequest ?eps host (ep_Path ep @ rest)"
    unfolding IsLLMRequest_def DetectProvider_def Let_def low
    by (auto simp: ProviderUnknown_def ProviderGemini_def ProviderOpenAI_def find_Some_iff
        dest!: provider_names [unfolded ProviderUnknown_def, OF nth_mem] split: option.splits)
  then show ?thesis using d by blast
qed

definition local_model :: custom_endpoint where
  "local_model = \<lparr>ep_Host = ''LLM.lan'', ep_Path = ''/v1'', ep_Name = ''local''\<rparr>"

theorem registered_endpoint_recognised_witness:
  "distinct (map ep_key (RegisterCustomEndpoint local_model (registrations [Inl local_model] []))) \<and>
   IsLLMRequest (RegisterCustomEndpoint local_model (registrations [Inl local_model] [])) ''LLM.lan'' (''/v1'' @ ''/chat'')"
  using registered_endpoint_recognised [of local_model "''LLM.lan''" "[Inl local_model]" "''/chat''"]
  by (simp add: local_model_def is_space_char_def)

text \<open>Registering compares hosts without case and removing compares them with case: an endpoint
  registered twice with different case keeps the second spelling, and removing it by the first has
  no effect.\<close>
theorem unregister_is_case_sensitive:
  "UnregisterCustomEndpoint ''API.lan'' p
     (RegisterCustomEndpoint \<lparr>ep_Host = ''api.lan'', ep_Path = p, ep_Name = m\<rparr>
       (RegisterCustomEndpoint \<lparr>ep_Host = ''API.lan'', ep_Path = p, ep_Name = n\<rparr> [])) =
   [\<lparr>ep_Host = ''api.lan'', ep_Path = p, ep_Name = m\<rparr>]"
proof -
  have "equal_fold ''API.lan'' ''api.lan''" by code_simp
  then show ?thesis by (simp add: RegisterCustomEndpoint_def)
qed

end
