(* ===== verification/LlmParser.thy ===== *)
theory LlmParser
  imports Json LlmProvider
begin

text \<open>
  \<^verbatim>\<open>internal/llm/parser.go\<close>: what is taken from the bodies of LLM requests and responses in the
  three formats, and the assembly of streamed responses. A struct literal of the code that JSON is
  decoded into is a record of its fields, a nested struct spread into its parent, and the list of
  the decoders of its fields; a result \<^const>\<open>None\<close> is a nil pointer.
\<close>

section \<open>Public types\<close>

record tool_call =
  tc_ID :: string
  tc_Name :: string
  tc_Arguments :: string

record tool_definition =
  td_Name :: string
  td_Description :: string
  td_Parameters :: string

record message =
  msg_Role :: string
  msg_Content :: string
  msg_Name :: string
  msg_ToolCalls :: "tool_call list"

record request_info =
  ri_Provider :: provider
  ri_Model :: string
  ri_Messages :: "message list"
  ri_System :: string
  ri_Stream :: bool
  ri_MaxTokens :: int
  ri_Temperature :: rat
  ri_Tools :: "tool_definition list"
  ri_ToolChoice :: string

record response_info =
  rs_Model :: string
  rs_Content :: string
  rs_FinishReason :: string
  rs_PromptTokens :: int
  rs_CompletionTokens :: int
  rs_TotalTokens :: int
  rs_ToolCalls :: "tool_call list"

definition no_call :: tool_call where
  "no_call = \<lparr>tc_ID = [], tc_Name = [], tc_Arguments = []\<rparr>"

definition no_response :: response_info where
  "no_response = \<lparr>rs_Model = [], rs_Content = [], rs_FinishReason = [], rs_PromptTokens = 0,
     rs_CompletionTokens = 0, rs_TotalTokens = 0, rs_ToolCalls = []\<rparr>"

section \<open>The model in a Gemini path\<close>

definition GeminiModelFromPath :: "string \<Rightarrow> string" where
  "GeminiModelFromPath path =
     (case index_str path ''/models/'' of
        None \<Rightarrow> []
      | Some i \<Rightarrow> takeWhile (\<lambda>c. c \<notin> {CHR '':'', CHR ''/'', CHR ''?'', CHR ''#''})
                    (drop (i + length ''/models/'') path))"

section \<open>Text of a message\<close>

record content_part =
  cp_Type :: string
  cp_Text :: string
  cp_Content :: string

definition no_part :: content_part where
  "no_part = \<lparr>cp_Type = [], cp_Text = [], cp_Content = []\<rparr>"

definition part_fields :: "content_part fields" where
  "part_fields =
     [field ''type'' cp_Type cp_Type_update dec_string,
      field ''text'' cp_Text cp_Text_update dec_string,
      field ''content'' cp_Content cp_Content_update dec_raw]"

definition join_segment :: "string \<Rightarrow> string \<Rightarrow> string" where
  "join_segment sb seg = (if seg = [] then sb else if sb = [] then seg else sb @ LF # seg)"

definition dec_parts :: "content_part list decoder" where
  "dec_parts = dec_slice (dec_struct part_fields) no_part"

text \<open>A part's content is a piece of the text it was read from.\<close>

lemma part_content_shorter:
  assumes "Unmarshal dec_parts [] raw = Some parts" and "raw \<noteq> []" and "p \<in> set parts"
  shows "length (cp_Content p) < length raw"
proof -
  obtain j where j: "parse_json raw = Some j" and d: "dec_parts j [] = Some parts"
    using assms(1) by (auto simp: Unmarshal_def split: option.splits)
  let ?P = "\<lambda>p. length (cp_Content p) < length raw"
  have keep: "keeps ?P c (dec_struct part_fields)" if c: "c \<in> set (children j)" for c
    unfolding keeps_def
  proof (intro allI impI)
    fix x x' assume x: "?P x" and s: "dec_struct part_fields c x = Some x'"
    show "?P x'"
    proof (cases "json_val c")
      case (JObj ms)
      then have "dec_members part_fields ms x = Some x'" using s by (simp add: dec_struct_def)
      then show ?thesis
      proof (rule dec_members_keep [where P = ?P, OF _ x], intro ballI)
        fix f g assume f: "f \<in> set part_fields" and g: "g \<in> snd ` set ms"
        have "g \<in> set (children c)" using g JObj by (auto simp: children_def)
        then have "length (json_raw g) < length raw"
          using nested_child [OF parse_json_nested [OF j] c] nested_child [of c g] parse_json_size [OF j] by simp
        then show "keeps ?P g (snd f)"
          using f by (auto simp: part_fields_def field_def keeps_def dec_raw_def)
      qed
    qed (use x s in \<open>auto simp: dec_struct_def\<close>)
  qed
  have "list_all ?P parts"
  proof (cases "json_val j")
    case (JArr js)
    then have "dec_elements (dec_struct part_fields) no_part js [] = Some parts"
      using d by (simp add: dec_parts_def dec_slice_def)
    from dec_elements_keep [OF this, of ?P] show ?thesis
      using keep JArr assms(2) by (simp add: children_def no_part_def)
  qed (use d in \<open>auto simp: dec_parts_def dec_slice_def\<close>)
  then show ?thesis using assms(3) by (auto simp: list_all_iff)
qed

function extractTextContent :: "string \<Rightarrow> string" where
  "extractTextContent raw =
     (if raw = [] then []
      else case Unmarshal dec_string [] raw of
        Some s \<Rightarrow> s
      | None \<Rightarrow>
          (case Unmarshal dec_parts [] raw of
             Some parts \<Rightarrow>
               foldl join_segment []
                 (map (\<lambda>p. if cp_Type p = ''tool_result'' then extractTextContent (cp_Content p) else cp_Text p) parts)
           | None \<Rightarrow> []))"
  by pat_completeness auto
termination
  by (relation "measure length") (auto intro: part_content_shorter)

declare extractTextContent.simps [simp del]

section \<open>Shared pieces\<close>

text \<open>A tool call as it comes in an OpenAI message or delta, its function spread into it.\<close>

record raw_call =
  rc_Index :: int
  rc_ID :: string
  rc_Type :: string
  rc_Name :: string
  rc_Arguments :: string

definition no_raw_call :: raw_call where
  "no_raw_call = \<lparr>rc_Index = 0, rc_ID = [], rc_Type = [], rc_Name = [], rc_Arguments = []\<rparr>"

definition call_fields :: "raw_call fields" where
  "call_fields =
     [field ''id'' rc_ID rc_ID_update dec_string,
      field ''type'' rc_Type rc_Type_update dec_string,
      (''function'', dec_struct
        [field ''name'' rc_Name rc_Name_update dec_string,
         field ''arguments'' rc_Arguments rc_Arguments_update dec_string])]"

definition delta_call_fields :: "raw_call fields" where
  "delta_call_fields = field ''index'' rc_Index rc_Index_update dec_int # call_fields"

definition to_call :: "raw_call \<Rightarrow> tool_call" where
  "to_call r = \<lparr>tc_ID = rc_ID r, tc_Name = rc_Name r, tc_Arguments = rc_Arguments r\<rparr>"

definition no_tool :: tool_definition where
  "no_tool = \<lparr>td_Name = [], td_Description = [], td_Parameters = []\<rparr>"

text \<open>The schema of a tool's parameters is under a name of its own in each format.\<close>

definition tool_fields :: "string \<Rightarrow> tool_definition fields" where
  "tool_fields parameters =
     [field ''name'' td_Name td_Name_update dec_string,
      field ''description'' td_Description td_Description_update dec_string,
      field parameters td_Parameters td_Parameters_update dec_raw]"

record raw_message =
  rm_Role :: string
  rm_Content :: string
  rm_Name :: string
  rm_ToolCalls :: "raw_call list"

definition no_raw_message :: raw_message where
  "no_raw_message = \<lparr>rm_Role = [], rm_Content = [], rm_Name = [], rm_ToolCalls = []\<rparr>"

text \<open>The body of an OpenAI or Anthropic request; its tools differ.\<close>

record 't raw_request =
  rq_Model :: string
  rq_System :: string
  rq_Messages :: "string list"
  rq_Stream :: bool
  rq_MaxTokens :: int
  rq_Temperature :: rat
  rq_Tools :: "'t list"
  rq_ToolChoice :: string

definition no_raw_request :: "'t raw_request" where
  "no_raw_request = \<lparr>rq_Model = [], rq_System = [], rq_Messages = [], rq_Stream = False, rq_MaxTokens = 0,
     rq_Temperature = 0, rq_Tools = [], rq_ToolChoice = []\<rparr>"

definition request_fields :: "'t decoder \<Rightarrow> 't \<Rightarrow> 't raw_request fields" where
  "request_fields dec_tool z =
     [field ''model'' rq_Model rq_Model_update dec_string,
      field ''messages'' rq_Messages rq_Messages_update (dec_slice dec_raw []),
      field ''stream'' rq_Stream rq_Stream_update dec_bool,
      field ''max_tokens'' rq_MaxTokens rq_MaxTokens_update dec_int,
      field ''temperature'' rq_Temperature rq_Temperature_update dec_float,
      field ''tools'' rq_Tools rq_Tools_update (dec_slice dec_tool z),
      field ''tool_choice'' rq_ToolChoice rq_ToolChoice_update dec_raw]"

definition base_info :: "provider \<Rightarrow> 't raw_request \<Rightarrow> request_info" where
  "base_info p raw =
     \<lparr>ri_Provider = p, ri_Model = rq_Model raw, ri_Messages = [], ri_System = [], ri_Stream = rq_Stream raw,
      ri_MaxTokens = rq_MaxTokens raw, ri_Temperature = rq_Temperature raw, ri_Tools = [],
      ri_ToolChoice = rq_ToolChoice raw\<rparr>"

section \<open>Requests\<close>

record openai_tool =
  ot_Type :: string
  ot_Function :: tool_definition

definition openai_tool_fields :: "openai_tool fields" where
  "openai_tool_fields =
     [field ''type'' ot_Type ot_Type_update dec_string,
      field ''function'' ot_Function ot_Function_update (dec_struct (tool_fields ''parameters''))]"

definition openai_message_fields :: "raw_message fields" where
  "openai_message_fields =
     [field ''role'' rm_Role rm_Role_update dec_string,
      field ''content'' rm_Content rm_Content_update dec_raw,
      field ''name'' rm_Name rm_Name_update dec_string,
      field ''tool_calls'' rm_ToolCalls rm_ToolCalls_update (dec_slice (dec_struct call_fields) no_raw_call)]"

definition openai_message :: "string \<Rightarrow> message option" where
  "openai_message rawMsg =
     map_option (\<lambda>msg. \<lparr>msg_Role = rm_Role msg, msg_Content = extractTextContent (rm_Content msg),
         msg_Name = rm_Name msg, msg_ToolCalls = map to_call (rm_ToolCalls msg)\<rparr>)
       (Unmarshal (dec_struct openai_message_fields) no_raw_message rawMsg)"

definition parseOpenAIRequest :: "string \<Rightarrow> request_info option" where
  "parseOpenAIRequest body =
     (case Unmarshal (dec_struct (request_fields (dec_struct openai_tool_fields)
             \<lparr>ot_Type = [], ot_Function = no_tool\<rparr>)) no_raw_request body of
        None \<Rightarrow> None
      | Some raw \<Rightarrow>
          Some ((base_info ProviderOpenAI raw)
            \<lparr>ri_Messages := List.map_filter openai_message (rq_Messages raw),
             ri_Tools := map ot_Function (filter (\<lambda>t. ot_Type t = ''function'' \<or> ot_Type t = []) (rq_Tools raw))\<rparr>))"

definition anthropic_message_fields :: "raw_message fields" where
  "anthropic_message_fields =
     [field ''role'' rm_Role rm_Role_update dec_string,
      field ''content'' rm_Content rm_Content_update dec_raw]"

definition anthropic_message :: "string \<Rightarrow> message option" where
  "anthropic_message rawMsg =
     map_option (\<lambda>msg. \<lparr>msg_Role = rm_Role msg, msg_Content = extractTextContent (rm_Content msg),
         msg_Name = [], msg_ToolCalls = []\<rparr>)
       (Unmarshal (dec_struct anthropic_message_fields) no_raw_message rawMsg)"

definition parseAnthropicRequest :: "string \<Rightarrow> request_info option" where
  "parseAnthropicRequest body =
     (case Unmarshal (dec_struct (field ''system'' rq_System rq_System_update dec_raw #
             request_fields (dec_struct (tool_fields ''input_schema'')) no_tool)) no_raw_request body of
        None \<Rightarrow> None
      | Some raw \<Rightarrow>
          Some ((base_info ProviderAnthropic raw)
            \<lparr>ri_System := extractTextContent (rq_System raw),
             ri_Messages := List.map_filter anthropic_message (rq_Messages raw),
             ri_Tools := rq_Tools raw\<rparr>))"

text \<open>A part of a Gemini message; a call is its name and its arguments, a response its name and its text.\<close>

record gemini_part =
  gp_Text :: string
  gp_FunctionCall :: "(string \<times> string) option"
  gp_FunctionResponse :: "(string \<times> string) option"

definition no_gemini_part :: gemini_part where
  "no_gemini_part = \<lparr>gp_Text = [], gp_FunctionCall = None, gp_FunctionResponse = None\<rparr>"

definition named_text :: "string \<Rightarrow> (string \<times> string) option decoder" where
  "named_text key = dec_ptr (dec_struct [field ''name'' fst apfst dec_string, field key snd apsnd dec_raw]) ([], [])"

definition response_part_fields :: "gemini_part fields" where
  "response_part_fields =
     [field ''text'' gp_Text gp_Text_update dec_string,
      field ''functionCall'' gp_FunctionCall gp_FunctionCall_update (named_text ''args'')]"

definition request_part_fields :: "gemini_part fields" where
  "request_part_fields =
     response_part_fields @
     [field ''functionResponse'' gp_FunctionResponse gp_FunctionResponse_update (named_text ''response'')]"

record gemini_request =
  gr_Contents :: "(string \<times> gemini_part list) list"
  gr_System :: "string list option"
  gr_Generation :: "(int \<times> rat) option"
  gr_Tools :: "tool_definition list list"
  gr_Mode :: "string option option"

definition dec_whole :: "string \<Rightarrow> 'a decoder \<Rightarrow> 'a decoder" where
  "dec_whole key d = dec_struct [(key, d)]"

definition gemini_request_fields :: "gemini_request fields" where
  "gemini_request_fields =
     [field ''contents'' gr_Contents gr_Contents_update
        (dec_slice (dec_struct
           [field ''role'' fst apfst dec_string,
            field ''parts'' snd apsnd (dec_slice (dec_struct request_part_fields) no_gemini_part)]) ([], [])),
      field ''systemInstruction'' gr_System gr_System_update
        (dec_ptr (dec_whole ''parts'' (dec_slice (dec_whole ''text'' dec_string) [])) []),
      field ''generationConfig'' gr_Generation gr_Generation_update
        (dec_ptr (dec_struct
           [field ''maxOutputTokens'' fst apfst dec_int, field ''temperature'' snd apsnd dec_float]) (0, 0)),
      field ''tools'' gr_Tools gr_Tools_update
        (dec_slice (dec_whole ''functionDeclarations''
           (dec_slice (dec_struct (tool_fields ''parameters'')) no_tool)) []),
      field ''toolConfig'' gr_Mode gr_Mode_update
        (dec_ptr (dec_whole ''functionCallingConfig'' (dec_ptr (dec_whole ''mode'' dec_string) [])) None)]"

definition gemini_call :: "string \<times> string \<Rightarrow> tool_call" where
  "gemini_call c = \<lparr>tc_ID = [], tc_Name = fst c, tc_Arguments = snd c\<rparr>"

definition gemini_role :: "string \<Rightarrow> string" where
  "gemini_role role =
     (if role = ''model'' then ''assistant'' else if role = ''function'' then ''tool''
      else if role = [] then ''user'' else role)"

fun gemini_message :: "string \<times> gemini_part list \<Rightarrow> message" where
  "gemini_message (role, parts) =
     \<lparr>msg_Role = gemini_role role,
      msg_Content = concat (map (\<lambda>p.
          case gp_FunctionCall p of Some _ \<Rightarrow> []
          | None \<Rightarrow> (case gp_FunctionResponse p of Some (_, response) \<Rightarrow> response | None \<Rightarrow> gp_Text p)) parts),
      msg_Name = [], msg_ToolCalls = map gemini_call (List.map_filter gp_FunctionCall parts)\<rparr>"

definition parseGeminiRequest :: "string \<Rightarrow> request_info option" where
  "parseGeminiRequest body =
     (case Unmarshal (dec_struct gemini_request_fields)
             \<lparr>gr_Contents = [], gr_System = None, gr_Generation = None, gr_Tools = [], gr_Mode = None\<rparr> body of
        None \<Rightarrow> None
      | Some raw \<Rightarrow>
          Some \<lparr>ri_Provider = ProviderGemini, ri_Model = [],
            ri_Messages = map gemini_message (gr_Contents raw),
            ri_System = (case gr_System raw of Some parts \<Rightarrow> concat parts | None \<Rightarrow> []),
            ri_Stream = False,
            ri_MaxTokens = (case gr_Generation raw of Some (n, _) \<Rightarrow> n | None \<Rightarrow> 0),
            ri_Temperature = (case gr_Generation raw of Some (_, t) \<Rightarrow> t | None \<Rightarrow> 0),
            ri_Tools = concat (gr_Tools raw),
            ri_ToolChoice = (case gr_Mode raw of Some (Some mode) \<Rightarrow> marshal_string mode | _ \<Rightarrow> [])\<rparr>)"

definition ParseRequest :: "provider \<Rightarrow> string \<Rightarrow> request_info option" where
  "ParseRequest p body =
     (if body = [] then None
      else case ProtocolFor p of
        ParseAnthropic \<Rightarrow> parseAnthropicRequest body
      | ParseGemini \<Rightarrow> parseGeminiRequest body
      | ParseOpenAI \<Rightarrow> parseOpenAIRequest body)"

section \<open>Responses\<close>

record usage =
  us_Prompt :: int
  us_Completion :: int
  us_Total :: int

definition no_usage :: usage where
  "no_usage = \<lparr>us_Prompt = 0, us_Completion = 0, us_Total = 0\<rparr>"

definition usage_fields :: "string \<Rightarrow> string \<Rightarrow> usage fields" where
  "usage_fields prompt completion =
     [field prompt us_Prompt us_Prompt_update dec_int,
      field completion us_Completion us_Completion_update dec_int]"

definition total_field :: "string \<Rightarrow> string \<times> usage decoder" where
  "total_field key = field key us_Total us_Total_update dec_int"

definition dec_usage :: "usage fields \<Rightarrow> usage option decoder" where
  "dec_usage fs = dec_ptr (dec_struct fs) no_usage"

definition openai_usage :: "usage option decoder" where
  "openai_usage = dec_usage (usage_fields ''prompt_tokens'' ''completion_tokens'' @ [total_field ''total_tokens''])"

definition gemini_usage :: "usage option decoder" where
  "gemini_usage =
     dec_usage (usage_fields ''promptTokenCount'' ''candidatesTokenCount'' @ [total_field ''totalTokenCount''])"

text \<open>A choice of an OpenAI response or chunk, its message or delta spread into it.\<close>

record choice =
  ch_Content :: string
  ch_ToolCalls :: "raw_call list"
  ch_FinishReason :: string

definition no_choice :: choice where
  "no_choice = \<lparr>ch_Content = [], ch_ToolCalls = [], ch_FinishReason = []\<rparr>"

definition choice_fields :: "string \<Rightarrow> raw_call fields \<Rightarrow> choice fields" where
  "choice_fields key calls =
     [(key, dec_struct
        [field ''content'' ch_Content ch_Content_update dec_string,
         field ''tool_calls'' ch_ToolCalls ch_ToolCalls_update (dec_slice (dec_struct calls) no_raw_call)]),
      field ''finish_reason'' ch_FinishReason ch_FinishReason_update dec_string]"

record openai_response =
  or_Model :: string
  or_Choices :: "choice list"
  or_Usage :: "usage option"

definition no_openai_response :: openai_response where
  "no_openai_response = \<lparr>or_Model = [], or_Choices = [], or_Usage = None\<rparr>"

definition openai_response_fields :: "choice fields \<Rightarrow> openai_response fields" where
  "openai_response_fields cfs =
     [field ''model'' or_Model or_Model_update dec_string,
      field ''choices'' or_Choices or_Choices_update (dec_slice (dec_struct cfs) no_choice),
      field ''usage'' or_Usage or_Usage_update openai_usage]"

definition with_usage :: "usage option \<Rightarrow> (usage \<Rightarrow> int) \<Rightarrow> response_info \<Rightarrow> response_info" where
  "with_usage u tot info =
     (case u of None \<Rightarrow> info
      | Some u \<Rightarrow> info\<lparr>rs_PromptTokens := us_Prompt u, rs_CompletionTokens := us_Completion u, rs_TotalTokens := tot u\<rparr>)"

definition parseOpenAIResponse :: "string \<Rightarrow> response_info option" where
  "parseOpenAIResponse body =
     (case Unmarshal (dec_struct (openai_response_fields (choice_fields ''message'' call_fields)))
             no_openai_response body of
        None \<Rightarrow> None
      | Some raw \<Rightarrow>
          let info = no_response\<lparr>rs_Model := or_Model raw\<rparr>;
              info = (case or_Choices raw of [] \<Rightarrow> info
                      | c # _ \<Rightarrow> info\<lparr>rs_Content := ch_Content c, rs_FinishReason := ch_FinishReason c,
                                      rs_ToolCalls := map to_call (ch_ToolCalls c)\<rparr>)
          in Some (with_usage (or_Usage raw) us_Total info))"

record content_block =
  cb_Type :: string
  cb_Text :: string
  cb_ID :: string
  cb_Name :: string
  cb_Input :: string

definition no_block :: content_block where
  "no_block = \<lparr>cb_Type = [], cb_Text = [], cb_ID = [], cb_Name = [], cb_Input = []\<rparr>"

definition block_fields :: "content_block fields" where
  "block_fields =
     [field ''type'' cb_Type cb_Type_update dec_string, field ''text'' cb_Text cb_Text_update dec_string,
      field ''id'' cb_ID cb_ID_update dec_string, field ''name'' cb_Name cb_Name_update dec_string,
      field ''input'' cb_Input cb_Input_update dec_raw]"

record anthropic_response =
  ar_Model :: string
  ar_Content :: "content_block list"
  ar_StopReason :: string
  ar_Usage :: "usage option"

definition anthropic_response_fields :: "anthropic_response fields" where
  "anthropic_response_fields =
     [field ''model'' ar_Model ar_Model_update dec_string,
      field ''content'' ar_Content ar_Content_update (dec_slice (dec_struct block_fields) no_block),
      field ''stop_reason'' ar_StopReason ar_StopReason_update dec_string,
      field ''usage'' ar_Usage ar_Usage_update (dec_usage (usage_fields ''input_tokens'' ''output_tokens''))]"

definition block_text :: "content_block \<Rightarrow> string" where
  "block_text b = (if cb_Type b = ''text'' \<or> cb_Type b = [] then cb_Text b else [])"

definition block_call :: "content_block \<Rightarrow> tool_call option" where
  "block_call b =
     (if cb_Type b = ''tool_use'' then Some \<lparr>tc_ID = cb_ID b, tc_Name = cb_Name b, tc_Arguments = cb_Input b\<rparr> else None)"

definition parseAnthropicResponse :: "string \<Rightarrow> response_info option" where
  "parseAnthropicResponse body =
     (case Unmarshal (dec_struct anthropic_response_fields)
             \<lparr>ar_Model = [], ar_Content = [], ar_StopReason = [], ar_Usage = None\<rparr> body of
        None \<Rightarrow> None
      | Some raw \<Rightarrow>
          Some (with_usage (ar_Usage raw) (\<lambda>u. wrap64 (us_Prompt u + us_Completion u))
            (no_response\<lparr>rs_Model := ar_Model raw, rs_FinishReason := ar_StopReason raw,
               rs_Content := concat (map block_text (ar_Content raw)),
               rs_ToolCalls := List.map_filter block_call (ar_Content raw)\<rparr>)))"

record gemini_candidate =
  gd_Parts :: "gemini_part list"
  gd_FinishReason :: string

record gemini_response =
  ge_Candidates :: "gemini_candidate list"
  ge_Usage :: "usage option"

definition no_gemini_response :: gemini_response where
  "no_gemini_response = \<lparr>ge_Candidates = [], ge_Usage = None\<rparr>"

definition gemini_response_fields :: "gemini_response fields" where
  "gemini_response_fields =
     [field ''candidates'' ge_Candidates ge_Candidates_update
        (dec_slice (dec_struct
           [(''content'', dec_struct
              [field ''parts'' gd_Parts gd_Parts_update (dec_slice (dec_struct response_part_fields) no_gemini_part)]),
            field ''finishReason'' gd_FinishReason gd_FinishReason_update dec_string])
           \<lparr>gd_Parts = [], gd_FinishReason = []\<rparr>),
      field ''usageMetadata'' ge_Usage ge_Usage_update gemini_usage]"

definition part_text :: "gemini_part \<Rightarrow> string" where
  "part_text p = (if gp_FunctionCall p = None then gp_Text p else [])"

definition part_calls :: "gemini_part list \<Rightarrow> tool_call list" where
  "part_calls ps = map gemini_call (List.map_filter gp_FunctionCall ps)"

definition parseGeminiResponse :: "string \<Rightarrow> response_info option" where
  "parseGeminiResponse body =
     (case Unmarshal (dec_struct gemini_response_fields) no_gemini_response body of
        None \<Rightarrow> None
      | Some raw \<Rightarrow>
          Some (with_usage (ge_Usage raw) us_Total
            (case ge_Candidates raw of [] \<Rightarrow> no_response
             | c # _ \<Rightarrow> no_response\<lparr>rs_Content := concat (map part_text (gd_Parts c)),
                 rs_FinishReason := gd_FinishReason c, rs_ToolCalls := part_calls (gd_Parts c)\<rparr>)))"

definition ParseResponse :: "provider \<Rightarrow> string \<Rightarrow> response_info option" where
  "ParseResponse p body =
     (if body = [] then None
      else case ProtocolFor p of
        ParseAnthropic \<Rightarrow> parseAnthropicResponse body
      | ParseGemini \<Rightarrow> parseGeminiResponse body
      | ParseOpenAI \<Rightarrow> parseOpenAIResponse body)"

section \<open>Streams\<close>

record stream_assembler =
  sa_provider :: provider
  sa_model :: string
  sa_content :: string
  sa_finish :: string
  sa_usage :: "response_info option"
  sa_toolCalls :: "tool_call list"

definition NewStreamAssembler :: "provider \<Rightarrow> stream_assembler" where
  "NewStreamAssembler p =
     \<lparr>sa_provider = p, sa_model = [], sa_content = [], sa_finish = [], sa_usage = None, sa_toolCalls = []\<rparr>"

definition set_usage :: "(response_info \<Rightarrow> response_info) \<Rightarrow> stream_assembler \<Rightarrow> stream_assembler" where
  "set_usage f a = a\<lparr>sa_usage := Some (f (case sa_usage a of None \<Rightarrow> no_response | Some u \<Rightarrow> u))\<rparr>"

definition set_counts :: "usage \<Rightarrow> response_info \<Rightarrow> response_info" where
  "set_counts u r = r\<lparr>rs_PromptTokens := us_Prompt u, rs_CompletionTokens := us_Completion u\<rparr>"

text \<open>One tool call of a delta: an index out of range is skipped, a missing call is created.\<close>

definition feed_call :: "tool_call list \<Rightarrow> raw_call \<Rightarrow> tool_call list" where
  "feed_call calls tc =
     (if rc_Index tc < 0 then calls
      else if rc_Index tc > 64 then calls
      else
        let idx = nat (rc_Index tc);
            calls = calls @ replicate (idx + 1 - length calls) no_call;
            c = calls ! idx;
            c = (if rc_ID tc \<noteq> [] then c\<lparr>tc_ID := rc_ID tc\<rparr> else c);
            c = (if rc_Name tc \<noteq> [] then c\<lparr>tc_Name := rc_Name tc\<rparr> else c)
        in calls[idx := c\<lparr>tc_Arguments := tc_Arguments c @ rc_Arguments tc\<rparr>])"

definition decode_openai_chunk :: "string \<Rightarrow> openai_response option" where
  "decode_openai_chunk data =
     Unmarshal (dec_struct (openai_response_fields (choice_fields ''delta'' delta_call_fields))) no_openai_response data"

definition feedOpenAI :: "string \<Rightarrow> stream_assembler \<Rightarrow> bool \<times> stream_assembler" where
  "feedOpenAI data a =
     (case decode_openai_chunk data of
        None \<Rightarrow> (False, a)
      | Some chunk \<Rightarrow>
          let a = (if sa_model a = [] \<and> or_Model chunk \<noteq> [] then a\<lparr>sa_model := or_Model chunk\<rparr> else a);
              a = (case or_Choices chunk of [] \<Rightarrow> a
                   | c # _ \<Rightarrow>
                       let a = a\<lparr>sa_content := sa_content a @ ch_Content c,
                                 sa_toolCalls := foldl feed_call (sa_toolCalls a) (ch_ToolCalls c)\<rparr>
                       in if ch_FinishReason c \<noteq> [] then a\<lparr>sa_finish := ch_FinishReason c\<rparr> else a);
              a = (case or_Usage chunk of None \<Rightarrow> a | Some u \<Rightarrow> set_usage (set_counts u) a)
          in (True, a))"

text \<open>The events of an Anthropic stream: the type and the delta first, then what the type needs.\<close>

definition event_fields :: "(string \<times> string) fields" where
  "event_fields = [field ''type'' fst apfst dec_string, field ''delta'' snd apsnd dec_raw]"

record message_start =
  ms_Model :: string
  ms_Usage :: "usage option"

definition message_start_fields :: "message_start fields" where
  "message_start_fields =
     [(''message'', dec_struct
        [field ''model'' ms_Model ms_Model_update dec_string,
         field ''usage'' ms_Usage ms_Usage_update
           (dec_usage [field ''input_tokens'' us_Prompt us_Prompt_update dec_int])])]"

record block_start =
  bs_EventType :: string
  bs_Index :: int
  bs_Type :: string
  bs_ID :: string
  bs_Name :: string

definition block_start_fields :: "block_start fields" where
  "block_start_fields =
     [field ''type'' bs_EventType bs_EventType_update dec_string,
      field ''index'' bs_Index bs_Index_update dec_int,
      (''content_block'', dec_struct
        [field ''type'' bs_Type bs_Type_update dec_string, field ''id'' bs_ID bs_ID_update dec_string,
         field ''name'' bs_Name bs_Name_update dec_string])]"

record block_delta =
  bd_Type :: string
  bd_Text :: string
  bd_Partial :: string

definition block_delta_fields :: "block_delta fields" where
  "block_delta_fields =
     [field ''type'' bd_Type bd_Type_update dec_string, field ''text'' bd_Text bd_Text_update dec_string,
      field ''partial_json'' bd_Partial bd_Partial_update dec_string]"

definition message_delta_fields :: "(string \<times> usage option) fields" where
  "message_delta_fields =
     [field ''stop_reason'' fst apfst dec_string,
      field ''usage'' snd apsnd (dec_usage [field ''output_tokens'' us_Completion us_Completion_update dec_int])]"

definition on_message_start :: "string \<Rightarrow> stream_assembler \<Rightarrow> stream_assembler" where
  "on_message_start data a =
     (case Unmarshal (dec_struct message_start_fields) \<lparr>ms_Model = [], ms_Usage = None\<rparr> data of
        None \<Rightarrow> a
      | Some ev \<Rightarrow>
          set_usage (\<lambda>r. case ms_Usage ev of None \<Rightarrow> r | Some u \<Rightarrow> r\<lparr>rs_PromptTokens := us_Prompt u\<rparr>)
            (a\<lparr>sa_model := ms_Model ev\<rparr>))"

definition on_block_start :: "string \<Rightarrow> stream_assembler \<Rightarrow> stream_assembler" where
  "on_block_start data a =
     (case Unmarshal (dec_struct block_start_fields)
             \<lparr>bs_EventType = [], bs_Index = 0, bs_Type = [], bs_ID = [], bs_Name = []\<rparr> data of
        None \<Rightarrow> a
      | Some ev \<Rightarrow>
          if bs_Type ev = ''tool_use''
          then a\<lparr>sa_toolCalls := sa_toolCalls a @ [\<lparr>tc_ID = bs_ID ev, tc_Name = bs_Name ev, tc_Arguments = []\<rparr>]\<rparr>
          else a)"

definition on_block_delta :: "string \<Rightarrow> stream_assembler \<Rightarrow> stream_assembler" where
  "on_block_delta d a =
     (case Unmarshal (dec_struct block_delta_fields) \<lparr>bd_Type = [], bd_Text = [], bd_Partial = []\<rparr> d of
        None \<Rightarrow> a
      | Some delta \<Rightarrow>
          if bd_Type delta = ''text_delta'' then a\<lparr>sa_content := sa_content a @ bd_Text delta\<rparr>
          else if bd_Type delta = ''input_json_delta'' \<and> sa_toolCalls a \<noteq> []
          then a\<lparr>sa_toolCalls := butlast (sa_toolCalls a) @
                   [(last (sa_toolCalls a))\<lparr>tc_Arguments := tc_Arguments (last (sa_toolCalls a)) @ bd_Partial delta\<rparr>]\<rparr>
          else a)"

definition on_message_delta :: "string \<Rightarrow> stream_assembler \<Rightarrow> stream_assembler" where
  "on_message_delta d a =
     (case Unmarshal (dec_struct message_delta_fields) ([], None) d of
        None \<Rightarrow> a
      | Some (reason, u) \<Rightarrow>
          let a = (if reason \<noteq> [] then a\<lparr>sa_finish := reason\<rparr> else a)
          in (case u of None \<Rightarrow> a
              | Some u \<Rightarrow> set_usage (\<lambda>r. r\<lparr>rs_CompletionTokens := us_Completion u\<rparr>) a))"

definition feedAnthropic :: "string \<Rightarrow> stream_assembler \<Rightarrow> bool \<times> stream_assembler" where
  "feedAnthropic data a =
     (case Unmarshal (dec_struct event_fields) ([], []) data of
        None \<Rightarrow> (False, a)
      | Some (ty, d) \<Rightarrow>
          (True,
           if ty = ''message_start'' then on_message_start data a
           else if ty = ''content_block_start'' then on_block_start data a
           else if ty = ''content_block_delta'' then on_block_delta d a
           else if ty = ''message_delta'' then on_message_delta d a
           else a))"

definition process_candidate :: "stream_assembler \<Rightarrow> gemini_candidate \<Rightarrow> stream_assembler" where
  "process_candidate a c =
     (let a = a\<lparr>sa_content := sa_content a @ concat (map part_text (gd_Parts c)),
                sa_toolCalls := sa_toolCalls a @ part_calls (gd_Parts c)\<rparr>
      in if gd_FinishReason c \<noteq> [] then a\<lparr>sa_finish := gd_FinishReason c\<rparr> else a)"

definition process_chunk :: "stream_assembler \<Rightarrow> gemini_response \<Rightarrow> stream_assembler" where
  "process_chunk a ch =
     (let a = foldl process_candidate a (ge_Candidates ch)
      in case ge_Usage ch of None \<Rightarrow> a | Some u \<Rightarrow> set_usage (set_counts u) a)"

definition feedGemini :: "string \<Rightarrow> stream_assembler \<Rightarrow> bool \<times> stream_assembler" where
  "feedGemini data a =
     (case Unmarshal (dec_slice (dec_struct gemini_response_fields) no_gemini_response) [] data of
        Some chunks \<Rightarrow> (True, foldl process_chunk a chunks)
      | None \<Rightarrow>
          (case Unmarshal (dec_struct gemini_response_fields) no_gemini_response data of
             None \<Rightarrow> (False, a)
           | Some single \<Rightarrow> (True, process_chunk a single)))"

definition Feed_chunk :: "string \<Rightarrow> stream_assembler \<Rightarrow> bool \<times> stream_assembler" where
  "Feed_chunk data a =
     (if trim_space data = ''[DONE]'' then (True, a)
      else if sa_provider a = ProviderAnthropic then feedAnthropic data a
      else if sa_provider a = ProviderGemini then feedGemini data a
      else feedOpenAI data a)"

definition Result :: "stream_assembler \<Rightarrow> response_info" where
  "Result a =
     (let info = no_response\<lparr>rs_Model := sa_model a, rs_Content := sa_content a, rs_FinishReason := sa_finish a,
                             rs_ToolCalls := sa_toolCalls a\<rparr>
      in case sa_usage a of None \<Rightarrow> info
         | Some u \<Rightarrow> info\<lparr>rs_PromptTokens := rs_PromptTokens u, rs_CompletionTokens := rs_CompletionTokens u,
                          rs_TotalTokens := wrap64 (rs_PromptTokens u + rs_CompletionTokens u)\<rparr>)"

end
