(* ===== verification/JsonProps.thy ===== *)
theory JsonProps
  imports Json
begin

text \<open>
  Strings written as JSON are read back: through the tokens, the stack machine and the decoder, for
  any valid UTF-8, with the escapes \<^verbatim>\<open>json.Marshal\<close> makes.
\<close>

section \<open>Code points\<close>

lemma rune_at_append:
  assumes "utf8_rune r"
  shows "rune_at (r @ s) = Some (length r)"
proof -
  note shape = utf8_rune_shape [OF assms]
  obtain c r' where r: "r = c # r'" using shape(1) by (cases r) auto
  have other: "\<not> utf8_rune (take n (r @ s))" if "n < length r" "0 < n" for n
  proof
    assume u: "utf8_rune (take n (r @ s))"
    have "hd (take n (r @ s)) = c" using that r by (cases n) auto
    with utf8_rune_shape(2) [OF u] shape(2) r have "length (take n (r @ s)) = length r" by simp
    then show False using that by simp
  qed
  have "0 < length r" "length r \<le> 4" using shape(1,5) by simp_all
  then have "length r = 1 \<or> length r = 2 \<or> length r = 3 \<or> length r = 4" by linarith
  then show ?thesis
    using assms other [of 1] other [of 2] other [of 3] by (auto simp: rune_at_def)
qed

lemma byte_char: "utf8_rune [c] \<longleftrightarrow> char_code c < 128"
  by (auto simp: in_range_def)

lemma low_bits:
  assumes "m * k \<le> b" "b < m * k + (m :: nat)"
  shows "m * k + b mod m = b"
proof -
  obtain j where j: "b = m * k + j" using assms(1) by (metis le_Suc_ex)
  then show ?thesis using assms(2) by simp
qed

lemmas low_six = low_bits [of 64 2, simplified]

lemma lead_bits: "240 < a \<Longrightarrow> a \<le> 244 \<Longrightarrow> 1 \<le> a mod (8 :: nat)"
proof -
  assume "240 < a" "a \<le> 244"
  then have "a = 241 \<or> a = 242 \<or> a = 243 \<or> a = 244" by linarith
  then show ?thesis by auto
qed

lemmas low_four = low_bits [of 16 14, simplified]

lemma digits_64:
  assumes "y < 64" "z < (64 :: nat)"
  shows "(x * 4096 + y * 64 + z) div 4096 = x" "(x * 4096 + y * 64 + z) div 64 mod 64 = y"
    "(x * 4096 + y * 64 + z) mod 64 = z"
proof -
  have e: "x * 4096 + y * 64 + z = (x * 64 + y) * 64 + z" by simp
  have d: "((x * 64 + y) * 64 + z) div 64 = x * 64 + y" using assms by simp
  have "4096 = 64 * (64 :: nat)" by simp
  then have "((x * 64 + y) * 64 + z) div 4096 = (((x * 64 + y) * 64 + z) div 64) div 64"
    by (simp only: div_mult2_eq)
  then show "(x * 4096 + y * 64 + z) div 4096 = x" using assms d unfolding e by simp
  show "(x * 4096 + y * 64 + z) div 64 mod 64 = y" using assms d unfolding e by simp
  show "(x * 4096 + y * 64 + z) mod 64 = z" using assms(2) unfolding e mod_mult_self3 by simp
qed

lemma three_byte_encode:
  assumes "utf8_rune [a, b, c]" and "0x800 \<le> rune_value (map char_code [a, b, c])"
  shows "utf8_encode (rune_value (map char_code [a, b, c])) = [a, b, c]"
proof -
  let ?x = "char_code a mod 16" and ?y = "char_code b mod 64" and ?z = "char_code c mod 64"
  have r: "224 \<le> char_code a" "char_code a < 240" "128 \<le> char_code b" "char_code b < 192"
    "128 \<le> char_code c" "char_code c < 192"
    using assms(1) by (auto simp: in_range_def)
  have v: "rune_value (map char_code [a, b, c]) = ?x * 4096 + ?y * 64 + ?z" by simp
  have "?x * 4096 + ?y * 64 + ?z < 0x10000"
    using mod_less_divisor [of 16 "char_code a"] mod_less_divisor [of 64 "char_code b"]
      mod_less_divisor [of 64 "char_code c"] by linarith
  then have "utf8_encode (?x * 4096 + ?y * 64 + ?z) = map char_of [224 + ?x, 128 + ?y, 128 + ?z]"
    using assms(2) unfolding v utf8_encode_def by (simp add: digits_64)
  then show ?thesis
    unfolding v using low_four [OF r(1,2)] low_six [OF r(3,4)] low_six [OF r(5,6)] by simp
qed

section \<open>One character\<close>

lemma hex_digit_all: "list_all (\<lambda>n. hex_value (hex_digit n) = Some n) [0..<16]"
  by code_simp

lemma hex_digit_value: "n < 16 \<Longrightarrow> hex_value (hex_digit n) = Some n"
  using hex_digit_all by (simp add: list_all_iff)

lemma lex_ascii:
  assumes "char_code c < 128"
  shows "lex (InStr w a) (marshal_ascii c @ t) = lex (InStr w (a @ marshal_ascii c)) t"
proof -
  have "char_code c div 16 < 16" "char_code c mod 16 < 16" using assms by auto
  note hex = this [THEN hex_digit_value]
  show ?thesis
    using hex by (auto simp: marshal_ascii_def simple_escape_def hex_value_def [of "CHR ''0''"])
qed

lemma unquote_ascii:
  assumes "char_code c < 128"
  shows "unquote (marshal_ascii c @ t) = c # unquote t"
proof -
  have h: "char_code c div 16 < 16" "char_code c mod 16 < 16" using assms by auto
  note hex = h [THEN hex_digit_value]
  have zero: "hex_value (CHR ''0'') = Some 0" by (simp add: hex_value_def)
  have u: "unquote (BACKSLASH # ''u00'' @ [hex_digit (char_code c div 16), hex_digit (char_code c mod 16)] @ t) =
      c # unquote t"
    using assms by (subst unquote.simps) (simp add: hex4_def hex zero utf8_encode_def)
  have e: "unquote (BACKSLASH # d # t) = x # unquote t" if "simple_escape d = Some x" for d x
    using that by (subst unquote.simps) (auto simp: hex4_def simple_escape_def split: list.splits if_splits)
  have p: "unquote (c # t) = c # unquote t" if "c \<noteq> BACKSLASH"
    using that assms by (subst unquote.simps) simp
  have c8: "c = CHR 0x08" if "char_code c = 8" using that of_char_eq_iff [where 'a = nat, of c "CHR 0x08"] by simp
  have c9: "c = CHR 0x09" if "char_code c = 9" using that of_char_eq_iff [where 'a = nat, of c "CHR 0x09"] by simp
  have c12: "c = CHR 0x0C" if "char_code c = 12" using that of_char_eq_iff [where 'a = nat, of c "CHR 0x0C"] by simp
  show ?thesis
    unfolding marshal_ascii_def
    using u p e [of QUOTE QUOTE] e [of BACKSLASH BACKSLASH] e [of "CHR ''b''" "CHR 0x08"]
      e [of "CHR ''f''" "CHR 0x0C"] e [of "CHR ''n''" LF] e [of "CHR ''r''" CR] e [of "CHR ''t''" "CHR 0x09"] c8 c9 c12
    by (auto simp: simple_escape_def)
qed

section \<open>A string\<close>

text \<open>How one code point of two bytes or more is written.\<close>

definition marshal_rune :: "string \<Rightarrow> string" where
  "marshal_rune r =
     (let v = rune_value (map char_code r) in
      if v = 0x2028 then BACKSLASH # ''u2028'' else if v = 0x2029 then BACKSLASH # ''u2029'' else r)"

lemma long_rune:
  assumes "utf8_rune r" and "\<not> (\<exists>c. r = [c])"
  shows "\<forall>c \<in> set r. 128 \<le> char_code c"
  using assms by (induction r rule: utf8_rune.induct) (auto simp: in_range_def)

lemma marshal_body_ascii: "char_code c < 128 \<Longrightarrow> marshal_body (c # s) = marshal_ascii c @ marshal_body s"
  by (subst marshal_body.simps) simp

lemma marshal_body_long:
  assumes "utf8_rune r" and "\<not> (\<exists>c. r = [c])"
  shows "marshal_body (r @ s) = marshal_rune r @ marshal_body s"
proof -
  obtain c r' where r: "r = c # r'" using utf8_rune_shape(1) [OF assms(1)] by (cases r) auto
  have c: "\<not> char_code c < 128" using long_rune [OF assms] by (simp add: r)
  have at: "rune_at (c # r' @ s) = Some (length r)" using rune_at_append [OF assms(1), of s] by (simp add: r)
  have "marshal_body (c # r' @ s) = marshal_rune r @ marshal_body s"
    using c by (subst marshal_body.simps) (simp add: at r marshal_rune_def Let_def)
  then show ?thesis by (simp add: r)
qed

lemma lex_plain: "\<forall>c \<in> set r. 128 \<le> char_code c \<Longrightarrow> lex (InStr w a) (r @ t) = lex (InStr w (a @ r)) t"
proof (induction r arbitrary: a)
  case (Cons c r)
  then have "c \<noteq> QUOTE" "c \<noteq> BACKSLASH" "\<not> char_code c < 32" by auto
  then show ?case using Cons.IH [of "a @ [c]"] Cons.prems by simp
qed simp

lemma lex_rune:
  assumes "utf8_rune r" and "\<not> (\<exists>c. r = [c])"
  shows "lex (InStr w a) (marshal_rune r @ t) = lex (InStr w (a @ marshal_rune r)) t"
proof -
  have hex: "hex_value (CHR ''0'') = Some 0" "hex_value (CHR ''2'') = Some 2" "hex_value (CHR ''8'') = Some 8"
    "hex_value (CHR ''9'') = Some 9" by (simp_all add: hex_value_def)
  show ?thesis
    using lex_plain [OF long_rune [OF assms]] by (simp add: marshal_rune_def simple_escape_def Let_def hex)
qed

lemma unquote_long:
  assumes "utf8_rune r" and "\<not> (\<exists>c. r = [c])"
  shows "unquote (r @ t) = r @ unquote t"
proof -
  obtain c r' where r: "r = c # r'" using utf8_rune_shape(1) [OF assms(1)] by (cases r) auto
  have c: "\<not> char_code c < 128" "c \<noteq> BACKSLASH" using long_rune [OF assms] by (auto simp: r)
  have at: "rune_at (c # r' @ t) = Some (length r)" using rune_at_append [OF assms(1), of t] by (simp add: r)
  have "unquote (c # r' @ t) = r @ unquote t"
    using c by (subst unquote.simps) (simp add: at r)
  then show ?thesis by (simp add: r)
qed

lemma unquote_separator: "unquote (BACKSLASH # ''u202'' @ d # t) = utf8_encode (0x2020 + k) @ unquote t"
  if "hex_value d = Some k" "k < 16"
proof -
  have "hex_value (CHR ''0'') = Some 0" "hex_value (CHR ''2'') = Some 2" by (simp_all add: hex_value_def)
  then show ?thesis using that by (subst unquote.simps) (simp add: hex4_def)
qed

lemma separator_rune:
  assumes "utf8_rune r" and "rune_value (map char_code r) = v" and "0x2000 \<le> v" and "v < 0x3000"
  shows "r = utf8_encode v"
proof -
  have "\<exists>a b c. r = [a, b, c]"
    using assms
  proof (induction r rule: utf8_rune.induct)
    case (2 a b)
    then have "char_code a mod 32 * 64 + char_code b mod 64 = v" by simp
    moreover have "char_code a mod 32 < 32" "char_code b mod 64 < 64" by simp_all
    ultimately have "v < 2048" by linarith
    then show ?case using 2 by simp
  next
    case (4 a b c d)
    let ?a = "char_code a mod 8" and ?b = "char_code b mod 64"
    have v: "?a * 262144 + ?b * 4096 + char_code c mod 64 * 64 + char_code d mod 64 = v" using 4 by simp
    have "char_code a \<noteq> 240 \<Longrightarrow> 240 < char_code a \<and> char_code a \<le> 244"
      and "char_code a = 240 \<Longrightarrow> 144 \<le> char_code b" and "128 \<le> char_code b \<and> char_code b < 192"
      using 4(1) by (auto simp: in_range_def)
    then have "char_code a \<noteq> 240 \<longrightarrow> 1 \<le> ?a" "char_code a = 240 \<longrightarrow> 16 \<le> ?b"
      using lead_bits [of "char_code a"] low_six [of "char_code b"] by (auto, linarith?)
    then have "0x10000 \<le> v" using v by (cases "char_code a = 240") linarith+
    then show ?case using 4 by simp
  qed (auto simp: in_range_def)
  then show ?thesis using three_byte_encode assms by fastforce
qed

lemma unquote_rune:
  assumes "utf8_rune r" and "\<not> (\<exists>c. r = [c])"
  shows "unquote (marshal_rune r @ t) = r @ unquote t"
proof -
  have "hex_value (CHR ''8'') = Some 8" "hex_value (CHR ''9'') = Some 9" by (simp_all add: hex_value_def)
  note u = this [THEN unquote_separator, simplified]
  show ?thesis
    using u [of t] separator_rune [OF assms(1)] unquote_long [OF assms, of t]
    by (auto simp: marshal_rune_def Let_def)
qed

text \<open>A valid string is a sequence of code points, each written and read on its own.\<close>

lemma lex_marshal_runes:
  "list_all utf8_rune rs \<Longrightarrow>
   lex (InStr w a) (marshal_body (concat rs) @ t) = lex (InStr w (a @ marshal_body (concat rs))) t"
proof (induction rs arbitrary: a)
  case Nil
  then show ?case by (simp add: marshal_body.simps)
next
  case (Cons r rs)
  show ?case
  proof (cases "\<exists>c. r = [c]")
    case True
    then obtain c where r: "r = [c]" by blast
    then have c: "char_code c < 128" using Cons.prems byte_char by simp
    show ?thesis using Cons by (simp add: r marshal_body_ascii [OF c] lex_ascii [OF c])
  next
    case False
    then show ?thesis using Cons by (simp add: marshal_body_long lex_rune)
  qed
qed

lemma unquote_marshal_runes: "list_all utf8_rune rs \<Longrightarrow> unquote (marshal_body (concat rs)) = concat rs"
proof (induction rs)
  case Nil
  then show ?case by (simp add: marshal_body.simps unquote.simps)
next
  case (Cons r rs)
  show ?case
  proof (cases "\<exists>c. r = [c]")
    case True
    then obtain c where r: "r = [c]" by blast
    then have c: "char_code c < 128" using Cons.prems byte_char by simp
    show ?thesis using Cons by (simp add: r marshal_body_ascii [OF c] unquote_ascii [OF c])
  next
    case False
    then show ?thesis using Cons by (simp add: marshal_body_long unquote_rune)
  qed
qed

lemma lex_marshal:
  "valid_utf8 s \<Longrightarrow> lex (InStr w []) (marshal_body s @ QUOTE # t) =
     map_option ((#) (w, Str (marshal_body s))) (lex (Between []) t)"
  by (auto simp: valid_utf8_def lex_marshal_runes)

lemma unquote_marshal: "valid_utf8 s \<Longrightarrow> unquote (marshal_body s) = s"
  by (auto simp: valid_utf8_def unquote_marshal_runes)

text \<open>Any valid UTF-8 string that is written as JSON is read back as the same string.\<close>

theorem string_roundtrip:
  assumes "valid_utf8 s"
  shows "Unmarshal dec_string old (marshal_string s) = Some s"
proof -
  have "lex (Between []) (marshal_string s) = Some [([], Str (marshal_body s))]"
    using lex_marshal [OF assms, of "[]" "[]"] by (simp add: marshal_string_def json_space_def)
  then show ?thesis
    by (simp add: Unmarshal_def parse_json_def parse_step_def begin_value_def dec_string_def unquote_marshal [OF assms])
qed

theorem string_roundtrip_witness: "Unmarshal dec_string [] (marshal_string ''a<b'') = Some ''a<b''"
proof (rule string_roundtrip)
  have "list_all utf8_rune [''a'', ''<'', ''b''] \<and> ''a<b'' = concat [''a'', ''<'', ''b'']" by (simp add: in_range_def)
  then show "valid_utf8 ''a<b''" unfolding valid_utf8_def by blast
qed

end
