(* ===== verification/LlmProps.thy ===== *)
theory LlmProps
  imports LlmParser JsonProps
begin

text \<open>
  What the parser of LLM traffic guarantees: a streamed OpenAI response is assembled to the text and
  the tool calls of its chunks, and to what the same response read in one piece gives; the counts it
  reports are machine integers; and the extraction of text ends.
\<close>

section \<open>Assembling an OpenAI stream\<close>

definition feed_chunks :: "string list \<Rightarrow> stream_assembler \<Rightarrow> stream_assembler" where
  "feed_chunks ds a = foldl (\<lambda>a d. snd (Feed_chunk d a)) a ds"

lemma feed_chunks_simps [simp]:
  "feed_chunks [] a = a" "feed_chunks (d # ds) a = feed_chunks ds (snd (Feed_chunk d a))"
  by (simp_all add: feed_chunks_def)

text \<open>The chunks that count: not the final sentinel, and readable.\<close>

definition chunks_of_stream :: "string list \<Rightarrow> openai_response list" where
  "chunks_of_stream ds = List.map_filter decode_openai_chunk (filter (\<lambda>d. trim_space d \<noteq> ''[DONE]'') ds)"

definition first_choice :: "openai_response \<Rightarrow> choice" where
  "first_choice c = (case or_Choices c of [] \<Rightarrow> no_choice | ch # _ \<Rightarrow> ch)"

definition calls_of_stream :: "string list \<Rightarrow> raw_call list" where
  "calls_of_stream ds = concat (map (ch_ToolCalls \<circ> first_choice) (chunks_of_stream ds))"

lemma feedOpenAI_effect:
  assumes "decode_openai_chunk d = Some c"
  shows "sa_content (snd (feedOpenAI d a)) = sa_content a @ ch_Content (first_choice c)"
    and "sa_toolCalls (snd (feedOpenAI d a)) = foldl feed_call (sa_toolCalls a) (ch_ToolCalls (first_choice c))"
    and "sa_provider (snd (feedOpenAI d a)) = sa_provider a"
  using assms
  by (auto simp: feedOpenAI_def first_choice_def no_choice_def set_usage_def Let_def split: list.split option.split)

lemma Feed_chunk_openai:
  assumes "sa_provider a \<noteq> ProviderAnthropic" and "sa_provider a \<noteq> ProviderGemini"
  shows "sa_content (snd (Feed_chunk d a)) = sa_content a @ concat (map (ch_Content \<circ> first_choice) (chunks_of_stream [d]))"
    and "sa_toolCalls (snd (Feed_chunk d a)) = foldl feed_call (sa_toolCalls a) (calls_of_stream [d])"
    and "sa_provider (snd (Feed_chunk d a)) = sa_provider a"
  using assms feedOpenAI_effect [of d _ a]
  by (auto simp: Feed_chunk_def chunks_of_stream_def calls_of_stream_def feedOpenAI_def map_filter_simps
      split: option.split)

lemma chunks_of_stream_Cons: "chunks_of_stream (d # ds) = chunks_of_stream [d] @ chunks_of_stream ds"
  by (auto simp: chunks_of_stream_def map_filter_simps split: option.split)

lemma feed_chunks_openai:
  assumes "sa_provider a \<noteq> ProviderAnthropic" and "sa_provider a \<noteq> ProviderGemini"
  shows "sa_content (feed_chunks ds a) = sa_content a @ concat (map (ch_Content \<circ> first_choice) (chunks_of_stream ds)) \<and>
    sa_toolCalls (feed_chunks ds a) = foldl feed_call (sa_toolCalls a) (calls_of_stream ds)"
  using assms
proof (induction ds arbitrary: a)
  case Nil
  then show ?case by (simp add: chunks_of_stream_def calls_of_stream_def map_filter_simps)
next
  case (Cons d ds)
  have "calls_of_stream (d # ds) = calls_of_stream [d] @ calls_of_stream ds"
    unfolding calls_of_stream_def chunks_of_stream_Cons [of d ds] by simp
  then show ?case
    using Cons.IH [of "snd (Feed_chunk d a)"] Cons.prems
    by (simp add: Feed_chunk_openai chunks_of_stream_Cons [of d ds] comp_def)
qed

text \<open>The calls of a stream: one slot per index up to 64, holding the pieces sent for it.\<close>

lemma feed_call_length:
  "length calls \<le> 65 \<Longrightarrow> length (feed_call calls tc) \<le> 65"
  by (auto simp: feed_call_def Let_def)

lemma feed_calls_length: "length calls \<le> 65 \<Longrightarrow> length (foldl feed_call calls tcs) \<le> 65"
  by (induction tcs arbitrary: calls) (simp_all add: feed_call_length)

definition call_arguments :: "tool_call list \<Rightarrow> nat \<Rightarrow> string" where
  "call_arguments calls i = (if i < length calls then tc_Arguments (calls ! i) else [])"

lemma feed_call_arguments:
  "i \<le> 64 \<Longrightarrow> call_arguments (feed_call calls tc) i =
     call_arguments calls i @ (if rc_Index tc = int i then rc_Arguments tc else [])"
proof -
  assume i: "i \<le> 64"
  show ?thesis
  proof (cases "rc_Index tc < 0 \<or> 64 < rc_Index tc")
    case True
    then show ?thesis using i by (auto simp: feed_call_def)
  next
    case False
    define idx where "idx = nat (rc_Index tc)"
    define more where "more = calls @ replicate (idx + 1 - length calls) no_call"
    have len: "idx < length more" by (simp add: more_def)
    have rc: "rc_Index tc = int idx" using False by (simp add: idx_def)
    have pad: "call_arguments more j = call_arguments calls j" for j
      by (auto simp: call_arguments_def more_def nth_append no_call_def)
    obtain c where c: "feed_call calls tc = more[idx := c]" "tc_Arguments c = tc_Arguments (more ! idx) @ rc_Arguments tc"
      using False by (auto simp: feed_call_def Let_def idx_def more_def)
    have "call_arguments (feed_call calls tc) i = call_arguments more i @ (if i = idx then rc_Arguments tc else [])"
      using len by (auto simp: call_arguments_def c nth_list_update)
    then show ?thesis using rc by (auto simp: pad)
  qed
qed

lemma feed_calls_arguments:
  "i \<le> 64 \<Longrightarrow> call_arguments (foldl feed_call calls tcs) i =
     call_arguments calls i @ concat (map rc_Arguments (filter (\<lambda>tc. rc_Index tc = int i) tcs))"
  by (induction tcs arbitrary: calls) (simp_all add: feed_call_arguments)



section \<open>A stream and the same response in one piece\<close>

definition quoted :: "string \<Rightarrow> string" where
  "quoted k = QUOTE # k @ [QUOTE]"

text \<open>A response whose only choice has a text, under the key of a message or of a delta.\<close>

definition text_body :: "string \<Rightarrow> string \<Rightarrow> string" where
  "text_body key text =
     ''{'' @ quoted ''choices'' @ '':[{'' @ quoted key @ '':{'' @ quoted ''content'' @ '':'' @
     marshal_string text @ ''}}]}''"

lemma lex_text_body:
  assumes "valid_utf8 text" and "key \<in> {''message'', ''delta''}"
  shows "lex (Between []) (text_body key text) = Some (map (Pair [])
    [Punct (CHR ''{''), Str ''choices'', Punct (CHR '':''), Punct (CHR ''[''), Punct (CHR ''{''), Str key,
     Punct (CHR '':''), Punct (CHR ''{''), Str ''content'', Punct (CHR '':''), Str (marshal_body text),
     Punct (CHR ''}''), Punct (CHR ''}''), Punct (CHR '']''), Punct (CHR ''}'')])"
  using assms
  by (auto simp: text_body_def quoted_def marshal_string_def json_space_def json_punct_def lex_marshal)

lemma unquote_keys:
  "unquote ''choices'' = ''choices''" "unquote ''message'' = ''message''" "unquote ''delta'' = ''delta''"
  "unquote ''content'' = ''content''"
  by (simp_all add: unquote.simps)

lemma parse_text_body:
  assumes "valid_utf8 text" and "key \<in> {''message'', ''delta''}"
  shows "\<exists>j r1 r2 r3 r4. parse_json (text_body key text) = Some j \<and>
    json_val j = JObj [(''choices'', Json r1 (JArr [Json r2 (JObj [(key, Json r3 (JObj
      [(''content'', Json r4 (JStr text))]))])]))]"
  using assms(2)
  by (auto simp: parse_json_def lex_text_body [OF assms] parse_step_def begin_value_def read_key_def comma_def
      maxNestingDepth_def unquote_keys unquote_marshal [OF assms(1)] Let_def)

lemma fold_keys:
  "fold_name ''choices'' = ''choices''" "fold_name ''message'' = ''message''" "fold_name ''delta'' = ''delta''"
  "fold_name ''content'' = ''content''" "fold_name ''model'' = ''model''" "fold_name ''usage'' = ''usage''"
  "fold_name ''tool_calls'' = ''tool_calls''" "fold_name ''finish_reason'' = ''finish_reason''"
  by (simp_all add: fold_name.simps lower_char_def)

lemma decode_text_body:
  assumes "valid_utf8 text" and "key \<in> {''message'', ''delta''}"
  shows "Unmarshal (dec_struct (openai_response_fields (choice_fields key cfs))) no_openai_response (text_body key text) =
    Some (no_openai_response\<lparr>or_Choices := [no_choice\<lparr>ch_Content := text\<rparr>]\<rparr>)"
proof -
  obtain j r1 r2 r3 r4 where j: "parse_json (text_body key text) = Some j"
    and v: "json_val j = JObj [(''choices'', Json r1 (JArr [Json r2 (JObj [(key, Json r3 (JObj
      [(''content'', Json r4 (JStr text))]))])]))]"
    using parse_text_body [OF assms] by blast
  show ?thesis
    using assms(2)
    by (auto simp: Unmarshal_def j v dec_struct_def openai_response_fields_def choice_fields_def field_def fold_keys
        dec_slice_def dec_string_def no_openai_response_def no_choice_def)
qed

lemma valid_utf8_append: "valid_utf8 s \<Longrightarrow> valid_utf8 t \<Longrightarrow> valid_utf8 (s @ t)"
  unfolding valid_utf8_def by (metis concat_append list_all_append)

lemma valid_utf8_all: "\<forall>t \<in> set ts. valid_utf8 t \<Longrightarrow> valid_utf8 (concat ts)"
proof (induction ts)
  case Nil
  then show ?case unfolding valid_utf8_def by (intro exI [of _ "[]"]) simp
qed (simp add: valid_utf8_append)

lemma provider_protocols:
  "ProtocolFor ProviderAnthropic = ParseAnthropic" "ProtocolFor ProviderGemini = ParseGemini"
  "ProtocolFor ProviderOpenAI = ParseOpenAI"
  by code_simp+

lemma trim_space_id:
  assumes "s \<noteq> []" and "\<not> is_space_char (hd s)" and "\<not> is_space_char (last s)"
  shows "trim_space s = s"
proof -
  have "dropWhile is_space_char s = s" using assms(1,2) by (cases s) auto
  moreover have "dropWhile is_space_char (rev s) = rev s"
    using assms(1,3) by (cases s rule: rev_cases) auto
  ultimately show ?thesis by (simp add: trim_space_def trim_left_def trim_right_def)
qed

lemma text_body_not_done: "trim_space (text_body key text) \<noteq> ''[DONE]''"
proof -
  have "trim_space (text_body key text) = text_body key text"
    by (rule trim_space_id) (simp_all add: text_body_def is_space_char_def)
  then show ?thesis by (simp add: text_body_def)
qed

lemma feed_text_chunk:
  assumes "valid_utf8 t" and "sa_provider a \<noteq> ProviderAnthropic" and "sa_provider a \<noteq> ProviderGemini"
  shows "snd (Feed_chunk (text_body ''delta'' t) a) = a\<lparr>sa_content := sa_content a @ t\<rparr>"
proof -
  have "decode_openai_chunk (text_body ''delta'' t) =
      Some (no_openai_response\<lparr>or_Choices := [no_choice\<lparr>ch_Content := t\<rparr>]\<rparr>)"
    unfolding decode_openai_chunk_def by (rule decode_text_body [OF assms(1)]) simp
  then show ?thesis
    using assms(2,3) text_body_not_done
    by (simp add: Feed_chunk_def feedOpenAI_def no_openai_response_def no_choice_def)
qed

lemma feed_text_chunks:
  assumes "sa_provider a \<noteq> ProviderAnthropic" and "sa_provider a \<noteq> ProviderGemini"
  shows "\<forall>t \<in> set ts. valid_utf8 t \<Longrightarrow>
    feed_chunks (map (text_body ''delta'') ts) a = a\<lparr>sa_content := sa_content a @ concat ts\<rparr>"
  using assms
proof (induction ts arbitrary: a)
  case (Cons t ts)
  then show ?case using Cons.IH [of "a\<lparr>sa_content := sa_content a @ t\<rparr>"] by (simp add: feed_text_chunk)
qed simp

text \<open>C24: A text that a server streams in pieces, cut anywhere between characters, is recorded exactly
  as when the server sends the whole text in one response.\<close>

theorem stream_equals_whole:
  assumes "\<forall>t \<in> set ts. valid_utf8 t" and "ProtocolFor p = ParseOpenAI"
  shows "ParseResponse p (text_body ''message'' (concat ts)) =
    Some (Result (feed_chunks (map (text_body ''delta'') ts) (NewStreamAssembler p)))"
proof -
  have p: "p \<noteq> ProviderAnthropic" "p \<noteq> ProviderGemini"
    using assms(2) provider_protocols by auto
  have whole: "parseOpenAIResponse (text_body ''message'' (concat ts)) = Some (no_response\<lparr>rs_Content := concat ts\<rparr>)"
    using decode_text_body [OF valid_utf8_all [OF assms(1)], of "''message''" call_fields]
    by (simp add: parseOpenAIResponse_def no_openai_response_def no_choice_def no_response_def with_usage_def)
  have "text_body ''message'' (concat ts) \<noteq> []" by (simp add: text_body_def)
  then have "ParseResponse p (text_body ''message'' (concat ts)) = Some (no_response\<lparr>rs_Content := concat ts\<rparr>)"
    using assms(2) whole by (simp add: ParseResponse_def)
  moreover have "Result (feed_chunks (map (text_body ''delta'') ts) (NewStreamAssembler p)) =
      no_response\<lparr>rs_Content := concat ts\<rparr>"
    using feed_text_chunks [of "NewStreamAssembler p" ts] p assms(1)
    by (simp add: NewStreamAssembler_def Result_def no_response_def)
  ultimately show ?thesis by simp
qed

theorem stream_equals_whole_witness:
  "ParseResponse ProviderOpenAI (text_body ''message'' (concat [''He'', ''llo''])) =
    Some (Result (feed_chunks (map (text_body ''delta'') [''He'', ''llo'']) (NewStreamAssembler ProviderOpenAI)))"
proof (rule stream_equals_whole)
  have "valid_utf8 (concat [''H'', ''e''])" "valid_utf8 (concat [''l'', ''l'', ''o''])"
    by (rule valid_utf8_concat; simp add: in_range_def)+
  then show "\<forall>t \<in> set [''He'', ''llo'']. valid_utf8 t" by simp
qed (rule provider_protocols)

section \<open>Counts are machine integers\<close>

definition int64 :: "int \<Rightarrow> bool" where
  "int64 i \<longleftrightarrow> - (2 ^ 63) \<le> i \<and> i < 2 ^ 63"

definition usage_ok :: "usage \<Rightarrow> bool" where
  "usage_ok u \<longleftrightarrow> int64 (us_Prompt u) \<and> int64 (us_Completion u) \<and> int64 (us_Total u)"

lemma dec_int_keeps: "dec_int j old = Some i \<Longrightarrow> int64 old \<Longrightarrow> int64 i"
  by (auto simp: dec_int_def parse_int64_def int64_def Let_def split: jval.splits if_splits)

lemma dec_struct_keeps:
  assumes "\<And>f g. f \<in> set fs \<Longrightarrow> keeps P g (snd f)"
  shows "keeps P j (dec_struct fs)"
  unfolding keeps_def
proof (intro allI impI)
  fix x x' assume x: "P x" and d: "dec_struct fs j x = Some x'"
  show "P x'"
  proof (cases "json_val j")
    case (JObj ms)
    then have "dec_members fs ms x = Some x'" using d by (simp add: dec_struct_def)
    then show ?thesis by (rule dec_members_keep [where P = P, OF _ x]) (simp add: assms)
  qed (use x d in \<open>auto simp: dec_struct_def\<close>)
qed

lemma usage_fields_keep:
  "f \<in> set (usage_fields a b @ [total_field c]) \<Longrightarrow> keeps usage_ok g (snd f)"
  by (auto simp: keeps_def usage_fields_def total_field_def field_def usage_ok_def elim!: dec_int_keeps)

definition opt_ok :: "('a \<Rightarrow> bool) \<Rightarrow> 'a option \<Rightarrow> bool" where
  "opt_ok P x \<longleftrightarrow> (case x of None \<Rightarrow> True | Some y \<Rightarrow> P y)"

lemma dec_usage_keeps:
  assumes "set fs \<subseteq> set (usage_fields a b @ [total_field c])"
  shows "dec_usage fs j old = Some u \<Longrightarrow> opt_ok usage_ok old \<Longrightarrow> opt_ok usage_ok u"
proof -
  assume d: "dec_usage fs j old = Some u" and old: "opt_ok usage_ok old"
  have z: "usage_ok no_usage" by (simp add: usage_ok_def no_usage_def int64_def)
  have k: "keeps usage_ok j (dec_struct fs)"
    using assms by (intro dec_struct_keeps usage_fields_keep [of _ a b c]) blast
  show ?thesis
    using d old z keepsD [OF k]
    by (auto simp: dec_usage_def dec_ptr_def opt_ok_def split: if_splits option.splits)
qed

definition counts_ok :: "response_info \<Rightarrow> bool" where
  "counts_ok r \<longleftrightarrow> int64 (rs_PromptTokens r) \<and> int64 (rs_CompletionTokens r) \<and> int64 (rs_TotalTokens r)"

lemma int64_0 [simp]: "int64 0"
  by (simp add: int64_def)

lemma int64_wrap [simp]: "int64 (wrap64 x)"
  using wrap64_bounds [of x] by (simp add: int64_def)

lemma no_response_ok [simp]: "counts_ok no_response"
  by (simp add: counts_ok_def no_response_def)

text \<open>A decoded message keeps the bound when its usage field does.\<close>

lemma Unmarshal_keeps:
  assumes "Unmarshal (dec_struct fs) z data = Some r" and "P z" and "\<And>f g. f \<in> set fs \<Longrightarrow> keeps P g (snd f)"
  shows "P r"
  using assms(1) keepsD [OF dec_struct_keeps [of fs P] assms(2)] assms(3)
  by (auto simp: Unmarshal_def split: option.splits)

lemma openai_usage_ok:
  assumes "Unmarshal (dec_struct (openai_response_fields cfs)) no_openai_response data = Some r"
  shows "opt_ok usage_ok (or_Usage r)"
proof (rule Unmarshal_keeps [OF assms, where P = "\<lambda>r. opt_ok usage_ok (or_Usage r)"])
  fix f g assume "f \<in> set (openai_response_fields cfs)"
  then show "keeps (\<lambda>r. opt_ok usage_ok (or_Usage r)) g (snd f)"
    by (auto simp: keeps_def openai_response_fields_def field_def openai_usage_def elim!: dec_usage_keeps [OF order_refl])
qed (simp add: no_openai_response_def opt_ok_def)

lemma two_usage_ok: "dec_usage (usage_fields a b) j old = Some u \<Longrightarrow> opt_ok usage_ok old \<Longrightarrow> opt_ok usage_ok u"
  by (rule dec_usage_keeps [of _ a b a]) auto

lemma anthropic_usage_ok:
  assumes "Unmarshal (dec_struct anthropic_response_fields) \<lparr>ar_Model = [], ar_Content = [], ar_StopReason = [], ar_Usage = None\<rparr>
    data = Some r"
  shows "opt_ok usage_ok (ar_Usage r)"
proof (rule Unmarshal_keeps [OF assms, where P = "\<lambda>r. opt_ok usage_ok (ar_Usage r)"])
  fix f g assume "f \<in> set anthropic_response_fields"
  then show "keeps (\<lambda>r. opt_ok usage_ok (ar_Usage r)) g (snd f)"
    by (auto simp: keeps_def anthropic_response_fields_def field_def elim!: two_usage_ok)
qed (simp add: opt_ok_def)

lemma gemini_fields_keep: "f \<in> set gemini_response_fields \<Longrightarrow> keeps (\<lambda>r. opt_ok usage_ok (ge_Usage r)) g (snd f)"
  by (auto simp: keeps_def gemini_response_fields_def field_def gemini_usage_def elim!: dec_usage_keeps [OF order_refl])

lemma no_gemini_usage: "opt_ok usage_ok (ge_Usage no_gemini_response)"
  by (simp add: no_gemini_response_def opt_ok_def)

lemma gemini_usage_ok:
  "Unmarshal (dec_struct gemini_response_fields) no_gemini_response data = Some r \<Longrightarrow> opt_ok usage_ok (ge_Usage r)"
  by (rule Unmarshal_keeps [where P = "\<lambda>r. opt_ok usage_ok (ge_Usage r)"])
     (auto simp: no_gemini_usage intro: gemini_fields_keep)

lemma gemini_usages_ok:
  assumes "Unmarshal (dec_slice (dec_struct gemini_response_fields) no_gemini_response) [] data = Some rs"
  shows "list_all (\<lambda>r. opt_ok usage_ok (ge_Usage r)) rs"
proof -
  obtain j where d: "dec_slice (dec_struct gemini_response_fields) no_gemini_response j [] = Some rs"
    using assms by (auto simp: Unmarshal_def split: option.splits)
  show ?thesis
  proof (cases "json_val j")
    case (JArr js)
    then have "dec_elements (dec_struct gemini_response_fields) no_gemini_response js [] = Some rs"
      using d by (simp add: dec_slice_def)
    then show ?thesis
      by (rule dec_elements_keep) (auto simp: no_gemini_usage intro!: dec_struct_keeps gemini_fields_keep)
  qed (use d in \<open>auto simp: dec_slice_def\<close>)
qed

lemma with_usage_ok:
  "opt_ok usage_ok u \<Longrightarrow> rs_PromptTokens r = 0 \<Longrightarrow> rs_CompletionTokens r = 0 \<Longrightarrow> rs_TotalTokens r = 0 \<Longrightarrow>
   (\<And>u. usage_ok u \<Longrightarrow> int64 (tot u)) \<Longrightarrow> counts_ok (with_usage u tot r)"
  by (auto simp: with_usage_def opt_ok_def counts_ok_def usage_ok_def split: option.splits)

lemma ParseResponse_counts: "pred_option counts_ok (ParseResponse p body)"
proof -
  have "pred_option counts_ok (parseOpenAIResponse body)"
    by (auto simp: parseOpenAIResponse_def Let_def usage_ok_def no_response_def
        intro!: with_usage_ok dest!: openai_usage_ok split: option.splits list.splits)
  moreover have "pred_option counts_ok (parseAnthropicResponse body)"
    by (auto simp: parseAnthropicResponse_def no_response_def
        intro!: with_usage_ok dest!: anthropic_usage_ok split: option.splits)
  moreover have "pred_option counts_ok (parseGeminiResponse body)"
    by (auto simp: parseGeminiResponse_def usage_ok_def no_response_def
        intro!: with_usage_ok dest!: gemini_usage_ok split: option.splits list.splits)
  ultimately show ?thesis by (auto simp: ParseResponse_def split: parse_protocol.split)
qed

text \<open>The usage of a stream.\<close>

definition sa_ok :: "stream_assembler \<Rightarrow> bool" where
  "sa_ok a \<longleftrightarrow> opt_ok counts_ok (sa_usage a)"

lemma sa_ok_updates [simp]:
  "sa_ok (a\<lparr>sa_model := m\<rparr>) = sa_ok a" "sa_ok (a\<lparr>sa_content := c\<rparr>) = sa_ok a" "sa_ok (a\<lparr>sa_finish := f\<rparr>) = sa_ok a"
  "sa_ok (a\<lparr>sa_toolCalls := t\<rparr>) = sa_ok a"
  by (simp_all add: sa_ok_def)

lemma set_usage_ok: "sa_ok a \<Longrightarrow> (\<And>r. counts_ok r \<Longrightarrow> counts_ok (f r)) \<Longrightarrow> sa_ok (set_usage f a)"
  by (auto simp: sa_ok_def set_usage_def opt_ok_def split: option.splits)

lemma set_counts_ok: "usage_ok u \<Longrightarrow> counts_ok r \<Longrightarrow> counts_ok (set_counts u r)"
  by (simp add: counts_ok_def usage_ok_def set_counts_def)

lemma feedOpenAI_ok: "sa_ok a \<Longrightarrow> sa_ok (snd (feedOpenAI d a))"
  by (auto simp: feedOpenAI_def decode_openai_chunk_def Let_def opt_ok_def
      intro!: set_usage_ok set_counts_ok dest!: openai_usage_ok split: option.splits list.splits)

lemma part_usage_ok:
  "dec_usage [field k us_Prompt us_Prompt_update dec_int] j old = Some u \<Longrightarrow> opt_ok usage_ok old \<Longrightarrow> opt_ok usage_ok u"
  "dec_usage [field k us_Completion us_Completion_update dec_int] j old = Some u \<Longrightarrow> opt_ok usage_ok old \<Longrightarrow> opt_ok usage_ok u"
  using dec_usage_keeps [of "[field k us_Prompt us_Prompt_update dec_int]" k k k]
    dec_usage_keeps [of "[field k us_Completion us_Completion_update dec_int]" k k k]
  by (auto simp: usage_fields_def)

lemma message_start_ok:
  assumes "Unmarshal (dec_struct message_start_fields) \<lparr>ms_Model = [], ms_Usage = None\<rparr> data = Some ev"
  shows "opt_ok usage_ok (ms_Usage ev)"
proof (rule Unmarshal_keeps [OF assms, where P = "\<lambda>r. opt_ok usage_ok (ms_Usage r)"])
  let ?P = "\<lambda>r. opt_ok usage_ok (ms_Usage r)"
    and ?fs = "[field ''model'' ms_Model ms_Model_update dec_string,
       field ''usage'' ms_Usage ms_Usage_update (dec_usage [field ''input_tokens'' us_Prompt us_Prompt_update dec_int])]"
  have inner: "keeps ?P g (snd h)" if "h \<in> set ?fs" for g h
    using that by (auto simp: keeps_def field_def elim!: part_usage_ok [unfolded field_def])
  fix f g assume "f \<in> set message_start_fields"
  then have "snd f = dec_struct ?fs" by (simp add: message_start_fields_def)
  then show "keeps ?P g (snd f)" using dec_struct_keeps [of ?fs ?P, OF inner] by simp
qed (simp add: opt_ok_def)

lemma message_delta_ok:
  assumes "Unmarshal (dec_struct message_delta_fields) ([], None) data = Some ev"
  shows "opt_ok usage_ok (snd ev)"
proof (rule Unmarshal_keeps [OF assms, where P = "\<lambda>r. opt_ok usage_ok (snd r)"])
  fix f g assume "f \<in> set message_delta_fields"
  then show "keeps (\<lambda>r. opt_ok usage_ok (snd r)) g (snd f)"
    by (auto simp: keeps_def message_delta_fields_def field_def elim!: part_usage_ok [unfolded field_def])
qed (simp add: opt_ok_def)

lemma feedAnthropic_ok:
  assumes "sa_ok a"
  shows "sa_ok (snd (feedAnthropic d a))"
proof -
  have "sa_ok (on_message_start d a)" for d
    using assms by (auto simp: on_message_start_def counts_ok_def usage_ok_def opt_ok_def intro!: set_usage_ok
        dest!: message_start_ok split: option.splits)
  moreover have "sa_ok (on_message_delta d a)" for d
    using assms by (auto simp: on_message_delta_def Let_def counts_ok_def usage_ok_def opt_ok_def intro!: set_usage_ok
        dest!: message_delta_ok split: option.splits)
  moreover have "sa_ok (on_block_start d a)" "sa_ok (on_block_delta d a)" for d
    using assms by (auto simp: on_block_start_def on_block_delta_def split: option.splits)
  ultimately show ?thesis using assms by (auto simp: feedAnthropic_def split: option.splits prod.splits)
qed

lemma process_chunk_ok: "sa_ok a \<Longrightarrow> opt_ok usage_ok (ge_Usage ch) \<Longrightarrow> sa_ok (process_chunk a ch)"
proof -
  have "sa_ok a \<Longrightarrow> sa_ok (foldl process_candidate a cs)" for a cs
    by (induction cs arbitrary: a) (simp_all add: process_candidate_def Let_def)
  then show "sa_ok a \<Longrightarrow> opt_ok usage_ok (ge_Usage ch) \<Longrightarrow> sa_ok (process_chunk a ch)"
    by (auto simp: process_chunk_def Let_def opt_ok_def intro!: set_usage_ok set_counts_ok split: option.splits)
qed

lemma process_chunks_ok:
  "sa_ok a \<Longrightarrow> list_all (\<lambda>r. opt_ok usage_ok (ge_Usage r)) chs \<Longrightarrow> sa_ok (foldl process_chunk a chs)"
  by (induction chs arbitrary: a) (simp_all add: process_chunk_ok)

lemma feedGemini_ok: "sa_ok a \<Longrightarrow> sa_ok (snd (feedGemini d a))"
  by (auto simp: feedGemini_def intro!: process_chunks_ok process_chunk_ok
      dest!: gemini_usages_ok gemini_usage_ok split: option.splits)

lemma feed_chunks_ok: "sa_ok a \<Longrightarrow> sa_ok (feed_chunks ds a)"
  by (induction ds arbitrary: a) (simp_all add: Feed_chunk_def feedOpenAI_ok feedAnthropic_ok feedGemini_ok)

text \<open>Every token count the parser reports, of a whole response or of a stream, in any format, is a
  64-bit integer: numbers out of range are refused with the whole message, and sums wrap.\<close>

theorem counts_are_int64:
  "pred_option counts_ok (ParseResponse p body) \<and>
   counts_ok (Result (feed_chunks ds (NewStreamAssembler p)))"
proof -
  have "sa_ok (feed_chunks ds (NewStreamAssembler p))"
    by (rule feed_chunks_ok) (simp add: sa_ok_def NewStreamAssembler_def opt_ok_def)
  then have "counts_ok (Result (feed_chunks ds (NewStreamAssembler p)))"
    by (auto simp: Result_def Let_def sa_ok_def opt_ok_def counts_ok_def no_response_def split: option.splits)
  then show ?thesis using ParseResponse_counts by blast
qed

section \<open>The extraction of text ends\<close>

text \<open>
  The extraction with a budget of nested calls: \<^const>\<open>None\<close> when it is not enough.
\<close>

fun sequence_options :: "'a option list \<Rightarrow> 'a list option" where
  "sequence_options [] = Some []"
| "sequence_options (x # xs) =
     (case x of None \<Rightarrow> None | Some y \<Rightarrow> map_option ((#) y) (sequence_options xs))"

lemma sequence_options_map: "\<forall>x \<in> set xs. f x = Some (g x) \<Longrightarrow> sequence_options (map f xs) = Some (map g xs)"
  by (induction xs) auto

fun extract_within :: "nat \<Rightarrow> string \<Rightarrow> string option" where
  "extract_within 0 raw = None"
| "extract_within (Suc n) raw =
     (if raw = [] then Some []
      else case Unmarshal dec_string [] raw of
        Some s \<Rightarrow> Some s
      | None \<Rightarrow>
          (case Unmarshal dec_parts [] raw of
             Some parts \<Rightarrow>
               map_option (foldl join_segment [])
                 (sequence_options (map (\<lambda>p. if cp_Type p = ''tool_result'' then extract_within n (cp_Content p)
                                             else Some (cp_Text p)) parts))
           | None \<Rightarrow> Some []))"

text \<open>C40: Extracting the text of a message ends, whatever the bytes: a nested tool result is a proper
  part of the text it is in, so that more calls than the text has bytes are never nested.\<close>

theorem extraction_ends:
  "extract_within (length raw + 1 + n) raw = Some (extractTextContent raw)"
proof (induction raw arbitrary: n rule: extractTextContent.induct)
  case (1 raw)
  show ?case
  proof (cases "raw = [] \<or> Unmarshal dec_string [] raw \<noteq> None \<or> Unmarshal dec_parts [] raw = None")
    case True
    then show ?thesis by (subst extractTextContent.simps) (auto split: option.split)
  next
    case False
    then obtain parts where p: "Unmarshal dec_parts [] raw = Some parts" by auto
    let ?f = "\<lambda>p. if cp_Type p = ''tool_result'' then extract_within (length raw + n) (cp_Content p) else Some (cp_Text p)"
    let ?g = "\<lambda>p. if cp_Type p = ''tool_result'' then extractTextContent (cp_Content p) else cp_Text p"
    have "?f x = Some (?g x)" if x: "x \<in> set parts" for x
    proof (cases "cp_Type x = ''tool_result''")
      case True
      define k where "k = length raw + n - (length (cp_Content x) + 1)"
      have "length (cp_Content x) < length raw" using part_content_shorter [OF p _ x] False by blast
      then have "length raw + n = length (cp_Content x) + 1 + k" by (simp add: k_def)
      then show ?thesis using 1 [of parts x k] False p x True by (simp del: extract_within.simps)
    qed simp
    then have "sequence_options (map ?f parts) = Some (map ?g parts)" by (intro sequence_options_map) blast
    then show ?thesis
      using False p by (subst extractTextContent.simps) simp
  qed
qed

section \<open>Output tokens of an Anthropic stream\<close>

text \<open>The event that ends a message in the format Anthropic documents: the usage beside the delta.\<close>

definition message_delta_event :: string where
  "message_delta_event =
     ''{'' @ quoted ''type'' @ '':'' @ quoted ''message_delta'' @ '','' @
     quoted ''delta'' @ '':{'' @ quoted ''stop_reason'' @ '':'' @ quoted ''end_turn'' @ ''},'' @
     quoted ''usage'' @ '':{'' @ quoted ''output_tokens'' @ '':15}}''"

text \<open>The output tokens of an Anthropic stream are not recorded: the parser looks for the usage
  inside the delta of the event, and the API puts it beside the delta.\<close>

theorem anthropic_output_tokens_lost:
  "Feed_chunk message_delta_event (NewStreamAssembler ProviderAnthropic) =
    (True, (NewStreamAssembler ProviderAnthropic)\<lparr>sa_finish := ''end_turn''\<rparr>)"
  by code_simp

end
