(* ===== verification/LlmPricing.thy ===== *)
theory LlmPricing
  imports LlmProvider StoreText Complex_Main "HOL-Library.Multiset"
begin

text \<open>
  \<^verbatim>\<open>internal/llm/pricing.go\<close>, \<^verbatim>\<open>limits.go\<close> and \<^verbatim>\<open>estimate.go\<close>: the price and limit tables with
  their prefix lookup, the cost of an exchange, and the estimate of a token count. The Go maps are
  association lists, whose order stands for the order of iteration; prices and costs are exact
  rationals, where the code has 64-bit floats.
\<close>

section \<open>Tables\<close>

record model_pricing =
  mp_InputPerMTokens :: rat
  mp_OutputPerMTokens :: rat
  mp_CacheReadPerMTokens :: rat

record model_limits =
  ml_ContextLength :: int
  ml_MaxOutput :: int

abbreviation price :: "rat \<Rightarrow> rat \<Rightarrow> rat \<Rightarrow> model_pricing" where
  "price i out c \<equiv> \<lparr>mp_InputPerMTokens = i, mp_OutputPerMTokens = out, mp_CacheReadPerMTokens = c\<rparr>"

abbreviation limit :: "int \<Rightarrow> int \<Rightarrow> model_limits" where
  "limit c out \<equiv> \<lparr>ml_ContextLength = c, ml_MaxOutput = out\<rparr>"

definition pricingTable :: "(string \<times> model_pricing) list" where
  "pricingTable =
    [(''claude-3-5-haiku'', price (4 / 5) (4) (0)),
     (''claude-3-5-sonnet'', price (3) (15) (0)),
     (''claude-3-haiku'', price (1 / 4) (5 / 4) (0)),
     (''claude-3-opus'', price (15) (75) (0)),
     (''claude-3-sonnet'', price (3) (15) (0)),
     (''claude-fable-5'', price (10) (50) (1)),
     (''claude-haiku-4-5'', price (1) (5) (1 / 10)),
     (''claude-haiku-4-5-20251001'', price (1) (5) (1 / 10)),
     (''claude-opus-4-5'', price (5) (25) (1 / 2)),
     (''claude-opus-4-5-20251101'', price (5) (25) (1 / 2)),
     (''claude-opus-4-6'', price (5) (25) (1 / 2)),
     (''claude-opus-4-7'', price (5) (25) (1 / 2)),
     (''claude-opus-4-8'', price (5) (25) (1 / 2)),
     (''claude-opus-5'', price (5) (25) (1 / 2)),
     (''claude-sonnet-4-5'', price (3) (15) (3 / 10)),
     (''claude-sonnet-4-5-20250929'', price (3) (15) (3 / 10)),
     (''claude-sonnet-4-6'', price (3) (15) (3 / 10)),
     (''claude-sonnet-5'', price (2) (10) (1 / 5)),
     (''deepseek-chat'', price (7 / 50) (7 / 25) (7 / 2500)),
     (''deepseek-r1'', price (11 / 20) (219 / 100) (7 / 50)),
     (''deepseek-reasoner'', price (7 / 50) (7 / 25) (7 / 2500)),
     (''deepseek-v3.1'', price (7 / 25) (21 / 50) (7 / 250)),
     (''deepseek-v3.2'', price (7 / 25) (21 / 50) (7 / 250)),
     (''deepseek-v4-flash'', price (7 / 50) (7 / 25) (7 / 2500)),
     (''deepseek-v4-pro'', price (87 / 200) (87 / 100) (29 / 8000)),
     (''gemini-1.5-flash'', price (3 / 40) (3 / 10) (0)),
     (''gemini-1.5-pro'', price (5 / 4) (5) (0)),
     (''gemini-2.0-flash'', price (1 / 10) (2 / 5) (0)),
     (''gemini-2.0-pro'', price (5 / 4) (10) (0)),
     (''gemini-2.5-flash'', price (3 / 10) (5 / 2) (3 / 100)),
     (''gemini-2.5-flash-lite'', price (1 / 10) (2 / 5) (1 / 100)),
     (''gemini-2.5-pro'', price (5 / 4) (10) (1 / 8)),
     (''gemini-3-flash-preview'', price (1 / 2) (3) (1 / 20)),
     (''gemini-3.1-flash-lite'', price (1 / 4) (3 / 2) (1 / 40)),
     (''gemini-3.1-pro-preview'', price (2) (12) (1 / 5)),
     (''gemini-3.5-flash'', price (3 / 2) (9) (3 / 20)),
     (''gemini-3.5-flash-lite'', price (3 / 10) (5 / 2) (3 / 100)),
     (''gemini-3.6-flash'', price (3 / 2) (15 / 2) (3 / 20)),
     (''gemini-3.7-flash'', price (3 / 4) (15 / 4) (3 / 40)),
     (''glm-4.5'', price (3 / 5) (11 / 5) (11 / 100)),
     (''glm-4.5-air'', price (1 / 5) (11 / 10) (3 / 100)),
     (''glm-4.5v'', price (3 / 5) (9 / 5) (0)),
     (''glm-4.6'', price (3 / 5) (11 / 5) (11 / 100)),
     (''glm-4.6v'', price (3 / 10) (9 / 10) (0)),
     (''glm-4.7'', price (3 / 5) (11 / 5) (11 / 100)),
     (''glm-4.7-flashx'', price (7 / 100) (2 / 5) (1 / 100)),
     (''glm-5'', price (1) (16 / 5) (1 / 5)),
     (''glm-5.1'', price (7 / 5) (22 / 5) (13 / 50)),
     (''glm-5.2'', price (7 / 5) (22 / 5) (13 / 50)),
     (''glm-5v-turbo'', price (5) (22) (6 / 5)),
     (''gpt-3.5-turbo'', price (1 / 2) (3 / 2) (0)),
     (''gpt-4'', price (30) (60) (0)),
     (''gpt-4-turbo'', price (10) (30) (0)),
     (''gpt-4.1'', price (2) (8) (1 / 2)),
     (''gpt-4.1-mini'', price (2 / 5) (8 / 5) (1 / 10)),
     (''gpt-4.1-nano'', price (1 / 10) (2 / 5) (1 / 40)),
     (''gpt-4o'', price (5 / 2) (10) (5 / 4)),
     (''gpt-4o-mini'', price (3 / 20) (3 / 5) (3 / 40)),
     (''gpt-5'', price (5 / 4) (10) (1 / 8)),
     (''gpt-5-mini'', price (1 / 4) (2) (1 / 40)),
     (''gpt-5-nano'', price (1 / 20) (2 / 5) (1 / 200)),
     (''gpt-5-pro'', price (15) (120) (0)),
     (''gpt-5.1'', price (5 / 4) (10) (1 / 8)),
     (''gpt-5.2'', price (7 / 4) (14) (7 / 40)),
     (''gpt-5.2-pro'', price (21) (168) (0)),
     (''gpt-5.3-codex'', price (7 / 4) (14) (7 / 40)),
     (''gpt-5.4'', price (5 / 2) (15) (1 / 4)),
     (''gpt-5.4-mini'', price (3 / 4) (9 / 2) (3 / 40)),
     (''gpt-5.4-nano'', price (1 / 5) (5 / 4) (1 / 50)),
     (''gpt-5.5'', price (5) (30) (1 / 2)),
     (''gpt-5.6'', price (5) (30) (1 / 2)),
     (''gpt-5.6-luna'', price (1 / 5) (6 / 5) (1 / 50)),
     (''grok-3'', price (3) (15) (0)),
     (''grok-4'', price (3) (15) (0)),
     (''grok-4.20-0309-non-reasoning'', price (5 / 4) (5 / 2) (1 / 5)),
     (''grok-4.20-0309-reasoning'', price (5 / 4) (5 / 2) (1 / 5)),
     (''grok-4.20-multi-agent-0309'', price (5 / 4) (5 / 2) (1 / 5)),
     (''grok-4.3'', price (5 / 4) (5 / 2) (1 / 5)),
     (''grok-4.5'', price (2) (6) (3 / 10)),
     (''grok-4.6'', price (2) (6) (1 / 2)),
     (''grok-build-0.1'', price (1) (2) (1 / 5)),
     (''hy3'', price (7 / 50) (29 / 50) (7 / 200)),
     (''kimi-k2-0711-preview'', price (3 / 5) (5 / 2) (3 / 20)),
     (''kimi-k2-0905-preview'', price (3 / 5) (5 / 2) (3 / 20)),
     (''kimi-k2-thinking'', price (3 / 5) (5 / 2) (3 / 20)),
     (''kimi-k2-thinking-turbo'', price (23 / 20) (8) (3 / 20)),
     (''kimi-k2-turbo-preview'', price (12 / 5) (10) (3 / 5)),
     (''kimi-k2.5'', price (3 / 5) (3) (1 / 10)),
     (''kimi-k2.6'', price (19 / 20) (4) (4 / 25)),
     (''kimi-k2.7'', price (19 / 20) (4) (19 / 100)),
     (''kimi-k2.7-code'', price (19 / 20) (4) (19 / 100)),
     (''kimi-k2.7-code-highspeed'', price (19 / 10) (8) (19 / 50)),
     (''kimi-k3'', price (3) (15) (3 / 10)),
     (''mimo'', price (7 / 50) (7 / 25) (7 / 2500)),
     (''minimax-m2'', price (3 / 10) (6 / 5) (0)),
     (''minimax-m2.1'', price (3 / 10) (6 / 5) (3 / 100)),
     (''minimax-m2.5'', price (3 / 10) (6 / 5) (3 / 100)),
     (''minimax-m2.5-highspeed'', price (3 / 5) (12 / 5) (3 / 50)),
     (''minimax-m2.7'', price (3 / 10) (6 / 5) (3 / 50)),
     (''minimax-m2.7-highspeed'', price (3 / 5) (12 / 5) (3 / 50)),
     (''minimax-m3'', price (3 / 10) (6 / 5) (3 / 50)),
     (''minimax-mimo-v2.5'', price (7 / 50) (7 / 25) (7 / 2500)),
     (''minimax-mimo-v2.5-pro'', price (87 / 200) (87 / 100) (29 / 8000)),
     (''o1'', price (15) (60) (15 / 2)),
     (''o1-mini'', price (3) (12) (0)),
     (''o1-preview'', price (15) (60) (0)),
     (''o3'', price (2) (8) (1 / 2)),
     (''o3-mini'', price (11 / 10) (22 / 5) (11 / 20)),
     (''o4-mini'', price (11 / 10) (22 / 5) (11 / 40)),
     (''qvq-max'', price (6 / 5) (24 / 5) (0)),
     (''qwen-max'', price (8 / 5) (32 / 5) (0)),
     (''qwen-plus'', price (2 / 5) (6 / 5) (0)),
     (''qwen-turbo'', price (1 / 20) (1 / 5) (0)),
     (''qwen3-max'', price (6 / 5) (6) (0)),
     (''qwen3-plus'', price (2 / 5) (8 / 5) (1 / 25)),
     (''qwen3.6-max-preview'', price (13 / 10) (39 / 5) (13 / 100)),
     (''qwen3.6-plus'', price (1 / 2) (3) (1 / 20)),
     (''qwen3.7-max'', price (5 / 2) (15 / 2) (1 / 2)),
     (''qwen3.7-plus'', price (1 / 2) (3) (1 / 20)),
     (''qwen3.8-max'', price (2) (6) (1 / 4)),
     (''qwq-plus'', price (4 / 5) (12 / 5) (0))]"

definition modelLimits :: "(string \<times> model_limits) list" where
  "modelLimits =
    [(''claude-fable-5'', limit 1000000 128000),
     (''claude-haiku-4-5-20251001'', limit 200000 64000),
     (''claude-opus-4-5-20251101'', limit 200000 64000),
     (''claude-opus-4-6'', limit 1000000 128000),
     (''claude-opus-4-7'', limit 1000000 128000),
     (''claude-opus-4-8'', limit 1000000 128000),
     (''claude-sonnet-4-5'', limit 1000000 0),
     (''claude-sonnet-4-5-20250929'', limit 1000000 64000),
     (''claude-sonnet-4-6'', limit 1000000 128000),
     (''claude-sonnet-5'', limit 1000000 128000),
     (''deepseek-chat'', limit 1000000 384000),
     (''deepseek-reasoner'', limit 1000000 384000),
     (''gemini-2.5-flash-lite'', limit 1048576 65536),
     (''gemini-3-flash-preview'', limit 1048576 65536),
     (''gemini-3.1-flash-lite'', limit 1048576 65536),
     (''gemini-3.1-pro-preview'', limit 1048576 65536),
     (''gemini-3.5-flash'', limit 1048576 65536),
     (''glm-4.5'', limit 131072 98304),
     (''glm-4.5-air'', limit 131072 98304),
     (''glm-4.5v'', limit 64000 16384),
     (''glm-4.6'', limit 204800 131072),
     (''glm-4.6v'', limit 128000 32768),
     (''glm-4.7'', limit 204800 131072),
     (''glm-4.7-flashx'', limit 200000 131072),
     (''glm-5'', limit 204800 131072),
     (''glm-5.1'', limit 200000 131072),
     (''glm-5.2'', limit 1000000 131072),
     (''glm-5v-turbo'', limit 200000 131072),
     (''gpt-3.5-turbo'', limit 16385 4096),
     (''gpt-4'', limit 8192 8192),
     (''gpt-4-turbo'', limit 128000 4096),
     (''gpt-4.1'', limit 1047576 32768),
     (''gpt-4.1-mini'', limit 1047576 32768),
     (''gpt-4.1-nano'', limit 1047576 32768),
     (''gpt-4o'', limit 128000 16384),
     (''gpt-4o-mini'', limit 128000 16384),
     (''gpt-5-mini'', limit 400000 128000),
     (''gpt-5-nano'', limit 400000 128000),
     (''gpt-5-pro'', limit 400000 272000),
     (''gpt-5.1'', limit 400000 128000),
     (''gpt-5.2'', limit 400000 128000),
     (''gpt-5.2-pro'', limit 400000 128000),
     (''gpt-5.3-codex'', limit 400000 128000),
     (''gpt-5.4'', limit 1050000 128000),
     (''gpt-5.4-mini'', limit 400000 128000),
     (''gpt-5.4-nano'', limit 400000 128000),
     (''gpt-5.5'', limit 1050000 128000),
     (''grok-4.20-0309-non-reasoning'', limit 1000000 30000),
     (''grok-4.20-0309-reasoning'', limit 1000000 30000),
     (''grok-4.20-multi-agent-0309'', limit 1000000 30000),
     (''grok-4.3'', limit 1000000 30000),
     (''grok-build-0.1'', limit 256000 256000),
     (''kimi-k2-0711-preview'', limit 131072 16384),
     (''kimi-k2-0905-preview'', limit 262144 262144),
     (''kimi-k2-thinking'', limit 262144 262144),
     (''kimi-k2-thinking-turbo'', limit 262144 262144),
     (''kimi-k2-turbo-preview'', limit 262144 262144),
     (''kimi-k2.5'', limit 262144 262144),
     (''kimi-k2.6'', limit 262144 262144),
     (''minimax-m2'', limit 196608 128000),
     (''minimax-m2.1'', limit 204800 131072),
     (''minimax-m2.5'', limit 204800 131072),
     (''minimax-m2.5-highspeed'', limit 204800 131072),
     (''minimax-m2.7'', limit 204800 131072),
     (''minimax-m2.7-highspeed'', limit 204800 131072),
     (''minimax-m3'', limit 1000000 128000),
     (''o1'', limit 200000 100000),
     (''o3'', limit 200000 100000),
     (''o3-mini'', limit 200000 100000),
     (''o4-mini'', limit 200000 100000),
     (''qvq-max'', limit 131072 8192),
     (''qwen-max'', limit 32768 8192),
     (''qwen-plus'', limit 1000000 32768),
     (''qwen-turbo'', limit 1000000 16384),
     (''qwen3-max'', limit 262144 65536),
     (''qwen3.6-max-preview'', limit 262144 65536),
     (''qwen3.6-plus'', limit 1000000 65536),
     (''qwen3.7-max'', limit 1000000 65536),
     (''qwen3.7-plus'', limit 1000000 65536),
     (''qwq-plus'', limit 131072 8192)]"

section \<open>Lookup\<close>

text \<open>
  The loop of both lookups, over a table in any order: the best entry so far, and the length of
  its key.
\<close>

definition lookup_step :: "string \<Rightarrow> 'a \<times> nat \<Rightarrow> string \<times> 'a \<Rightarrow> 'a \<times> nat" where
  "lookup_step m acc entry =
     (case (acc, entry) of ((best, bestKeyLen), (key, p)) \<Rightarrow>
        (let k = toLowerASCII key in
         if length k \<le> bestKeyLen then (best, bestKeyLen)
         else if \<not> hasPrefix m k then (best, bestKeyLen)
         else if length m > length k \<and> m ! length k \<noteq> CHR ''-'' then (best, bestKeyLen)
         else (p, length k)))"

definition lookup_prefix :: "'a \<Rightarrow> (string \<times> 'a) list \<Rightarrow> string \<Rightarrow> 'a" where
  "lookup_prefix z table model = fst (foldl (lookup_step (toLowerASCII model)) (z, 0) table)"

definition LookupPricing :: "string \<Rightarrow> model_pricing" where
  "LookupPricing model = lookup_prefix (price 0 0 0) pricingTable model"

definition LookupLimits :: "string \<Rightarrow> model_limits" where
  "LookupLimits model = lookup_prefix (limit 0 0) modelLimits model"

definition EstimateCost :: "string \<Rightarrow> int \<Rightarrow> int \<Rightarrow> rat" where
  "EstimateCost model promptTokens completionTokens =
     (if model = [] then 0
      else
        let p = LookupPricing model in
        if mp_InputPerMTokens p = 0 \<and> mp_OutputPerMTokens p = 0 then 0
        else of_int promptTokens * mp_InputPerMTokens p / 1000000 +
             of_int completionTokens * mp_OutputPerMTokens p / 1000000)"

section \<open>Token estimates\<close>

definition isCJK :: "nat \<Rightarrow> bool" where
  "isCJK r \<longleftrightarrow> 0x4E00 \<le> r \<and> r \<le> 0x9FFF \<or> 0x3400 \<le> r \<and> r \<le> 0x4DBF \<or> 0xF900 \<le> r \<and> r \<le> 0xFAFF"

definition EstimateTokens :: "string \<Rightarrow> int" where
  "EstimateTokens text =
     (if text = [] then 0
      else
        let cjkChars = length (filter isCJK (runes text));
            otherChars = length (filter (\<lambda>r. \<not> isCJK r) (runes text))
        in if cjkChars = 0 \<and> otherChars = 0 then 0
           else
             let tokens = of_nat cjkChars / (3 / 2) + of_nat otherChars / (4 :: rat);
                 n = \<lfloor>tokens + 999999 / 1000000\<rfloor>
             in if n < 1 then 1 else n)"

fun valid_runes :: "nat \<Rightarrow> string \<Rightarrow> bool" where
  "valid_runes 0 s \<longleftrightarrow> s = []"
| "valid_runes (Suc k) s \<longleftrightarrow>
     s = [] \<or> (case rune_at s of Some n \<Rightarrow> valid_runes k (drop n s) | None \<Rightarrow> False)"

definition EstimateTokensUTF8 :: "bytes \<Rightarrow> int" where
  "EstimateTokensUTF8 b =
     (if b = [] then 0
      else if \<not> valid_runes (length b) b then (int (length b) + 3) div 4
      else EstimateTokens b)"

definition HasCJK :: "string \<Rightarrow> bool" where
  "HasCJK text \<longleftrightarrow> list_ex isCJK (runes text)"

section \<open>The lookup takes the longest key\<close>

definition key_matches :: "string \<Rightarrow> string \<Rightarrow> bool" where
  "key_matches m k \<longleftrightarrow> hasPrefix m k \<and> \<not> (length m > length k \<and> m ! length k \<noteq> CHR ''-'')"

lemma key_matches_length: "key_matches m k \<Longrightarrow> key_matches m k' \<Longrightarrow> length k = length k' \<Longrightarrow> k = k'"
  by (auto simp: key_matches_def hasPrefix_def)

text \<open>What the loop holds after any part of the table.\<close>

definition best_so_far :: "string \<Rightarrow> 'a \<Rightarrow> (string \<times> 'a) set \<Rightarrow> 'a \<times> nat \<Rightarrow> bool" where
  "best_so_far m z seen acc \<longleftrightarrow>
     (\<forall>(k, p) \<in> seen. key_matches m (toLowerASCII k) \<longrightarrow> length k \<le> snd acc) \<and>
     (acc = (z, 0) \<or> (\<exists>k. (k, fst acc) \<in> seen \<and> key_matches m (toLowerASCII k) \<and> length k = snd acc \<and> 0 < snd acc))"

lemma length_toLowerASCII [simp]: "length (toLowerASCII s) = length s"
  by (simp add: toLowerASCII_def)

lemma lookup_step_best:
  assumes "best_so_far m z seen acc"
  shows "best_so_far m z (insert e seen) (lookup_step m acc e)"
proof -
  obtain k p where e: "e = (k, p)" by (cases e)
  obtain b n where acc: "acc = (b, n)" by (cases acc)
  show ?thesis
  proof (cases "key_matches m (toLowerASCII k) \<and> n < length k")
    case True
    then have "lookup_step m acc e = (p, length k)"
      by (auto simp: lookup_step_def e acc key_matches_def Let_def)
    then show ?thesis
      using assms True by (fastforce simp: best_so_far_def e acc)
  next
    case False
    then have "lookup_step m acc e = acc"
      by (auto simp: lookup_step_def e acc key_matches_def Let_def)
    then show ?thesis
      using assms False by (fastforce simp: best_so_far_def e acc)
  qed
qed

lemma lookup_fold_best:
  "best_so_far m z seen acc \<Longrightarrow> best_so_far m z (seen \<union> set table) (foldl (lookup_step m) acc table)"
proof (induction table arbitrary: seen acc)
  case (Cons e table)
  from Cons.prems have "best_so_far m z (insert e seen) (lookup_step m acc e)" by (rule lookup_step_best)
  from Cons.IH [OF this] show ?case
    unfolding foldl_Cons list.set Un_insert_left Un_insert_right .
qed simp

text \<open>Two orders of one table, with keys that differ up to case, give the same entry.\<close>

lemma lookup_prefix_order:
  assumes d: "distinct (map (toLowerASCII \<circ> fst) table)" and s: "set table' = set table"
  shows "lookup_prefix z table' model = lookup_prefix z table model"
proof -
  let ?m = "toLowerASCII model"
  obtain p n where a: "foldl (lookup_step ?m) (z, 0) table = (p, n)" by fastforce
  obtain p' n' where a': "foldl (lookup_step ?m) (z, 0) table' = (p', n')" by fastforce
  have "best_so_far ?m z {} (z, 0)" by (simp add: best_so_far_def)
  from lookup_fold_best [OF this, of table] lookup_fold_best [OF this, of table']
  have b: "best_so_far ?m z (set table) (p, n)" and b': "best_so_far ?m z (set table) (p', n')"
    using a a' s by auto
  have same: "p = p'" if "(k, p) \<in> set table" "(k', p') \<in> set table" "toLowerASCII k = toLowerASCII k'" for k k'
  proof -
    have "inj_on (toLowerASCII \<circ> fst) (set table)" using d by (simp add: distinct_map)
    from inj_onD [OF this, of "(k, p)" "(k', p')"] show ?thesis using that by simp
  qed
  have "p = p'"
  proof (cases "(p, n) = (z, 0) \<or> (p', n') = (z, 0)")
    case True
    then show ?thesis using b b' by (fastforce simp: best_so_far_def)
  next
    case False
    then obtain k k' where k: "(k, p) \<in> set table" "key_matches ?m (toLowerASCII k)" "length k = n"
      and k': "(k', p') \<in> set table" "key_matches ?m (toLowerASCII k')" "length k' = n'"
      using b b' by (auto simp: best_so_far_def)
    have "n' \<le> n" "n \<le> n'" using b b' k k' by (fastforce simp: best_so_far_def)+
    then have "toLowerASCII k = toLowerASCII k'" using key_matches_length [OF k(2) k'(2)] k(3) k'(3) by simp
    then show ?thesis using same k(1) k'(1) by blast
  qed
  then show ?thesis by (simp add: lookup_prefix_def a a')
qed

lemma pricing_keys_distinct: "distinct (map (toLowerASCII \<circ> fst) pricingTable)"
  unfolding pricingTable_def list.map o_apply fst_conv
  by (rule ascending_distinct) code_simp

lemma limit_keys_distinct: "distinct (map (toLowerASCII \<circ> fst) modelLimits)"
  unfolding modelLimits_def list.map o_apply fst_conv
  by (rule ascending_distinct) code_simp

text \<open>The most specific entry first: what the comment on the table promises.\<close>

lemma find_longest:
  assumes "sorted_wrt (\<lambda>a b. f b \<le> (f a :: nat)) l" "find P l = Some x" "y \<in> set l" "P y"
  shows "f y \<le> f x"
  using assms by (induction l) (auto split: if_splits)

lemma find_SomeD: "find P l = Some x \<Longrightarrow> x \<in> set l \<and> P x"
  by (induction l) (auto split: if_splits)

definition most_specific :: "(string \<times> 'a) list \<Rightarrow> string \<Rightarrow> (string \<times> 'a) option" where
  "most_specific table model =
     find (\<lambda>e. key_matches (toLowerASCII model) (toLowerASCII (fst e))) (rev (sort_key (length \<circ> fst) table))"

lemma most_specific_longest:
  assumes "most_specific table model = Some x" "y \<in> set table"
    and "key_matches (toLowerASCII model) (toLowerASCII (fst y))"
  shows "length (fst y) \<le> length (fst x)"
proof (rule find_longest [where f = "\<lambda>e. length (fst e)" and
      P = "\<lambda>e. key_matches (toLowerASCII model) (toLowerASCII (fst e))"])
  have "sorted_wrt (\<lambda>a b. length (fst a) \<le> length (fst b)) (sort_key (length \<circ> fst) table)"
    using sorted_sort_key [of "length \<circ> fst" table] by (simp add: sorted_map o_def)
  then show "sorted_wrt (\<lambda>a b. length (fst b) \<le> length (fst a)) (rev (sort_key (length \<circ> fst) table))"
    by (simp add: sorted_wrt_rev)
qed (use assms in \<open>auto simp: most_specific_def\<close>)

lemma most_specific_mem:
  "most_specific table model = Some x \<Longrightarrow> x \<in> set table \<and> key_matches (toLowerASCII model) (toLowerASCII (fst x))"
  using find_SomeD [of "\<lambda>e. key_matches (toLowerASCII model) (toLowerASCII (fst e))"
      "rev (sort_key (length \<circ> fst) table)" x]
  by (simp add: most_specific_def)

lemma lookup_fold_most_specific:
  assumes "distinct (map (toLowerASCII \<circ> fst) table)" "\<forall>(k, p) \<in> set table. k \<noteq> []"
  shows "lookup_prefix z table model = (case most_specific table model of Some (_, p) \<Rightarrow> p | None \<Rightarrow> z)"
proof -
  let ?m = "toLowerASCII model"
  obtain b n where a: "foldl (lookup_step ?m) (z, 0) table = (b, n)" by fastforce
  have "best_so_far ?m z {} (z, 0)" by (simp add: best_so_far_def)
  from lookup_fold_best [OF this, of table] have best: "best_so_far ?m z (set table) (b, n)" by (simp add: a)
  show ?thesis
  proof (cases "most_specific table model")
    case None
    then have "\<forall>e \<in> set table. \<not> key_matches ?m (toLowerASCII (fst e))"
      by (auto simp: most_specific_def find_None_iff)
    then have "b = z" using best by (fastforce simp: best_so_far_def)
    then show ?thesis using None by (simp add: lookup_prefix_def a)
  next
    case (Some x)
    obtain k p where x: "x = (k, p)" by (cases x)
    have m: "(k, p) \<in> set table" "key_matches ?m (toLowerASCII k)"
      using most_specific_mem [OF Some] by (auto simp: x)
    then have len: "length k \<le> n" "k \<noteq> []" using best assms(2) by (fastforce simp: best_so_far_def)+
    then obtain k' where k': "(k', b) \<in> set table" "key_matches ?m (toLowerASCII k')" "length k' = n"
      using best by (auto simp: best_so_far_def)
    have "length k' \<le> length k" using most_specific_longest [OF Some k'(1)] k'(2) by (simp add: x)
    then have same: "toLowerASCII k = toLowerASCII k'"
      using key_matches_length [OF m(2) k'(2)] len k'(3) by simp
    have "inj_on (toLowerASCII \<circ> fst) (set table)" using assms(1) by (simp add: distinct_map)
    from inj_onD [OF this _ m(1) k'(1)] same have "p = b" by simp
    then show ?thesis using Some by (simp add: lookup_prefix_def a x)
  qed
qed

lemma pricing_keys_nonempty: "\<forall>(k, p) \<in> set pricingTable. k \<noteq> []"
  by (simp add: pricingTable_def)

text \<open>The price looked up for a model does not depend on the order in which Go ranges over the
  pricing map: it is that of the most specific key - the first that matches when the table is sorted
  by key length, longest first - or the zero price when no key matches.\<close>

theorem pricing_most_specific:
  assumes "set table = set pricingTable"
  shows "lookup_prefix (price 0 0 0) table model =
    (case most_specific pricingTable model of Some (_, p) \<Rightarrow> p | None \<Rightarrow> price 0 0 0)"
  unfolding lookup_prefix_order [OF pricing_keys_distinct assms]
  by (rule lookup_fold_most_specific [OF pricing_keys_distinct pricing_keys_nonempty])

theorem pricing_most_specific_witness:
  "lookup_prefix (price 0 0 0) (rev pricingTable) ''GPT-4.1-mini'' =
    (case most_specific pricingTable ''GPT-4.1-mini'' of Some (_, p) \<Rightarrow> p | None \<Rightarrow> price 0 0 0)"
  by (rule pricing_most_specific) simp

section \<open>The estimate rounds up\<close>

lemma floor_up:
  fixes k :: int
  shows "\<lfloor>of_int k / (12 :: rat) + 999999 / 1000000\<rfloor> = (k + 11) div 12"
proof -
  define c where "c = (k + 11) div 12"
  have "12 * c \<le> k + 11" "k + 11 < 12 * c + 12" unfolding c_def by presburger+
  then have "of_int (12 * c) \<le> (of_int (k + 11) :: rat)" "(of_int k :: rat) \<le> of_int (12 * c)"
    by (simp_all only: of_int_le_iff)
  then have "\<lfloor>of_int k / (12 :: rat) + 999999 / 1000000\<rfloor> = c"
    by (intro floor_unique) simp_all
  then show ?thesis by (simp add: c_def)
qed

text \<open>An estimate is exactly the weighted count of characters - two thirds of a token for each CJK
  character, a quarter for each other - rounded up, so that the constant added before the conversion
  rounds no total down and adds no token to a total that is whole.\<close>

theorem EstimateTokens_rounds_up:
  "EstimateTokens s =
    (8 * int (length (filter isCJK (runes s))) + 3 * int (length (filter (\<lambda>r. \<not> isCJK r) (runes s))) + 11) div 12"
proof -
  define A B where A: "A = length (filter isCJK (runes s))" and B: "B = length (filter (\<lambda>r. \<not> isCJK r) (runes s))"
  have sum: "of_nat A / (3 / 2) + of_nat B / (4 :: rat) = of_int (8 * int A + 3 * int B) / 12"
    by (simp add: field_simps)
  have pos: "A = 0 \<and> B = 0 \<or> \<not> (8 * int A + 3 * int B + 11) div 12 < 1" by presburger
  have zero: "s = [] \<Longrightarrow> A = 0 \<and> B = 0" by (simp add: A B runes.simps)
  show ?thesis
    unfolding EstimateTokens_def Let_def A [symmetric] B [symmetric] sum floor_up
    using pos zero by auto
qed

end
