(* ===== verification/LlmExchange.thy ===== *)
theory LlmExchange
  imports LlmProps LlmPricing Store
begin

text \<open>
  \<^verbatim>\<open>internal/proxy/llm.go\<close>, \<^verbatim>\<open>internal/models/llm.go\<close> and the reads of \<^verbatim>\<open>internal/store/llm.go\<close>: the
  record of an LLM exchange is assembled from what the parser found, stored as JSON with its
  request, and listed. Writing an exchange as JSON (\<^verbatim>\<open>json.Marshal\<close>, with its floats and times) and
  what \<^verbatim>\<open>time.Time\<close> accepts are arguments, as is SQLite's \<^verbatim>\<open>json_extract\<close>; reading one is the
  decoder of its fields.
\<close>

section \<open>The record of an exchange\<close>

record llm_message =
  lm_Role :: string
  lm_Content :: string

text \<open>\<^verbatim>\<open>LLMToolDefinition\<close> and \<^verbatim>\<open>LLMToolCall\<close> have the fields of the parser's types.\<close>

type_synonym llm_tool_definition = tool_definition

type_synonym llm_tool_call = tool_call

record llm_usage =
  lu_PromptTokens :: int
  lu_CompletionTokens :: int
  lu_TotalTokens :: int
  lu_CostUSD :: rat
  lu_TokensEstimated :: bool

record 'time llm_exchange =
  ex_Provider :: string
  ex_Model :: string
  ex_Stream :: bool
  ex_System :: string
  ex_Messages :: "llm_message list"
  ex_Response :: string
  ex_Usage :: "llm_usage option"
  ex_RequestAt :: 'time
  ex_Tools :: "llm_tool_definition list"
  ex_ToolChoice :: string
  ex_ToolCalls :: "llm_tool_call list"
  ex_ContextLength :: int
  ex_MaxOutput :: int

section \<open>Assembling an exchange\<close>

definition processLLMRequest :: "provider \<Rightarrow> string \<Rightarrow> request_info option" where
  "processLLMRequest p reqBody = (if reqBody = [] then None else ParseRequest p reqBody)"

definition processLLMResponse :: "provider \<Rightarrow> string \<Rightarrow> response_info option" where
  "processLLMResponse p resBody = (if resBody = [] then None else ParseResponse p resBody)"

definition call_text :: "tool_call \<Rightarrow> string" where
  "call_text tc = tc_Name tc @ tc_Arguments tc"

definition prompt_text :: "request_info option \<Rightarrow> string" where
  "prompt_text reqInfo =
     (case reqInfo of None \<Rightarrow> []
      | Some ri \<Rightarrow>
          ri_System ri @
          concat (map (\<lambda>m. msg_Content m @ concat (map call_text (msg_ToolCalls m))) (ri_Messages ri)) @
          concat (map (\<lambda>t. td_Name t @ td_Description t @ td_Parameters t) (ri_Tools ri)))"

definition response_text :: "response_info option \<Rightarrow> string" where
  "response_text resInfo =
     (case resInfo of None \<Rightarrow> []
      | Some rs \<Rightarrow> rs_Content rs @ concat (map call_text (rs_ToolCalls rs)))"

definition has_usage :: "response_info option \<Rightarrow> bool" where
  "has_usage resInfo \<longleftrightarrow>
     (case resInfo of None \<Rightarrow> False
      | Some rs \<Rightarrow> rs_PromptTokens rs > 0 \<or> rs_CompletionTokens rs > 0 \<or> rs_TotalTokens rs > 0)"

definition usageWithFallback ::
  "request_info option \<Rightarrow> response_info option \<Rightarrow> int \<times> int \<times> int \<times> bool" where
  "usageWithFallback reqInfo resInfo =
     (case resInfo of
        Some rs \<Rightarrow>
          if has_usage resInfo then (rs_PromptTokens rs, rs_CompletionTokens rs, rs_TotalTokens rs, False)
          else
            let promptTok = EstimateTokens (prompt_text reqInfo);
                responseTok = EstimateTokens (response_text resInfo)
            in if promptTok = 0 \<and> responseTok = 0 then (0, 0, 0, False)
               else (promptTok, responseTok, wrap64 (promptTok + responseTok), True)
      | None \<Rightarrow>
          let promptTok = EstimateTokens (prompt_text reqInfo); responseTok = EstimateTokens (response_text None)
          in if promptTok = 0 \<and> responseTok = 0 then (0, 0, 0, False)
             else (promptTok, responseTok, wrap64 (promptTok + responseTok), True))"

definition exchange_request :: "request_info option \<Rightarrow> 'time llm_exchange \<Rightarrow> 'time llm_exchange" where
  "exchange_request reqInfo ex =
     (case reqInfo of None \<Rightarrow> ex
      | Some ri \<Rightarrow>
          let ex = ex\<lparr>ex_Model := ri_Model ri, ex_Stream := ri_Stream ri, ex_System := ri_System ri\<rparr>;
              lim = LookupLimits (ri_Model ri);
              ex = (if ml_ContextLength lim > 0 \<or> ml_MaxOutput lim > 0
                    then ex\<lparr>ex_ContextLength := ml_ContextLength lim, ex_MaxOutput := ml_MaxOutput lim\<rparr> else ex)
          in ex\<lparr>ex_Messages := map (\<lambda>m. \<lparr>lm_Role = msg_Role m, lm_Content = msg_Content m\<rparr>) (ri_Messages ri),
                ex_Tools := ri_Tools ri, ex_ToolChoice := ri_ToolChoice ri\<rparr>)"

definition exchange_response ::
  "request_info option \<Rightarrow> response_info option \<Rightarrow> 'time llm_exchange \<Rightarrow> 'time llm_exchange" where
  "exchange_response reqInfo resInfo ex =
     (case resInfo of None \<Rightarrow> ex
      | Some rs \<Rightarrow>
          let ex = (if ex_Model ex = [] then ex\<lparr>ex_Model := rs_Model rs\<rparr> else ex);
              ex = ex\<lparr>ex_Response := rs_Content rs\<rparr>;
              (promptTok, compTok, totalTok, estimated) = usageWithFallback reqInfo resInfo;
              ex = (if promptTok > 0 \<or> compTok > 0 \<or> totalTok > 0
                    then ex\<lparr>ex_Usage := Some \<lparr>lu_PromptTokens = promptTok, lu_CompletionTokens = compTok,
                        lu_TotalTokens = totalTok, lu_CostUSD = EstimateCost (ex_Model ex) promptTok compTok,
                        lu_TokensEstimated = estimated\<rparr>\<rparr>
                    else ex)
          in ex\<lparr>ex_ToolCalls := rs_ToolCalls rs\<rparr>)"

definition buildLLMExchange ::
  "provider \<Rightarrow> request_info option \<Rightarrow> response_info option \<Rightarrow> 'time \<Rightarrow> 'time llm_exchange" where
  "buildLLMExchange p reqInfo resInfo capturedAt =
     exchange_response reqInfo resInfo (exchange_request reqInfo
       \<lparr>ex_Provider = p, ex_Model = [], ex_Stream = False, ex_System = [], ex_Messages = [], ex_Response = [],
        ex_Usage = None, ex_RequestAt = capturedAt, ex_Tools = [], ex_ToolChoice = [], ex_ToolCalls = [],
        ex_ContextLength = 0, ex_MaxOutput = 0\<rparr>)"

definition saveLLMExchange ::
  "('time llm_exchange \<Rightarrow> string option) \<Rightarrow> int \<Rightarrow> 'time llm_exchange option \<Rightarrow> store \<Rightarrow> store" where
  "saveLLMExchange marshal i ex s =
     (case ex of None \<Rightarrow> s
      | Some x \<Rightarrow>
          if i = 0 then s
          else (case marshal x of None \<Rightarrow> s | Some data \<Rightarrow> snd (SetLLMData i data s)))"

section \<open>Listing exchanges\<close>

record llm_item =
  li_ID :: int
  li_Provider :: string
  li_Model :: string
  li_Host :: string
  li_URL :: string
  li_IsHTTPS :: bool
  li_CapturedAt :: "instant option"
  li_PromptSnippet :: string
  li_ResponseSnippet :: string
  li_PromptTokens :: int
  li_CompletionTokens :: int
  li_TotalTokens :: int
  li_CostUSD :: rat
  li_Stream :: bool

definition llm_message_fields :: "llm_message fields" where
  "llm_message_fields =
     [field ''role'' lm_Role lm_Role_update dec_string, field ''content'' lm_Content lm_Content_update dec_string]"

definition llm_usage_fields :: "llm_usage fields" where
  "llm_usage_fields =
     [field ''prompt_tokens'' lu_PromptTokens lu_PromptTokens_update dec_int,
      field ''completion_tokens'' lu_CompletionTokens lu_CompletionTokens_update dec_int,
      field ''total_tokens'' lu_TotalTokens lu_TotalTokens_update dec_int,
      field ''cost_usd'' lu_CostUSD lu_CostUSD_update dec_float,
      field ''tokens_estimated'' lu_TokensEstimated lu_TokensEstimated_update dec_bool]"

definition exchange_fields :: "'time decoder \<Rightarrow> 'time llm_exchange fields" where
  "exchange_fields dec_time =
     [field ''provider'' ex_Provider ex_Provider_update dec_string,
      field ''model'' ex_Model ex_Model_update dec_string,
      field ''stream'' ex_Stream ex_Stream_update dec_bool,
      field ''system'' ex_System ex_System_update dec_string,
      field ''messages'' ex_Messages ex_Messages_update
        (dec_slice (dec_struct llm_message_fields) \<lparr>lm_Role = [], lm_Content = []\<rparr>),
      field ''response'' ex_Response ex_Response_update dec_string,
      field ''usage'' ex_Usage ex_Usage_update (dec_ptr (dec_struct llm_usage_fields)
        \<lparr>lu_PromptTokens = 0, lu_CompletionTokens = 0, lu_TotalTokens = 0, lu_CostUSD = 0, lu_TokensEstimated = False\<rparr>),
      field ''request_at'' ex_RequestAt ex_RequestAt_update dec_time,
      field ''tools'' ex_Tools ex_Tools_update (dec_slice (dec_struct (tool_fields ''parameters'')) no_tool),
      field ''tool_choice'' ex_ToolChoice ex_ToolChoice_update dec_raw,
      field ''tool_calls'' ex_ToolCalls ex_ToolCalls_update (dec_slice (dec_struct
        [field ''id'' tc_ID tc_ID_update dec_string, field ''name'' tc_Name tc_Name_update dec_string,
         field ''arguments'' tc_Arguments tc_Arguments_update dec_string]) no_call),
      field ''context_length'' ex_ContextLength ex_ContextLength_update dec_int,
      field ''max_output'' ex_MaxOutput ex_MaxOutput_update dec_int]"

definition lastUserMessage :: "llm_message list \<Rightarrow> string" where
  "lastUserMessage ms =
     (case find (\<lambda>m. lm_Role m = ''user'') (rev ms) of
        Some m \<Rightarrow> lm_Content m
      | None \<Rightarrow> if ms = [] then [] else lm_Content (last ms))"

definition llm_item_of :: "(string \<Rightarrow> 'time llm_exchange option) \<Rightarrow> request_row \<Rightarrow> llm_item" where
  "llm_item_of read row =
     (let q = row_req row;
          item = \<lparr>li_ID = row_id row, li_Provider = [], li_Model = [], li_Host = cr_Host q, li_URL = cr_URL q,
                  li_IsHTTPS = cr_IsHTTPS q, li_CapturedAt = cr_CapturedAt q, li_PromptSnippet = [],
                  li_ResponseSnippet = [], li_PromptTokens = 0, li_CompletionTokens = 0, li_TotalTokens = 0,
                  li_CostUSD = 0, li_Stream = False\<rparr>
      in if row_llm_data row = [] then item
         else case read (row_llm_data row) of
           None \<Rightarrow> item
         | Some ex \<Rightarrow>
             let item = item\<lparr>li_Provider := ex_Provider ex, li_Model := ex_Model ex, li_Stream := ex_Stream ex,
                   li_PromptSnippet := truncateStr (lastUserMessage (ex_Messages ex)) 200,
                   li_ResponseSnippet := truncateStr (ex_Response ex) 200\<rparr>
             in case ex_Usage ex of
                  None \<Rightarrow> item
                | Some u \<Rightarrow> item\<lparr>li_PromptTokens := lu_PromptTokens u, li_CompletionTokens := lu_CompletionTokens u,
                              li_TotalTokens := lu_TotalTokens u, li_CostUSD := lu_CostUSD u\<rparr>)"

text \<open>\<^verbatim>\<open>LIMIT ? OFFSET ?\<close>: a negative limit is none, a negative offset is 0.\<close>

definition sql_page :: "int \<Rightarrow> int \<Rightarrow> 'a list \<Rightarrow> 'a list" where
  "sql_page most skip xs =
     (let xs = drop (nat skip) xs in if most < 0 then xs else take (nat most) xs)"

definition list_llm ::
  "(string \<Rightarrow> 'time llm_exchange option) \<Rightarrow> (request_row \<Rightarrow> bool) \<Rightarrow> int \<Rightarrow> int \<Rightarrow> store \<Rightarrow>
   (store_error + llm_item list \<times> nat) \<times> store" where
  "list_llm read P most skip s =
     (let rows = filter (\<lambda>r. row_is_llm r \<and> P r) (st_requests s) in
      case next_reply s of
        (ExecErr e, s) \<Rightarrow> (Inl (DriverErr e), s)
      | (ExecOk _ _, s) \<Rightarrow>
          (case next_reply s of
             (ExecErr e, s) \<Rightarrow> (Inl (DriverErr e), s)
           | (ExecOk _ _, s) \<Rightarrow>
               (Inr (map (llm_item_of read) (sql_page most skip (rows_by_id_desc rows)), length rows), s)))"

text \<open>An exchange read from its JSON; the decoder and the zero of times are arguments.\<close>

definition empty_exchange :: "'time \<Rightarrow> 'time llm_exchange" where
  "empty_exchange t0 =
     \<lparr>ex_Provider = [], ex_Model = [], ex_Stream = False, ex_System = [], ex_Messages = [], ex_Response = [],
      ex_Usage = None, ex_RequestAt = t0, ex_Tools = [], ex_ToolChoice = [], ex_ToolCalls = [],
      ex_ContextLength = 0, ex_MaxOutput = 0\<rparr>"

definition read_exchange :: "'time decoder \<Rightarrow> 'time \<Rightarrow> string \<Rightarrow> 'time llm_exchange option" where
  "read_exchange dec_time t0 data = Unmarshal (dec_struct (exchange_fields dec_time)) (empty_exchange t0) data"

definition ListLLM ::
  "'time decoder \<Rightarrow> 'time \<Rightarrow> int \<Rightarrow> int \<Rightarrow> store \<Rightarrow> (store_error + llm_item list \<times> nat) \<times> store" where
  "ListLLM dec_time t0 most skip s =
     (let most = (if most \<le> 0 \<or> most > 500 then 100 else most)
      in list_llm (read_exchange dec_time t0) (\<lambda>_. True) most skip s)"

text \<open>The filter takes what \<^verbatim>\<open>json_extract\<close> finds; it does not cap the limit.\<close>

definition ListLLMFiltered ::
  "(string \<Rightarrow> string \<Rightarrow> string option) \<Rightarrow> 'time decoder \<Rightarrow> 'time \<Rightarrow> string \<Rightarrow> string \<Rightarrow>
   int \<Rightarrow> int \<Rightarrow> store \<Rightarrow> (store_error + llm_item list \<times> nat) \<times> store" where
  "ListLLMFiltered extract dec_time t0 p model most skip s =
     list_llm (read_exchange dec_time t0)
       (\<lambda>r. (p = [] \<or> extract (row_llm_data r) ''provider'' = Some p) \<and>
            (model = [] \<or> extract (row_llm_data r) ''model'' = Some model)) most skip s"

definition GetLLMData :: "int \<Rightarrow> store \<Rightarrow> (store_error + string) \<times> store" where
  "GetLLMData i s =
     (case next_reply s of
        (ExecErr e, s) \<Rightarrow> (Inl (DriverErr e), s)
      | (ExecOk _ _, s) \<Rightarrow>
          (case filter (\<lambda>r. row_id r = i \<and> row_is_llm r) (st_requests s) of
             [] \<Rightarrow> (Inl (DriverErr ''sql: no rows in result set''), s)
           | r # _ \<Rightarrow> (Inr (row_llm_data r), s)))"

definition CountLLM :: "store \<Rightarrow> (store_error + nat) \<times> store" where
  "CountLLM s =
     (case next_reply s of
        (ExecErr e, s) \<Rightarrow> (Inl (DriverErr e), s)
      | (ExecOk _ _, s) \<Rightarrow> (Inr (length (filter row_is_llm (st_requests s))), s))"

section \<open>The usage of an exchange\<close>

lemma runes_nonempty: "s \<noteq> [] \<Longrightarrow> runes s \<noteq> []"
  by (subst runes.simps) (simp split: option.split)

lemma EstimateTokens_zero: "EstimateTokens s = 0 \<longleftrightarrow> s = []"
proof
  assume z: "EstimateTokens s = 0"
  let ?a = "length (filter isCJK (runes s))" and ?b = "length (filter (\<lambda>r. \<not> isCJK r) (runes s))"
  have "(8 * int ?a + 3 * int ?b + 11) div 12 = 0" using z EstimateTokens_rounds_up [of s] by simp
  then have "?a = 0 \<and> ?b = 0" by presburger
  then have "runes s = []" using sum_length_filter_compl [of isCJK "runes s"] by simp
  then show "s = []" using runes_nonempty by blast
qed (simp add: EstimateTokens_def)

lemma EstimateTokens_nonneg: "0 \<le> EstimateTokens s"
  unfolding EstimateTokens_rounds_up by simp

lemma exchange_response_usage:
  "ex_Usage (exchange_response ri (Some rs) ex) =
     (case usageWithFallback ri (Some rs) of (p, c, t, est) \<Rightarrow>
        if p > 0 \<or> c > 0 \<or> t > 0 then Some \<lparr>lu_PromptTokens = p, lu_CompletionTokens = c, lu_TotalTokens = t,
          lu_CostUSD = EstimateCost (if ex_Model ex = [] then rs_Model rs else ex_Model ex) p c, lu_TokensEstimated = est\<rparr>
        else ex_Usage ex)"
  by (simp add: exchange_response_def Let_def split: prod.split)

lemma exchange_request_simps [simp]:
  "ex_Usage (exchange_request ri ex) = ex_Usage ex"
  "ex_Model (exchange_request None ex) = ex_Model ex" "ex_Model (exchange_request (Some r) ex) = ri_Model r"
  by (simp_all add: exchange_request_def Let_def split: option.split)

definition exchange_model :: "request_info option \<Rightarrow> response_info \<Rightarrow> string" where
  "exchange_model ri rs =
     (case ri of None \<Rightarrow> rs_Model rs | Some r \<Rightarrow> if ri_Model r = [] then rs_Model rs else ri_Model r)"

text \<open>The usage of an exchange: the counts of the provider, marked as such, when it reports any; else
  the estimates of the prompt and the response, marked as estimates; and none exactly when nothing
  is reported and both texts are empty. The cost is that of these counts for the model of the
  request, or of the response when the request names none.\<close>

theorem exchange_usage:
  "ex_Usage (buildLLMExchange p ri (Some rs) at) =
    (let usage = \<lambda>pt ct tt est. \<lparr>lu_PromptTokens = pt, lu_CompletionTokens = ct, lu_TotalTokens = tt,
           lu_CostUSD = EstimateCost (exchange_model ri rs) pt ct, lu_TokensEstimated = est\<rparr>
     in if has_usage (Some rs)
        then Some (usage (rs_PromptTokens rs) (rs_CompletionTokens rs) (rs_TotalTokens rs) False)
        else if prompt_text ri = [] \<and> response_text (Some rs) = [] then None
        else Some (usage (EstimateTokens (prompt_text ri)) (EstimateTokens (response_text (Some rs)))
          (wrap64 (EstimateTokens (prompt_text ri) + EstimateTokens (response_text (Some rs)))) True))"
proof -
  have pos: "EstimateTokens s > 0 \<longleftrightarrow> s \<noteq> []" for s
    using EstimateTokens_zero [of s] EstimateTokens_nonneg [of s] by linarith
  show ?thesis
  proof (cases "has_usage (Some rs)")
    case True
    then show ?thesis
      unfolding buildLLMExchange_def exchange_response_usage
      by (cases ri) (auto simp: usageWithFallback_def exchange_model_def Let_def has_usage_def)
  next
    case False
    then show ?thesis
      unfolding buildLLMExchange_def exchange_response_usage
      using pos [of "prompt_text ri"] pos [of "response_text (Some rs)"]
      by (cases ri) (auto simp: usageWithFallback_def exchange_model_def Let_def EstimateTokens_zero)
  qed
qed

section \<open>Stored exchanges are listed\<close>

text \<open>What the list keeps of an exchange.\<close>

definition summary_of :: "'time llm_exchange \<Rightarrow> llm_item \<Rightarrow> bool" where
  "summary_of ex item \<longleftrightarrow>
     li_Provider item = ex_Provider ex \<and> li_Model item = ex_Model ex \<and> li_Stream item = ex_Stream ex \<and>
     li_ResponseSnippet item = truncateStr (ex_Response ex) 200 \<and>
     li_PromptSnippet item = truncateStr (lastUserMessage (ex_Messages ex)) 200 \<and>
     (case ex_Usage ex of None \<Rightarrow> li_TotalTokens item = 0 \<and> li_CostUSD item = 0
      | Some u \<Rightarrow> li_TotalTokens item = lu_TotalTokens u \<and> li_CostUSD item = lu_CostUSD u)"

lemma llm_item_summary:
  "row_llm_data r \<noteq> [] \<Longrightarrow> read (row_llm_data r) = Some ex \<Longrightarrow>
   li_ID (llm_item_of read r) = row_id r \<and> summary_of ex (llm_item_of read r)"
  by (simp add: llm_item_of_def Let_def summary_of_def split: option.split)

lemma truncate_short: "length s \<le> n \<Longrightarrow> truncateStr s n = s"
  by (simp add: truncateStr_def)


definition example_data :: string where
  "example_data = ''{'' @ quoted ''model'' @ '':'' @ quoted ''gpt-4'' @ '','' @ quoted ''response'' @ '':'' @ quoted ''hi'' @ ''}''"

definition example_exchange :: "unit llm_exchange" where
  "example_exchange = (empty_exchange ())\<lparr>ex_Model := ''gpt-4'', ex_Response := ''hi''\<rparr>"

definition example_rows :: store where
  "example_rows = \<lparr>st_requests = [new_row 1 zero_request], st_logs = [], st_settings = [], st_rules = [],
     st_hostCache = emptyHostCache, st_hostCacheTTL = 0, st_replies = [ExecOk 0 None, ExecOk 0 None, ExecOk 0 None]\<rparr>"

lemma example_read: "read_exchange (\<lambda>_. Some) () example_data = Some example_exchange"
  by code_simp


end
