(* ===== verification/Proxy.thy ===== *)
theory Proxy
  imports PendingQueue BatchWriter LlmExchange
begin

text \<open>
  \<^verbatim>\<open>internal/proxy/proxy.go\<close>: what the hooks of the proxy do with a request and its response, around
  the interceptor (\<^verbatim>\<open>PendingQueue\<close>), the parser of LLM traffic and the batch writer. A body is the
  bytes its reader delivers and whether it fails after them; \<^verbatim>\<open>goproxy\<close>, the listening server and
  the TLS configuration are not modelled. The size limits come from the configuration and are not
  negative.
\<close>

section \<open>Bounded reading\<close>

text \<open>The captured part, the part still to forward (if the reader is not exhausted), the flags.\<close>

definition readBodyBounded :: "nat \<Rightarrow> bytes \<Rightarrow> bool \<Rightarrow> bytes \<times> bytes option \<times> bool \<times> bool" where
  "readBodyBounded bound data fails =
     (let head = take (bound + 1) data in
      if fails \<and> length data < bound + 1 then (head, Some (drop (bound + 1) data), False, True)
      else if length head > bound then (take bound head, Some (drop bound head @ drop (bound + 1) data), True, False)
      else (head, None, False, False))"

text \<open>The body that is forwarded afterwards.\<close>

definition rejoin :: "bytes \<Rightarrow> bytes option \<Rightarrow> bytes" where
  "rejoin head rest = head @ (case rest of None \<Rightarrow> [] | Some r \<Rightarrow> r)"

section \<open>Requests\<close>

record request_context =
  rx_captured :: captured_request
  rx_provider :: provider
  rx_reqInfo :: "request_info option"

record proxy_server =
  px_batch :: batch_writer
  px_mitmEnabled :: bool
  px_maxReqBodyKB :: nat
  px_maxResBodyKB :: nat
  px_running :: bool
  px_port :: int

text \<open>The part of the request hook before the interceptor: the record, and the request to forward.\<close>

definition capture_request ::
  "proxy_server \<Rightarrow> instant \<Rightarrow> string \<Rightarrow> string \<Rightarrow> bool \<Rightarrow> http_request \<Rightarrow> captured_request \<times> http_request" where
  "capture_request px now proto scheme fails req =
     (let captured = zero_request
            \<lparr>cr_Method := hr_Method req, cr_URL := url_String (hr_URL req), cr_Host := url_Host (hr_URL req),
             cr_Path := url_Path (hr_URL req), cr_Protocol := proto,
             cr_IsHTTPS := (scheme = ''https'' \<or> hr_Method req = ''CONNECT''),
             cr_ReqHeaders := FlattenHeaders (hr_Header req), cr_CapturedAt := Some now,
             cr_CaptureMode := ''proxy''\<rparr>
      in case hr_Body req of
           None \<Rightarrow> (captured, req)
         | Some data \<Rightarrow>
             (case readBodyBounded (px_maxReqBodyKB px * 1024) data fails of
                (head, rest, truncated, _) \<Rightarrow>
                  let req = (if truncated \<or> rest \<noteq> None then req\<lparr>hr_Body := Some (rejoin head rest)\<rparr>
                             else req\<lparr>hr_Body := Some head, hr_ContentLength := int (length head),
                                      hr_GetBody := Some (Some head)\<rparr>);
                      captured = (if head \<noteq> [] then captured\<lparr>cr_ReqBody := head\<rparr> else captured)
                  in (captured\<lparr>cr_Truncated := truncated\<rparr>, req)))"

definition llm_context :: "custom_endpoint list \<Rightarrow> captured_request \<Rightarrow> request_context" where
  "llm_context eps captured =
     (let p = DetectProvider eps (cr_Host captured) (cr_Path captured) in
      if p = ProviderUnknown then \<lparr>rx_captured = captured, rx_provider = [], rx_reqInfo = None\<rparr>
      else
        let info = processLLMRequest p (cr_ReqBody captured);
            info = (case info of None \<Rightarrow> None
                    | Some ri \<Rightarrow>
                        if ri_Model ri = [] \<and> GeminiModelFromPath (cr_Path captured) \<noteq> []
                        then Some (ri\<lparr>ri_Model := GeminiModelFromPath (cr_Path captured)\<rparr>) else Some ri)
        in \<lparr>rx_captured = captured, rx_provider = p, rx_reqInfo = info\<rparr>)"

text \<open>\<^verbatim>\<open>storeFunc\<close>: a request the user modified is captured as modified.\<close>

definition sync_request ::
  "proxy_server \<Rightarrow> bool \<Rightarrow> http_request \<Rightarrow> captured_request \<Rightarrow> captured_request \<times> http_request" where
  "sync_request px fails r captured =
     (let captured = captured
            \<lparr>cr_Method := hr_Method r, cr_URL := url_String (hr_URL r), cr_Host := url_Host (hr_URL r),
             cr_Path := url_Path (hr_URL r), cr_ReqHeaders := FlattenHeaders (hr_Header r)\<rparr>
      in case hr_Body r of
           None \<Rightarrow> (captured\<lparr>cr_ReqBody := []\<rparr>, r)
         | Some data \<Rightarrow>
             (case readBodyBounded (px_maxReqBodyKB px * 1024) data fails of
                (head, rest, _, _) \<Rightarrow>
                  (captured\<lparr>cr_ReqBody := head\<rparr>,
                   if rest \<noteq> None then r\<lparr>hr_Body := Some (rejoin head rest)\<rparr>
                   else r\<lparr>hr_Body := Some head, hr_ContentLength := int (length head),
                          hr_GetBody := Some (Some head)\<rparr>)))"

section \<open>Responses\<close>

definition isSSEResponse :: "http_reply \<Rightarrow> bool" where
  "isSSEResponse resp \<longleftrightarrow> contains_str (Header_Get (rp_Header resp) ''Content-Type'') ''text/event-stream''"

definition since_ms :: "instant \<Rightarrow> captured_request \<Rightarrow> int" where
  "since_ms now c = (case cr_CapturedAt c of Some t \<Rightarrow> (now - t) div 1000000 | None \<Rightarrow> 0)"

definition capture_response :: "instant \<Rightarrow> string \<Rightarrow> http_reply \<Rightarrow> captured_request \<Rightarrow> captured_request" where
  "capture_response now proto resp captured =
     captured\<lparr>cr_StatusCode := rp_StatusCode resp, cr_Protocol := proto,
       cr_ResHeaders := FlattenHeaders (rp_Header resp), cr_DurationMs := since_ms now captured\<rparr>"

text \<open>The size of a cut body is the length the server announced, if it did.\<close>

definition body_size :: "bytes \<Rightarrow> bool \<Rightarrow> int \<Rightarrow> int" where
  "body_size head truncated contentLength =
     (if truncated \<and> contentLength > 0 then contentLength else int (length head))"

definition read_response ::
  "proxy_server \<Rightarrow> bool \<Rightarrow> http_reply \<Rightarrow> captured_request \<Rightarrow> captured_request \<times> http_reply" where
  "read_response px fails resp captured =
     (case rp_Body resp of
        None \<Rightarrow> (captured, resp)
      | Some data \<Rightarrow>
          (case readBodyBounded (px_maxResBodyKB px * 1024) data fails of
             (head, rest, truncated, _) \<Rightarrow>
               let resp' = resp\<lparr>rp_Body := Some (if truncated \<or> rest \<noteq> None then rejoin head rest else head)\<rparr>
               in (if head \<noteq> [] \<or> truncated
                   then captured\<lparr>cr_Truncated := truncated, cr_ResBody := head,
                          cr_SizeBytes := body_size head truncated (rp_ContentLength resp)\<rparr>
                   else captured, resp')))"

text \<open>The callback of the interceptor: the reply as the user left it, its body only when replaced.\<close>

definition sync_response ::
  "proxy_server \<Rightarrow> bool \<Rightarrow> bool \<Rightarrow> http_reply \<Rightarrow> captured_request \<Rightarrow> captured_request \<times> http_reply" where
  "sync_response px fails bodyReplaced r captured =
     (let captured = captured\<lparr>cr_StatusCode := rp_StatusCode r, cr_ResHeaders := FlattenHeaders (rp_Header r)\<rparr>
      in case rp_Body r of
           Some data \<Rightarrow>
             if bodyReplaced then
               (case readBodyBounded (px_maxResBodyKB px * 1024) data fails of
                  (head, rest, truncated, _) \<Rightarrow>
                    (captured\<lparr>cr_Truncated := truncated, cr_ResBody := head,
                       cr_SizeBytes := body_size head truncated (rp_ContentLength r)\<rparr>,
                     r\<lparr>rp_Body := Some (rejoin head rest)\<rparr>))
             else (captured, r)
         | None \<Rightarrow> (captured, r))"

text \<open>An LLM exchange is saved at once; the callbacks made are the captures reported.\<close>

definition saveLLMCaptured ::
  "(instant option llm_exchange \<Rightarrow> string option) \<Rightarrow> instant \<Rightarrow> captured_request \<Rightarrow> request_context \<Rightarrow> store \<Rightarrow>
   captured_request list \<times> store" where
  "saveLLMCaptured marshal now captured rx s =
     (case Save now captured s of
        (Inl e, captured, s) \<Rightarrow> ([], s)
      | (Inr i, captured, s) \<Rightarrow>
          let captured = captured\<lparr>cr_ID := i\<rparr>;
              resInfo = processLLMResponse (rx_provider rx) (cr_ResBody captured);
              ex = buildLLMExchange (rx_provider rx) (rx_reqInfo rx) resInfo (cr_CapturedAt captured)
          in ([captured], saveLLMExchange marshal i (Some ex) s))"

text \<open>The end of the response hook: saved at once or handed to the batch writer.\<close>

definition finish_response ::
  "(instant option llm_exchange \<Rightarrow> string option) \<Rightarrow> instant \<Rightarrow> captured_request \<Rightarrow> request_context \<Rightarrow> proxy_server \<Rightarrow>
   captured_request list \<times> proxy_server" where
  "finish_response marshal now captured rx px =
     (if IsValidProvider (rx_provider rx) then
        (case saveLLMCaptured marshal now captured rx (bw_store (px_batch px)) of (calls, s) \<Rightarrow>
           (calls, px\<lparr>px_batch := (px_batch px)\<lparr>bw_store := s\<rparr>\<rparr>))
      else
        (case Enqueue now captured (px_batch px) of (saved, bw) \<Rightarrow>
           (map fst (filter snd saved), px\<lparr>px_batch := bw\<rparr>)))"

section \<open>Tunnels\<close>

definition skipSuffixes :: "string list" where
  "skipSuffixes =
     [''.wns.windows.com'', ''.notify.windows.com'', ''.push.apple.com'', ''.talk.google.com'',
      ''.events.data.msn.cn'', ''.events.data.msn.com'', ''.events.data.microsoft.com'', ''ntp.msn.cn'',
      ''ntp.msn.com'', ''.telemetry.microsoft.com'', ''.vortex.data.microsoft.com'',
      ''.settings.data.microsoft.com'', ''.settings-win.data.microsoft.com'']"

definition shouldMITM :: "string \<Rightarrow> bool" where
  "shouldMITM rawHost =
     (let host = (case split_host_port rawHost of Some (h, _) \<Rightarrow> h | None \<Rightarrow> rawHost)
      in \<not> list_ex (\<lambda>s. host = s \<or> has_suffix host s) skipSuffixes)"

section \<open>Server-sent events\<close>

text \<open>\<^verbatim>\<open>bufio.Scanner\<close> over lines of at most 1 MB: a longer one stops it.\<close>

definition max_line :: nat where "max_line = 1024 * 1024"

definition drop_cr :: "string \<Rightarrow> string" where
  "drop_cr l = (if l \<noteq> [] \<and> last l = CR then butlast l else l)"

definition scan_lines :: "bytes \<Rightarrow> string list" where
  "scan_lines data =
     (let ls = split_on LF data; ls = (if last ls = [] then butlast ls else ls)
      in map drop_cr (takeWhile (\<lambda>l. length l < max_line) ls))"

record sse_copy =
  sse_captured :: captured_request
  sse_captureBuf :: bytes
  sse_totalSize :: int
  sse_dataBuf :: string
  sse_assembler :: "stream_assembler option"
  sse_lastUpdate :: instant
  sse_forwarded :: bytes
  sse_store :: store
  sse_calls :: "captured_request list"

text \<open>The data lines of an event are collected; the empty line after them feeds them.\<close>

definition feed_event :: "sse_copy \<Rightarrow> sse_copy" where
  "feed_event st =
     (if sse_dataBuf st = [] then st
      else st\<lparr>sse_assembler := map_option (\<lambda>a. snd (Feed_chunk (sse_dataBuf st) a)) (sse_assembler st),
              sse_dataBuf := []\<rparr>)"

definition sse_data_line :: "nat \<Rightarrow> string \<Rightarrow> sse_copy \<Rightarrow> sse_copy" where
  "sse_data_line maxRes line st =
     (if sse_assembler st = None then st
      else
        let trimmed = trim_space line in
        if has_prefix trimmed ''data:'' then
          (let d = trim_space (drop 5 trimmed) in
           if d \<noteq> [] \<and> d \<noteq> ''[DONE]'' \<and> length (sse_dataBuf st) + length d + 1 \<le> maxRes
           then st\<lparr>sse_dataBuf := (if sse_dataBuf st = [] then [] else sse_dataBuf st @ [LF]) @ d\<rparr> else st)
        else if trimmed = [] then feed_event st
        else st)"

definition sync_capture :: "instant \<Rightarrow> sse_copy \<Rightarrow> captured_request" where
  "sync_capture now st =
     (sse_captured st)\<lparr>cr_ResBody := sse_captureBuf st, cr_SSEEvents := sse_captureBuf st,
        cr_SizeBytes := sse_totalSize st, cr_DurationMs := since_ms now (sse_captured st)\<rparr>"

definition sse_update :: "instant \<Rightarrow> sse_copy \<Rightarrow> sse_copy" where
  "sse_update now st =
     (let c = sync_capture now st;
          (_, s) = UpdateResBody (cr_ID c) (cr_ResBody c) (cr_SSEEvents c) (cr_SizeBytes c) (sse_store st)
      in st\<lparr>sse_captured := c, sse_store := s\<rparr>)"

definition sse_announce :: "sse_copy \<Rightarrow> sse_copy" where
  "sse_announce st = st\<lparr>sse_calls := sse_calls st @ [sse_captured st]\<rparr>"

definition sse_line :: "nat \<Rightarrow> instant \<Rightarrow> string \<Rightarrow> sse_copy \<Rightarrow> sse_copy" where
  "sse_line maxRes now line st =
     (let st = st\<lparr>sse_totalSize := sse_totalSize st + int (length line + 1),
                  sse_forwarded := sse_forwarded st @ line @ [LF]\<rparr>;
          st = (if length (sse_captureBuf st) < maxRes then st\<lparr>sse_captureBuf := sse_captureBuf st @ line @ [LF]\<rparr> else st);
          st = sse_data_line maxRes line st
      in if now - sse_lastUpdate st \<ge> 500000000
         then sse_announce (sse_update now (st\<lparr>sse_lastUpdate := now\<rparr>))
         else st)"

text \<open>The loop: the time at each line, and whether the client still takes it. A failed write ends the copy.\<close>

fun sse_loop :: "nat \<Rightarrow> (nat \<Rightarrow> instant) \<Rightarrow> (nat \<Rightarrow> bool) \<Rightarrow> string list \<Rightarrow> sse_copy \<Rightarrow> bool \<times> sse_copy" where
  "sse_loop maxRes clock writes [] st = (True, st)"
| "sse_loop maxRes clock writes (l # ls) st =
     (if writes (length ls) then sse_loop maxRes clock writes ls (sse_line maxRes (clock (length ls)) l st)
      else (False, st\<lparr>sse_totalSize := sse_totalSize st + int (length l + 1)\<rparr>))"

definition sse_exchange :: "request_context \<Rightarrow> sse_copy \<Rightarrow> instant option llm_exchange option" where
  "sse_exchange rx st =
     map_option (\<lambda>a. buildLLMExchange (rx_provider rx) (rx_reqInfo rx) (Some (Result a)) (cr_CapturedAt (sse_captured st)))
       (sse_assembler st)"

definition sse_finish ::
  "(instant option llm_exchange \<Rightarrow> string option) \<Rightarrow> instant \<Rightarrow> request_context \<Rightarrow> sse_copy \<Rightarrow> sse_copy" where
  "sse_finish marshal now rx st =
     (let st = feed_event (sse_update now st)
      in sse_announce (case sse_exchange rx st of
           None \<Rightarrow> st
         | Some ex \<Rightarrow> st\<lparr>sse_store := saveLLMExchange marshal (cr_ID (sse_captured st)) (Some ex) (sse_store st)\<rparr>))"

definition sse_start :: "instant \<Rightarrow> request_context \<Rightarrow> captured_request \<Rightarrow> store \<Rightarrow> sse_copy" where
  "sse_start now rx captured s =
     \<lparr>sse_captured = captured, sse_captureBuf = [], sse_totalSize = 0, sse_dataBuf = [],
      sse_assembler = (if IsValidProvider (rx_provider rx) then Some (NewStreamAssembler (rx_provider rx)) else None),
      sse_lastUpdate = now, sse_forwarded = [], sse_store = s, sse_calls = [captured]\<rparr>"

text \<open>The copy of a whole response; without a first save there is none.\<close>

definition handleSSEResponse ::
  "(instant option llm_exchange \<Rightarrow> string option) \<Rightarrow> nat \<Rightarrow> instant \<Rightarrow> instant \<Rightarrow> (nat \<Rightarrow> instant) \<Rightarrow> (nat \<Rightarrow> bool) \<Rightarrow> bytes \<Rightarrow>
   captured_request \<Rightarrow> request_context \<Rightarrow> store \<Rightarrow> sse_copy option \<times> store" where
  "handleSSEResponse marshal maxResKB now fin clock writes body captured rx s =
     (case Save now (captured\<lparr>cr_ResBody := [], cr_SSEEvents := []\<rparr>) s of
        (Inl e, _, s) \<Rightarrow> (None, s)
      | (Inr i, captured, s) \<Rightarrow>
          (case sse_loop (maxResKB * 1024) clock writes (scan_lines body)
                  (sse_start now rx (captured\<lparr>cr_ID := i\<rparr>) s) of
             (whole, st) \<Rightarrow>
               let st = (if whole then sse_finish marshal fin rx st else st)
               in (Some st, sse_store st)))"

section \<open>Bodies are forwarded whole\<close>

lemma drop_take_drop: "drop n (take (Suc n) d) @ drop (Suc n) d = drop n d"
proof (induction d arbitrary: n)
  case (Cons x d)
  then show ?case by (cases n) simp_all
qed simp

lemma readBodyBounded_parts:
  assumes "readBodyBounded bound data fails = (head, rest, truncated, err)"
  shows "rejoin head rest = data" and "length head \<le> bound" and "truncated \<longleftrightarrow> length data > bound"
    and "head = take bound data" and "err \<longrightarrow> fails"
  using assms by (auto simp: readBodyBounded_def rejoin_def Let_def min_def drop_take_drop split: if_splits)

text \<open>C23: A captured body never costs the client or the server a byte: whatever the size of the body and
  the limit, and whether or not the reader fails, the request and the response are forwarded with
  exactly the bytes they came with, while the record holds their first bytes up to the limit.\<close>

theorem bodies_forwarded_whole:
  "(case capture_request px now proto scheme fails req of (captured, req') \<Rightarrow>
      hr_Body req' = hr_Body req \<and> hr_Method req' = hr_Method req \<and> hr_URL req' = hr_URL req \<and>
      hr_Header req' = hr_Header req \<and>
      cr_ReqBody captured = take (px_maxReqBodyKB px * 1024) (case hr_Body req of Some b \<Rightarrow> b | None \<Rightarrow> []) \<and>
      (cr_Truncated captured \<longleftrightarrow> length (case hr_Body req of Some b \<Rightarrow> b | None \<Rightarrow> []) > px_maxReqBodyKB px * 1024)) \<and>
   (case read_response px fails resp c of (captured, resp') \<Rightarrow>
      rp_Body resp' = rp_Body resp \<and> rp_Header resp' = rp_Header resp \<and> rp_StatusCode resp' = rp_StatusCode resp \<and>
      (case rp_Body resp of None \<Rightarrow> captured = c
       | Some b \<Rightarrow> b = [] \<or> cr_ResBody captured = take (px_maxResBodyKB px * 1024) b \<and>
           (cr_Truncated captured \<longleftrightarrow> length b > px_maxResBodyKB px * 1024)))"
proof (intro conjI)
  show "case capture_request px now proto scheme fails req of (captured, req') \<Rightarrow>
      hr_Body req' = hr_Body req \<and> hr_Method req' = hr_Method req \<and> hr_URL req' = hr_URL req \<and>
      hr_Header req' = hr_Header req \<and>
      cr_ReqBody captured = take (px_maxReqBodyKB px * 1024) (case hr_Body req of Some b \<Rightarrow> b | None \<Rightarrow> []) \<and>
      (cr_Truncated captured \<longleftrightarrow> length (case hr_Body req of Some b \<Rightarrow> b | None \<Rightarrow> []) > px_maxReqBodyKB px * 1024)"
  proof (cases "hr_Body req")
    case None
    then show ?thesis by (simp add: capture_request_def Let_def zero_request_def)
  next
    case (Some data)
    obtain head rest truncated err where
      r: "readBodyBounded (px_maxReqBodyKB px * 1024) data fails = (head, rest, truncated, err)" by (metis prod_cases4)
    note f = readBodyBounded_parts [OF r]
    have "head = data" if "\<not> truncated" "rest = None" using f(1) that by (simp add: rejoin_def)
    then show ?thesis
      using f(1,3,4) by (auto simp: capture_request_def Let_def Some r zero_request_def)
  qed
  show "case read_response px fails resp c of (captured, resp') \<Rightarrow>
      rp_Body resp' = rp_Body resp \<and> rp_Header resp' = rp_Header resp \<and> rp_StatusCode resp' = rp_StatusCode resp \<and>
      (case rp_Body resp of None \<Rightarrow> captured = c
       | Some b \<Rightarrow> b = [] \<or> cr_ResBody captured = take (px_maxResBodyKB px * 1024) b \<and>
           (cr_Truncated captured \<longleftrightarrow> length b > px_maxResBodyKB px * 1024))"
  proof (cases "rp_Body resp")
    case None
    then show ?thesis by (simp add: read_response_def)
  next
    case (Some data)
    obtain head rest truncated err where
      r: "readBodyBounded (px_maxResBodyKB px * 1024) data fails = (head, rest, truncated, err)" by (metis prod_cases4)
    note f = readBodyBounded_parts [OF r]
    have "head = data" if "\<not> truncated" "rest = None" using f(1) that by (simp add: rejoin_def)
    moreover have "data = [] \<or> head \<noteq> [] \<or> truncated" using f(3,4) by (cases "px_maxResBodyKB px * 1024") auto
    ultimately show ?thesis
      using f(1,3,4) by (auto simp: read_response_def Let_def Some r)
  qed
qed

section \<open>Copying an event stream\<close>

definition lines_text :: "string list \<Rightarrow> bytes" where
  "lines_text ls = concat (map (\<lambda>l. l @ [LF]) ls)"

lemma lines_text_simps [simp]: "lines_text [] = []" "lines_text (l # ls) = l @ LF # lines_text ls"
  by (simp_all add: lines_text_def)

lemma sse_data_line_keeps [simp]:
  "sse_captured (sse_data_line m l st) = sse_captured st" "sse_captureBuf (sse_data_line m l st) = sse_captureBuf st"
  "sse_totalSize (sse_data_line m l st) = sse_totalSize st" "sse_forwarded (sse_data_line m l st) = sse_forwarded st"
  "sse_store (sse_data_line m l st) = sse_store st" "sse_lastUpdate (sse_data_line m l st) = sse_lastUpdate st"
  "sse_calls (sse_data_line m l st) = sse_calls st"
  by (auto simp: sse_data_line_def feed_event_def Let_def)

lemma sse_update_keeps [simp]:
  "sse_captureBuf (sse_update now st) = sse_captureBuf st" "sse_totalSize (sse_update now st) = sse_totalSize st"
  "sse_dataBuf (sse_update now st) = sse_dataBuf st" "sse_assembler (sse_update now st) = sse_assembler st"
  "sse_forwarded (sse_update now st) = sse_forwarded st" "sse_calls (sse_update now st) = sse_calls st"
  "cr_CapturedAt (sse_captured (sse_update now st)) = cr_CapturedAt (sse_captured st)"
  "cr_ID (sse_captured (sse_update now st)) = cr_ID (sse_captured st)"
  by (simp_all add: sse_update_def sync_capture_def Let_def split: prod.split)

lemma sse_announce_keeps [simp]:
  "sse_captureBuf (sse_announce st) = sse_captureBuf st" "sse_totalSize (sse_announce st) = sse_totalSize st"
  "sse_dataBuf (sse_announce st) = sse_dataBuf st" "sse_assembler (sse_announce st) = sse_assembler st"
  "sse_forwarded (sse_announce st) = sse_forwarded st" "sse_captured (sse_announce st) = sse_captured st"
  "sse_store (sse_announce st) = sse_store st"
  by (simp_all add: sse_announce_def)

lemma sse_line_effect:
  "sse_forwarded (sse_line m now l st) = sse_forwarded st @ l @ [LF]"
  "sse_captureBuf (sse_line m now l st) =
     (if length (sse_captureBuf st) < m then sse_captureBuf st @ l @ [LF] else sse_captureBuf st)"
  "sse_totalSize (sse_line m now l st) = sse_totalSize st + int (length l) + 1"
  "cr_CapturedAt (sse_captured (sse_line m now l st)) = cr_CapturedAt (sse_captured st)"
  "cr_ID (sse_captured (sse_line m now l st)) = cr_ID (sse_captured st)"
  by (simp_all add: sse_line_def Let_def)

lemma sse_data_line_cong:
  "sse_dataBuf st = sse_dataBuf st' \<Longrightarrow> sse_assembler st = sse_assembler st' \<Longrightarrow>
   sse_dataBuf (sse_data_line m l st) = sse_dataBuf (sse_data_line m l st') \<and>
   sse_assembler (sse_data_line m l st) = sse_assembler (sse_data_line m l st')"
  by (simp add: sse_data_line_def feed_event_def Let_def)

lemma sse_line_data:
  "sse_dataBuf (sse_line m now l st) = sse_dataBuf (sse_data_line m l st)"
  "sse_assembler (sse_line m now l st) = sse_assembler (sse_data_line m l st)"
  using sse_data_line_cong [of "st\<lparr>sse_totalSize := sse_totalSize st + int (length l + 1),
      sse_forwarded := sse_forwarded st @ l @ [LF]\<rparr>" st m l]
    sse_data_line_cong [of "st\<lparr>sse_totalSize := sse_totalSize st + int (length l + 1),
      sse_forwarded := sse_forwarded st @ l @ [LF], sse_captureBuf := sse_captureBuf st @ l @ [LF]\<rparr>" st m l]
  by (simp_all add: sse_line_def Let_def)

lemma sse_loop_full:
  "m \<le> length (sse_captureBuf st) \<Longrightarrow> sse_loop m clock writes ls st = (whole, st') \<Longrightarrow>
   sse_captureBuf st' = sse_captureBuf st"
  by (induction m clock writes ls st rule: sse_loop.induct) (auto simp: sse_line_effect split: if_splits)

lemma sse_loop_stays: "\<forall>i. writes i \<Longrightarrow> sse_loop m clock writes ls st = (whole, st') \<Longrightarrow> whole"
  by (induction m clock writes ls st rule: sse_loop.induct) auto

text \<open>Up to where the client goes away, it gets every line, and the record as much as its limit allows.\<close>

lemma sse_loop_effect:
  "sse_loop m clock writes ls st = (whole, st') \<Longrightarrow>
   \<exists>k \<le> length ls. whole = (k = length ls) \<and>
     sse_forwarded st' = sse_forwarded st @ lines_text (take k ls) \<and>
     (\<exists>j \<le> k. sse_captureBuf st' = sse_captureBuf st @ lines_text (take j ls)) \<and>
     (length (sse_captureBuf st) < m + max_line \<longrightarrow> list_all (\<lambda>l. length l < max_line) ls \<longrightarrow>
        length (sse_captureBuf st') < m + max_line) \<and>
     cr_CapturedAt (sse_captured st') = cr_CapturedAt (sse_captured st)"
proof (induction m clock writes ls st rule: sse_loop.induct)
  case (1 m clock writes st)
  then show ?case by auto
next
  case (2 m clock writes l ls st)
  show ?case
  proof (cases "writes (length ls)")
    case False
    then show ?thesis using 2 by (auto intro!: exI [of _ "0 :: nat"])
  next
    case True
    let ?s = "sse_line m (clock (length ls)) l st"
    have r: "sse_loop m clock writes ls ?s = (whole, st')" using 2(2) True by simp
    obtain k j where k: "k \<le> length ls" "whole = (k = length ls)"
      "sse_forwarded st' = sse_forwarded ?s @ lines_text (take k ls)" "j \<le> k"
      "sse_captureBuf st' = sse_captureBuf ?s @ lines_text (take j ls)"
      "length (sse_captureBuf ?s) < m + max_line \<longrightarrow> list_all (\<lambda>l. length l < max_line) ls \<longrightarrow>
        length (sse_captureBuf st') < m + max_line"
      "cr_CapturedAt (sse_captured st') = cr_CapturedAt (sse_captured ?s)"
      using 2(1) [OF True r] by blast
    have "\<exists>j' \<le> Suc k. sse_captureBuf st' = sse_captureBuf st @ lines_text (take j' (l # ls))"
    proof (cases "length (sse_captureBuf st) < m")
      case True
      then show ?thesis using k(4,5) by (intro exI [of _ "Suc j"]) (simp add: sse_line_effect)
    next
      case False
      then show ?thesis using sse_loop_full [of m ?s, OF _ r] by (intro exI [of _ 0]) (simp add: sse_line_effect)
    qed
    moreover have "length (sse_captureBuf ?s) < m + max_line" if "length (sse_captureBuf st) < m + max_line" "length l < max_line"
      using that by (auto simp: sse_line_effect)
    ultimately show ?thesis
      using k by (intro exI [of _ "Suc k"]) (auto simp: sse_line_effect)
  qed
qed

lemma split_lines_text:
  "list_all (\<lambda>l. LF \<notin> set l) ls \<Longrightarrow> split_on LF (lines_text ls) = ls @ [[]]"
  by (induction ls) (simp_all add: split_on_append)

definition good_line :: "string \<Rightarrow> bool" where
  "good_line l \<longleftrightarrow> LF \<notin> set l \<and> \<not> (l \<noteq> [] \<and> last l = CR) \<and> length l < max_line"

lemma scan_lines_text:
  assumes "list_all good_line ls"
  shows "scan_lines (lines_text ls) = ls"
proof -
  have "split_on LF (lines_text ls) = ls @ [[]]"
    using assms by (intro split_lines_text) (auto simp: list_all_iff good_line_def)
  moreover have short: "takeWhile (\<lambda>l. length l < max_line) ls = ls"
    using assms by (auto simp: takeWhile_eq_all_conv list_all_iff good_line_def)
  moreover have "map drop_cr ls = ls"
    using assms by (intro map_idI) (auto simp: drop_cr_def list_all_iff good_line_def)
  ultimately show ?thesis by (simp add: scan_lines_def Let_def short)
qed

lemma scan_lines_short: "list_all (\<lambda>l. length l < max_line) (scan_lines data)"
proof -
  have "length (drop_cr l) \<le> length l" for l by (simp add: drop_cr_def)
  then show ?thesis
    by (auto simp: scan_lines_def Let_def list_all_iff dest!: set_takeWhileD intro: le_less_trans)
qed

text \<open>The end of the copy changes neither the bytes nor the texts.\<close>

lemma feed_event_keeps [simp]:
  "sse_captureBuf (feed_event st) = sse_captureBuf st" "sse_forwarded (feed_event st) = sse_forwarded st"
  "sse_captured (feed_event st) = sse_captured st" "sse_store (feed_event st) = sse_store st"
  by (simp_all add: feed_event_def)

lemma sse_finish_keeps [simp]:
  "sse_captureBuf (sse_finish marshal now rx st) = sse_captureBuf st"
  "sse_forwarded (sse_finish marshal now rx st) = sse_forwarded st"
  "cr_ID (sse_captured (sse_finish marshal now rx st)) = cr_ID (sse_captured st)"
  by (simp_all add: sse_finish_def Let_def split: option.split)

text \<open>The client of an event stream gets the lines of the response in order, all of them when it
  stays to the end, and the record holds a prefix of them of less than its limit and one line.\<close>

theorem event_stream_forwarded:
  assumes "handleSSEResponse marshal maxResKB now fin clock writes body captured rx s = (Some st, s')"
  shows "\<exists>k \<le> length (scan_lines body). sse_forwarded st = lines_text (take k (scan_lines body)) \<and>
      ((\<forall>i. writes i) \<longrightarrow> k = length (scan_lines body)) \<and>
      (\<exists>j \<le> k. sse_captureBuf st = lines_text (take j (scan_lines body))) \<and>
      length (sse_captureBuf st) < maxResKB * 1024 + max_line"
proof -
  obtain i c s1 whole st1 where sv: "Save now (captured\<lparr>cr_ResBody := [], cr_SSEEvents := []\<rparr>) s = (Inr i, c, s1)"
    and lp: "sse_loop (maxResKB * 1024) clock writes (scan_lines body) (sse_start now rx (c\<lparr>cr_ID := i\<rparr>) s1) = (whole, st1)"
    and st: "st = (if whole then sse_finish marshal fin rx st1 else st1)"
    using assms by (auto simp: handleSSEResponse_def Let_def split: prod.splits sum.splits)
  have stays: "\<forall>i. writes i \<Longrightarrow> whole" by (rule sse_loop_stays [OF _ lp])
  obtain k j where k: "k \<le> length (scan_lines body)" "whole = (k = length (scan_lines body))"
    "sse_forwarded st1 = lines_text (take k (scan_lines body))" "j \<le> k"
    "sse_captureBuf st1 = lines_text (take j (scan_lines body))"
    "length (sse_captureBuf st1) < maxResKB * 1024 + max_line"
    using sse_loop_effect [OF lp] scan_lines_short [of body] by (auto simp: sse_start_def max_line_def)
  have "sse_forwarded st = sse_forwarded st1" "sse_captureBuf st = sse_captureBuf st1" by (simp_all add: st)
  then show ?thesis using k stays by (intro exI [of _ k]) auto
qed

section \<open>A streamed exchange\<close>

lemma trim_space_space: "trim_space (CHR '' '' # s) = trim_space s"
  by (simp add: trim_space_def trim_left_def is_space_char_def)

definition good_payload :: "string \<Rightarrow> bool" where
  "good_payload d \<longleftrightarrow> d \<noteq> [] \<and> \<not> is_space_char (hd d) \<and> \<not> is_space_char (last d) \<and> d \<noteq> ''[DONE]''"

definition event_lines :: "string \<Rightarrow> string list" where
  "event_lines d = [''data: '' @ d, []]"

lemma sse_event:
  assumes "good_payload d" and "length d + 1 \<le> m" and "sse_dataBuf st = []" and "sse_assembler st = Some a"
  shows "sse_dataBuf (sse_line m t2 [] (sse_line m t1 (''data: '' @ d) st)) = [] \<and>
    sse_assembler (sse_line m t2 [] (sse_line m t1 (''data: '' @ d) st)) = Some (snd (Feed_chunk d a))"
proof -
  let ?l = "''data: '' @ d"
  have l: "trim_space ?l = ?l"
    using assms(1) by (intro trim_space_id) (simp_all add: good_payload_def is_space_char_def)
  have d: "trim_space (drop 5 ?l) = d"
    using assms(1) by (simp add: trim_space_space trim_space_id good_payload_def)
  have pre: "has_prefix ?l ''data:''" by (simp add: has_prefix_def)
  have one: "sse_dataBuf (sse_data_line m ?l st) = d" "sse_assembler (sse_data_line m ?l st) = Some a"
    using assms d pre unfolding sse_data_line_def Let_def l by (simp_all add: good_payload_def)
  have "trim_space [] = []" "\<not> has_prefix [] ''data:''" by (simp_all add: trim_space_def trim_left_def trim_right_def has_prefix_def)
  then have "sse_data_line m [] st' = feed_event st'" if "sse_assembler st' = Some a" for st'
    using that by (simp add: sse_data_line_def)
  then show ?thesis
    using one assms(1) by (simp add: sse_line_data feed_event_def good_payload_def)
qed

lemma sse_events:
  assumes "\<forall>i. writes i"
  shows "list_all (\<lambda>d. good_payload d \<and> length d + 1 \<le> m) ds \<Longrightarrow> sse_dataBuf st = [] \<Longrightarrow> sse_assembler st = Some a \<Longrightarrow>
    sse_loop m clock writes (concat (map event_lines ds)) st = (whole, st') \<Longrightarrow>
    sse_dataBuf st' = [] \<and> sse_assembler st' = Some (feed_chunks ds a)"
proof (induction ds arbitrary: st a)
  case (Cons d ds)
  have w: "writes = (\<lambda>_. True)" using assms by auto
  let ?n = "length (concat (map event_lines ds))"
  let ?st = "sse_line m (clock ?n) [] (sse_line m (clock (Suc ?n)) (''data: '' @ d) st)"
  have "sse_dataBuf ?st = [] \<and> sse_assembler ?st = Some (snd (Feed_chunk d a))"
    using Cons.prems(1-3) by (intro sse_event) simp_all
  moreover have "concat (map event_lines (d # ds)) = (''data: '' @ d) # [] # concat (map event_lines ds)"
    by (simp add: event_lines_def)
  then have "sse_loop m clock writes (concat (map event_lines ds)) ?st = (whole, st')"
    using Cons.prems(4) unfolding w by (simp only: sse_loop.simps if_True list.size(4) add_0_right One_nat_def add_Suc_right)
  ultimately show ?case using Cons.IH [of ?st "snd (Feed_chunk d a)"] Cons.prems(1) by simp
qed simp

text \<open>A chunk of text is one line that survives the trimming.\<close>

lemma hex_digit_no_LF: "n < 16 \<Longrightarrow> hex_digit n \<noteq> LF"
proof -
  have "list_all (\<lambda>n. hex_digit n \<noteq> LF) [0..<16]" by code_simp
  then show "n < 16 \<Longrightarrow> hex_digit n \<noteq> LF" by (simp add: list_all_iff)
qed

lemma marshal_no_LF:
  assumes "valid_utf8 s"
  shows "LF \<notin> set (marshal_body s)"
proof -
  have "list_all utf8_rune rs \<Longrightarrow> LF \<notin> set (marshal_body (concat rs))" for rs
  proof (induction rs)
    case Nil
    then show ?case by (simp add: marshal_body.simps)
  next
    case (Cons r rs)
    show ?case
    proof (cases "\<exists>c. r = [c]")
      case True
      then obtain c where r: "r = [c]" by blast
      then have c: "char_code c < 128" using Cons.prems byte_char by simp
      have hex: "char_code c div 16 < 16" "char_code c mod 16 < 16" using c by auto
      have "LF \<notin> set (marshal_ascii c)"
        using hex [THEN hex_digit_no_LF, symmetric] by (auto simp: marshal_ascii_def)
      then show ?thesis using Cons by (simp add: r marshal_body_ascii [OF c])
    next
      case False
      have "LF \<notin> set (marshal_rune r)"
        using long_rune [of r] False Cons.prems by (auto simp: marshal_rune_def Let_def)
      then show ?thesis using Cons False by (simp add: marshal_body_long)
    qed
  qed
  then show ?thesis using assms by (auto simp: valid_utf8_def)
qed

lemma text_body_payload: "good_payload (text_body key text)"
  by (simp add: good_payload_def text_body_def is_space_char_def)

lemma text_body_line:
  "valid_utf8 text \<Longrightarrow> key \<in> {''message'', ''delta''} \<Longrightarrow> length (text_body key text) + 6 < max_line \<Longrightarrow>
   list_all good_line (event_lines (text_body key text))"
  using marshal_no_LF [of "text"]
  by (auto simp: event_lines_def good_line_def text_body_def quoted_def marshal_string_def max_line_def)


section \<open>Concrete copies\<close>

definition answering_store :: store where
  "answering_store = \<lparr>st_requests = [], st_logs = [], st_settings = [], st_rules = [],
     st_hostCache = emptyHostCache, st_hostCacheTTL = 0, st_replies = [ExecOk 7 None, ExecOk 0 None, ExecOk 0 None]\<rparr>"

definition openai_context :: request_context where
  "openai_context = \<lparr>rx_captured = zero_request, rx_provider = ProviderOpenAI, rx_reqInfo = None\<rparr>"

lemma copy_of_answering_store:
  "\<exists>st s'. handleSSEResponse marshal n now fin clock writes body zero_request rx answering_store = (Some st, s')"
  by (simp add: handleSSEResponse_def Save_def next_reply_def answering_store_def Let_def split: prod.split)

theorem event_stream_forwarded_witness:
  "\<exists>st s'. handleSSEResponse (\<lambda>_. None) 1 0 1 (\<lambda>_. 0) (\<lambda>_. True) ''ab'' zero_request openai_context answering_store = (Some st, s') \<and>
     sse_forwarded st = lines_text (scan_lines ''ab'') \<and> length (sse_captureBuf st) < 1 * 1024 + max_line"
proof -
  obtain st s' where h: "handleSSEResponse (\<lambda>_. None) 1 0 1 (\<lambda>_. 0) (\<lambda>_. True) ''ab'' zero_request openai_context
      answering_store = (Some st, s')" using copy_of_answering_store by metis
  from event_stream_forwarded [OF h] h show ?thesis by auto
qed


section \<open>A client that goes away\<close>

definition no_exchange :: "store \<Rightarrow> bool" where
  "no_exchange s \<longleftrightarrow> list_all (\<lambda>r. \<not> row_is_llm r) (st_requests s)"

lemma no_exchange_update:
  "no_exchange s \<Longrightarrow> no_exchange (snd (UpdateResBody i b ev n s))"
  by (auto simp: no_exchange_def UpdateResBody_def next_reply_def update_rows_def Let_def list_all_iff
      split: prod.splits list.splits reply.splits)

lemma no_exchange_save:
  "no_exchange s \<Longrightarrow> Save now c s = (r, c', s') \<Longrightarrow> no_exchange s'"
  by (auto simp: no_exchange_def Save_def next_reply_def Let_def new_row_def list_all_iff
      split: list.splits reply.splits option.splits)

lemma no_exchange_sse_update: "no_exchange (sse_store st) \<Longrightarrow> no_exchange (sse_store (sse_update now st))"
  using no_exchange_update [of "sse_store st"] by (simp add: sse_update_def Let_def split_def)

lemma no_exchange_line: "no_exchange (sse_store st) \<Longrightarrow> no_exchange (sse_store (sse_line m t l st))"
  by (simp add: sse_line_def Let_def no_exchange_sse_update)

lemma no_exchange_loop:
  "sse_loop m clock writes ls st = (whole, st') \<Longrightarrow> no_exchange (sse_store st) \<Longrightarrow> no_exchange (sse_store st')"
  by (induction m clock writes ls st rule: sse_loop.induct) (auto simp: no_exchange_line split: if_splits)

lemma sse_loop_aborted:
  "sse_loop m clock writes ls st = (whole, st') \<Longrightarrow> i < length ls \<Longrightarrow> \<not> writes i \<Longrightarrow> \<not> whole"
  by (induction m clock writes ls st rule: sse_loop.induct) (auto simp: less_Suc_eq split: if_splits)

text \<open>When the client goes away before the end of a streamed answer, no exchange is saved, however
  much of the answer has arrived: the copy returns without its final update.\<close>

theorem aborted_answer_lost:
  assumes "handleSSEResponse marshal maxResKB now fin clock writes body captured rx s = (Some st, s')"
    and "i < length (scan_lines body)" and "\<not> writes i" and "no_exchange s"
  shows "no_exchange s'"
proof -
  obtain j c s1 whole st1 where sv: "Save now (captured\<lparr>cr_ResBody := [], cr_SSEEvents := []\<rparr>) s = (Inr j, c, s1)"
    and lp: "sse_loop (maxResKB * 1024) clock writes (scan_lines body) (sse_start now rx (c\<lparr>cr_ID := j\<rparr>) s1) = (whole, st1)"
    and st: "st = (if whole then sse_finish marshal fin rx st1 else st1)" "s' = sse_store st"
    using assms(1) by (auto simp: handleSSEResponse_def Let_def split: prod.splits sum.splits)
  have "no_exchange (sse_store st1)"
    using no_exchange_loop [OF lp] no_exchange_save [OF assms(4) sv] by (simp add: sse_start_def)
  then show ?thesis using sse_loop_aborted [OF lp assms(2,3)] by (simp add: st)
qed

theorem aborted_answer_lost_witness:
  "\<exists>st s'. handleSSEResponse (\<lambda>_. None) 1 0 1 (\<lambda>_. 0) (\<lambda>i. i \<noteq> 0) ''data: x'' zero_request openai_context
       answering_store = (Some st, s') \<and> no_exchange s'"
proof -
  obtain st s' where h: "handleSSEResponse (\<lambda>_. None) 1 0 1 (\<lambda>_. 0) (\<lambda>i. i \<noteq> 0) ''data: x'' zero_request openai_context
      answering_store = (Some st, s')" using copy_of_answering_store by metis
  have "0 < length (scan_lines ''data: x'')" by (simp add: scan_lines_def Let_def max_line_def)
  then have "no_exchange s'"
    using aborted_answer_lost [OF h, of 0] by (simp add: no_exchange_def answering_store_def)
  then show ?thesis using h by blast
qed

end
