(* ===== verification/ProxyHooks.thy ===== *)
theory ProxyHooks
  imports Proxy
begin

text \<open>
  The request and response hooks of \<^verbatim>\<open>internal/proxy/proxy.go\<close> put together (\<open>setupHandlers\<close>), and
  the life of the server. A hook is cut where it waits for the interceptor: the part before it, and
  the part that follows a verdict of \<^verbatim>\<open>PendingQueue\<close>. \<open>http.Server\<close> is what \<open>ListenAndServe\<close>
  returned.
\<close>

section \<open>The request hook\<close>

definition OnRequest_begin ::
  "custom_endpoint list \<Rightarrow> proxy_server \<Rightarrow> instant \<Rightarrow> string \<Rightarrow> string \<Rightarrow> bool \<Rightarrow> http_request \<Rightarrow>
   request_context \<times> http_request" where
  "OnRequest_begin eps px now proto scheme fails req =
     (case capture_request px now proto scheme fails req of (captured, req) \<Rightarrow> (llm_context eps captured, req))"

text \<open>What \<open>Handle\<close> returned, and the request it gave to \<open>storeFunc\<close> before, if it did.\<close>

definition OnRequest_end ::
  "proxy_server \<Rightarrow> bool \<Rightarrow> http_request option \<times> verdict \<Rightarrow> request_context \<Rightarrow> request_context \<times> verdict" where
  "OnRequest_end px fails res rx =
     (case res of
        (None, v) \<Rightarrow> (rx, v)
      | (Some r, v) \<Rightarrow>
          (case sync_request px fails r (rx_captured rx) of (captured, r) \<Rightarrow>
             (rx\<lparr>rx_captured := captured\<rparr>, case v of Forward _ \<Rightarrow> Forward r | Respond n t \<Rightarrow> Respond n t)))"

section \<open>The response hook\<close>

text \<open>An event stream is copied as it comes; any other response is read for the interceptor.\<close>

datatype response_start =
    Streaming captured_request bytes
  | Buffered captured_request http_reply

definition OnResponse_begin ::
  "proxy_server \<Rightarrow> instant \<Rightarrow> string \<Rightarrow> bool \<Rightarrow> http_reply \<Rightarrow> request_context \<Rightarrow> response_start" where
  "OnResponse_begin px now proto fails resp rx =
     (let captured = capture_response now proto resp (rx_captured rx) in
      case (isSSEResponse resp, rp_Body resp) of
        (True, Some body) \<Rightarrow> Streaming (captured\<lparr>cr_IsSSE := True\<rparr>) body
      | _ \<Rightarrow> (case read_response px fails resp captured of (captured, resp) \<Rightarrow> Buffered captured resp))"

text \<open>What \<open>HandleResponse\<close> returned, and what it gave to \<open>storeFunc\<close> before.\<close>

definition OnResponse_end ::
  "proxy_server \<Rightarrow> bool \<Rightarrow> (http_reply \<times> bool) option \<times> reply_verdict \<Rightarrow> captured_request \<Rightarrow>
   captured_request \<times> reply_verdict" where
  "OnResponse_end px fails res captured =
     (case res of
        (None, v) \<Rightarrow> (captured, v)
      | (Some (r, bodyReplaced), v) \<Rightarrow>
          (case sync_response px fails bodyReplaced r captured of (captured, r) \<Rightarrow>
             (captured, case v of Deliver _ \<Rightarrow> Deliver r | Replace n t \<Rightarrow> Replace n t)))"

text \<open>The event stream of a response: what the client gets, and the store afterwards.\<close>

definition OnResponse_stream ::
  "(instant option llm_exchange \<Rightarrow> string option) \<Rightarrow> instant \<Rightarrow> instant \<Rightarrow> (nat \<Rightarrow> instant) \<Rightarrow> (nat \<Rightarrow> bool) \<Rightarrow>
   bytes \<Rightarrow> captured_request \<Rightarrow> request_context \<Rightarrow> proxy_server \<Rightarrow> bytes \<times> proxy_server" where
  "OnResponse_stream marshal now fin clock writes body captured rx px =
     (case handleSSEResponse marshal (px_maxResBodyKB px) now fin clock writes body captured rx (bw_store (px_batch px)) of
        (copy, s) \<Rightarrow>
          (case copy of Some st \<Rightarrow> sse_forwarded st | None \<Rightarrow> body,
           px\<lparr>px_batch := (px_batch px)\<lparr>bw_store := s\<rparr>\<rparr>))"

section \<open>The server\<close>

definition New_proxy :: "int \<Rightarrow> store \<Rightarrow> bool \<Rightarrow> nat \<Rightarrow> nat \<Rightarrow> proxy_server" where
  "New_proxy port st keyPairLoads maxReq maxRes =
     \<lparr>px_batch = NewBatchWriter st 50, px_mitmEnabled = keyPairLoads, px_maxReqBodyKB = maxReq,
      px_maxResBodyKB = maxRes, px_running = False, px_port = port\<rparr>"

definition portToAddr :: "int \<Rightarrow> string" where
  "portToAddr port = '':'' @ show_int port"

definition Start_proxy :: "(string \<Rightarrow> string) \<Rightarrow> proxy_server \<Rightarrow> string \<times> proxy_server" where
  "Start_proxy listenAndServe px =
     (if px_running px then (''proxy already running'', px)
      else (listenAndServe (portToAddr (px_port px)), px\<lparr>px_running := True\<rparr>))"

text \<open>\<open>Stop\<close> waits for \<open>batchWriter.Stop\<close> between its two parts.\<close>

definition Stop_proxy_begin :: "proxy_server \<Rightarrow> proxy_server" where
  "Stop_proxy_begin px = px\<lparr>px_batch := Stop_begin (px_batch px)\<rparr>"

definition Stop_proxy_end :: "proxy_server \<Rightarrow> proxy_server" where
  "Stop_proxy_end px = px\<lparr>px_running := False\<rparr>"

text \<open>A server whose port is taken stays marked as running: \<open>Start\<close> never takes the mark back.\<close>

lemma failed_start_stays_running:
  "px_running (snd (Start_proxy listen px)) \<and>
   fst (Start_proxy listen' (snd (Start_proxy listen px))) = ''proxy already running''"
  by (simp add: Start_proxy_def)

section \<open>What is delivered is what is recorded\<close>

lemma read_response_record:
  assumes "read_response px fails resp c = (c', resp')" and "cr_ResBody c = []"
  shows "resp' = resp \<and> cr_StatusCode c' = cr_StatusCode c \<and> cr_ResHeaders c' = cr_ResHeaders c \<and>
    cr_ResBody c' = take (px_maxResBodyKB px * 1024) (case rp_Body resp of Some b \<Rightarrow> b | None \<Rightarrow> [])"
proof (cases "rp_Body resp")
  case None
  then show ?thesis using assms by (auto simp: read_response_def)
next
  case (Some data)
  obtain head rest truncated err where
    r: "readBodyBounded (px_maxResBodyKB px * 1024) data fails = (head, rest, truncated, err)" by (metis prod_cases4)
  note f = readBodyBounded_parts [OF r]
  have "head = data" if "\<not> truncated" "rest = None" using f(1) that by (simp add: rejoin_def)
  moreover have "resp\<lparr>rp_Body := Some data\<rparr> = resp" using Some by simp
  ultimately show ?thesis
    using assms f(1,4) by (auto simp: read_response_def Let_def Some r split: if_splits)
qed

lemma sync_response_record:
  assumes "sync_response px fails replaced r c = (c', r')"
  shows "r' = r \<and> cr_StatusCode c' = rp_StatusCode r \<and> cr_ResHeaders c' = FlattenHeaders (rp_Header r) \<and>
    cr_ResBody c' = (case rp_Body r of
        Some b \<Rightarrow> if replaced then take (px_maxResBodyKB px * 1024) b else cr_ResBody c | None \<Rightarrow> cr_ResBody c)"
proof (cases "rp_Body r")
  case None
  then show ?thesis using assms by (auto simp: sync_response_def Let_def)
next
  case (Some data)
  obtain head rest truncated err where
    b: "readBodyBounded (px_maxResBodyKB px * 1024) data fails = (head, rest, truncated, err)" by (metis prod_cases4)
  have "r\<lparr>rp_Body := Some data\<rparr> = r" using Some by simp
  then show ?thesis
    using assms readBodyBounded_parts(1,4) [OF b] by (auto simp: sync_response_def Let_def Some b split: if_splits)
qed

lemma handleReply_report:
  assumes "handleReply resp r = (told, Deliver resp')"
  shows "(told = Some (resp', True) \<and> ires_NewBody r \<noteq> [] \<and> rp_Body resp' = Some (ires_NewBody r)) \<or>
    (told = Some (resp', False) \<and> rp_Body resp' = rp_Body resp) \<or> (told = None \<and> resp' = resp)"
  using assms by (auto simp: handleReply_def Let_def set_headers_def split: if_splits)

text \<open>C12: The record of a response is the response the client gets: whatever the user decides in manual
  mode, and also when the time-out decides, a delivered reply keeps the body the user or the server gave it
  to the last byte, and its status, its headers and the first bytes of its body are those of the record.\<close>

theorem delivered_is_recorded:
  assumes "OnResponse_begin px now proto fails resp rx = Buffered c resp1" and "cr_ResBody (rx_captured rx) = []"
    and "HandleResponse_end (snd (readRespBody resp1)) r timeout = (told, Deliver resp2)"
    and "OnResponse_end px fails2 (told, Deliver resp2) c = (c', v)"
  shows "v = Deliver resp2 \<and>
    rp_Body resp2 = (if \<not> timeout \<and> ires_Action r \<in> {''allow'', ''modify''} \<and> ires_NewBody r \<noteq> []
                     then Some (ires_NewBody r) else rp_Body resp) \<and>
    cr_StatusCode c' = rp_StatusCode resp2 \<and> cr_ResHeaders c' = FlattenHeaders (rp_Header resp2) \<and>
    cr_ResBody c' = take (px_maxResBodyKB px * 1024) (case rp_Body resp2 of Some b \<Rightarrow> b | None \<Rightarrow> [])"
proof -
  let ?c0 = "capture_response now proto resp (rx_captured rx)"
  have "read_response px fails resp ?c0 = (c, resp1)"
    using assms(1) by (auto simp: OnResponse_begin_def Let_def split: bool.splits option.splits prod.splits)
  from read_response_record [OF this] have rd: "resp1 = resp" "cr_StatusCode c = rp_StatusCode resp"
    "cr_ResHeaders c = FlattenHeaders (rp_Header resp)"
    "cr_ResBody c = take (px_maxResBodyKB px * 1024) (case rp_Body resp of Some b \<Rightarrow> b | None \<Rightarrow> [])"
    using assms(2) by (simp_all add: capture_response_def)
  have pre: "snd (readRespBody resp1) = resp" using rd(1) readRespBody_keeps by simp
  have body: "rp_Body resp2 = (if \<not> timeout \<and> ires_Action r \<in> {''allow'', ''modify''} \<and> ires_NewBody r \<noteq> []
      then Some (ires_NewBody r) else rp_Body resp)"
    using assms(3) by (auto simp: HandleResponse_end_def pre handleReply_def Let_def split: if_splits)
  consider (new) "told = Some (resp2, True)" "rp_Body resp2 = Some (ires_NewBody r)"
    | (kept) "told = Some (resp2, False)" "rp_Body resp2 = rp_Body resp"
    | (same) "told = None" "resp2 = resp"
    using assms(3) handleReply_report [of resp r told resp2] by (auto simp: HandleResponse_end_def pre split: if_splits)
  then show ?thesis
  proof cases
    case new
    then show ?thesis using assms(4) body sync_response_record [of px fails2 True resp2 c]
      by (auto simp: OnResponse_end_def split: prod.splits)
  next
    case kept
    then show ?thesis using assms(4) body rd(4) sync_response_record [of px fails2 False resp2 c]
      by (auto simp: OnResponse_end_def split: prod.splits option.splits)
  next
    case same
    then show ?thesis using assms(4) body rd by (auto simp: OnResponse_end_def)
  qed
qed


text \<open>A user who answers 404 with a body of his own: the client and the record get it.\<close>

definition small_proxy :: proxy_server where
  "small_proxy = New_proxy 8080 answering_store False 1 1"

theorem delivered_is_recorded_witness:
  "\<exists>c' resp2. OnResponse_end small_proxy False
       (handleReply \<lparr>rp_StatusCode = 200, rp_Status = ''200 OK'', rp_Header = [], rp_Body = Some ''ab'', rp_ContentLength = 2\<rparr>
          \<lparr>ires_RequestID = [], ires_Action = ''modify'', ires_Method = [], ires_URL = [], ires_NewHeaders = [],
           ires_NewBody = ''xyz'', ires_StatusCode = 404\<rparr>)
       (capture_response 5 ''HTTP/1.1''
          \<lparr>rp_StatusCode = 200, rp_Status = ''200 OK'', rp_Header = [], rp_Body = Some ''ab'', rp_ContentLength = 2\<rparr>
          zero_request\<lparr>cr_ResBody := ''ab'', cr_SizeBytes := 2\<rparr>) = (c', Deliver resp2) \<and>
     cr_StatusCode c' = 404 \<and> cr_ResBody c' = ''xyz'' \<and> rp_Body resp2 = Some ''xyz''"
proof -
  let ?resp = "\<lparr>rp_StatusCode = 200, rp_Status = ''200 OK'', rp_Header = [], rp_Body = Some ''ab'', rp_ContentLength = 2\<rparr>"
  let ?r = "\<lparr>ires_RequestID = [], ires_Action = ''modify'', ires_Method = [], ires_URL = [], ires_NewHeaders = [],
      ires_NewBody = ''xyz'', ires_StatusCode = 404\<rparr>"
  let ?rx = "\<lparr>rx_captured = zero_request, rx_provider = [], rx_reqInfo = None\<rparr>"
  let ?c = "capture_response 5 ''HTTP/1.1'' ?resp zero_request\<lparr>cr_ResBody := ''ab'', cr_SizeBytes := 2\<rparr>"
  have b: "OnResponse_begin small_proxy 5 ''HTTP/1.1'' False ?resp ?rx = Buffered ?c ?resp"
    by (simp add: OnResponse_begin_def isSSEResponse_def Header_Get_def contains_str_def read_response_def
        readBodyBounded_def body_size_def small_proxy_def New_proxy_def Let_def capture_response_def zero_request_def)
  obtain told resp2 where d: "handleReply ?resp ?r = (told, Deliver resp2)" "rp_StatusCode resp2 = 404"
    by (simp add: handleReply_def Let_def set_headers_def)
  obtain c' v where e: "OnResponse_end small_proxy False (told, Deliver resp2) ?c = (c', v)" by fastforce
  have h: "HandleResponse_end (snd (readRespBody ?resp)) ?r False = (told, Deliver resp2)"
    using d(1) readRespBody_keeps [of ?resp] by (simp add: HandleResponse_end_def)
  have "cr_ResBody (rx_captured ?rx) = []" by (simp add: zero_request_def)
  from delivered_is_recorded [OF b this h e] have
    "v = Deliver resp2 \<and> rp_Body resp2 = Some ''xyz'' \<and> cr_StatusCode c' = 404 \<and> cr_ResBody c' = ''xyz''"
    using d(2) by (simp add: small_proxy_def New_proxy_def)
  then show ?thesis using e d(1) by auto
qed

section \<open>Every response is recorded\<close>

text \<open>What a finished response makes of the store at once: the report of its save, if it is saved now.\<close>

definition response_report ::
  "instant \<Rightarrow> captured_request \<Rightarrow> request_context \<Rightarrow> proxy_server \<Rightarrow> (captured_request \<times> bool) list" where
  "response_report now c rx px =
     (if IsValidProvider (rx_provider rx) then [fst (saveSync now c (bw_store (px_batch px)))]
      else fst (Enqueue now c (px_batch px)))"

text \<open>
  A run of the server: responses that finish, and the steps of the batch writer, its \<open>Stop\<close>
  included. While \<open>Stop\<close> runs, a response waits for the lock of \<open>Enqueue\<close>; an LLM response does not
  take it. The two statements of an LLM response are one step: the second marks the row of the first.
\<close>

inductive proxy_run ::
  "(instant option llm_exchange \<Rightarrow> string option) \<Rightarrow> proxy_server \<Rightarrow> captured_request list \<Rightarrow>
   (captured_request \<times> bool) list \<Rightarrow> proxy_server \<Rightarrow> bool" for marshal px where
  idle: "proxy_run marshal px [] [] px"
| writer: "proxy_run marshal px enq rep px1 \<Longrightarrow> bw_step (px_batch px1) [] r bw \<Longrightarrow>
    proxy_run marshal px enq (rep @ r) (px1\<lparr>px_batch := bw\<rparr>)"
| response: "proxy_run marshal px enq rep px1 \<Longrightarrow>
    IsValidProvider (rx_provider rx) \<or> bw_phase (px_batch px1) \<noteq> Stopping \<Longrightarrow>
    finish_response marshal now c rx px1 = (calls, px2) \<Longrightarrow>
    proxy_run marshal px (enq @ [c]) (rep @ response_report now c rx px1) px2"

lemma stored_keys_saveLLMExchange [simp]: "stored_keys (saveLLMExchange marshal i ex s) = stored_keys s"
proof -
  have "stored (snd (SetLLMData i data s)) = stored s" for data
    by (cases "next_reply s")
       (auto simp: SetLLMData_def stored_def update_rows_def comp_def stored_next_reply next_reply_frame
         dest: next_reply_frame split: reply.splits intro!: map_cong)
  then show ?thesis by (auto simp: saveLLMExchange_def stored_keys_def split: option.split)
qed

lemma adds_same_rows: "adds s s1 rep cs \<Longrightarrow> stored_keys s2 = stored_keys s1 \<Longrightarrow> adds s s2 rep cs"
  by (simp add: adds_def)

lemma saveLLMCaptured_saves:
  assumes "saveLLMCaptured marshal now c rx s = (calls, s')" and "saveSync now c s = (x, s1)"
  shows "calls = (if snd x then [fst x] else []) \<and> stored_keys s' = stored_keys s1"
  using assms by (auto simp: saveLLMCaptured_def saveSync_def Let_def set_ID_def split: prod.splits sum.splits)

lemma finish_response_accounts:
  assumes "finish_response marshal now c rx px = (calls, px')"
  shows "accounts (px_batch px) [c] (response_report now c rx px) (px_batch px') \<and>
    calls = map fst (filter snd (response_report now c rx px))"
proof (cases "IsValidProvider (rx_provider rx)")
  case True
  obtain x s1 where x: "saveSync now c (bw_store (px_batch px)) = (x, s1)" by fastforce
  obtain s2 where s2: "saveLLMCaptured marshal now c rx (bw_store (px_batch px)) = (calls, s2)"
    "px' = px\<lparr>px_batch := (px_batch px)\<lparr>bw_store := s2\<rparr>\<rparr>"
    using assms True by (auto simp: finish_response_def split: prod.splits)
  note sv = saveLLMCaptured_saves [OF s2(1) x]
  have a: "adds (bw_store (px_batch px)) s1 [x] [content c]" by (rule saveSync_adds [OF x])
  then have "reported [x] = [content c]" using adds_reported by blast
  then show ?thesis
    using True sv adds_same_rows [OF a] by (simp add: response_report_def x accounts_def s2(2))
next
  case False
  then show ?thesis
    using assms Enqueue_accounts [of now c "px_batch px"]
    by (auto simp: finish_response_def response_report_def split: prod.splits)
qed

lemma finish_response_inv:
  assumes "finish_response marshal now c rx px = (calls, px')" and "bw_inv (px_batch px)"
    and "IsValidProvider (rx_provider rx) \<or> bw_phase (px_batch px) \<noteq> Stopping"
  shows "bw_inv (px_batch px')"
proof (cases "IsValidProvider (rx_provider rx)")
  case True
  then obtain s2 where "px' = px\<lparr>px_batch := (px_batch px)\<lparr>bw_store := s2\<rparr>\<rparr>"
    using assms(1) by (auto simp: finish_response_def split: prod.splits)
  moreover have "bw_inv bw \<Longrightarrow> bw_inv (bw\<lparr>bw_store := s2\<rparr>)" for bw
    by (auto simp: bw_inv_def split: worker.splits)
  ultimately show ?thesis using assms(2) by simp
next
  case False
  then obtain saved where "Enqueue now c (px_batch px) = (saved, px_batch px')"
    using assms(1) by (auto simp: finish_response_def split: prod.splits)
  then show ?thesis using bw_step_inv [OF bw_step.enqueue] assms(2,3) False by blast
qed

text \<open>A run adds up like a run of the writer.\<close>

lemma proxy_run_accounts:
  assumes "proxy_run marshal px enq rep px'" and "bw_inv (px_batch px)"
  shows "accounts (px_batch px) enq rep (px_batch px') \<and> bw_inv (px_batch px')"
  using assms
proof (induction rule: proxy_run.induct)
  case idle
  then show ?case by (simp add: accounts_def reported_def adds_refl)
next
  case (writer enq rep px1 r bw)
  then show ?case
    using accounts_trans [of "px_batch px" enq rep "px_batch px1" "[]" r bw] bw_step_accounts bw_step_inv by simp
next
  case (response enq rep px1 rx now c calls px2)
  then show ?case
    using accounts_trans [of "px_batch px" enq rep "px_batch px1" "[c]" "response_report now c rx px1" "px_batch px2"]
      finish_response_accounts finish_response_inv by blast
qed



end
