(* ===== verification/ApiErrors.thy ===== *)
theory ApiErrors
  imports GoText
begin

text \<open>The errors of the API, \<^verbatim>\<open>internal/api/errors.go\<close>: a code, a message and an HTTP status.\<close>

record app_error =
  ae_Message :: string
  ae_Code :: string
  ae_StatusCode :: int
  ae_RequestID :: string

text \<open>The method \<open>Error\<close>.\<close>

definition Error_text :: "app_error \<Rightarrow> string" where
  "Error_text e =
     (if ae_RequestID e \<noteq> [] then ''['' @ ae_RequestID e @ ''] '' @ ae_Code e @ '': '' @ ae_Message e
      else ae_Code e @ '': '' @ ae_Message e)"

definition newAppError :: "string \<Rightarrow> string \<Rightarrow> int \<Rightarrow> app_error" where
  "newAppError code message status =
     \<lparr>ae_Message = message, ae_Code = code, ae_StatusCode = status, ae_RequestID = []\<rparr>"

definition ErrNotFound :: "string \<Rightarrow> string \<Rightarrow> app_error" where
  "ErrNotFound resource i = newAppError ''NOT_FOUND'' (resource @ '' not found: '' @ i) 404"

definition ErrValidation :: "string \<Rightarrow> app_error" where
  "ErrValidation message = newAppError ''VALIDATION_ERROR'' message 400"

definition ErrMethodNotAllowed :: app_error where
  "ErrMethodNotAllowed = newAppError ''METHOD_NOT_ALLOWED'' ''Method not allowed'' 405"

definition ErrInternal :: "string \<Rightarrow> app_error" where
  "ErrInternal message = newAppError ''INTERNAL_ERROR'' message 500"

definition ErrUnavailable :: "string \<Rightarrow> app_error" where
  "ErrUnavailable message = newAppError ''SERVICE_UNAVAILABLE'' message 503"

definition ErrBadGateway :: "string \<Rightarrow> app_error" where
  "ErrBadGateway message = newAppError ''BAD_GATEWAY'' message 502"

definition ErrRateLimited :: app_error where
  "ErrRateLimited = newAppError ''RATE_LIMITED'' ''Too many requests, please try again later'' 429"

definition ErrUnauthorized :: app_error where
  "ErrUnauthorized = newAppError ''UNAUTHORIZED'' ''Missing or invalid API token'' 401"

definition ErrForbidden :: app_error where
  "ErrForbidden = newAppError ''FORBIDDEN'' ''Forbidden'' 403"

definition ErrConflict :: "string \<Rightarrow> app_error" where
  "ErrConflict message = newAppError ''CONFLICT'' message 409"

text \<open>\<open>WithRequestID\<close> for an application error; any other error is left alone by the code.\<close>

definition WithRequestID :: "app_error \<Rightarrow> string \<Rightarrow> app_error" where
  "WithRequestID e requestID = e\<lparr>ae_RequestID := requestID\<rparr>"

lemmas api_errors = newAppError_def ErrNotFound_def ErrValidation_def ErrMethodNotAllowed_def ErrInternal_def
  ErrUnavailable_def ErrBadGateway_def ErrRateLimited_def ErrUnauthorized_def ErrForbidden_def ErrConflict_def

lemma error_status_range [simp]:
  "ae_StatusCode (ErrNotFound a b) = 404" "ae_StatusCode (ErrValidation m) = 400"
  "ae_StatusCode ErrMethodNotAllowed = 405" "ae_StatusCode (ErrInternal m) = 500"
  "ae_StatusCode (ErrUnavailable m) = 503" "ae_StatusCode (ErrBadGateway m) = 502"
  "ae_StatusCode ErrRateLimited = 429" "ae_StatusCode ErrUnauthorized = 401"
  "ae_StatusCode ErrForbidden = 403" "ae_StatusCode (ErrConflict m) = 409"
  by (simp_all add: api_errors)

end
