(* ===== verification/ApiMiddleware.thy ===== *)
theory ApiMiddleware
  imports ApiErrors Intercept
begin

text \<open>
  \<^verbatim>\<open>internal/api/middleware.go\<close>: what every request to the API passes before a handler sees it. A
  handler takes the request, the header fields set on the response so far and the state, and
  returns an outcome and the state; a middleware is a function on handlers, as in the code. What
  \<open>url.Parse\<close> finds as the host of an origin and the bytes of a fresh UUID are arguments. A
  handler writes its response once.
\<close>

section \<open>Requests and responses\<close>

text \<open>The context value and the id of the wrapped writer are empty where there is none.\<close>

record api_request = http_request +
  ar_RemoteAddr :: string
  ar_Query :: "(string \<times> string) list" \<comment> \<open>first value of each parameter\<close>
  ar_ContextID :: string
  ar_WriterID :: string

datatype 'j payload = Empty | Failure app_error | Json_body 'j

record 'j api_response =
  as_Status :: int
  as_Header :: http_header
  as_Body :: "'j payload"

text \<open>A panic leaves the header fields set so far.\<close>

datatype 'j outcome = Response "'j api_response" | Panic http_header

type_synonym ('s, 'j) handler = "api_request \<Rightarrow> http_header \<Rightarrow> 's \<Rightarrow> 'j outcome \<times> 's"

definition ar_path :: "api_request \<Rightarrow> string" where
  "ar_path r = url_Path (hr_URL r)"

definition query_get :: "api_request \<Rightarrow> string \<Rightarrow> string" where
  "query_get r k = (case map_of (ar_Query r) k of Some v \<Rightarrow> v | None \<Rightarrow> [])"

definition RequestIDFromContext :: "api_request \<Rightarrow> string" where
  "RequestIDFromContext r = ar_ContextID r"

text \<open>A value that \<^verbatim>\<open>json.Marshal\<close> refuses is answered as an internal error.\<close>

definition writeJSON :: "('j \<Rightarrow> bool) \<Rightarrow> http_header \<Rightarrow> int \<Rightarrow> 'j payload \<Rightarrow> 'j outcome" where
  "writeJSON marshals h status body =
     (let h = Header_Set h ''Content-Type'' ''application/json'' in
      if (case body of Json_body j \<Rightarrow> marshals j | _ \<Rightarrow> True)
      then Response \<lparr>as_Status = status, as_Header = h, as_Body = body\<rparr>
      else Response \<lparr>as_Status = 500, as_Header = h,
             as_Body = Failure (newAppError ''INTERNAL_ERROR'' ''internal error'' 500)\<rparr>)"

definition writeAppError :: "api_request \<Rightarrow> http_header \<Rightarrow> app_error \<Rightarrow> 'j outcome" where
  "writeAppError r h e =
     (let e = (if ar_WriterID r \<noteq> [] \<and> ae_RequestID e = [] then e\<lparr>ae_RequestID := ar_WriterID r\<rparr> else e)
      in writeJSON (\<lambda>_. True) h (ae_StatusCode e) (Failure e))"

section \<open>The middlewares\<close>

definition requestIDMiddleware :: "string \<Rightarrow> ('s, 'j) handler \<Rightarrow> ('s, 'j) handler" where
  "requestIDMiddleware uuid inner r h s =
     (let i = Header_Get (hr_Header r) ''X-Request-ID''; i = (if i = [] then take 12 uuid else i)
      in inner (r\<lparr>ar_ContextID := i\<rparr>) (Header_Set h ''X-Request-ID'' i) s)"

definition isStaticPath :: "string \<Rightarrow> bool" where
  "isStaticPath path = (if has_prefix path ''/api'' \<or> path = ''/ws'' then False else True)"

definition presented_token :: "api_request \<Rightarrow> string" where
  "presented_token r =
     (let t = Header_Get (hr_Header r) ''Authorization'';
          t = (if has_prefix t ''Bearer '' then drop 7 t else t)
      in if t = [] then query_get r ''token'' else t)"

definition authMiddleware :: "string \<Rightarrow> ('s, 'j) handler \<Rightarrow> ('s, 'j) handler" where
  "authMiddleware apiToken inner r h s =
     (if apiToken = [] then inner r h s
      else if ar_path r = ''/health'' \<or> ar_path r = ''/ready'' then inner r h s
      else if isStaticPath (ar_path r) then inner r h s
      else if presented_token r \<noteq> apiToken then (writeAppError r h ErrUnauthorized, s)
      else inner r h s)"

definition safe_method :: "string \<Rightarrow> bool" where
  "safe_method m \<longleftrightarrow> m = ''GET'' \<or> m = ''HEAD'' \<or> m = ''OPTIONS''"

definition csrfMiddleware :: "('s, 'j) handler \<Rightarrow> ('s, 'j) handler" where
  "csrfMiddleware inner r h s =
     (if safe_method (hr_Method r) then inner r h s
      else if Header_Get (hr_Header r) ''X-Requested-With'' \<noteq> ''XMLHttpRequest''
      then (writeAppError r h ErrForbidden, s)
      else inner r h s)"

definition isAllowedOrigin :: "(string \<Rightarrow> string option) \<Rightarrow> string \<Rightarrow> string list \<Rightarrow> bool" where
  "isAllowedOrigin hostname origin allowList =
     (if origin = [] then False
      else if list_ex (\<lambda>a. a = origin) allowList then True
      else case hostname origin of
        None \<Rightarrow> False
      | Some host \<Rightarrow> host = ''localhost'' \<or> host = ''127.0.0.1'' \<or> host = ''::1'')"

definition allowed_headers :: string where
  "allowed_headers = ''Content-Type, X-Request-ID, Authorization''"

definition corsMiddleware ::
  "(string \<Rightarrow> string option) \<Rightarrow> string list \<Rightarrow> ('s, 'j) handler \<Rightarrow> ('s, 'j) handler" where
  "corsMiddleware hostname allowOrigins inner r h s =
     (let origin = Header_Get (hr_Header r) ''Origin'';
          h = (if isAllowedOrigin hostname origin allowOrigins
               then Header_Set (Header_Set (Header_Set h ''Access-Control-Allow-Origin'' origin) ''Vary'' ''Origin'')
                      ''Access-Control-Allow-Credentials'' ''true''
               else h);
          h = Header_Set h ''Access-Control-Allow-Methods'' ''GET, POST, PUT, DELETE, OPTIONS'';
          h = Header_Set h ''Access-Control-Allow-Headers'' allowed_headers;
          h = Header_Set h ''Access-Control-Max-Age'' ''86400''
      in if hr_Method r = ''OPTIONS'' then (Response \<lparr>as_Status = 204, as_Header = h, as_Body = Empty\<rparr>, s)
         else inner r h s)"

definition securityHeadersMiddleware :: "('s, 'j) handler \<Rightarrow> ('s, 'j) handler" where
  "securityHeadersMiddleware inner r h s =
     inner r (Header_Set (Header_Set (Header_Set (Header_Set h
        ''X-Content-Type-Options'' ''nosniff'') ''X-Frame-Options'' ''DENY'')
        ''X-XSS-Protection'' ''1; mode=block'') ''Referrer-Policy'' ''strict-origin-when-cross-origin'') s"

definition recoveryMiddleware :: "('s, 'j) handler \<Rightarrow> ('s, 'j) handler" where
  "recoveryMiddleware inner r h s =
     (case inner r h s of
        (Panic h', s') \<Rightarrow>
          (writeAppError r h' ((ErrInternal ''Internal server error'')\<lparr>ae_RequestID := RequestIDFromContext r\<rparr>), s')
      | (Response a, s') \<Rightarrow> (Response a, s'))"

definition requestIDInjectorMiddleware :: "('s, 'j) handler \<Rightarrow> ('s, 'j) handler" where
  "requestIDInjectorMiddleware inner r h s = inner (r\<lparr>ar_WriterID := RequestIDFromContext r\<rparr>) h s"

section \<open>Rate limits\<close>

record visitorInfo =
  vi_count :: int
  vi_resetAt :: instant

record rate_limiter =
  rl_visitors :: "(string \<times> visitorInfo) list"
  rl_rate :: int
  rl_window :: instant
  rl_stopped :: bool

definition newRateLimiter :: "int \<Rightarrow> instant \<Rightarrow> rate_limiter" where
  "newRateLimiter rate window = \<lparr>rl_visitors = [], rl_rate = rate, rl_window = window, rl_stopped = False\<rparr>"

definition allow :: "instant \<Rightarrow> string \<Rightarrow> rate_limiter \<Rightarrow> bool \<times> rate_limiter" where
  "allow now key rl =
     (let fresh = \<lparr>vi_count = 1, vi_resetAt = now + rl_window rl\<rparr>;
          anew = (True, rl\<lparr>rl_visitors := AList.update key fresh (rl_visitors rl)\<rparr>)
      in case map_of (rl_visitors rl) key of
           None \<Rightarrow> anew
         | Some v \<Rightarrow>
             if now > vi_resetAt v then anew
             else let v = v\<lparr>vi_count := vi_count v + 1\<rparr>
                  in (vi_count v \<le> rl_rate rl, rl\<lparr>rl_visitors := AList.update key v (rl_visitors rl)\<rparr>))"

text \<open>One tick of \<open>cleanup\<close>; \<open>stop\<close> ends it.\<close>

definition cleanup_tick :: "instant \<Rightarrow> rate_limiter \<Rightarrow> rate_limiter" where
  "cleanup_tick now rl =
     (if rl_stopped rl then rl
      else rl\<lparr>rl_visitors := filter (\<lambda>(k, v). \<not> now > vi_resetAt v) (rl_visitors rl)\<rparr>)"

definition rate_limiter_stop :: "rate_limiter \<Rightarrow> rate_limiter" where
  "rate_limiter_stop rl = rl\<lparr>rl_stopped := True\<rparr>"

definition rateLimitMiddleware ::
  "instant \<Rightarrow> ('s, 'j) handler \<Rightarrow> (rate_limiter \<times> 's, 'j) handler" where
  "rateLimitMiddleware now inner r h st =
     (case st of (rl, s) \<Rightarrow>
      if hr_Method r = ''OPTIONS'' \<or> ar_path r = ''/ws'' then (case inner r h s of (a, s) \<Rightarrow> (a, rl, s))
      else
        let host = (case split_host_port (ar_RemoteAddr r) of
                      Some (host, _) \<Rightarrow> if host = [] then ar_RemoteAddr r else host
                    | None \<Rightarrow> ar_RemoteAddr r)
        in case allow now host rl of
             (False, rl) \<Rightarrow> (writeAppError r h ErrRateLimited, rl, s)
           | (True, rl) \<Rightarrow> (case inner r h s of (a, s) \<Rightarrow> (a, rl, s)))"

text \<open>\<open>Server.Handler\<close>: the chain as the server puts it together, around the router.\<close>

definition api_chain ::
  "(string \<Rightarrow> string option) \<Rightarrow> string list \<Rightarrow> string \<Rightarrow> string \<Rightarrow> instant \<Rightarrow> ('s, 'j) handler \<Rightarrow>
   (rate_limiter \<times> 's, 'j) handler" where
  "api_chain hostname allowOrigins apiToken uuid now mux =
     rateLimitMiddleware now
       (securityHeadersMiddleware (corsMiddleware hostname allowOrigins
          (csrfMiddleware (recoveryMiddleware (requestIDMiddleware uuid
             (requestIDInjectorMiddleware (authMiddleware apiToken mux)))))))"

section \<open>The router\<close>

text \<open>\<open>path.Clean\<close> of a rooted path: the segments after the dots and empty ones are worked off.\<close>

fun clean_segments :: "string list \<Rightarrow> string list \<Rightarrow> string list" where
  "clean_segments acc [] = acc"
| "clean_segments acc (x # xs) =
     (if x = [] \<or> x = ''.'' then clean_segments acc xs
      else if x = ''..'' then clean_segments (butlast acc) xs
      else clean_segments (acc @ [x]) xs)"

definition cleanPath :: "string \<Rightarrow> string" where
  "cleanPath p =
     (let p = (if p = [] \<or> hd p \<noteq> CHR ''/'' then CHR ''/'' # p else p);
          np = CHR ''/'' # join_with (CHR ''/'') (clean_segments [] (split_on (CHR ''/'') p))
      in if last p = CHR ''/'' \<and> np \<noteq> ''/'' then np @ ''/'' else np)"

text \<open>
  \<^verbatim>\<open>http.ServeMux\<close>: a pattern with a final slash stands for the paths below it, the longest pattern
  that matches wins; a path that is not clean is redirected to the clean one.
\<close>

definition pattern_matches :: "string \<Rightarrow> string \<Rightarrow> bool" where
  "pattern_matches pat path \<longleftrightarrow> (if last pat = CHR ''/'' then has_prefix path pat else path = pat)"

definition longer_pattern :: "string \<Rightarrow> string option \<Rightarrow> string \<Rightarrow> string option" where
  "longer_pattern path best pat =
     (if pattern_matches pat path \<and> (case best of None \<Rightarrow> True | Some b \<Rightarrow> length b < length pat) then Some pat
      else best)"

definition mux_pattern :: "string list \<Rightarrow> string \<Rightarrow> string option" where
  "mux_pattern pats path = foldl (longer_pattern path) None pats"

definition serve_mux :: "string list \<Rightarrow> (string \<Rightarrow> ('s, 'j) handler) \<Rightarrow> ('s, 'j) handler" where
  "serve_mux pats handlers r h s =
     (if hr_Method r \<noteq> ''CONNECT'' \<and> cleanPath (ar_path r) \<noteq> ar_path r
      then (Response \<lparr>as_Status = 301, as_Header = Header_Set h ''Location'' (cleanPath (ar_path r)), as_Body = Empty\<rparr>, s)
      else case mux_pattern pats (ar_path r) of
        Some pat \<Rightarrow> handlers pat r h s
      | None \<Rightarrow> (Response \<lparr>as_Status = 404, as_Header = h, as_Body = Empty\<rparr>, s))"

text \<open>The patterns of \<open>setupRoutes\<close>; the frontend is there if it was given.\<close>

definition api_routes :: "string list" where
  "api_routes =
     [''/health'', ''/ready'', ''/api/requests'', ''/api/requests/'', ''/api/starred'', ''/api/resend'',
      ''/api/clear'', ''/api/stats'', ''/api/proxy/status'', ''/api/apimap'', ''/api/apimap/notes'',
      ''/api/apimap/notes/'', ''/api/apimap/hosts'', ''/api/intercept/mode'', ''/api/intercept/pending'',
      ''/api/intercept/action'', ''/api/intercept/rules'', ''/api/intercept/rules/'', ''/api/intercept/logs'',
      ''/api/capture/status'', ''/api/capture/interfaces'', ''/api/capture/start'', ''/api/capture/stop'',
      ''/api/export/har'', ''/api/llm'', ''/api/llm/stats'', ''/api/llm/'', ''/api/maintenance/cleanup'',
      ''/api/metrics'', ''/ws'']"

definition setupRoutes :: "bool \<Rightarrow> string list" where
  "setupRoutes frontend = api_routes @ (if frontend then [''/''] else [])"

section \<open>What the chain lets through\<close>

lemma foldl_longer_Some:
  "foldl (longer_pattern path) best pats = Some pat \<Longrightarrow>
   best = Some pat \<or> (pat \<in> set pats \<and> pattern_matches pat path)"
proof (induction pats arbitrary: best)
  case (Cons x pats)
  then show ?case by (auto simp: longer_pattern_def split: if_splits)
qed simp

lemma mux_pattern_matches: "mux_pattern pats path = Some pat \<Longrightarrow> pat \<in> set pats \<and> pattern_matches pat path"
  using foldl_longer_Some [of path None pats pat] by (simp add: mux_pattern_def)

text \<open>The routes that are open without a token.\<close>

definition open_route :: "string \<Rightarrow> bool" where
  "open_route pat \<longleftrightarrow> pat = ''/health'' \<or> pat = ''/ready'' \<or> pat = ''/''"

lemma has_prefix_trans: "has_prefix s t \<Longrightarrow> has_prefix t u \<Longrightarrow> has_prefix s u"
  by (auto simp: has_prefix_iff)

lemma protected_route:
  assumes "pat \<in> set (setupRoutes f)" and "pattern_matches pat path" and "\<not> open_route pat"
  shows "\<not> isStaticPath path \<and> path \<noteq> ''/health'' \<and> path \<noteq> ''/ready''"
proof -
  have "list_all (\<lambda>p. open_route p \<or> p = ''/ws'' \<or> has_prefix p ''/api'') (setupRoutes f)"
    by (cases f) (simp_all add: setupRoutes_def api_routes_def open_route_def has_prefix_def)
  then have "pat = ''/ws'' \<or> has_prefix pat ''/api''" using assms by (auto simp: list_all_iff)
  then show ?thesis
  proof
    assume "pat = ''/ws''"
    then show ?thesis using assms(2) by (simp add: pattern_matches_def isStaticPath_def)
  next
    assume a: "has_prefix pat ''/api''"
    have "has_prefix path pat" using assms(2) by (auto simp: pattern_matches_def has_prefix_iff split: if_splits)
    then have "has_prefix path ''/api''" using a has_prefix_trans by blast
    then show ?thesis by (auto simp: isStaticPath_def has_prefix_iff)
  qed
qed

text \<open>What a request must show before the handler of a route sees it.\<close>

definition admitted :: "string \<Rightarrow> string \<Rightarrow> api_request \<Rightarrow> bool" where
  "admitted apiToken pat r \<longleftrightarrow>
     hr_Method r \<noteq> ''OPTIONS'' \<and>
     (safe_method (hr_Method r) \<or> Header_Get (hr_Header r) ''X-Requested-With'' = ''XMLHttpRequest'') \<and>
     (apiToken = [] \<or> open_route pat \<or> presented_token r = apiToken)"

text \<open>The request a handler sees, and the one that came, differ in the ids only.\<close>

definition same_message :: "api_request \<Rightarrow> api_request \<Rightarrow> bool" where
  "same_message r r' \<longleftrightarrow> (\<exists>c w. r' = r\<lparr>ar_ContextID := c, ar_WriterID := w\<rparr>)"

lemma same_message_fields:
  "same_message r r' \<Longrightarrow> hr_Method r' = hr_Method r \<and> hr_URL r' = hr_URL r \<and> hr_Header r' = hr_Header r \<and>
     hr_Body r' = hr_Body r \<and> presented_token r' = presented_token r \<and> ar_path r' = ar_path r"
  by (auto simp: same_message_def presented_token_def Let_def query_get_def ar_path_def)

lemma writeJSON_response [simp]: "writeJSON m h n b \<noteq> Panic h'" "writeAppError r h e \<noteq> Panic h'"
  by (simp_all add: writeJSON_def writeAppError_def Let_def)

text \<open>Inside the chain: either the state is as it was, or a handler of a route ran on the message.\<close>

lemma auth_mux_guard:
  assumes "authMiddleware apiToken (serve_mux (setupRoutes f) handlers) r h s = (a, s')"
  shows "s' = s \<or> (\<exists>pat. pat \<in> set (setupRoutes f) \<and> s' = snd (handlers pat r h s) \<and>
    (apiToken = [] \<or> open_route pat \<or> presented_token r = apiToken))"
proof (cases "authMiddleware apiToken (serve_mux (setupRoutes f) handlers) r h s =
    serve_mux (setupRoutes f) handlers r h s")
  case False
  then have "s' = s" using assms by (auto simp: authMiddleware_def split: if_splits)
  then show ?thesis by blast
next
  case True
  show ?thesis
  proof (cases "s' = s")
    case False
    then obtain pat where p: "mux_pattern (setupRoutes f) (ar_path r) = Some pat" "s' = snd (handlers pat r h s)"
      using assms True by (auto simp: serve_mux_def split: if_splits option.splits)
    note m = mux_pattern_matches [OF p(1)]
    have "apiToken = [] \<or> open_route pat \<or> presented_token r = apiToken"
    proof (rule ccontr)
      assume n: "\<not> ?thesis"
      then have "\<not> isStaticPath (ar_path r)" "ar_path r \<noteq> ''/health''" "ar_path r \<noteq> ''/ready''"
        using protected_route m by blast+
      then have "s' = s" using assms n by (auto simp: authMiddleware_def)
      then show False using \<open>s' \<noteq> s\<close> by blast
    qed
    then show ?thesis using m p(2) by blast
  qed blast
qed

lemma chain_inner_guard:
  assumes "csrfMiddleware (recoveryMiddleware (requestIDMiddleware uuid (requestIDInjectorMiddleware
     (authMiddleware apiToken (serve_mux (setupRoutes f) handlers))))) r h s = (a, s')"
  shows "(\<exists>x. a = Response x) \<and>
    (s' = s \<or> (\<exists>pat r' h'. pat \<in> set (setupRoutes f) \<and> same_message r r' \<and> s' = snd (handlers pat r' h' s) \<and>
       (safe_method (hr_Method r) \<or> Header_Get (hr_Header r) ''X-Requested-With'' = ''XMLHttpRequest'') \<and>
       (apiToken = [] \<or> open_route pat \<or> presented_token r = apiToken)))"
proof -
  let ?i = "Header_Get (hr_Header r) ''X-Request-ID''"
  let ?id = "if ?i = [] then take 12 uuid else ?i"
  let ?r = "r\<lparr>ar_ContextID := ?id, ar_WriterID := ?id\<rparr>" and ?h = "Header_Set h ''X-Request-ID'' ?id"
  obtain b t where b: "authMiddleware apiToken (serve_mux (setupRoutes f) handlers) ?r ?h s = (b, t)" by fastforce
  have sm: "same_message r ?r" by (auto simp: same_message_def)
  note g = auth_mux_guard [OF b]
  show ?thesis
  proof (cases "safe_method (hr_Method r) \<or> Header_Get (hr_Header r) ''X-Requested-With'' = ''XMLHttpRequest''")
    case False
    then show ?thesis using assms by (auto simp: csrfMiddleware_def writeAppError_def writeJSON_def Let_def)
  next
    case True
    then have "recoveryMiddleware (requestIDMiddleware uuid (requestIDInjectorMiddleware
        (authMiddleware apiToken (serve_mux (setupRoutes f) handlers)))) r h s = (a, s')"
      using assms by (auto simp: csrfMiddleware_def split: if_splits)
    moreover have "requestIDMiddleware uuid (requestIDInjectorMiddleware
        (authMiddleware apiToken (serve_mux (setupRoutes f) handlers))) r h s = (b, t)"
      using b by (simp add: requestIDMiddleware_def requestIDInjectorMiddleware_def RequestIDFromContext_def Let_def)
    ultimately have "s' = t \<and> (\<exists>x. a = Response x)"
      by (auto simp: recoveryMiddleware_def writeAppError_def writeJSON_def Let_def split: outcome.splits)
    then show ?thesis using g True sm same_message_fields [OF sm] by metis
  qed
qed

lemma chain_guard:
  assumes "api_chain hostname origins apiToken uuid now (serve_mux (setupRoutes f) handlers) r h (rl, s) = (a, rl', s')"
  shows "(\<exists>x. a = Response x) \<and>
    (s' \<noteq> s \<longrightarrow> (\<exists>pat r' h'. pat \<in> set (setupRoutes f) \<and> admitted apiToken pat r \<and> same_message r r' \<and>
        s' = snd (handlers pat r' h' s)))"
proof -
  let ?in = "csrfMiddleware (recoveryMiddleware (requestIDMiddleware uuid (requestIDInjectorMiddleware
     (authMiddleware apiToken (serve_mux (setupRoutes f) handlers)))))"
  have cors: "(\<exists>x. b = Response x) \<and> (t \<noteq> s \<longrightarrow> (\<exists>pat r' h'. pat \<in> set (setupRoutes f) \<and> admitted apiToken pat r \<and>
      same_message r r' \<and> t = snd (handlers pat r' h' s)))"
    if c: "corsMiddleware hostname origins ?in r h1 s = (b, t)" for b t h1
  proof (cases "hr_Method r = ''OPTIONS''")
    case True
    then show ?thesis using c by (auto simp: corsMiddleware_def Let_def)
  next
    case False
    then obtain h2 where "?in r h2 s = (b, t)" using c by (auto simp: corsMiddleware_def Let_def)
    from chain_inner_guard [OF this] False show ?thesis by (auto simp: admitted_def)
  qed
  let ?sec = "securityHeadersMiddleware (corsMiddleware hostname origins ?in)"
  obtain b t where b: "?sec r h s = (b, t)" by fastforce
  have "(a = b \<and> s' = t) \<or> (s' = s \<and> (\<exists>x. a = Response x))"
    using assms b by (auto simp: api_chain_def rateLimitMiddleware_def Let_def writeAppError_def writeJSON_def
        split: prod.splits if_splits bool.splits)
  then show ?thesis using cors b unfolding securityHeadersMiddleware_def by blast
qed

text \<open>C5: Whatever the handlers do, a request changes the state of the server only through the handler of
  one of its routes, and only if it is no preflight, carries the header that a foreign site cannot
  set when its method is not a safe one, and, on every route but the health checks and the static
  files, presents the token if there is one. A panic of a handler becomes a response.\<close>

theorem chain_guards_state:
  assumes "api_chain hostname origins apiToken uuid now (serve_mux (setupRoutes f) handlers) r h (rl, s) = (a, rl', s')"
  shows "(\<exists>x. a = Response x) \<and>
    (s' \<noteq> s \<longrightarrow> (\<exists>pat r' h'. pat \<in> set (setupRoutes f) \<and> admitted apiToken pat r \<and> same_message r r' \<and>
        s' = snd (handlers pat r' h' s)))"
  by (rule chain_guard [OF assms])

end
