(* ===== verification/ApiProps.thy ===== *)
theory ApiProps
  imports ApiMiddleware
begin

text \<open>
  Properties of the middlewares: the rate limiter against a counter of one visitor, the bound it
  keeps in any interval, and what the header fields of the responses mean for browsers.
\<close>

section \<open>A visitor's window\<close>

text \<open>The reference: one visitor's counter, without the other visitors and without clean-up.\<close>

fun window_answers :: "int \<Rightarrow> instant \<Rightarrow> visitorInfo option \<Rightarrow> instant list \<Rightarrow> bool list" where
  "window_answers rate w st [] = []"
| "window_answers rate w st (t # ts) =
     (case st of
        None \<Rightarrow> True # window_answers rate w (Some \<lparr>vi_count = 1, vi_resetAt = t + w\<rparr>) ts
      | Some v \<Rightarrow>
          if t > vi_resetAt v then True # window_answers rate w (Some \<lparr>vi_count = 1, vi_resetAt = t + w\<rparr>) ts
          else (vi_count v + 1 \<le> rate) # window_answers rate w (Some (v\<lparr>vi_count := vi_count v + 1\<rparr>)) ts)"

text \<open>What happens to a limiter: a visitor asks, the clean-up ticks.\<close>

datatype rl_event = Ask (ev_time: instant) (ev_key: string) | Tick (ev_time: instant)

fun rl_run :: "rate_limiter \<Rightarrow> rl_event list \<Rightarrow> (string \<times> bool) list" where
  "rl_run rl [] = []"
| "rl_run rl (Ask t k # es) = (case allow t k rl of (b, rl) \<Rightarrow> (k, b) # rl_run rl es)"
| "rl_run rl (Tick t # es) = rl_run (cleanup_tick t rl) es"

definition asks_of :: "string \<Rightarrow> rl_event list \<Rightarrow> instant list" where
  "asks_of key es = List.map_filter (\<lambda>e. case e of Ask t k \<Rightarrow> if k = key then Some t else None | Tick t \<Rightarrow> None) es"

definition answers_to :: "string \<Rightarrow> (string \<times> bool) list \<Rightarrow> bool list" where
  "answers_to key as = map snd (filter (\<lambda>(k, b). k = key) as)"

text \<open>The limiter's entry is the reference's state, or gone because that state has expired.\<close>

definition tracks :: "instant \<Rightarrow> string \<Rightarrow> rate_limiter \<Rightarrow> visitorInfo option \<Rightarrow> bool" where
  "tracks u key rl st \<longleftrightarrow>
     (map_of (rl_visitors rl) key = st \<or>
      (map_of (rl_visitors rl) key = None \<and> (\<exists>v. st = Some v \<and> u > vi_resetAt v)))"

lemma map_of_filter_distinct:
  "distinct (map fst xs) \<Longrightarrow>
   map_of (filter (\<lambda>(k, v). P v) xs) k = (case map_of xs k of Some v \<Rightarrow> if P v then Some v else None | None \<Rightarrow> None)"
  by (induction xs) (auto split: option.splits simp: map_of_eq_None_iff dest: map_of_SomeD)

lemma allow_frame:
  "allow t k rl = (b, rl') \<Longrightarrow> rl_rate rl' = rl_rate rl \<and> rl_window rl' = rl_window rl \<and>
     (distinct (map fst (rl_visitors rl)) \<longrightarrow> distinct (map fst (rl_visitors rl'))) \<and>
     (k' \<noteq> k \<longrightarrow> map_of (rl_visitors rl') k' = map_of (rl_visitors rl) k')"
  by (auto simp: allow_def Let_def update_conv' distinct_update split: option.splits if_splits)

lemma limiter_tracks:
  "sorted (map ev_time es) \<Longrightarrow> \<forall>e \<in> set es. u \<le> ev_time e \<Longrightarrow> distinct (map fst (rl_visitors rl)) \<Longrightarrow>
   tracks u key rl st \<Longrightarrow>
   answers_to key (rl_run rl es) = window_answers (rl_rate rl) (rl_window rl) st (asks_of key es)"
proof (induction es arbitrary: u rl st)
  case Nil
  then show ?case by (simp add: answers_to_def asks_of_def map_filter_def)
next
  case (Cons e es)
  have later: "\<forall>e' \<in> set es. ev_time e \<le> ev_time e'" "u \<le> ev_time e" "sorted (map ev_time es)"
    using Cons.prems(1,2) by auto
  have mono: "tracks u key rl' st' \<Longrightarrow> tracks (ev_time e) key rl' st'" for rl' st'
    using later(2) by (auto simp: tracks_def)
  show ?case
  proof (cases e)
    case (Tick t)
    let ?rl = "cleanup_tick t rl"
    have d: "distinct (map fst (rl_visitors ?rl))"
      using Cons.prems(3) by (auto simp: cleanup_tick_def intro: distinct_map_filter)
    have "tracks t key ?rl st"
      using mono [OF Cons.prems(4)] map_of_filter_distinct [OF Cons.prems(3), of "\<lambda>v. \<not> vi_resetAt v < t" key] Tick
      by (auto simp: tracks_def cleanup_tick_def split: option.splits)
    from Cons.IH [OF later(3) _ d this] later(1) show ?thesis
      by (simp add: Tick asks_of_def map_filter_simps cleanup_tick_def)
  next
    case (Ask t k)
    obtain b rl' where a: "allow t k rl = (b, rl')" by fastforce
    note f = allow_frame [OF a]
    show ?thesis
    proof (cases "k = key")
      case False
      have "tracks t key rl' st" using mono [OF Cons.prems(4)] f [of key] False Ask by (auto simp: tracks_def)
      with Cons.IH [of t rl' st] later f Cons.prems(3) Ask a False show ?thesis
        by (simp add: asks_of_def map_filter_simps answers_to_def)
    next
      case True
      have fresh: "b \<and> map_of (rl_visitors rl') key = Some \<lparr>vi_count = 1, vi_resetAt = t + rl_window rl\<rparr>"
        if "map_of (rl_visitors rl) key = None \<or> (\<exists>v. map_of (rl_visitors rl) key = Some v \<and> t > vi_resetAt v)"
        using a True that by (auto simp: allow_def Let_def update_conv' split: option.splits if_splits)
      have old: "b = (vi_count v + 1 \<le> rl_rate rl) \<and> map_of (rl_visitors rl') key = Some (v\<lparr>vi_count := vi_count v + 1\<rparr>)"
        if "map_of (rl_visitors rl) key = Some v" "\<not> t > vi_resetAt v" for v
        using a True that by (auto simp: allow_def Let_def update_conv' split: option.splits if_splits)
      let ?new = "Some \<lparr>vi_count = 1, vi_resetAt = t + rl_window rl\<rparr>"
      have ih: "answers_to key (rl_run rl' es) = window_answers (rl_rate rl) (rl_window rl) st' (asks_of key es)"
        if "map_of (rl_visitors rl') key = st'" for st'
        using Cons.IH [of t rl' st'] later f Cons.prems(3) Ask that by (auto simp: tracks_def)
      have out: "answers_to key (rl_run rl (e # es)) = b # answers_to key (rl_run rl' es)"
        "asks_of key (e # es) = t # asks_of key es"
        using a True by (simp_all add: Ask answers_to_def asks_of_def map_filter_simps)
      have tr: "tracks t key rl st" using mono [OF Cons.prems(4)] Ask by simp
      consider "st = None" "map_of (rl_visitors rl) key = None"
        | v where "st = Some v" "t > vi_resetAt v"
        | v where "st = Some v" "\<not> t > vi_resetAt v" "map_of (rl_visitors rl) key = Some v"
        using tr by (cases st) (auto simp: tracks_def)
      then show ?thesis
      proof cases
        case 1
        then show ?thesis using fresh ih [of ?new] out by simp
      next
        case 2
        then show ?thesis using fresh ih [of ?new] out tr by (auto simp: tracks_def)
      next
        case 3
        then show ?thesis using old [of v] ih [of "Some (v\<lparr>vi_count := vi_count v + 1\<rparr>)"] out by simp
      qed
    qed
  qed
qed

lemma new_limiter_tracks:
  assumes "sorted (map ev_time es)"
  shows "answers_to key (rl_run (newRateLimiter rate w) es) = window_answers rate w None (asks_of key es)"
proof (cases es)
  case Nil
  then show ?thesis by (simp add: answers_to_def asks_of_def map_filter_def)
next
  case (Cons e es')
  then show ?thesis
    using limiter_tracks [OF assms, of "ev_time e" "newRateLimiter rate w" key None] assms
    by (auto simp: newRateLimiter_def tracks_def)
qed

text \<open>C29: The rate limiter answers each visitor as if it were alone: whatever the other visitors ask and
  whenever the clean-up runs in between, as long as the clock does not run backwards the answers
  are those of the visitor's own window counter.\<close>

theorem limiter_is_window_counter:
  assumes "sorted (map ev_time es)"
  shows "answers_to key (rl_run (newRateLimiter rate w) es) = window_answers rate w None (asks_of key es)"
  by (rule new_limiter_tracks [OF assms])

theorem limiter_is_window_counter_witness:
  "answers_to ''a'' (rl_run (newRateLimiter 2 60) [Ask 0 ''a'', Ask 1 ''b'', Ask 2 ''a'', Ask 3 ''a'', Tick 70, Ask 70 ''a'']) =
   [True, True, False, True]"
  by (subst limiter_is_window_counter) (simp_all add: asks_of_def map_filter_simps)

section \<open>The bound in any interval\<close>

definition allowed_in :: "instant \<Rightarrow> instant \<Rightarrow> instant list \<Rightarrow> bool list \<Rightarrow> nat" where
  "allowed_in a b ts bs = length (filter (\<lambda>(t, ok). ok \<and> a \<le> t \<and> t \<le> b) (zip ts bs))"

lemma allowed_in_Cons [simp]:
  "allowed_in a b (t # ts) (ok # bs) = (if ok \<and> a \<le> t \<and> t \<le> b then 1 else 0) + allowed_in a b ts bs"
  "allowed_in a b [] bs = 0"
  by (simp_all add: allowed_in_def)

lemma allowed_after: "\<forall>t \<in> set ts. b < t \<Longrightarrow> allowed_in a b ts bs = 0"
  unfolding allowed_in_def by (fastforce dest: set_zip_leftD simp: filter_empty_conv)

lemma within_window:
  "sorted ts \<Longrightarrow> a + w \<le> vi_resetAt v \<Longrightarrow>
   allowed_in a (a + w) ts (window_answers rate w (Some v) ts) \<le> nat (rate - vi_count v)"
proof (induction ts arbitrary: v)
  case (Cons t ts)
  show ?case
  proof (cases "t > vi_resetAt v")
    case True
    then have "\<forall>t' \<in> set (t # ts). a + w < t'" using Cons.prems by auto
    then show ?thesis using allowed_after by (metis zero_le)
  next
    case False
    then show ?thesis using Cons.IH [of "v\<lparr>vi_count := vi_count v + 1\<rparr>"] Cons.prems by auto
  qed
qed simp

lemma next_window:
  "sorted ts \<Longrightarrow> a \<le> vi_resetAt v \<Longrightarrow> 0 \<le> w \<Longrightarrow>
   allowed_in a (a + w) ts (window_answers rate w (Some v) ts) \<le> nat (rate - vi_count v) + nat (max 1 rate)"
proof (induction ts arbitrary: v)
  case (Cons t ts)
  show ?case
  proof (cases "t > vi_resetAt v")
    case True
    then show ?thesis
      using within_window [of ts a w "\<lparr>vi_count = 1, vi_resetAt = t + w\<rparr>" rate] Cons.prems by auto
  next
    case False
    then show ?thesis using Cons.IH [of "v\<lparr>vi_count := vi_count v + 1\<rparr>"] Cons.prems by auto
  qed
qed simp

lemma any_window:
  "sorted ts \<Longrightarrow> 0 \<le> w \<Longrightarrow> (\<forall>v. st = Some v \<longrightarrow> 0 \<le> vi_count v) \<Longrightarrow>
   allowed_in a (a + w) ts (window_answers rate w st ts) \<le> 2 * nat (max 1 rate)"
proof (induction ts arbitrary: st)
  case (Cons t ts)
  show ?case
  proof (cases "a \<le> t")
    case False
    then show ?thesis using Cons.IH Cons.prems by (auto split: option.split)
  next
    case True
    have new: "allowed_in a (a + w) ts (window_answers rate w (Some \<lparr>vi_count = 1, vi_resetAt = t + w\<rparr>) ts) \<le> nat (rate - 1)"
      using within_window [of ts a w "\<lparr>vi_count = 1, vi_resetAt = t + w\<rparr>" rate] Cons.prems True by simp
    show ?thesis
    proof (cases "\<exists>v. st = Some v \<and> \<not> t > vi_resetAt v")
      case True
      then obtain v where v: "st = Some v" "\<not> t > vi_resetAt v" by blast
      then show ?thesis
        using next_window [of "t # ts" a v w rate] Cons.prems \<open>a \<le> t\<close> by fastforce
    next
      case False
      then show ?thesis using new by (cases st) auto
    qed
  qed
qed simp

text \<open>No visitor gets more than twice the rate of requests through in any stretch of time as long as
  the window, wherever the stretch begins and whatever else the limiter does.\<close>

theorem rate_is_bounded:
  assumes "sorted (map ev_time es)" and "0 \<le> w"
  shows "allowed_in a (a + w) (asks_of key es) (answers_to key (rl_run (newRateLimiter rate w) es)) \<le> 2 * nat (max 1 rate)"
proof -
  have "sorted (asks_of key es)"
    using assms(1)
  proof (induction es)
    case (Cons e es)
    have "\<forall>t \<in> set (asks_of key es). ev_time e \<le> t"
      using Cons.prems by (auto simp: asks_of_def map_filter_def split: rl_event.splits if_splits)
    then show ?case using Cons by (cases e) (auto simp: asks_of_def map_filter_simps)
  qed (simp add: asks_of_def map_filter_def)
  then show ?thesis
    using new_limiter_tracks [OF assms(1), of key rate w] any_window [OF _ assms(2), of _ None a rate] by simp
qed

theorem rate_is_bounded_witness:
  "allowed_in 59 119 (asks_of ''a'' [Ask 59 ''a'', Ask 60 ''a'', Ask 120 ''a''])
     (answers_to ''a'' (rl_run (newRateLimiter 1 60) [Ask 59 ''a'', Ask 60 ''a'', Ask 120 ''a''])) \<le> 2"
  using rate_is_bounded [of "[Ask 59 ''a'', Ask 60 ''a'', Ask 120 ''a'']" 60 59 "''a''" 1] by simp

section \<open>Browsers\<close>

text \<open>The answer to a preflight, and what a browser looks for in it.\<close>

definition header_listed :: "string \<Rightarrow> string \<Rightarrow> bool" where
  "header_listed listing name \<longleftrightarrow> list_ex (\<lambda>t. equal_fold (trim_space t) name) (split_on (CHR '','') listing)"

lemma Header_Get_Set: "Header_Get (Header_Set h k v) k' = (if canonical_key k = canonical_key k' then v else Header_Get h k')"
  by (simp add: Header_Get_def Header_Set_def update_conv')

text \<open>A page on an allowed origin can read the API but not change anything: the answer to its
  preflight does not allow the header \<open>X-Requested-With\<close>, and every request with a method that
  changes state is refused without that header, whatever the token and the state.\<close>

theorem allowed_origin_cannot_write:
  "(hr_Method r = ''OPTIONS'' \<longrightarrow>
     (\<exists>x. fst (corsMiddleware hostname origins inner r h s) = Response x \<and>
        \<not> header_listed (Header_Get (as_Header x) ''Access-Control-Allow-Headers'') ''X-Requested-With'')) \<and>
   (\<not> safe_method (hr_Method r') \<and> Header_Get (hr_Header r') ''X-Requested-With'' = [] \<longrightarrow>
     (\<exists>x. csrfMiddleware inner' r' h' s' = (Response x, s') \<and> as_Status x = 403))"
proof (intro conjI impI)
  assume m: "hr_Method r = ''OPTIONS''"
  have k: "canonical_key ''Access-Control-Max-Age'' \<noteq> canonical_key ''Access-Control-Allow-Headers''" by code_simp
  have "\<not> header_listed allowed_headers ''X-Requested-With''" by code_simp
  then show "\<exists>x. fst (corsMiddleware hostname origins inner r h s) = Response x \<and>
      \<not> header_listed (Header_Get (as_Header x) ''Access-Control-Allow-Headers'') ''X-Requested-With''"
    by (simp add: corsMiddleware_def m Let_def Header_Get_Set k)
next
  assume "\<not> safe_method (hr_Method r') \<and> Header_Get (hr_Header r') ''X-Requested-With'' = []"
  then show "\<exists>x. csrfMiddleware inner' r' h' s' = (Response x, s') \<and> as_Status x = 403"
    by (auto simp: csrfMiddleware_def writeAppError_def writeJSON_def Let_def ErrForbidden_def newAppError_def)
qed

definition cross_site_clear :: api_request where
  "cross_site_clear =
     \<lparr>hr_Method = ''POST'', hr_URL = \<lparr>url_String = [], url_Host = [], url_Path = ''/api/clear''\<rparr>, hr_Header = [],
      hr_Body = None, hr_GetBody = None, hr_ContentLength = 0, ar_RemoteAddr = [], ar_Query = [],
      ar_ContextID = [], ar_WriterID = []\<rparr>"

theorem allowed_origin_cannot_write_witness:
  "\<exists>x :: unit api_response. csrfMiddleware (\<lambda>r h s. (Panic h, s + 1)) cross_site_clear [] (0 :: nat) = (Response x, 0) \<and>
     as_Status x = 403"
proof -
  have "\<not> safe_method (hr_Method cross_site_clear) \<and> Header_Get (hr_Header cross_site_clear) ''X-Requested-With'' = []"
    by (simp add: cross_site_clear_def safe_method_def Header_Get_def)
  then show ?thesis by (rule allowed_origin_cannot_write [THEN conjunct2, THEN mp])
qed

text \<open>A form on another site, with no token and no header, and handlers that all count and panic.\<close>

theorem chain_guards_state_witness:
  "\<exists>x rl'. api_chain (\<lambda>_. None) [] ''secret'' ''0123456789abcdef'' 0
       (serve_mux (setupRoutes True) (\<lambda>pat r h s. (Panic h, s + 1))) cross_site_clear [] (newRateLimiter 60 60, 0 :: nat) =
     (Response x :: unit outcome, rl', 0)"
proof -
  obtain a rl' s' where r: "api_chain (\<lambda>_. None) [] ''secret'' ''0123456789abcdef'' 0
       (serve_mux (setupRoutes True) (\<lambda>pat r h s. (Panic h, s + 1))) cross_site_clear [] (newRateLimiter 60 60, 0 :: nat) =
     (a :: unit outcome, rl', s')"
    by (metis prod_cases3)
  have "\<not> admitted ''secret'' pat cross_site_clear" for pat
    by (simp add: admitted_def cross_site_clear_def safe_method_def Header_Get_def)
  with chain_guards_state [OF r] r show ?thesis by auto
qed

text \<open>The answer to a panic never carries the id of the request: the id is put into the context further in.\<close>

lemma panic_answer_has_no_id:
  assumes "inner r h s = (Panic h', s')" and "ar_ContextID r = []" and "ar_WriterID r = []"
  shows "\<exists>x e. recoveryMiddleware inner r h s = (Response x, s') \<and> as_Body x = Failure e \<and> ae_RequestID e = []"
  using assms by (simp add: recoveryMiddleware_def writeAppError_def writeJSON_def RequestIDFromContext_def Let_def)

end
