(* ===== verification/StoreList.thy ===== *)
theory StoreList
  imports LlmExchange
begin

text \<open>
  The list queries of \<^verbatim>\<open>internal/store/store.go\<close>: the page of requests with its filters, the full records
  for the export, and the interception logs. A \<^verbatim>\<open>WHERE\<close> clause is a list of conditions. The SQL
  operator \<^verbatim>\<open>LIKE\<close> (with \<^verbatim>\<open>ESCAPE '\'\<close>) belongs to SQLite: it is an argument, a test of a text against a
  pattern, and \<open>like_laws\<close> is what its documentation says of it.
\<close>

section \<open>Requests\<close>

record request_list_item =
  rl_ID :: int
  rl_Method :: string
  rl_URL :: string
  rl_Host :: string
  rl_StatusCode :: int
  rl_DurationMs :: int
  rl_SizeBytes :: int
  rl_CapturedAt :: "instant option"
  rl_IsHTTPS :: bool
  rl_CaptureMode :: string
  rl_ProcessPID :: int
  rl_ProcessName :: string
  rl_Truncated :: bool
  rl_IsLLM :: bool

definition scanRequestListItem :: "request_row \<Rightarrow> request_list_item" where
  "scanRequestListItem row =
     (let q = row_req row in
      \<lparr>rl_ID = row_id row, rl_Method = cr_Method q, rl_URL = cr_URL q, rl_Host = cr_Host q,
       rl_StatusCode = cr_StatusCode q, rl_DurationMs = cr_DurationMs q, rl_SizeBytes = cr_SizeBytes q,
       rl_CapturedAt = cr_CapturedAt q, rl_IsHTTPS = cr_IsHTTPS q, rl_CaptureMode = cr_CaptureMode q,
       rl_ProcessPID = cr_ProcessPID q, rl_ProcessName = cr_ProcessName q, rl_Truncated = cr_Truncated q,
       rl_IsLLM = row_is_llm row\<rparr>)"

type_synonym like_op = "string \<Rightarrow> string \<Rightarrow> bool"

datatype condition =
    Method_is string
  | Host_in string string string \<comment> \<open>the host, the host without port, the pattern of the latter\<close>
  | Search_like string
  | Is_error

fun holds :: "like_op \<Rightarrow> condition \<Rightarrow> request_row \<Rightarrow> bool" where
  "holds like (Method_is m) row = (cr_Method (row_req row) = m)"
| "holds like (Host_in h bare p) row =
     (let x = cr_Host (row_req row) in x = h \<or> x = bare \<or> like x (p @ '':%''))"
| "holds like (Search_like p) row =
     (like (cr_URL (row_req row)) p \<or> like (cr_Host (row_req row)) p \<or>
      like (show_int (cr_StatusCode (row_req row))) p)"
| "holds like Is_error row = (cr_StatusCode (row_req row) \<ge> 400)"

definition listWhere :: "string \<Rightarrow> string \<Rightarrow> string \<Rightarrow> bool \<Rightarrow> condition list" where
  "listWhere method search host errorOnly =
     (if method \<noteq> [] \<and> method \<noteq> ''all'' then [Method_is method] else []) @
     (if host \<noteq> [] then [Host_in host (stripPort host) (escapeLike (stripPort host))] else []) @
     (if search \<noteq> [] then [Search_like (''%'' @ escapeLike search @ ''%'')] else []) @
     (if errorOnly then [Is_error] else [])"

definition selected :: "like_op \<Rightarrow> condition list \<Rightarrow> store \<Rightarrow> request_row list" where
  "selected like cs s = filter (\<lambda>row. list_all (\<lambda>c. holds like c row) cs) (st_requests s)"

text \<open>\<open>List\<close>: the items of the page and the number of all.\<close>

definition List_requests ::
  "like_op \<Rightarrow> string \<Rightarrow> string \<Rightarrow> string \<Rightarrow> bool \<Rightarrow> int \<Rightarrow> int \<Rightarrow> store \<Rightarrow>
   (store_error + request_list_item list \<times> nat) \<times> store" where
  "List_requests like method search host errorOnly most skip s =
     (let rows = selected like (listWhere method search host errorOnly) s in
      case next_reply s of
        (ExecErr e, s) \<Rightarrow> (Inl (DriverErr e), s)
      | (ExecOk _ _, s) \<Rightarrow>
          (case next_reply s of
             (ExecErr e, s) \<Rightarrow> (Inl (DriverErr e), s)
           | (ExecOk _ _, s) \<Rightarrow>
               (Inr (map scanRequestListItem (sql_page most skip (rows_by_id_desc rows)), length rows), s)))"

text \<open>
  \<open>ForEachFull\<close> hands the records to a callback, here a step on the caller's state that may fail; the
  first failure ends the loop.
\<close>

fun each_row :: "(captured_request \<Rightarrow> 'a \<Rightarrow> 'e option \<times> 'a) \<Rightarrow> request_row list \<Rightarrow> 'a \<Rightarrow> 'e option \<times> 'a" where
  "each_row f [] a = (None, a)"
| "each_row f (row # rows) a =
     (case f ((row_req row)\<lparr>cr_ID := row_id row\<rparr>) a of
        (Some e, a) \<Rightarrow> (Some e, a)
      | (None, a) \<Rightarrow> each_row f rows a)"

definition ForEachFull ::
  "like_op \<Rightarrow> string \<Rightarrow> string \<Rightarrow> string \<Rightarrow> bool \<Rightarrow> int \<Rightarrow> int \<Rightarrow>
   (captured_request \<Rightarrow> 'a \<Rightarrow> store_error option \<times> 'a) \<Rightarrow> 'a \<Rightarrow> store \<Rightarrow> (store_error option \<times> 'a) \<times> store" where
  "ForEachFull like method search host errorOnly most skip f a s =
     (case next_reply s of
        (ExecErr e, s) \<Rightarrow> ((Some (DriverErr e), a), s)
      | (ExecOk _ _, s) \<Rightarrow>
          (let rows = rows_by_id_desc (selected like (listWhere method search host errorOnly) s)
           in (each_row f (sql_page most skip rows) a, s)))"

definition ListFull ::
  "like_op \<Rightarrow> string \<Rightarrow> string \<Rightarrow> string \<Rightarrow> bool \<Rightarrow> int \<Rightarrow> int \<Rightarrow> store \<Rightarrow>
   (store_error + captured_request list) \<times> store" where
  "ListFull like method search host errorOnly most skip s =
     (case ForEachFull like method search host errorOnly most skip (\<lambda>req items. (None, items @ [req])) [] s of
        ((Some e, _), s) \<Rightarrow> (Inl e, s)
      | ((None, items), s) \<Rightarrow> (Inr items, s))"

section \<open>Interception logs\<close>

text \<open>The column \<open>created_at\<close> is compared as text; \<open>text_of\<close> is its RFC 3339 text.\<close>

definition log_selected ::
  "like_op \<Rightarrow> (instant \<Rightarrow> string) \<Rightarrow> (string \<Rightarrow> string \<Rightarrow> bool) \<Rightarrow> string \<Rightarrow> string \<Rightarrow> string \<Rightarrow> string \<Rightarrow> log_row \<Rightarrow> bool" where
  "log_selected like text_of text_le action since host pattern l \<longleftrightarrow>
     (action = [] \<or> il_Action (log_entry l) = action) \<and>
     (since = [] \<or> text_le since (text_of (log_created_at l))) \<and>
     (host = [] \<or> like (il_RequestHost (log_entry l)) (''%'' @ escapeLike host @ ''%'')) \<and>
     (pattern = [] \<or> like (il_RulePattern (log_entry l)) (''%'' @ escapeLike pattern @ ''%''))"

definition ListInterceptLogs ::
  "like_op \<Rightarrow> (instant \<Rightarrow> string) \<Rightarrow> (string \<Rightarrow> string \<Rightarrow> bool) \<Rightarrow> string \<Rightarrow> string \<Rightarrow> string \<Rightarrow> string \<Rightarrow>
   int \<Rightarrow> int \<Rightarrow> store \<Rightarrow> (store_error + log_row list \<times> nat) \<times> store" where
  "ListInterceptLogs like text_of text_le action since host pattern most skip s =
     (let most = (if most \<le> 0 \<or> most > 200 then 50 else most);
          skip = (if skip < 0 then 0 else skip);
          rows = filter (log_selected like text_of text_le action since host pattern) (st_logs s)
      in case next_reply s of
           (ExecErr e, s) \<Rightarrow> (Inl (DriverErr e), s)
         | (ExecOk _ _, s) \<Rightarrow>
             (case next_reply s of
                (ExecErr e, s) \<Rightarrow> (Inl (DriverErr e), s)
              | (ExecOk _ _, s) \<Rightarrow> (Inr (sql_page most skip (rev (sort_key log_id rows)), length rows), s)))"

section \<open>What a search finds\<close>

text \<open>The documented behaviour of \<^verbatim>\<open>LIKE\<close>: wildcards, the escape character, and ASCII letters without case.\<close>

definition like_laws :: "like_op \<Rightarrow> bool" where
  "like_laws like \<longleftrightarrow>
     (\<forall>s. like s [] \<longleftrightarrow> s = []) \<and>
     (\<forall>s p. like s (CHR ''%'' # p) \<longleftrightarrow> (\<exists>n \<le> length s. like (drop n s) p)) \<and>
     (\<forall>s p. like s (CHR ''_'' # p) \<longleftrightarrow> s \<noteq> [] \<and> like (tl s) p) \<and>
     (\<forall>s x p. like s (BACKSLASH # x # p) \<longleftrightarrow> s \<noteq> [] \<and> lower_char (hd s) = lower_char x \<and> like (tl s) p) \<and>
     (\<forall>s x p. x \<notin> {CHR ''%'', CHR ''_'', BACKSLASH} \<longrightarrow>
        (like s (x # p) \<longleftrightarrow> s \<noteq> [] \<and> lower_char (hd s) = lower_char x \<and> like (tl s) p))"

lemma like_law:
  assumes "like_laws like"
  shows "like s [] \<longleftrightarrow> s = []" "like s (CHR ''%'' # p) \<longleftrightarrow> (\<exists>n \<le> length s. like (drop n s) p)"
    "like s (BACKSLASH # x # p) \<longleftrightarrow> s \<noteq> [] \<and> lower_char (hd s) = lower_char x \<and> like (tl s) p"
    "x \<notin> {CHR ''%'', CHR ''_'', BACKSLASH} \<Longrightarrow>
       like s (x # p) \<longleftrightarrow> s \<noteq> [] \<and> lower_char (hd s) = lower_char x \<and> like (tl s) p"
proof -
  note l = assms [unfolded like_laws_def]
  show "like s [] \<longleftrightarrow> s = []" using l by metis
  show "like s (CHR ''%'' # p) \<longleftrightarrow> (\<exists>n \<le> length s. like (drop n s) p)" using l by metis
  show "like s (BACKSLASH # x # p) \<longleftrightarrow> s \<noteq> [] \<and> lower_char (hd s) = lower_char x \<and> like (tl s) p" using l by metis
  show "like s (x # p) \<longleftrightarrow> s \<noteq> [] \<and> lower_char (hd s) = lower_char x \<and> like (tl s) p"
    if "x \<notin> {CHR ''%'', CHR ''_'', BACKSLASH}" using l that by metis
qed

lemma like_char_law:
  assumes "like_laws like"
  shows "like s (like_char x @ p) \<longleftrightarrow> s \<noteq> [] \<and> lower_char (hd s) = lower_char x \<and> like (tl s) p"
  using like_law(3) [OF assms, where s = s and x = x and p = p] like_law(4) [OF assms, where s = s and x = x and p = p]
  by (auto simp: like_char_def)

text \<open>Equality without the case of ASCII letters, and containment.\<close>

definition same_text :: "string \<Rightarrow> string \<Rightarrow> bool" where
  "same_text s t \<longleftrightarrow> map lower_char s = map lower_char t"

definition contains_text :: "string \<Rightarrow> string \<Rightarrow> bool" where
  "contains_text s t \<longleftrightarrow> (\<exists>a b c. s = a @ b @ c \<and> same_text b t)"

lemma like_escaped:
  assumes "like_laws like"
  shows "like s (escapeLike t @ p) \<longleftrightarrow> (\<exists>b c. s = b @ c \<and> same_text b t \<and> like c p)"
proof (induction t arbitrary: s)
  case Nil
  then show ?case by (simp add: escapeLike_chars same_text_def)
next
  case (Cons x t)
  have "like s (escapeLike (x # t) @ p) \<longleftrightarrow> s \<noteq> [] \<and> lower_char (hd s) = lower_char x \<and> like (tl s) (escapeLike t @ p)"
    by (simp add: escapeLike_chars like_char_law [OF assms])
  also have "\<dots> \<longleftrightarrow> (\<exists>b c. s = b @ c \<and> same_text b (x # t) \<and> like c p)"
    unfolding Cons.IH same_text_def
    by (cases s) (auto simp: Cons_eq_append_conv, metis list.simps(9))
  finally show ?case .
qed

lemma like_anything: "like_laws like \<Longrightarrow> like s ''%''"
  using like_law(2) [of like s "[]"] like_law(1) [of like "drop (length s) s"] by auto

lemma like_search:
  assumes "like_laws like"
  shows "like s (''%'' @ escapeLike t @ ''%'') \<longleftrightarrow> contains_text s t"
proof -
  have "like s (''%'' @ escapeLike t @ ''%'') \<longleftrightarrow>
      (\<exists>n \<le> length s. \<exists>b c. drop n s = b @ c \<and> same_text b t \<and> like c ''%'')"
    using like_law(2) [OF assms] like_escaped [OF assms] by simp
  also have "\<dots> \<longleftrightarrow> contains_text s t"
    using like_anything [OF assms] unfolding contains_text_def
    by (metis append_eq_conv_conj append_take_drop_id length_append le_add1)
  finally show ?thesis .
qed

lemma like_host:
  assumes "like_laws like"
  shows "like x (escapeLike t @ '':%'') \<longleftrightarrow> (\<exists>b p. x = b @ CHR '':'' # p \<and> same_text b t)"
proof -
  have colon: "lower_char c = lower_char (CHR '':'') \<longleftrightarrow> c = CHR '':''" for c
    by (cases "65 \<le> char_code c \<and> char_code c \<le> 90") (auto simp: lower_char_def of_char_of dest: arg_cong [of _ _ char_code])
  have "like c '':%'' \<longleftrightarrow> c \<noteq> [] \<and> hd c = CHR '':''" for c
    using like_law(4) [OF assms, where x = "CHR '':''" and s = c and p = "''%''"] like_anything [OF assms] colon by simp
  then show ?thesis
    unfolding like_escaped [OF assms] neq_Nil_conv by (metis list.sel(1))
qed

text \<open>The requests a user asks for.\<close>

definition wanted :: "string \<Rightarrow> string \<Rightarrow> string \<Rightarrow> bool \<Rightarrow> request_row \<Rightarrow> bool" where
  "wanted method search host errorOnly row \<longleftrightarrow>
     (let q = row_req row; bare = stripPort host in
      (method \<in> {[], ''all''} \<or> cr_Method q = method) \<and>
      (host = [] \<or> cr_Host q = host \<or> cr_Host q = bare \<or> (\<exists>b p. cr_Host q = b @ CHR '':'' # p \<and> same_text b bare)) \<and>
      (search = [] \<or> contains_text (cr_URL q) search \<or> contains_text (cr_Host q) search \<or>
        contains_text (show_int (cr_StatusCode q)) search) \<and>
      (errorOnly \<longrightarrow> 400 \<le> cr_StatusCode q))"

lemma selected_wanted:
  assumes "like_laws like"
  shows "selected like (listWhere method search host errorOnly) s = filter (wanted method search host errorOnly) (st_requests s)"
proof -
  have "list_all (\<lambda>c. holds like c row) (listWhere method search host errorOnly) = wanted method search host errorOnly row" for row
    using like_search [OF assms, of _ search] like_host [OF assms, of "cr_Host (row_req row)" "stripPort host"]
    by (cases "host = []"; cases "search = []"; cases errorOnly) (simp_all add: listWhere_def wanted_def Let_def)
  then show ?thesis by (simp add: selected_def)
qed

text \<open>The pages of a list, put together.\<close>

lemma pages_join:
  assumes "0 < m"
  shows "concat (map (\<lambda>k. sql_page (int m) (int (k * m)) xs) [0..<n]) = take (n * m) xs"
proof (induction n)
  case (Suc n)
  have "sql_page (int m) (int (n * m)) xs = take m (drop (n * m) xs)"
    by (simp add: sql_page_def del: of_nat_mult)
  then show ?case using Suc by (simp add: take_add [symmetric] add.commute)
qed simp

lemma map_sql_page: "map f (sql_page most skip xs) = sql_page most skip (map f xs)"
  by (simp add: sql_page_def take_map drop_map Let_def)

definition page_of :: "(store_error + 'a list \<times> nat) \<times> store \<Rightarrow> 'a list" where
  "page_of r = (case fst r of Inr (items, _) \<Rightarrow> items | Inl _ \<Rightarrow> [])"

text \<open>C22: Paging through the requests, with any page size and any filter, shows every request the filter asks
  for exactly once and nothing else, newest first, and the total given with each page is their
  number; a search text is found wherever it occurs, letters of either case, and its wildcards
  stand for themselves.\<close>

theorem pages_show_what_is_wanted:
  assumes "like_laws like" and "0 < m" and "st_replies s = ExecOk a b # ExecOk c d # rest"
    and "length (filter (wanted method search host errorOnly) (st_requests s)) \<le> n * m"
  shows "concat (map (\<lambda>k. page_of (List_requests like method search host errorOnly (int m) (int (k * m)) s)) [0..<n]) =
      map scanRequestListItem (rows_by_id_desc (filter (wanted method search host errorOnly) (st_requests s))) \<and>
    (\<exists>items. fst (List_requests like method search host errorOnly (int m) skip s) =
      Inr (items, length (filter (wanted method search host errorOnly) (st_requests s))))"
proof -
  let ?rows = "filter (wanted method search host errorOnly) (st_requests s)"
  have q: "fst (List_requests like method search host errorOnly most skip s) =
      Inr (map scanRequestListItem (sql_page most skip (rows_by_id_desc ?rows)), length ?rows)" for most skip
    using assms(3) by (simp add: List_requests_def next_reply_def selected_wanted [OF assms(1)] Let_def)
  have "page_of (List_requests like method search host errorOnly (int m) (int (k * m)) s) =
      sql_page (int m) (int (k * m)) (map scanRequestListItem (rows_by_id_desc ?rows))" for k
    by (simp only: page_of_def q map_sql_page sum.case prod.case)
  moreover have "length (map scanRequestListItem (rows_by_id_desc ?rows)) \<le> n * m"
    using assms(4) by (simp add: rows_by_id_desc_def)
  ultimately show ?thesis
    using pages_join [OF assms(2), of "map scanRequestListItem (rows_by_id_desc ?rows)" n] q by simp
qed

text \<open>A \<^verbatim>\<open>LIKE\<close> that keeps the laws.\<close>

fun like_match :: "string \<Rightarrow> string \<Rightarrow> bool" where
  "like_match s [] = (s = [])"
| "like_match s [x] =
     (if x = CHR ''%'' then True else if x = CHR ''_'' then length s = 1
      else x \<noteq> BACKSLASH \<and> length s = 1 \<and> lower_char (hd s) = lower_char x)"
| "like_match s (x # y # p) =
     (if x = CHR ''%'' then list_ex (\<lambda>n. like_match (drop n s) (y # p)) [0..<Suc (length s)]
      else if x = CHR ''_'' then s \<noteq> [] \<and> like_match (tl s) (y # p)
      else if x = BACKSLASH then s \<noteq> [] \<and> lower_char (hd s) = lower_char y \<and> like_match (tl s) p
      else s \<noteq> [] \<and> lower_char (hd s) = lower_char x \<and> like_match (tl s) (y # p))"

lemma like_match_laws: "like_laws like_match"
proof -
  have one: "length s = 1 \<longleftrightarrow> s \<noteq> [] \<and> tl s = []" for s :: string by (cases s) auto
  have pc: "like_match s (CHR ''%'' # p) \<longleftrightarrow> (\<exists>n \<le> length s. like_match (drop n s) p)" for s p
  proof (cases p)
    case Nil
    have "like_match (drop (length s) s) []" by simp
    with Nil show ?thesis by auto
  qed (auto simp: list_ex_iff less_Suc_eq_le simp del: upt_Suc)
  have us: "like_match s (CHR ''_'' # p) \<longleftrightarrow> s \<noteq> [] \<and> like_match (tl s) p" for s p
    using one by (cases p) auto
  have ch: "like_match s (x # p) \<longleftrightarrow> s \<noteq> [] \<and> lower_char (hd s) = lower_char x \<and> like_match (tl s) p"
    if "x \<notin> {CHR ''%'', CHR ''_'', BACKSLASH}" for s x p
    using that one by (cases p) auto
  show ?thesis unfolding like_laws_def using pc us ch by auto
qed

definition two_rows :: store where
  "two_rows = example_rows\<lparr>st_requests :=
     [new_row 1 (zero_request\<lparr>cr_URL := ''/a%b''\<rparr>), new_row 2 (zero_request\<lparr>cr_URL := ''/axb''\<rparr>)]\<rparr>"

theorem pages_show_what_is_wanted_witness:
  "concat (map (\<lambda>k. page_of (List_requests like_match [] ''A%'' [] False 1 (int k) two_rows)) [0..<1]) =
   [scanRequestListItem (new_row 1 (zero_request\<lparr>cr_URL := ''/a%b''\<rparr>))]"
proof -
  have c: "contains_text ''/a%b'' ''A%''"
    unfolding contains_text_def same_text_def
    by (rule exI [of _ "''/''"], rule exI [of _ "''a%''"], rule exI [of _ "''b''"]) code_simp
  have n: "\<not> contains_text ''/axb'' ''A%''" "\<not> contains_text [] ''A%''" "\<not> contains_text ''0'' ''A%''"
    unfolding like_search [OF like_match_laws, symmetric] by code_simp+
  have w: "filter (wanted [] ''A%'' [] False) (st_requests two_rows) = [new_row 1 (zero_request\<lparr>cr_URL := ''/a%b''\<rparr>)]"
    using c n by (simp add: two_rows_def wanted_def new_row_def insert_columns_def zero_request_def show_int_def show_nat.simps)
  have "st_replies two_rows = ExecOk 0 None # ExecOk 0 None # [ExecOk 0 None]" by (simp add: two_rows_def example_rows_def)
  from pages_show_what_is_wanted [OF like_match_laws, of 1, OF _ this, of "[]" "''A%''" "[]" False 1] w
  show ?thesis by (simp add: rows_by_id_desc_def)
qed

text \<open>The interception logs: the page is never larger than 200 and shows the newest first.\<close>

lemma ListInterceptLogs_bound:
  "fst (ListInterceptLogs like text_of text_le a b c d most skip s) = Inr (logs, n) \<Longrightarrow> length logs \<le> 200"
  by (auto simp: ListInterceptLogs_def Let_def sql_page_def split: prod.splits reply.splits if_splits)

end
