(* ===== verification/WsHub.thy ===== *)
theory WsHub
  imports StoreList LossyQueue
begin

text \<open>
  The hub of \<^verbatim>\<open>internal/api/ws.go\<close> and the upgrade handler of \<^verbatim>\<open>server.go\<close>: three bounded channels
  into one goroutine, which sends on to the channel of each connected browser. A pointer to a client
  is its index in the list of all clients ever made. The goroutines (the hub's, two pumps per
  client, the handlers) are the steps of a transition relation. Sending on a closed channel and
  closing one twice panic in Go: these operations return \<open>None\<close>.
\<close>

section \<open>Messages and clients\<close>

text \<open>The item of a new request; the literal leaves the last five fields zero.\<close>

definition list_item :: "captured_request \<Rightarrow> request_list_item" where
  "list_item req =
     \<lparr>rl_ID = cr_ID req, rl_Method = cr_Method req, rl_URL = cr_URL req, rl_Host = cr_Host req,
      rl_StatusCode = cr_StatusCode req, rl_DurationMs = cr_DurationMs req, rl_SizeBytes = cr_SizeBytes req,
      rl_CapturedAt = cr_CapturedAt req, rl_IsHTTPS = cr_IsHTTPS req,
      rl_CaptureMode = [], rl_ProcessPID = 0, rl_ProcessName = [], rl_Truncated = False, rl_IsLLM = False\<rparr>"

datatype ws_message =
    New_request request_list_item
  | Intercept_request pending_request
  | Update_request (um_id: int) (um_status_code: int) (um_duration_ms: int) (um_size_bytes: int)

definition update_message :: "captured_request \<Rightarrow> ws_message" where
  "update_message req = Update_request (cr_ID req) (cr_StatusCode req) (cr_DurationMs req) (cr_SizeBytes req)"

text \<open>
  The handler waits to register; then the pumps run. The read pump leaves its loop on an error and
  waits to unregister. What was written to the connection, and what was lost in a failed write, is kept.
\<close>

datatype read_pump = Not_reading | Reading | Leaving | Read_ended
datatype write_pump = Not_writing | Writing | Write_ended

record ws_client =
  wc_handler :: bool \<comment> \<open>the handler still waits\<close>
  wc_read :: read_pump
  wc_write :: write_pump
  wc_send :: "ws_message list"
  wc_closed :: bool
  wc_written :: "ws_message list"
  wc_failed :: "ws_message list"

definition sendCap :: nat where "sendCap = 64"

definition new_client :: ws_client where
  "new_client = \<lparr>wc_handler = True, wc_read = Not_reading, wc_write = Not_writing, wc_send = [],
     wc_closed = False, wc_written = [], wc_failed = []\<rparr>"

record ws_hub =
  hub_clients :: "nat list" \<comment> \<open>the keys of the map, in the order of the iteration\<close>
  hub_broadcastCh :: "captured_request chan"
  hub_interceptCh :: "pending_request chan"
  hub_updateCh :: "captured_request chan"
  hub_stopCh :: bool \<comment> \<open>closed\<close>
  hub_running :: bool
  hub_conns :: "ws_client list"

definition newWSHub :: ws_hub where
  "newWSHub = \<lparr>hub_clients = [],
     hub_broadcastCh = \<lparr>ch_cap = 256, ch_queue = [], ch_refused = 0\<rparr>,
     hub_interceptCh = \<lparr>ch_cap = 64, ch_queue = [], ch_refused = 0\<rparr>,
     hub_updateCh = \<lparr>ch_cap = 256, ch_queue = [], ch_refused = 0\<rparr>,
     hub_stopCh = False, hub_running = True, hub_conns = []\<rparr>"

definition set_conn :: "nat \<Rightarrow> ws_client \<Rightarrow> ws_hub \<Rightarrow> ws_hub" where
  "set_conn i c h = h\<lparr>hub_conns := (hub_conns h)[i := c]\<rparr>"

section \<open>Operations\<close>

definition broadcast :: "captured_request \<Rightarrow> ws_hub \<Rightarrow> ws_hub" where
  "broadcast req h = h\<lparr>hub_broadcastCh := snd (try_send req (hub_broadcastCh h))\<rparr>"

definition broadcastIntercept :: "pending_request \<Rightarrow> ws_hub \<Rightarrow> ws_hub" where
  "broadcastIntercept req h = h\<lparr>hub_interceptCh := snd (try_send req (hub_interceptCh h))\<rparr>"

definition BroadcastUpdate :: "captured_request \<Rightarrow> ws_hub \<Rightarrow> ws_hub" where
  "BroadcastUpdate req h = h\<lparr>hub_updateCh := snd (try_send req (hub_updateCh h))\<rparr>"

definition hub_Stop :: "ws_hub \<Rightarrow> ws_hub" where
  "hub_Stop h = h\<lparr>hub_stopCh := True\<rparr>"

text \<open>\<open>select { case client.send <- msg: default: }\<close>: whether the channel took the message.\<close>

definition try_client :: "ws_message \<Rightarrow> nat \<Rightarrow> ws_hub \<Rightarrow> (bool \<times> ws_hub) option" where
  "try_client msg i h =
     (let c = hub_conns h ! i in
      if wc_closed c then None
      else if length (wc_send c) < sendCap then Some (True, set_conn i (c\<lparr>wc_send := wc_send c @ [msg]\<rparr>) h)
      else Some (False, h))"

definition close_client :: "nat \<Rightarrow> ws_hub \<Rightarrow> ws_hub option" where
  "close_client i h =
     (let c = hub_conns h ! i in if wc_closed c then None else Some (set_conn i (c\<lparr>wc_closed := True\<rparr>) h))"

text \<open>The loop over the clients for a new request: a client that does not keep up is closed and forgotten.\<close>

fun send_or_close :: "ws_message \<Rightarrow> nat list \<Rightarrow> ws_hub \<Rightarrow> ws_hub option" where
  "send_or_close msg [] h = Some h"
| "send_or_close msg (i # is) h =
     (case try_client msg i h of
        None \<Rightarrow> None
      | Some (True, h) \<Rightarrow> send_or_close msg is h
      | Some (False, h) \<Rightarrow>
          (case close_client i h of
             None \<Rightarrow> None
           | Some h \<Rightarrow> send_or_close msg is (h\<lparr>hub_clients := remove1 i (hub_clients h)\<rparr>)))"

text \<open>The loop for the other messages: a client that does not keep up misses the message.\<close>

fun send_or_drop :: "ws_message \<Rightarrow> nat list \<Rightarrow> ws_hub \<Rightarrow> ws_hub option" where
  "send_or_drop msg [] h = Some h"
| "send_or_drop msg (i # is) h =
     (case try_client msg i h of
        None \<Rightarrow> None
      | Some (_, h) \<Rightarrow> send_or_drop msg is h)"

text \<open>
  The cases of the hub's \<open>select\<close>: the message sent on, if any, and the hub. A case that is not
  ready is \<open>Inl\<close>; \<open>encodes\<close> tells whether \<open>json.Marshal\<close> takes the message.
\<close>

type_synonym hub_result = "unit + (ws_message list \<times> ws_hub) option"

definition send_on ::
  "(ws_message \<Rightarrow> bool) \<Rightarrow> (ws_message \<Rightarrow> nat list \<Rightarrow> ws_hub \<Rightarrow> ws_hub option) \<Rightarrow> ws_message \<Rightarrow> ws_hub \<Rightarrow> hub_result" where
  "send_on encodes loop msg h =
     Inr (if encodes msg then map_option (\<lambda>h. ([msg], h)) (loop msg (hub_clients h) h) else Some ([], h))"

definition run_broadcast :: "(ws_message \<Rightarrow> bool) \<Rightarrow> ws_hub \<Rightarrow> hub_result" where
  "run_broadcast encodes h =
     (case ch_queue (hub_broadcastCh h) of
        req # q \<Rightarrow> if hub_running h
                   then send_on encodes send_or_close (New_request (list_item req))
                          (h\<lparr>hub_broadcastCh := (hub_broadcastCh h)\<lparr>ch_queue := q\<rparr>\<rparr>)
                   else Inl ()
      | [] \<Rightarrow> Inl ())"

definition run_intercept :: "(ws_message \<Rightarrow> bool) \<Rightarrow> ws_hub \<Rightarrow> hub_result" where
  "run_intercept encodes h =
     (case ch_queue (hub_interceptCh h) of
        req # q \<Rightarrow> if hub_running h
                   then send_on encodes send_or_drop (Intercept_request req)
                          (h\<lparr>hub_interceptCh := (hub_interceptCh h)\<lparr>ch_queue := q\<rparr>\<rparr>)
                   else Inl ()
      | [] \<Rightarrow> Inl ())"

definition run_update :: "(ws_message \<Rightarrow> bool) \<Rightarrow> ws_hub \<Rightarrow> hub_result" where
  "run_update encodes h =
     (case ch_queue (hub_updateCh h) of
        req # q \<Rightarrow> if hub_running h
                   then send_on encodes send_or_drop (update_message req)
                          (h\<lparr>hub_updateCh := (hub_updateCh h)\<lparr>ch_queue := q\<rparr>\<rparr>)
                   else Inl ()
      | [] \<Rightarrow> Inl ())"

text \<open>A handler hands its client to the hub, and starts the pumps.\<close>

definition run_register :: "nat \<Rightarrow> ws_hub \<Rightarrow> hub_result" where
  "run_register i h =
     (if hub_running h \<and> i < length (hub_conns h) \<and> wc_handler (hub_conns h ! i)
      then Inr (Some ([], set_conn i ((hub_conns h ! i)\<lparr>wc_handler := False, wc_read := Reading, wc_write := Writing\<rparr>)
             (h\<lparr>hub_clients := List.insert i (hub_clients h)\<rparr>)))
      else Inl ())"

definition run_unregister :: "nat \<Rightarrow> ws_hub \<Rightarrow> hub_result" where
  "run_unregister i h =
     (if hub_running h \<and> i < length (hub_conns h) \<and> wc_read (hub_conns h ! i) = Leaving
      then let h = set_conn i ((hub_conns h ! i)\<lparr>wc_read := Read_ended\<rparr>) h in
           Inr (if i \<in> set (hub_clients h)
                then map_option (\<lambda>h. ([], h)) (close_client i (h\<lparr>hub_clients := remove1 i (hub_clients h)\<rparr>))
                else Some ([], h))
      else Inl ())"

text \<open>The hub sees that it is stopped: it closes the channels of all clients and returns.\<close>

fun close_all :: "nat list \<Rightarrow> ws_hub \<Rightarrow> ws_hub option" where
  "close_all [] h = Some h"
| "close_all (i # is) h = (case close_client i h of None \<Rightarrow> None | Some h \<Rightarrow> close_all is h)"

definition run_stop :: "ws_hub \<Rightarrow> hub_result" where
  "run_stop h =
     (if hub_running h \<and> hub_stopCh h
      then Inr (map_option (\<lambda>h. ([], h)) (close_all (hub_clients h) (h\<lparr>hub_running := False\<rparr>)))
      else Inl ())"

text \<open>The handler of \<open>/ws\<close>: the upgrade gives a client, which waits for the hub or for the end.\<close>

definition handleWebSocket :: "ws_hub \<Rightarrow> ws_hub" where
  "handleWebSocket h = h\<lparr>hub_conns := hub_conns h @ [new_client]\<rparr>"

definition handler_gives_up :: "nat \<Rightarrow> ws_hub \<Rightarrow> ws_hub option" where
  "handler_gives_up i h =
     (if hub_stopCh h \<and> i < length (hub_conns h) \<and> wc_handler (hub_conns h ! i)
      then Some (set_conn i ((hub_conns h ! i)\<lparr>wc_handler := False\<rparr>) h) else None)"

text \<open>The read pump: an error of the connection, and the end if the hub is stopped.\<close>

definition readPump_error :: "nat \<Rightarrow> ws_hub \<Rightarrow> ws_hub option" where
  "readPump_error i h =
     (if i < length (hub_conns h) \<and> wc_read (hub_conns h ! i) = Reading
      then Some (set_conn i ((hub_conns h ! i)\<lparr>wc_read := Leaving\<rparr>) h) else None)"

definition readPump_stopped :: "nat \<Rightarrow> ws_hub \<Rightarrow> ws_hub option" where
  "readPump_stopped i h =
     (if hub_stopCh h \<and> i < length (hub_conns h) \<and> wc_read (hub_conns h ! i) = Leaving
      then Some (set_conn i ((hub_conns h ! i)\<lparr>wc_read := Read_ended\<rparr>) h) else None)"

text \<open>The write pump: a message, which the connection takes or not; the closed channel; a ping that fails.\<close>

definition writePump_message :: "bool \<Rightarrow> nat \<Rightarrow> ws_hub \<Rightarrow> ws_hub option" where
  "writePump_message ok i h =
     (if i < length (hub_conns h) \<and> wc_write (hub_conns h ! i) = Writing then
        let c = hub_conns h ! i in
        case wc_send c of
          msg # q \<Rightarrow>
            Some (set_conn i (if ok then c\<lparr>wc_send := q, wc_written := wc_written c @ [msg]\<rparr>
                              else c\<lparr>wc_send := q, wc_failed := wc_failed c @ [msg], wc_write := Write_ended\<rparr>) h)
        | [] \<Rightarrow> if wc_closed c then Some (set_conn i (c\<lparr>wc_write := Write_ended\<rparr>) h) else None
      else None)"

definition writePump_ping_fails :: "nat \<Rightarrow> ws_hub \<Rightarrow> ws_hub option" where
  "writePump_ping_fails i h =
     (if i < length (hub_conns h) \<and> wc_write (hub_conns h ! i) = Writing
      then Some (set_conn i ((hub_conns h ! i)\<lparr>wc_write := Write_ended\<rparr>) h) else None)"

text \<open>The steps of the hub's goroutine, and those of the others.\<close>

definition hub_turn :: "(ws_message \<Rightarrow> bool) \<Rightarrow> ws_hub \<Rightarrow> hub_result \<Rightarrow> bool" where
  "hub_turn encodes h r \<longleftrightarrow>
     r = run_broadcast encodes h \<or> r = run_intercept encodes h \<or> r = run_update encodes h \<or> r = run_stop h \<or>
     (\<exists>i. r = run_register i h) \<or> (\<exists>i. r = run_unregister i h)"

inductive hub_step :: "(ws_message \<Rightarrow> bool) \<Rightarrow> ws_hub \<Rightarrow> ws_message list \<Rightarrow> ws_hub \<Rightarrow> bool"
  for encodes :: "ws_message \<Rightarrow> bool" where
  turn: "hub_turn encodes h (Inr (Some (ms, h'))) \<Longrightarrow> hub_step encodes h ms h'"
| captured: "hub_step encodes h [] (broadcast req h)"
| undecided: "hub_step encodes h [] (broadcastIntercept pr h)"
| updated: "hub_step encodes h [] (BroadcastUpdate req h)"
| stop: "hub_step encodes h [] (hub_Stop h)"
| connect: "hub_step encodes h [] (handleWebSocket h)"
| refuse: "handler_gives_up i h = Some h' \<Longrightarrow> hub_step encodes h [] h'"
| broken: "readPump_error i h = Some h' \<Longrightarrow> hub_step encodes h [] h'"
| leave: "readPump_stopped i h = Some h' \<Longrightarrow> hub_step encodes h [] h'"
| sent: "writePump_message ok i h = Some h' \<Longrightarrow> hub_step encodes h [] h'"
| ping: "writePump_ping_fails i h = Some h' \<Longrightarrow> hub_step encodes h [] h'"

text \<open>A run, with the messages the hub sent on in it.\<close>

inductive hub_run :: "(ws_message \<Rightarrow> bool) \<Rightarrow> ws_hub \<Rightarrow> ws_message list \<Rightarrow> ws_hub \<Rightarrow> bool"
  for encodes :: "ws_message \<Rightarrow> bool" where
  start: "hub_run encodes h [] h"
| step: "hub_run encodes h ms h' \<Longrightarrow> hub_step encodes h' ns h'' \<Longrightarrow> hub_run encodes h (ms @ ns) h''"

end
