(* ===== verification/WsHubProps.thy ===== *)
theory WsHubProps
  imports WsHub
begin

text \<open>
  Properties of the hub: it never panics, each browser gets the messages in order and the new requests
  without a gap, the channels stay within their bounds, and everything ends after \<open>Stop\<close>.
\<close>

section \<open>The loops over the clients\<close>

lemma set_conn_fields [simp]:
  "hub_clients (set_conn i c h) = hub_clients h" "hub_running (set_conn i c h) = hub_running h"
  "hub_stopCh (set_conn i c h) = hub_stopCh h" "hub_broadcastCh (set_conn i c h) = hub_broadcastCh h"
  "hub_interceptCh (set_conn i c h) = hub_interceptCh h" "hub_updateCh (set_conn i c h) = hub_updateCh h"
  "hub_conns (set_conn i c h) = (hub_conns h)[i := c]"
  by (simp_all add: set_conn_def)

definition full :: "ws_client \<Rightarrow> bool" where
  "full c \<longleftrightarrow> sendCap \<le> length (wc_send c)"

definition put :: "ws_message \<Rightarrow> ws_client \<Rightarrow> ws_client" where
  "put msg c = (if full c then c else c\<lparr>wc_send := wc_send c @ [msg]\<rparr>)"

text \<open>What the loops do: to each client of the list the same, whatever the order.\<close>

definition live :: "ws_hub \<Rightarrow> nat list \<Rightarrow> bool" where
  "live h is \<longleftrightarrow> distinct is \<and> (\<forall>i \<in> set is. i < length (hub_conns h) \<and> \<not> wc_closed (hub_conns h ! i))"

definition on_conns :: "nat list \<Rightarrow> (ws_client \<Rightarrow> ws_client) \<Rightarrow> ws_client list \<Rightarrow> ws_client list" where
  "on_conns is f cs = map (\<lambda>j. if j \<in> set is then f (cs ! j) else cs ! j) [0..<length cs]"

lemma on_conns_simps [simp]:
  "length (on_conns is f cs) = length cs" "on_conns [] f cs = cs"
  "j < length cs \<Longrightarrow> on_conns is f cs ! j = (if j \<in> set is then f (cs ! j) else cs ! j)"
  by (simp_all add: on_conns_def map_nth)

lemma on_conns_Cons: "i \<notin> set is \<Longrightarrow> on_conns is f (cs[i := f (cs ! i)]) = on_conns (i # is) f cs"
  by (rule nth_equalityI) (auto simp: nth_list_update, metis nth_list_update_neq)

lemma live_Cons: "live h (i # is) \<Longrightarrow> live (set_conn i c h) is \<and> i \<notin> set is \<and> i < length (hub_conns h) \<and> \<not> wc_closed (hub_conns h ! i)"
  by (auto simp: live_def nth_list_update)

lemma live_clients [simp]: "live (h\<lparr>hub_clients := xs\<rparr>) is = live h is"
  by (simp add: live_def)

lemma set_conn_same: "set_conn i (hub_conns h ! i) h = h"
  by (simp add: set_conn_def)

lemma try_client_live:
  "\<not> wc_closed (hub_conns h ! i) \<Longrightarrow>
   try_client msg i h = Some (\<not> full (hub_conns h ! i), set_conn i (put msg (hub_conns h ! i)) h)"
  by (simp add: try_client_def Let_def put_def full_def set_conn_same)

lemma send_or_drop_live:
  "live h is \<Longrightarrow> send_or_drop msg is h = Some (h\<lparr>hub_conns := on_conns is (put msg) (hub_conns h)\<rparr>)"
proof (induction "is" arbitrary: h)
  case (Cons i "is")
  let ?h = "set_conn i (put msg (hub_conns h ! i)) h"
  have l: "live ?h is" "i \<notin> set is" "\<not> wc_closed (hub_conns h ! i)"
    using live_Cons [OF Cons.prems] by auto
  show ?case
    using Cons.IH [OF l(1)] l by (simp add: try_client_live on_conns_Cons)
qed simp

definition closing :: "(ws_client \<Rightarrow> ws_client) \<Rightarrow> ws_client \<Rightarrow> ws_client" where
  "closing f c = (if full c then c\<lparr>wc_closed := True\<rparr> else f c)"

lemma send_or_close_live:
  "live h is \<Longrightarrow> distinct (hub_clients h) \<Longrightarrow>
   send_or_close msg is h = Some (h\<lparr>hub_conns := on_conns is (closing (put msg)) (hub_conns h),
      hub_clients := filter (\<lambda>i. \<not> (i \<in> set is \<and> full (hub_conns h ! i))) (hub_clients h)\<rparr>)"
proof (induction "is" arbitrary: h)
  case (Cons i "is")
  let ?c = "hub_conns h ! i"
  let ?cs = "(hub_conns h)[i := closing (put msg) ?c]"
  let ?cl = "if full ?c then remove1 i (hub_clients h) else hub_clients h"
  let ?h = "(set_conn i (closing (put msg) ?c) h)\<lparr>hub_clients := ?cl\<rparr>"
  have l: "live ?h is" "i \<notin> set is" "\<not> wc_closed ?c" "i < length (hub_conns h)"
    using live_Cons [OF Cons.prems(1)] by (auto simp: live_def)
  have one: "send_or_close msg (i # is) h = send_or_close msg is ?h"
    using l by (simp add: try_client_live close_client_def Let_def closing_def put_def set_conn_def)
  have cl: "filter (\<lambda>j. \<not> (j \<in> set is \<and> full (?cs ! j))) ?cl =
      filter (\<lambda>j. \<not> (j \<in> set (i # is) \<and> full (hub_conns h ! j))) (hub_clients h)"
    using l Cons.prems(2) by (auto simp: distinct_remove1_removeAll removeAll_filter_not_eq nth_list_update intro!: filter_cong)
  have "distinct (hub_clients ?h)" using Cons.prems(2) by simp
  from Cons.IH [OF l(1) this] show ?case
    unfolding one using cl l(2) by (simp add: on_conns_Cons set_conn_def)
qed simp

lemma close_all_live:
  "live h is \<Longrightarrow> close_all is h = Some (h\<lparr>hub_conns := on_conns is (\<lambda>c. c\<lparr>wc_closed := True\<rparr>) (hub_conns h)\<rparr>)"
proof (induction "is" arbitrary: h)
  case (Cons i "is")
  let ?h = "set_conn i ((hub_conns h ! i)\<lparr>wc_closed := True\<rparr>) h"
  have l: "live ?h is" "i \<notin> set is" "\<not> wc_closed (hub_conns h ! i)"
    using live_Cons [OF Cons.prems] by auto
  show ?case
    using Cons.IH [OF l(1)] l on_conns_Cons [of i "is" "\<lambda>c. c\<lparr>wc_closed := True\<rparr>" "hub_conns h"]
    by (simp add: close_client_def Let_def)
qed simp

section \<open>The invariant\<close>

text \<open>
  The clients the hub knows are open and have left their handler; a write pump that runs is known to
  the hub or has its channel closed; no channel is above its capacity.
\<close>

definition conn_ok :: "ws_client \<Rightarrow> bool" where
  "conn_ok c \<longleftrightarrow> length (wc_send c) \<le> sendCap \<and> length (wc_failed c) \<le> 1 \<and>
     (wc_write c = Writing \<longrightarrow> wc_failed c = []) \<and>
     (wc_handler c \<longrightarrow> wc_send c = [] \<and> wc_written c = [] \<and> wc_failed c = [] \<and> \<not> wc_closed c \<and> wc_read c = Not_reading)"

definition hub_ok :: "ws_hub \<Rightarrow> bool" where
  "hub_ok h \<longleftrightarrow>
     (hub_running h \<longrightarrow> live h (hub_clients h)) \<and> distinct (hub_clients h) \<and>
     (\<forall>i \<in> set (hub_clients h). i < length (hub_conns h) \<and> \<not> wc_handler (hub_conns h ! i)) \<and>
     list_all conn_ok (hub_conns h) \<and>
     (\<forall>i < length (hub_conns h). wc_write (hub_conns h ! i) = Writing \<longrightarrow>
        wc_closed (hub_conns h ! i) \<or> hub_running h \<and> i \<in> set (hub_clients h)) \<and>
     length (ch_queue (hub_broadcastCh h)) \<le> 256 \<and> length (ch_queue (hub_interceptCh h)) \<le> 64 \<and>
     length (ch_queue (hub_updateCh h)) \<le> 256 \<and>
     ch_cap (hub_broadcastCh h) = 256 \<and> ch_cap (hub_interceptCh h) = 64 \<and> ch_cap (hub_updateCh h) = 256"

text \<open>What a client got: written, lost in a failed write, or still in its channel.\<close>

definition got :: "ws_client \<Rightarrow> ws_message list" where
  "got c = wc_written c @ wc_failed c @ wc_send c"

definition is_new :: "ws_message \<Rightarrow> bool" where
  "is_new m \<longleftrightarrow> (case m of New_request r \<Rightarrow> True | _ \<Rightarrow> False)"

text \<open>
  A step seen by a client that has registered: it gets what was sent on or nothing, nothing if the
  hub has forgotten it, and every new request as long as the hub has not.
\<close>

definition follows :: "nat \<Rightarrow> ws_hub \<Rightarrow> ws_message list \<Rightarrow> ws_hub \<Rightarrow> bool" where
  "follows i h ms h' \<longleftrightarrow>
     (i < length (hub_conns h) \<and> \<not> wc_handler (hub_conns h ! i) \<longrightarrow>
      i < length (hub_conns h') \<and> \<not> wc_handler (hub_conns h' ! i) \<and>
      (\<exists>new. got (hub_conns h' ! i) = got (hub_conns h ! i) @ new \<and> (new = [] \<or> new = ms) \<and>
         (i \<notin> set (hub_clients h) \<longrightarrow> new = []) \<and>
         (i \<in> set (hub_clients h') \<longrightarrow> i \<in> set (hub_clients h) \<and> filter is_new new = filter is_new ms)))"

lemma set_conn_step:
  assumes "hub_ok h" and "j < length (hub_conns h)" and "conn_ok c"
    and "wc_handler c \<longrightarrow> wc_handler (hub_conns h ! j)" and "wc_closed c = wc_closed (hub_conns h ! j)"
    and "\<not> wc_handler (hub_conns h ! j) \<longrightarrow> got c = got (hub_conns h ! j)"
    and "wc_write c = Writing \<longrightarrow> wc_write (hub_conns h ! j) = Writing"
  shows "hub_ok (set_conn j c h) \<and> follows i h [] (set_conn j c h)"
  using assms set_update_subset_insert [of "hub_conns h" j c]
  by (auto simp: hub_ok_def live_def follows_def nth_list_update list_all_iff)

lemma hub_ok_conn: "hub_ok h \<Longrightarrow> j < length (hub_conns h) \<Longrightarrow> conn_ok (hub_conns h ! j)"
  by (simp add: hub_ok_def list_all_length)

lemma send_on_close:
  assumes "hub_ok h" and "hub_running h"
  shows "\<exists>ms h'. send_on encodes send_or_close msg h = Inr (Some (ms, h')) \<and> hub_ok h' \<and> follows i h ms h'"
proof (cases "encodes msg")
  case True
  have l: "live h (hub_clients h)" "distinct (hub_clients h)" using assms by (auto simp: hub_ok_def)
  let ?h = "h\<lparr>hub_conns := on_conns (hub_clients h) (closing (put msg)) (hub_conns h),
      hub_clients := filter (\<lambda>i. \<not> (i \<in> set (hub_clients h) \<and> full (hub_conns h ! i))) (hub_clients h)\<rparr>"
  have "send_on encodes send_or_close msg h = Inr (Some ([msg], ?h))"
    using True send_or_close_live [OF l, of msg] by (simp add: send_on_def)
  moreover have "hub_ok ?h"
    using assms by (auto simp: hub_ok_def live_def list_all_length conn_ok_def closing_def put_def full_def)
  moreover have "follows i h [msg] ?h"
    by (auto simp: follows_def closing_def put_def full_def got_def)
  ultimately show ?thesis by blast
qed (use assms in \<open>auto simp: send_on_def follows_def\<close>)

lemma send_on_drop:
  assumes "hub_ok h" and "hub_running h" and "\<not> is_new msg"
  shows "\<exists>ms h'. send_on encodes send_or_drop msg h = Inr (Some (ms, h')) \<and> hub_ok h' \<and> follows i h ms h'"
proof (cases "encodes msg")
  case True
  have l: "live h (hub_clients h)" using assms by (auto simp: hub_ok_def)
  let ?h = "h\<lparr>hub_conns := on_conns (hub_clients h) (put msg) (hub_conns h)\<rparr>"
  have "send_on encodes send_or_drop msg h = Inr (Some ([msg], ?h))"
    using True send_or_drop_live [OF l, of msg] by (simp add: send_on_def)
  moreover have "hub_ok ?h"
    using assms by (auto simp: hub_ok_def live_def list_all_length conn_ok_def put_def full_def)
  moreover have "follows i h [msg] ?h"
    using assms(3) by (auto simp: follows_def put_def full_def got_def)
  ultimately show ?thesis by blast
qed (use assms in \<open>auto simp: send_on_def follows_def\<close>)

lemma follows_chan [simp]:
  "follows i (h\<lparr>hub_broadcastCh := x\<rparr>) ms h' = follows i h ms h'"
  "follows i (h\<lparr>hub_interceptCh := y\<rparr>) ms h' = follows i h ms h'"
  "follows i (h\<lparr>hub_updateCh := x\<rparr>) ms h' = follows i h ms h'"
  by (simp_all add: follows_def)

text \<open>No case of the hub's \<open>select\<close> panics, and each keeps the invariant.\<close>

lemma hub_turn_ok:
  assumes "hub_ok h" and "hub_turn encodes h (Inr r)"
  shows "\<exists>ms h'. r = Some (ms, h') \<and> hub_ok h' \<and> follows i h ms h'"
proof -
  consider "run_broadcast encodes h = Inr r" | "run_intercept encodes h = Inr r" | "run_update encodes h = Inr r"
    | "run_stop h = Inr r" | j where "run_register j h = Inr r" | j where "run_unregister j h = Inr r"
    using assms(2) unfolding hub_turn_def by metis
  then show ?thesis
  proof cases
    case 1
    then obtain req q where q: "ch_queue (hub_broadcastCh h) = req # q" and r: "hub_running h"
      by (auto simp: run_broadcast_def split: list.splits if_splits)
    have "hub_ok (h\<lparr>hub_broadcastCh := (hub_broadcastCh h)\<lparr>ch_queue := q\<rparr>\<rparr>)"
      using assms(1) q by (simp add: hub_ok_def live_def)
    from send_on_close [OF this, of encodes "New_request (list_item req)" i] show ?thesis
      using 1 q r by (auto simp: run_broadcast_def)
  next
    case 2
    then obtain req q where q: "ch_queue (hub_interceptCh h) = req # q" and r: "hub_running h"
      by (auto simp: run_intercept_def split: list.splits if_splits)
    have "hub_ok (h\<lparr>hub_interceptCh := (hub_interceptCh h)\<lparr>ch_queue := q\<rparr>\<rparr>)"
      using assms(1) q by (simp add: hub_ok_def live_def)
    from send_on_drop [OF this, of "Intercept_request req" encodes i] show ?thesis
      using 2 q r by (auto simp: run_intercept_def is_new_def)
  next
    case 3
    then obtain req q where q: "ch_queue (hub_updateCh h) = req # q" and r: "hub_running h"
      by (auto simp: run_update_def split: list.splits if_splits)
    have "hub_ok (h\<lparr>hub_updateCh := (hub_updateCh h)\<lparr>ch_queue := q\<rparr>\<rparr>)"
      using assms(1) q by (simp add: hub_ok_def live_def)
    from send_on_drop [OF this, of "update_message req" encodes i] show ?thesis
      using 3 q r by (auto simp: run_update_def is_new_def update_message_def)
  next
    case 4
    then have r: "hub_running h" by (auto simp: run_stop_def split: if_splits)
    have "live (h\<lparr>hub_running := False\<rparr>) (hub_clients h)" using assms(1) r by (simp add: hub_ok_def live_def)
    from close_all_live [OF this] 4 have "r = Some ([], h\<lparr>hub_running := False,
        hub_conns := on_conns (hub_clients h) (\<lambda>c. c\<lparr>wc_closed := True\<rparr>) (hub_conns h)\<rparr>)"
      by (auto simp: run_stop_def split: if_splits)
    then show ?thesis
      using assms(1) by (auto simp: hub_ok_def list_all_length conn_ok_def follows_def got_def)
  next
    case (5 j)
    then show ?thesis
      using assms(1) hub_ok_conn [OF assms(1), of j]
      by (auto simp: run_register_def hub_ok_def live_def list_all_length conn_ok_def follows_def got_def
          nth_list_update split: if_splits)
  next
    case (6 j)
    then show ?thesis
      using assms(1) hub_ok_conn [OF assms(1), of j]
      by (auto simp: run_unregister_def close_client_def Let_def hub_ok_def live_def list_all_length conn_ok_def
          follows_def got_def nth_list_update split: if_splits)
  qed
qed

lemma hub_step_ok:
  assumes "hub_step encodes h ms h'" and "hub_ok h"
  shows "hub_ok h' \<and> follows i h ms h'"
  using assms
proof cases
  case turn
  then show ?thesis using hub_turn_ok [OF assms(2)] by fastforce
next
  case (captured req)
  then show ?thesis using assms(2) by (auto simp: broadcast_def try_send_def hub_ok_def live_def follows_def)
next
  case (undecided pr)
  then show ?thesis using assms(2) by (auto simp: broadcastIntercept_def try_send_def hub_ok_def live_def follows_def)
next
  case (updated req)
  then show ?thesis using assms(2) by (auto simp: BroadcastUpdate_def try_send_def hub_ok_def live_def follows_def)
next
  case stop
  then show ?thesis using assms(2) by (auto simp: hub_Stop_def hub_ok_def live_def follows_def)
next
  case connect
  then show ?thesis
    using assms(2) by (auto simp: handleWebSocket_def hub_ok_def live_def follows_def new_client_def conn_ok_def nth_append
        intro: less_SucI)
next
  case (refuse j)
  then have j: "j < length (hub_conns h)" and e: "ms = []" "h' = set_conn j ((hub_conns h ! j)\<lparr>wc_handler := False\<rparr>) h"
    by (auto simp: handler_gives_up_def split: if_splits)
  show ?thesis unfolding e
    by (rule set_conn_step [OF assms(2) j]) (use hub_ok_conn [OF assms(2) j] in \<open>auto simp: conn_ok_def got_def\<close>)
next
  case (broken j)
  then have j: "j < length (hub_conns h)" and e: "ms = []" "h' = set_conn j ((hub_conns h ! j)\<lparr>wc_read := Leaving\<rparr>) h"
    and "wc_read (hub_conns h ! j) = Reading"
    by (auto simp: readPump_error_def split: if_splits)
  then show ?thesis unfolding e
    by (intro set_conn_step [OF assms(2) j]) (use hub_ok_conn [OF assms(2) j] in \<open>auto simp: conn_ok_def got_def\<close>)
next
  case (leave j)
  then have j: "j < length (hub_conns h)" and e: "ms = []" "h' = set_conn j ((hub_conns h ! j)\<lparr>wc_read := Read_ended\<rparr>) h"
    and "wc_read (hub_conns h ! j) = Leaving"
    by (auto simp: readPump_stopped_def split: if_splits)
  then show ?thesis unfolding e
    by (intro set_conn_step [OF assms(2) j]) (use hub_ok_conn [OF assms(2) j] in \<open>auto simp: conn_ok_def got_def\<close>)
next
  case (sent ok j)
  then obtain c where j: "j < length (hub_conns h)" and e: "ms = []" "h' = set_conn j c h"
    and "wc_write (hub_conns h ! j) = Writing"
    and c: "(\<exists>m q. wc_send (hub_conns h ! j) = m # q \<and>
        (c = (hub_conns h ! j)\<lparr>wc_send := q, wc_written := wc_written (hub_conns h ! j) @ [m]\<rparr> \<or>
         c = (hub_conns h ! j)\<lparr>wc_send := q, wc_failed := wc_failed (hub_conns h ! j) @ [m], wc_write := Write_ended\<rparr>)) \<or>
      c = (hub_conns h ! j)\<lparr>wc_write := Write_ended\<rparr>"
    by (auto simp: writePump_message_def Let_def split: if_splits list.splits)
  then show ?thesis unfolding e
    by (intro set_conn_step [OF assms(2) j]) (use hub_ok_conn [OF assms(2) j] in \<open>auto simp: conn_ok_def got_def\<close>)
next
  case (ping j)
  then have j: "j < length (hub_conns h)" and e: "ms = []" "h' = set_conn j ((hub_conns h ! j)\<lparr>wc_write := Write_ended\<rparr>) h"
    by (auto simp: writePump_ping_fails_def split: if_splits)
  show ?thesis unfolding e
    by (rule set_conn_step [OF assms(2) j]) (use hub_ok_conn [OF assms(2) j] in \<open>auto simp: conn_ok_def got_def\<close>)
qed

lemma newWSHub_ok: "hub_ok newWSHub"
  by (simp add: hub_ok_def newWSHub_def live_def)

lemma hub_run_ok: "hub_run encodes h ms h' \<Longrightarrow> hub_ok h \<Longrightarrow> hub_ok h'"
  by (induction rule: hub_run.induct) (use hub_step_ok in blast)+

section \<open>Properties\<close>

text \<open>C26: The hub never panics: in no state of any run of the hub, the pumps, the handlers and the callers
  does a case of its \<open>select\<close> send on a closed channel or close one a second time, and no channel
  holds more than its capacity.\<close>

theorem hub_never_panics:
  assumes "hub_run encodes newWSHub ms h"
  shows "\<not> hub_turn encodes h (Inr None) \<and> (\<forall>c \<in> set (hub_conns h). length (wc_send c) \<le> 64) \<and>
     length (ch_queue (hub_broadcastCh h)) \<le> 256 \<and> length (ch_queue (hub_updateCh h)) \<le> 256 \<and>
     length (ch_queue (hub_interceptCh h)) \<le> 64"
proof -
  have ok: "hub_ok h" by (rule hub_run_ok [OF assms newWSHub_ok])
  show ?thesis using ok hub_turn_ok [OF ok, of encodes None]
    by (auto simp: hub_ok_def list_all_iff conn_ok_def sendCap_def)
qed

lemma first_hub: "hub_run encodes newWSHub [] newWSHub"
  by (rule hub_run.start)

theorem hub_never_panics_witness:
  "\<not> hub_turn (\<lambda>_. True) (hub_Stop (broadcast zero_request (handleWebSocket newWSHub))) (Inr None)"
proof -
  have "hub_run (\<lambda>_. True) newWSHub ([] @ [] @ []) (broadcast zero_request (handleWebSocket newWSHub))"
    using hub_run.step [OF hub_run.step [OF first_hub hub_step.connect] hub_step.captured] by simp
  from hub_never_panics [OF hub_run.step [OF this hub_step.stop]] show ?thesis by blast
qed

text \<open>What a client has got since it registered.\<close>

lemma run_follows:
  assumes "hub_run encodes h ms h'" and "hub_ok h" and "i \<in> set (hub_clients h)"
  shows "i < length (hub_conns h') \<and> \<not> wc_handler (hub_conns h' ! i) \<and>
    (\<exists>new. got (hub_conns h' ! i) = got (hub_conns h ! i) @ new \<and> subseq new ms \<and>
       prefix (filter is_new new) (filter is_new ms) \<and>
       (i \<in> set (hub_clients h') \<longrightarrow> filter is_new new = filter is_new ms))"
  using assms
proof (induction rule: hub_run.induct)
  case (start h)
  then show ?case by (auto simp: hub_ok_def)
next
  case (step h ms h' ns h'')
  obtain new where i: "i < length (hub_conns h')" "\<not> wc_handler (hub_conns h' ! i)"
    and n: "got (hub_conns h' ! i) = got (hub_conns h ! i) @ new" "subseq new ms"
      "prefix (filter is_new new) (filter is_new ms)"
      "i \<in> set (hub_clients h') \<longrightarrow> filter is_new new = filter is_new ms"
    using step.IH step.prems by blast
  have "follows i h' ns h''" using hub_step_ok [OF step.hyps(2)] hub_run_ok [OF step.hyps(1) step.prems(1)] by blast
  then obtain m where i2: "i < length (hub_conns h'')" "\<not> wc_handler (hub_conns h'' ! i)"
    and m: "got (hub_conns h'' ! i) = got (hub_conns h' ! i) @ m" "m = [] \<or> m = ns"
      "i \<notin> set (hub_clients h') \<longrightarrow> m = []"
      "i \<in> set (hub_clients h'') \<longrightarrow> i \<in> set (hub_clients h') \<and> filter is_new m = filter is_new ns"
    using i by (auto simp: follows_def)
  have "subseq (new @ m) (ms @ ns)" using n(2) m(2) by (auto intro: list_emb_append_mono)
  moreover have "prefix (filter is_new (new @ m)) (filter is_new (ms @ ns))"
    using n(3,4) m(2,3) by (cases "i \<in> set (hub_clients h')") (auto simp: prefix_def)
  ultimately show ?case using i2 n m by (intro conjI exI [of _ "new @ m"]) auto
qed

text \<open>C13: A browser that has registered gets what the hub sends on in order, and the new requests without a
  gap: all of them as long as the hub knows it, and a first part of them if it fell behind and was
  dropped. Only notices of undecided messages and updates can be missing in between.\<close>

theorem browser_sees_no_gap:
  assumes "hub_run encodes newWSHub ms0 h0" and "run_register i h0 = Inr (Some ([], h))" and "hub_run encodes h ms h'"
  shows "subseq (got (hub_conns h' ! i)) ms \<and>
    prefix (filter is_new (got (hub_conns h' ! i))) (filter is_new ms) \<and>
    (i \<in> set (hub_clients h') \<longrightarrow> filter is_new (got (hub_conns h' ! i)) = filter is_new ms)"
proof -
  have ok: "hub_ok h0" by (rule hub_run_ok [OF assms(1) newWSHub_ok])
  have r: "i < length (hub_conns h0)" "wc_handler (hub_conns h0 ! i)" "i \<in> set (hub_clients h)"
      "got (hub_conns h ! i) = got (hub_conns h0 ! i)"
    using assms(2) by (auto simp: run_register_def got_def split: if_splits)
  have "got (hub_conns h ! i) = []" using hub_ok_conn [OF ok r(1)] r by (simp add: conn_ok_def got_def)
  moreover have "hub_turn encodes h0 (Inr (Some ([], h)))"
    unfolding hub_turn_def using assms(2) by metis
  then have "hub_ok h" using hub_turn_ok [OF ok] by blast
  ultimately show ?thesis using run_follows [OF assms(3) _ r(3)] by auto
qed

theorem browser_sees_no_gap_witness:
  "\<exists>h. run_register 0 (broadcast zero_request (handleWebSocket newWSHub)) = Inr (Some ([], h)) \<and>
     (\<exists>h'. run_broadcast (\<lambda>_. True) h = Inr (Some ([New_request (list_item zero_request)], h')) \<and>
        got (hub_conns h' ! 0) = [New_request (list_item zero_request)] \<and>
        prefix (filter is_new (got (hub_conns h' ! 0))) [New_request (list_item zero_request)])"
proof -
  let ?h0 = "broadcast zero_request (handleWebSocket newWSHub)" and ?m = "New_request (list_item zero_request)"
  obtain h where h: "run_register 0 ?h0 = Inr (Some ([], h))"
    by (simp add: run_register_def broadcast_def try_send_def handleWebSocket_def newWSHub_def new_client_def)
  obtain h' where h': "run_broadcast (\<lambda>_. True) h = Inr (Some ([?m], h'))" and g: "got (hub_conns h' ! 0) = [?m]"
    using h
    by (auto simp: run_register_def broadcast_def try_send_def handleWebSocket_def newWSHub_def new_client_def
        run_broadcast_def send_on_def try_client_def sendCap_def set_conn_def Let_def got_def)
  have r0: "hub_run (\<lambda>_. True) newWSHub ([] @ [] @ []) ?h0"
    using hub_run.step [OF hub_run.step [OF first_hub hub_step.connect] hub_step.captured] by simp
  have "hub_turn (\<lambda>_. True) h (Inr (Some ([?m], h')))" using h' by (simp add: hub_turn_def)
  then have "hub_run (\<lambda>_. True) h ([] @ [?m]) h'" by (intro hub_run.step [OF hub_run.start] hub_step.turn)
  from browser_sees_no_gap [OF r0 h this] h h' g show ?thesis by (auto simp: is_new_def)
qed

text \<open>The write pump, once the channel is closed: each message in turn.\<close>

lemma pump_drains:
  "i < length (hub_conns h) \<Longrightarrow> wc_write (hub_conns h ! i) = Writing \<Longrightarrow> wc_closed (hub_conns h ! i) \<Longrightarrow>
   \<exists>h'. hub_run encodes h [] h' \<and> wc_write (hub_conns h' ! i) = Write_ended \<and>
     wc_written (hub_conns h' ! i) = wc_written (hub_conns h ! i) @ wc_send (hub_conns h ! i)"
proof (induction "wc_send (hub_conns h ! i)" arbitrary: h)
  case Nil
  let ?h = "set_conn i ((hub_conns h ! i)\<lparr>wc_write := Write_ended\<rparr>) h"
  have "writePump_message True i h = Some ?h" using Nil by (simp add: writePump_message_def Let_def)
  then have "hub_run encodes h ([] @ []) ?h" by (intro hub_run.step [OF hub_run.start] hub_step.sent)
  then show ?case using Nil by auto
next
  case (Cons m q)
  let ?c = "(hub_conns h ! i)\<lparr>wc_send := q, wc_written := wc_written (hub_conns h ! i) @ [m]\<rparr>"
  let ?h = "set_conn i ?c h"
  have "writePump_message True i h = Some ?h"
    using Cons.prems by (simp add: writePump_message_def Let_def Cons.hyps(2) [symmetric])
  then have s: "hub_step encodes h [] ?h" by (rule hub_step.sent)
  obtain h' where r: "hub_run encodes ?h [] h'" "wc_write (hub_conns h' ! i) = Write_ended"
      "wc_written (hub_conns h' ! i) = wc_written (hub_conns ?h ! i) @ wc_send (hub_conns ?h ! i)"
    using Cons.hyps(1) [of ?h] Cons.prems by auto
  have "hub_run encodes h [] h'" using r(1) s
  proof (induction "?h" "[] :: ws_message list" h' rule: hub_run.induct)
    case start
    show ?case using hub_run.step [OF hub_run.start s] by simp
  next
    case (step ms h' ns h'')
    then show ?case by (metis append_is_Nil_conv hub_run.step)
  qed
  then show ?case using r Cons.prems Cons.hyps(2) [symmetric] by (intro exI [of _ h']) auto
qed

text \<open>No browser is left hanging: once the hub has forgotten a client, or has itself ended, the client's
  write pump can always go on, deliver everything that is left in its channel and end.\<close>

theorem forgotten_client_can_end:
  assumes "hub_run encodes newWSHub ms h" and "i < length (hub_conns h)" and "wc_write (hub_conns h ! i) = Writing"
    and "\<not> hub_running h \<or> i \<notin> set (hub_clients h)"
  shows "\<exists>h'. hub_run encodes h [] h' \<and> wc_write (hub_conns h' ! i) = Write_ended \<and>
     wc_written (hub_conns h' ! i) = wc_written (hub_conns h ! i) @ wc_send (hub_conns h ! i)"
proof (rule pump_drains [OF assms(2,3)])
  show "wc_closed (hub_conns h ! i)"
    using hub_run_ok [OF assms(1) newWSHub_ok] assms by (auto simp: hub_ok_def)
qed

theorem forgotten_client_can_end_witness:
  "\<exists>h h'. \<not> hub_running h \<and> hub_run (\<lambda>_. True) h [] h' \<and> wc_write (hub_conns h' ! 0) = Write_ended"
proof -
  obtain h1 where h1: "run_register 0 (handleWebSocket newWSHub) = Inr (Some ([], h1))"
    by (simp add: run_register_def handleWebSocket_def newWSHub_def new_client_def)
  obtain h where h: "run_stop (hub_Stop h1) = Inr (Some ([], h))"
      and w: "\<not> hub_running h" "0 < length (hub_conns h)" "wc_write (hub_conns h ! 0) = Writing"
    using h1 by (auto simp: run_register_def handleWebSocket_def newWSHub_def new_client_def run_stop_def
        hub_Stop_def close_client_def set_conn_def Let_def)
  have "hub_turn (\<lambda>_. True) (handleWebSocket newWSHub) (Inr (Some ([], h1)))"
    unfolding hub_turn_def using h1 by metis
  then have "hub_run (\<lambda>_. True) newWSHub (([] @ []) @ []) h1"
    by (intro hub_run.step [OF hub_run.step [OF first_hub hub_step.connect]] hub_step.turn)
  then have r: "hub_run (\<lambda>_. True) newWSHub ((([] @ []) @ []) @ []) (hub_Stop h1)"
    by (rule hub_run.step [OF _ hub_step.stop])
  have "hub_turn (\<lambda>_. True) (hub_Stop h1) (Inr (Some ([], h)))"
    unfolding hub_turn_def using h by simp
  from hub_run.step [OF r hub_step.turn [OF this]] forgotten_client_can_end w show ?thesis by blast
qed

end
