(* ===== verification/ApiMap.thy ===== *)
theory ApiMap
  imports StoreList "HOL-Library.Multiset"
begin

text \<open>
  Notes and the API map of \<^verbatim>\<open>internal/store/store.go\<close>: the tree of the paths of a host, with the counts,
  methods and statuses of the requests below each node. The iteration over a Go map takes any
  order: \<open>GetAPIMap\<close> gets the orders as arguments, functions that permute a list.
\<close>

section \<open>Notes\<close>

record api_note =
  an_ID :: int
  an_Host :: string
  an_Path :: string
  an_Method :: string
  an_Note :: string
  an_CreatedAt :: instant
  an_UpdatedAt :: instant

text \<open>The table \<^verbatim>\<open>api_notes\<close> stands beside the store, which answers the statements.\<close>

definition same_note :: "api_note \<Rightarrow> api_note \<Rightarrow> bool" where
  "same_note n m \<longleftrightarrow> an_Host n = an_Host m \<and> an_Path n = an_Path m \<and> an_Method n = an_Method m"

definition SaveAPINote ::
  "instant \<Rightarrow> api_note \<Rightarrow> store \<times> api_note list \<Rightarrow> (store_error + int) \<times> store \<times> api_note list" where
  "SaveAPINote now note w =
     (case w of (s, notes) \<Rightarrow>
      case next_reply s of
        (ExecErr e, s) \<Rightarrow> (Inl (DriverErr e), s, notes)
      | (ExecOk i acc, s) \<Rightarrow>
          (let now = whole_seconds now;
               notes = (if list_ex (same_note note) notes
                        then map (\<lambda>n. if same_note note n then n\<lparr>an_Note := an_Note note, an_UpdatedAt := now\<rparr> else n) notes
                        else notes @ [note\<lparr>an_ID := i, an_CreatedAt := now, an_UpdatedAt := now\<rparr>])
           in ((case acc of Some e \<Rightarrow> Inl (DriverErr e) | None \<Rightarrow> Inr i), s, notes)))"

definition DeleteAPINote :: "int \<Rightarrow> store \<times> api_note list \<Rightarrow> store_error option \<times> store \<times> api_note list" where
  "DeleteAPINote i w =
     (case w of (s, notes) \<Rightarrow>
      case next_reply s of
        (ExecErr e, s) \<Rightarrow> (Some (DriverErr e), s, notes)
      | (ExecOk _ _, s) \<Rightarrow> (None, s, filter (\<lambda>n. an_ID n \<noteq> i) notes))"

section \<open>The tree\<close>

text \<open>The field \<open>Method\<close> of a node is never set.\<close>

record node_data =
  nd_Name :: string
  nd_FullPath :: string
  nd_Count :: nat
  nd_Methods :: "string list"
  nd_Statuses :: "(int \<times> nat) list"
  nd_Note :: string
  nd_NoteID :: int
  nd_IsLeaf :: bool

datatype api_node = Api_node (nd: node_data) (children_of: "api_node list")

record method_info =
  mi_count :: nat
  mi_statuses :: "(int \<times> nat) list"

definition add_to :: "'k \<Rightarrow> nat \<Rightarrow> ('k \<times> nat) list \<Rightarrow> ('k \<times> nat) list" where
  "add_to k n m = AList.update k ((case map_of m k of Some c \<Rightarrow> c | None \<Rightarrow> 0) + n) m"

definition empty_node :: "string \<Rightarrow> string \<Rightarrow> node_data" where
  "empty_node name full = \<lparr>nd_Name = name, nd_FullPath = full, nd_Count = 0, nd_Methods = [], nd_Statuses = [],
     nd_Note = [], nd_NoteID = 0, nd_IsLeaf = False\<rparr>"

text \<open>The methods of a path are put into its node, one after the other.\<close>

definition add_method :: "(string \<times> api_note) list \<Rightarrow> string \<Rightarrow> string \<times> method_info \<Rightarrow> node_data \<Rightarrow> node_data" where
  "add_method notes full mi d =
     (case mi of (meth, info) \<Rightarrow>
      let d = d\<lparr>nd_Methods := nd_Methods d @ [meth], nd_Count := nd_Count d + mi_count info,
               nd_Statuses := fold (\<lambda>(s, c). add_to s c) (mi_statuses info) (nd_Statuses d)\<rparr>
      in case map_of notes (full @ ''|'' @ meth) of
           Some n \<Rightarrow> d\<lparr>nd_Note := an_Note n, nd_NoteID := an_ID n\<rparr>
         | None \<Rightarrow> d)"

definition fill_leaf ::
  "(string \<times> api_note) list \<Rightarrow> string \<Rightarrow> (string \<times> method_info) list \<Rightarrow> node_data \<Rightarrow> node_data" where
  "fill_leaf notes full methods d =
     fold (add_method notes full) methods (d\<lparr>nd_IsLeaf := True, nd_Count := 0, nd_Methods := [], nd_Statuses := []\<rparr>)"

text \<open>A leaf that gets a child loses its methods, statuses and note.\<close>

definition clear_leaf :: "node_data \<Rightarrow> node_data" where
  "clear_leaf d =
     (if nd_IsLeaf d
      then d\<lparr>nd_IsLeaf := False, nd_Methods := [], nd_Statuses := [], nd_Note := [], nd_NoteID := 0\<rparr> else d)"

definition child_path :: "string \<Rightarrow> string \<Rightarrow> string" where
  "child_path parent name = (if parent = ''/'' then ''/'' @ name else parent @ ''/'' @ name)"

fun insertPath ::
  "(string \<times> api_note) list \<Rightarrow> string \<Rightarrow> (string \<times> method_info) list \<Rightarrow> string list \<Rightarrow> api_node \<Rightarrow> api_node" where
  "insertPath notes full methods [] node = node"
| "insertPath notes full methods (name # remaining) (Api_node d cs) =
     (let place = (\<lambda>c. case c of Api_node cd gs \<Rightarrow>
            let cd = cd\<lparr>nd_FullPath := (if remaining = [] then full else child_path (nd_FullPath d) name)\<rparr>
            in if remaining = [] then Api_node (fill_leaf notes full methods cd) gs
               else insertPath notes full methods remaining (Api_node (clear_leaf cd) gs))
      in case index_where (\<lambda>c. nd_Name (nd c) = name) cs of
           Some i \<Rightarrow> Api_node d (cs[i := place (cs ! i)])
         | None \<Rightarrow> Api_node d (cs @ [place (Api_node (empty_node name []) [])]))"

text \<open>One path; the path \<open>/\<close> is the root itself.\<close>

definition add_path ::
  "(string \<times> api_note) list \<Rightarrow> string \<times> (string \<times> method_info) list \<Rightarrow> api_node \<Rightarrow> api_node" where
  "add_path notes pm tree =
     (case pm of (path, methods) \<Rightarrow>
      if path = ''/'' then Api_node (fill_leaf notes path methods (nd tree)) (children_of tree)
      else insertPath notes path methods (splitPath path) tree)"

definition absorb :: "api_node \<Rightarrow> node_data \<Rightarrow> node_data" where
  "absorb child d =
     d\<lparr>nd_Methods := fold (\<lambda>m ms. if m \<in> set ms then ms else ms @ [m]) (nd_Methods (nd child)) (nd_Methods d),
       nd_Count := nd_Count d + nd_Count (nd child),
       nd_Statuses := fold (\<lambda>(s, c). add_to s c) (nd_Statuses (nd child)) (nd_Statuses d)\<rparr>"

fun aggregateNodeStats :: "api_node \<Rightarrow> api_node" where
  "aggregateNodeStats (Api_node d cs) =
     (let cs = map aggregateNodeStats cs;
          d = (if cs \<noteq> [] then d\<lparr>nd_IsLeaf := False\<rparr> else d)
      in Api_node (fold absorb cs d) cs)"

section \<open>The query\<close>

text \<open>The groups of the statement: path, method, status and their number.\<close>

definition groups :: "request_row list \<Rightarrow> (string \<times> string \<times> int \<times> nat) list" where
  "groups rows =
     (let key = (\<lambda>r. (cr_Path (row_req r), cr_Method (row_req r), cr_StatusCode (row_req r)))
      in map (\<lambda>(p, m, st). (p, m, st, length (filter (\<lambda>r. key r = (p, m, st)) rows))) (remdups (map key rows)))"

definition add_group ::
  "string \<times> string \<times> int \<times> nat \<Rightarrow> (string \<times> (string \<times> method_info) list) list \<Rightarrow>
   (string \<times> (string \<times> method_info) list) list" where
  "add_group g pms =
     (case g of (path, meth, status, cnt) \<Rightarrow>
      let ms = (case map_of pms path of Some ms \<Rightarrow> ms | None \<Rightarrow> []);
          info = (case map_of ms meth of Some i \<Rightarrow> i | None \<Rightarrow> \<lparr>mi_count = 0, mi_statuses = []\<rparr>);
          info = info\<lparr>mi_count := mi_count info + cnt, mi_statuses := add_to status cnt (mi_statuses info)\<rparr>
      in AList.update path (AList.update meth info ms) pms)"

text \<open>
  \<^verbatim>\<open>LIKE ... ESCAPE e\<close> fails unless \<open>e\<close> is one character. In the query of the requests it is two: the
  statement is a raw string of Go, in which a backslash is not doubled. The rows are grouped before
  the first is delivered, so that one failing row fails the query.
\<close>

definition map_escape :: string where
  "map_escape = [BACKSLASH, BACKSLASH]"

definition note_escape :: string where
  "note_escape = [BACKSLASH]"

definition on_host :: "like_op \<Rightarrow> string \<Rightarrow> string \<Rightarrow> string \<Rightarrow> bool option" where
  "on_host like escape host x =
     (let bare = stripPort host in
      if x = host \<or> x = bare then Some True
      else if length escape \<noteq> 1 then None
      else Some (like x (escapeLike bare @ '':%'')))"

definition map_rows :: "like_op \<Rightarrow> string \<Rightarrow> request_row list \<Rightarrow> request_row list option" where
  "map_rows like host rows =
     (let rows = filter (\<lambda>r. cr_Path (row_req r) \<noteq> []) rows;
          test = (\<lambda>r. on_host like map_escape host (cr_Host (row_req r)))
      in if list_ex (\<lambda>r. test r = None) rows then None else Some (filter (\<lambda>r. test r = Some True) rows))"

definition notes_map :: "like_op \<Rightarrow> string \<Rightarrow> api_note list \<Rightarrow> (string \<times> api_note) list" where
  "notes_map like host notes =
     fold (\<lambda>n. AList.update (an_Path n @ ''|'' @ an_Method n) n)
       (filter (\<lambda>n. on_host like note_escape host (an_Host n) = Some True) notes) []"

text \<open>\<open>GetAPIMap\<close>: a failing query of the notes leaves the map without them.\<close>

definition build_map ::
  "(string \<times> api_note) list \<Rightarrow> string \<Rightarrow> (string \<times> (string \<times> method_info) list) list \<Rightarrow> api_node" where
  "build_map notes host pms =
     aggregateNodeStats (fold (add_path notes) pms (Api_node (empty_node host ''/'') []))"

definition GetAPIMap ::
  "like_op \<Rightarrow> ((string \<times> (string \<times> method_info) list) list \<Rightarrow> (string \<times> (string \<times> method_info) list) list) \<Rightarrow>
   ((string \<times> method_info) list \<Rightarrow> (string \<times> method_info) list) \<Rightarrow> string \<Rightarrow> store \<times> api_note list \<Rightarrow>
   (store_error + api_node) \<times> store" where
  "GetAPIMap like order morder host w =
     (case w of (s, notes) \<Rightarrow>
      case next_reply s of
        (ExecErr e, s) \<Rightarrow> (Inl (DriverErr e), s)
      | (ExecOk _ _, s) \<Rightarrow>
          (case map_rows like host (st_requests s) of
             None \<Rightarrow> (Inl (DriverErr ''ESCAPE expression must be a single character''), s)
           | Some rows \<Rightarrow>
               (let pms = map (\<lambda>(p, ms). (p, morder ms)) (order (fold add_group (groups rows) []))
                in case next_reply s of
                     (ExecErr _, s) \<Rightarrow> (Inr (build_map [] host pms), s)
                   | (ExecOk _ _, s) \<Rightarrow> (Inr (build_map (notes_map like host notes) host pms), s))))"

section \<open>Counting\<close>

text \<open>The number at a node, after the aggregation, is the sum of the numbers in the tree below it.\<close>

fun tree_count :: "api_node \<Rightarrow> nat" where
  "tree_count (Api_node d cs) = nd_Count d + sum_list (map tree_count cs)"

lemma absorb_count: "nd_Count (fold absorb cs d) = nd_Count d + sum_list (map (\<lambda>c. nd_Count (nd c)) cs)"
  by (induction cs arbitrary: d) (simp_all add: absorb_def)

lemma aggregate_count: "nd_Count (nd (aggregateNodeStats t)) = tree_count t"
proof (induction t)
  case (Api_node d cs)
  then have "map (\<lambda>c. nd_Count (nd (aggregateNodeStats c))) cs = map tree_count cs" by simp
  then show ?case by (simp add: absorb_count Let_def comp_def del: map_eq_conv)
qed

definition requests_of :: "(string \<times> method_info) list \<Rightarrow> nat" where
  "requests_of methods = sum_list (map (mi_count \<circ> snd) methods)"

lemma fill_leaf_count: "nd_Count (fill_leaf notes full methods d) = requests_of methods"
proof -
  have "nd_Count (fold (add_method notes full) methods d) = nd_Count d + requests_of methods" for d
    by (induction methods arbitrary: d)
       (auto simp: requests_of_def add_method_def Let_def split: option.splits)
  then show ?thesis by (simp add: fill_leaf_def)
qed

lemma fill_leaf_Name: "nd_Name (fill_leaf notes full methods d) = nd_Name d"
proof -
  have "nd_Name (fold (add_method notes full) methods d) = nd_Name d" for d
    by (induction methods arbitrary: d) (auto simp: add_method_def Let_def split: option.splits)
  then show ?thesis by (simp add: fill_leaf_def)
qed

text \<open>The number at the node that a list of names leads to.\<close>

fun count_at :: "string list \<Rightarrow> api_node \<Rightarrow> nat" where
  "count_at [] t = nd_Count (nd t)"
| "count_at (name # ns) t =
     (case find (\<lambda>c. nd_Name (nd c) = name) (children_of t) of None \<Rightarrow> 0 | Some c \<Rightarrow> count_at ns c)"

lemma find_index_where: "find P xs = map_option (\<lambda>i. xs ! i) (index_where P xs)"
  by (induction xs) (auto simp: option.map_comp comp_def)

lemma count_at_Nil: "nd_Count (nd t) = 0 \<Longrightarrow> children_of t = [] \<Longrightarrow> count_at ns t = 0"
  by (cases ns) auto

lemma clear_leaf_fields [simp]: "nd_Count (clear_leaf d) = nd_Count d" "nd_Name (clear_leaf d) = nd_Name d"
  by (simp_all add: clear_leaf_def)

lemma insertPath_nd: "nd (insertPath notes full methods ns t) = nd t"
  by (cases t; cases ns) (auto simp: Let_def split: option.splits)

text \<open>What happens to the child on the way.\<close>

definition place ::
  "(string \<times> api_note) list \<Rightarrow> string \<Rightarrow> (string \<times> method_info) list \<Rightarrow> string list \<Rightarrow> string \<Rightarrow> api_node \<Rightarrow> api_node" where
  "place notes full methods remaining p c =
     (let cd = (nd c)\<lparr>nd_FullPath := p\<rparr>
      in if remaining = [] then Api_node (fill_leaf notes full methods cd) (children_of c)
         else insertPath notes full methods remaining (Api_node (clear_leaf cd) (children_of c)))"

lemma insertPath_Cons:
  "\<exists>p. insertPath notes full methods (name # ns) (Api_node d cs) =
     (case index_where (\<lambda>c. nd_Name (nd c) = name) cs of
        Some i \<Rightarrow> Api_node d (cs[i := place notes full methods ns p (cs ! i)])
      | None \<Rightarrow> Api_node d (cs @ [place notes full methods ns p (Api_node (empty_node name []) [])]))"
proof -
  let ?p = "if ns = [] then full else child_path (nd_FullPath d) name"
  have pl: "(case c of Api_node cd gs \<Rightarrow>
            let cd = cd\<lparr>nd_FullPath := ?p\<rparr>
            in if ns = [] then Api_node (fill_leaf notes full methods cd) gs
               else insertPath notes full methods ns (Api_node (clear_leaf cd) gs)) = place notes full methods ns ?p c" for c
    by (cases c) (simp add: place_def Let_def)
  show ?thesis unfolding insertPath.simps Let_def [of "\<lambda>c. _ c"] pl
    by (rule exI [of _ ?p]) (simp split: option.split)
qed

declare insertPath.simps(2) [simp del]

lemma place_Name: "nd_Name (nd (place notes full methods ns p c)) = nd_Name (nd c)"
  by (simp add: place_def Let_def insertPath_nd fill_leaf_Name)

lemma sum_list_update_nat:
  "i < length xs \<Longrightarrow> sum_list (xs[i := (x :: nat)]) + xs ! i = sum_list xs + x"
  by (induction xs arbitrary: i) (auto split: nat.split)

lemma insertPath_count:
  "ns \<noteq> [] \<Longrightarrow>
   tree_count (insertPath notes full methods ns t) + count_at ns t = tree_count t + requests_of methods"
proof (induction ns arbitrary: t)
  case (Cons name ns)
  obtain d cs where t: "t = Api_node d cs" by (cases t)
  have pl: "tree_count (place notes full methods ns p c) + count_at ns c = tree_count c + requests_of methods" for p c
  proof (cases "ns = []")
    case True
    then show ?thesis by (cases c) (simp add: place_def Let_def fill_leaf_count)
  next
    case False
    obtain cd gs where c: "c = Api_node cd gs" by (cases c)
    have "count_at ns (Api_node (clear_leaf (cd\<lparr>nd_FullPath := p\<rparr>)) gs) = count_at ns c"
      using False by (cases ns) (simp_all add: c)
    then show ?thesis
      using Cons.IH [OF False, of "Api_node (clear_leaf (cd\<lparr>nd_FullPath := p\<rparr>)) gs"] False by (simp add: c place_def Let_def)
  qed
  obtain p where ins: "insertPath notes full methods (name # ns) (Api_node d cs) =
     (case index_where (\<lambda>c. nd_Name (nd c) = name) cs of
        Some i \<Rightarrow> Api_node d (cs[i := place notes full methods ns p (cs ! i)])
      | None \<Rightarrow> Api_node d (cs @ [place notes full methods ns p (Api_node (empty_node name []) [])]))"
    using insertPath_Cons [of "notes" full methods name ns d cs] by blast
  show ?case
  proof (cases "index_where (\<lambda>c. nd_Name (nd c) = name) cs")
    case None
    have "count_at ns (Api_node (empty_node name []) []) = 0" by (rule count_at_Nil) (simp_all add: empty_node_def)
    then show ?thesis using pl [of p "Api_node (empty_node name []) []"] None
      by (simp add: ins t find_index_where empty_node_def)
  next
    case (Some i)
    note i = index_where_Some [OF Some]
    show ?thesis using pl [of p "cs ! i"] Some i
        sum_list_update_nat [of i "map tree_count cs" "tree_count (place notes full methods ns p (cs ! i))"]
      by (simp add: ins t find_index_where map_update)
  qed
qed simp

text \<open>The number at any other node stays.\<close>

lemma index_where_Name_update:
  assumes "i < length cs" and "nd_Name (nd c) = nd_Name (nd (cs ! i))"
  shows "index_where (\<lambda>c. nd_Name (nd c) = name) (cs[i := c]) = index_where (\<lambda>c. nd_Name (nd c) = name) cs"
  using assms by (induction cs arbitrary: i) (auto split: nat.split)

lemma insertPath_other:
  "ns \<noteq> [] \<Longrightarrow> ms \<noteq> ns \<Longrightarrow> count_at ms (insertPath notes full methods ns t) = count_at ms t"
proof (induction ns arbitrary: t ms)
  case (Cons name ns)
  obtain d cs where t: "t = Api_node d cs" by (cases t)
  obtain p where ins: "insertPath notes full methods (name # ns) (Api_node d cs) =
     (case index_where (\<lambda>c. nd_Name (nd c) = name) cs of
        Some i \<Rightarrow> Api_node d (cs[i := place notes full methods ns p (cs ! i)])
      | None \<Rightarrow> Api_node d (cs @ [place notes full methods ns p (Api_node (empty_node name []) [])]))"
    using insertPath_Cons [of "notes" full methods name ns d cs] by blast
  show ?case
  proof (cases ms)
    case Nil
    then show ?thesis by (simp add: insertPath_nd)
  next
    case (Cons m ms')
    have pl: "count_at ms' (place notes full methods ns p c) = count_at ms' c" if "ms' \<noteq> ns" for c
    proof -
      obtain cd gs where c: "c = Api_node cd gs" by (cases c)
      have same: "count_at ms' (Api_node (clear_leaf (cd\<lparr>nd_FullPath := p\<rparr>)) gs) = count_at ms' c"
        by (cases ms') (simp_all add: c)
      show ?thesis
      proof (cases "ns = []")
        case True
        then show ?thesis using that by (cases ms') (simp_all add: place_def Let_def c)
      next
        case False
        then show ?thesis
          using Cons.IH [OF False that, of "Api_node (clear_leaf (cd\<lparr>nd_FullPath := p\<rparr>)) gs"] same
          by (simp add: place_def Let_def c)
      qed
    qed
    show ?thesis
    proof (cases "index_where (\<lambda>c. nd_Name (nd c) = name) cs")
      case None
      have n: "\<forall>c \<in> set cs. nd_Name (nd c) \<noteq> name" using None by (simp add: index_where_None)
      have z: "count_at ms' (Api_node (empty_node name []) []) = 0" by (rule count_at_Nil) (simp_all add: empty_node_def)
      show ?thesis
        using None pl [of "Api_node (empty_node name []) []"] Cons.prems(2) z n
        by (auto simp: ins t Cons find_append place_Name empty_node_def split: option.splits)
    next
      case (Some i)
      note i = index_where_Some [OF Some]
      have u: "index_where (\<lambda>c. nd_Name (nd c) = m) (cs[i := place notes full methods ns p (cs ! i)]) =
          index_where (\<lambda>c. nd_Name (nd c) = m) cs"
        by (rule index_where_Name_update) (use i in \<open>simp_all add: place_Name\<close>)
      show ?thesis
      proof (cases "index_where (\<lambda>c. nd_Name (nd c) = m) cs")
        case None
        then show ?thesis using Some u by (simp add: ins t Cons find_index_where)
      next
        case (Some j)
        note j = index_where_Some [OF Some]
        have "ms' \<noteq> ns" if "j = i" using that i j Cons.prems(2) \<open>ms = m # ms'\<close> by auto
        then show ?thesis
          using \<open>index_where (\<lambda>c. nd_Name (nd c) = name) cs = Some i\<close> Some u i j pl [of "cs ! i"]
          unfolding t ins \<open>ms = m # ms'\<close> by (cases "j = i") (simp_all add: find_index_where)
      qed
    qed
  qed
qed simp

section \<open>The map counts the requests\<close>

text \<open>The names that lead to a path.\<close>

definition node_of :: "string \<Rightarrow> string list" where
  "node_of path = (if path = ''/'' then [] else splitPath path)"

lemma add_path_count:
  assumes "node_of path = [] \<longrightarrow> path = ''/''"
  shows "tree_count (add_path notes (path, methods) t) + count_at (node_of path) t = tree_count t + requests_of methods"
    and "ms \<noteq> node_of path \<Longrightarrow> count_at ms (add_path notes (path, methods) t) = count_at ms t"
proof -
  show "tree_count (add_path notes (path, methods) t) + count_at (node_of path) t = tree_count t + requests_of methods"
  proof (cases "path = ''/''")
    case True
    obtain d cs where t: "t = Api_node d cs" by (cases t)
    have "add_path notes (path, methods) t = Api_node (fill_leaf notes path methods d) cs"
      using True unfolding t by (simp add: add_path_def)
    moreover have "node_of path = []" using True by (simp add: node_of_def)
    ultimately show ?thesis
      unfolding t by (simp add: fill_leaf_count)
  next
    case False
    then have "splitPath path \<noteq> []" using assms unfolding node_of_def by argo
    note c = insertPath_count [OF this, of "notes" path methods t]
    have "add_path notes (path, methods) t = insertPath notes path methods (splitPath path) t" "node_of path = splitPath path"
      using False by (simp_all add: add_path_def node_of_def)
    then show ?thesis by (simp only: c)
  qed
  show "count_at ms (add_path notes (path, methods) t) = count_at ms t" if "ms \<noteq> node_of path"
  proof (cases "path = ''/''")
    case True
    obtain d cs where t: "t = Api_node d cs" by (cases t)
    have "add_path notes (path, methods) t = Api_node (fill_leaf notes path methods d) cs"
      using True unfolding t by (simp add: add_path_def)
    moreover have "ms \<noteq> []" using True that by (simp add: node_of_def)
    ultimately show ?thesis unfolding t by (cases ms) (simp_all only: count_at.simps api_node.sel list.simps)
  next
    case False
    then have "splitPath path \<noteq> []" "ms \<noteq> splitPath path" using assms that unfolding node_of_def by argo+
    from insertPath_other [OF this] False show ?thesis by (simp add: add_path_def)
  qed
qed

lemma add_paths_count:
  assumes "distinct (map (node_of \<circ> fst) pms)" and "\<forall>p \<in> fst ` set pms. node_of p = [] \<longrightarrow> p = ''/''"
    and "\<forall>p \<in> fst ` set pms. count_at (node_of p) t = 0"
  shows "tree_count (fold (add_path notes) pms t) = tree_count t + sum_list (map (requests_of \<circ> snd) pms)"
  using assms
proof (induction pms arbitrary: t)
  case (Cons pm pms)
  obtain p ms where pm: "pm = (p, ms)" by fastforce
  let ?t = "add_path notes (p, ms) t"
  have "\<forall>q \<in> fst ` set pms. count_at (node_of q) ?t = 0"
  proof
    fix q assume q: "q \<in> fst ` set pms"
    then have "node_of q \<noteq> node_of p" using Cons.prems(1) by (force simp: pm)
    then show "count_at (node_of q) ?t = 0" using add_path_count(2) [of p _ "notes" ms t] Cons.prems(2,3) q by (auto simp: pm)
  qed
  moreover have "tree_count ?t = tree_count t + requests_of ms"
    using add_path_count(1) [of p "notes" ms t] Cons.prems(2,3) by (simp add: pm)
  ultimately show ?case using Cons.IH [of ?t] Cons.prems(1,2) by (simp add: pm)
qed simp

lemma build_map_count:
  assumes "distinct (map (node_of \<circ> fst) pms)" and "\<forall>p \<in> fst ` set pms. node_of p = [] \<longrightarrow> p = ''/''"
  shows "nd_Count (nd (build_map notes host pms)) = sum_list (map (requests_of \<circ> snd) pms)"
proof -
  have "\<forall>p \<in> fst ` set pms. count_at (node_of p) (Api_node (empty_node host ''/'') []) = 0"
    by (intro ballI count_at_Nil) (simp_all add: empty_node_def)
  from add_paths_count [OF assms this, of "notes"] show ?thesis
    by (simp add: build_map_def aggregate_count empty_node_def)
qed

text \<open>Grouping neither loses nor doubles a row.\<close>

lemma group_sum_update:
  "sum_list (map (f \<circ> snd) (AList.update k v m)) + (case map_of m k of Some x \<Rightarrow> f x | None \<Rightarrow> (0 :: nat)) =
   sum_list (map (f \<circ> snd) m) + f v"
  by (induction m) auto

lemma add_group_sum:
  "sum_list (map (requests_of \<circ> snd) (add_group (p, meth, st, n) pms)) = sum_list (map (requests_of \<circ> snd) pms) + n"
proof -
  let ?ms = "case map_of pms p of Some ms \<Rightarrow> ms | None \<Rightarrow> []"
  let ?i = "case map_of ?ms meth of Some i \<Rightarrow> i | None \<Rightarrow> \<lparr>mi_count = 0, mi_statuses = []\<rparr>"
  let ?i' = "?i\<lparr>mi_count := mi_count ?i + n, mi_statuses := add_to st n (mi_statuses ?i)\<rparr>"
  have a: "add_group (p, meth, st, n) pms = AList.update p (AList.update meth ?i' ?ms) pms"
    by (simp add: add_group_def Let_def)
  have b: "requests_of (AList.update meth ?i' ?ms) = requests_of ?ms + n"
    using group_sum_update [of mi_count meth ?i' ?ms] unfolding requests_of_def by (auto split: option.splits)
  show ?thesis
    using group_sum_update [of requests_of p "AList.update meth ?i' ?ms" pms] unfolding a b
    by (auto simp: requests_of_def split: option.splits)
qed

lemma add_groups_sum:
  "sum_list (map (requests_of \<circ> snd) (fold add_group gs pms)) =
   sum_list (map (requests_of \<circ> snd) pms) + sum_list (map (\<lambda>(p, m, st, n). n) gs)"
  by (induction gs arbitrary: pms) (auto simp: add_group_sum)

lemma add_group_paths: "fst ` set (add_group g pms) = insert (fst g) (fst ` set pms)"
  by (cases g) (simp add: add_group_def Let_def dom_update)

lemma add_group_distinct: "distinct (map fst pms) \<Longrightarrow> distinct (map fst (add_group g pms))"
  by (cases g) (simp add: add_group_def Let_def distinct_update)

lemma add_groups_paths: "fst ` set (fold add_group gs pms) = fst ` set pms \<union> fst ` set gs"
  by (induction gs arbitrary: pms) (auto simp: add_group_paths)

lemma add_groups_distinct: "distinct (map fst pms) \<Longrightarrow> distinct (map fst (fold add_group gs pms))"
  by (induction gs arbitrary: pms) (simp_all add: add_group_distinct)

lemma groups_total: "sum_list (map (\<lambda>(p, m, st, n). n) (groups rows)) = length rows"
proof -
  let ?key = "\<lambda>r. (cr_Path (row_req r), cr_Method (row_req r), cr_StatusCode (row_req r))"
  have "map (\<lambda>(p, m, st, n). n) (groups rows) = map (\<lambda>k. count_list (map ?key rows) k) (remdups (map ?key rows))"
    by (auto simp: groups_def Let_def count_list_eq_length_filter filter_map comp_def eq_commute)
  then have "sum_list (map (\<lambda>(p, m, st, n). n) (groups rows)) = (\<Sum>k \<in> set (map ?key rows). count_list (map ?key rows) k)"
    by (simp add: sum_list_distinct_conv_sum_set)
  also have "\<dots> = length rows"
    using sum_count_set [of "map ?key rows" "set (map ?key rows)"] by simp
  finally show ?thesis .
qed

lemma groups_paths: "fst ` set (groups rows) = (\<lambda>r. cr_Path (row_req r)) ` set rows"
  by (force simp: groups_def Let_def)

text \<open>The requests of the map: those with a path on the host, under any port.\<close>

definition requests_on :: "string \<Rightarrow> request_row list \<Rightarrow> request_row list" where
  "requests_on host rows =
     filter (\<lambda>r. cr_Path (row_req r) \<noteq> [] \<and> (cr_Host (row_req r) = host \<or> cr_Host (row_req r) = stripPort host)) rows"

lemma map_rows_Some: "map_rows like host rows = Some rs \<Longrightarrow> rs = requests_on host rows"
  by (auto simp: map_rows_def requests_on_def on_host_def map_escape_def Let_def list_ex_iff intro!: filter_cong
      split: if_splits)


definition map_store :: store where
  "map_store = \<lparr>st_requests =
       [new_row 1 (zero_request\<lparr>cr_Host := ''a'', cr_Path := ''/x'', cr_Method := ''GET''\<rparr>),
        new_row 2 (zero_request\<lparr>cr_Host := ''a'', cr_Path := ''/x/y'', cr_Method := ''POST''\<rparr>)],
     st_logs = [], st_settings = [], st_rules = [], st_hostCache = emptyHostCache, st_hostCacheTTL = 0,
     st_replies = [ExecOk 0 None, ExecOk 0 None]\<rparr>"

lemma map_store_rows: "requests_on ''a'' (st_requests map_store) = st_requests map_store"
  by (simp add: requests_on_def map_store_def new_row_def insert_columns_def zero_request_def)


text \<open>C32: The API map fails as soon as any other host was recorded: its statement is a raw string with two
  backslashes, so that the database compares a host with the pattern under an escape of two
  characters and refuses, although the driver answers every statement.\<close>

theorem api_map_needs_single_host:
  assumes "r \<in> set (st_requests s)" and "cr_Path (row_req r) \<noteq> []"
    and "cr_Host (row_req r) \<noteq> host" and "cr_Host (row_req r) \<noteq> stripPort host"
  shows "\<exists>e. fst (GetAPIMap like order morder host (s, notes)) = Inl e"
proof -
  have "map_rows like host (st_requests s) = None"
    using assms by (auto simp: map_rows_def on_host_def map_escape_def list_ex_iff Let_def)
  then show ?thesis by (auto simp: GetAPIMap_def next_reply_def split: list.splits reply.splits)
qed

theorem api_map_needs_single_host_witness:
  "\<exists>e. fst (GetAPIMap like_match rev (\<lambda>ms. ms) ''b'' (map_store, [])) = Inl e"
proof (rule api_map_needs_single_host [of "new_row 1 (zero_request\<lparr>cr_Host := ''a'', cr_Path := ''/x'', cr_Method := ''GET''\<rparr>)"])
  have "stripPort ''b'' = ''b''" by code_simp
  then show "cr_Host (row_req (new_row 1 (zero_request\<lparr>cr_Host := ''a'', cr_Path := ''/x'', cr_Method := ''GET''\<rparr>))) \<noteq> stripPort ''b''"
    by (simp add: new_row_def insert_columns_def)
qed (simp_all add: map_store_def new_row_def insert_columns_def)

text \<open>
  The rest of a node depends on the order: a path that is met before one below it loses its
  methods and its statuses.
\<close>

definition one_get :: "(string \<times> method_info) list" where
  "one_get = [(''GET'', \<lparr>mi_count = 1, mi_statuses = [(200, 1)]\<rparr>)]"

definition one_post :: "(string \<times> method_info) list" where
  "one_post = [(''POST'', \<lparr>mi_count = 1, mi_statuses = [(201, 1)]\<rparr>)]"

lemma api_map_depends_on_order:
  "nd_Methods (nd (build_map [] ''a'' [(''/x'', one_get), (''/x/y'', one_post)])) = [''POST'']"
  "nd_Methods (nd (build_map [] ''a'' [(''/x/y'', one_post), (''/x'', one_get)])) = [''GET'', ''POST'']"
  by code_simp+

text \<open>Paths that differ in a final slash share a node, and the number of the first is overwritten.\<close>

lemma api_map_loses_slash:
  "nd_Count (nd (build_map [] ''a'' [(''/x'', one_get), (''/x/'', one_post)])) = 1"
  by code_simp

end
