(* ===== verification/Har.thy ===== *)
theory Har
  imports StoreList Intercept ApiErrors "HOL-Library.List_Lexorder"
begin

text \<open>
  The HAR export of \<^verbatim>\<open>internal/api/service.go\<close>. An entry is a JSON value; \<^verbatim>\<open>encoding/json\<close> writes the keys
  of a map in order, and so they are written down here. The format of times is an argument, and so is
  the writer: it takes the bytes it is given or fails, by its own state.
\<close>

datatype har_json = HInt int | HStr string | HArr "har_json list" | HObj "(string \<times> har_json) list"

fun har_text :: "har_json \<Rightarrow> string" where
  "har_text (HInt i) = show_int i"
| "har_text (HStr s) = marshal_string s"
| "har_text (HArr xs) = ''['' @ join_with (CHR '','') (map har_text xs) @ '']''"
| "har_text (HObj ms) =
     ''{'' @ join_with (CHR '','') (map (\<lambda>(k, v). marshal_string k @ '':'' @ har_text v) ms) @ ''}''"

definition toHARHeaders :: "header_map \<Rightarrow> har_json" where
  "toHARHeaders headers =
     HArr (map (\<lambda>k. HObj [(''name'', HStr k), (''value'', HStr (case map_of headers k of Some v \<Rightarrow> v | None \<Rightarrow> []))])
       (sort (map fst headers)))"

definition buildHAREntry :: "(instant option \<Rightarrow> string) \<Rightarrow> captured_request \<Rightarrow> har_json" where
  "buildHAREntry time_text req =
     HObj
       [(''cache'', HObj []),
        (''request'', HObj
           [(''bodySize'', HInt (int (length (cr_ReqBody req)))), (''headers'', toHARHeaders (cr_ReqHeaders req)),
            (''headersSize'', HInt (- 1)), (''httpVersion'', HStr ''HTTP/1.1''),
            (''method'', HStr (cr_Method req)), (''url'', HStr (cr_URL req))]),
        (''response'', HObj
           [(''bodySize'', HInt (int (length (cr_ResBody req)))),
            (''content'', HObj [(''size'', HInt (int (length (cr_ResBody req)))), (''text'', HStr (cr_ResBody req))]),
            (''headers'', toHARHeaders (cr_ResHeaders req)), (''headersSize'', HInt (- 1)),
            (''httpVersion'', HStr ''HTTP/1.1''), (''status'', HInt (cr_StatusCode req)),
            (''statusText'', HStr (StatusText (cr_StatusCode req)))]),
        (''serverIPAddress'', HStr (cr_Host req)),
        (''startedDateTime'', HStr (time_text (cr_CapturedAt req))),
        (''time'', HInt (cr_DurationMs req)),
        (''timings'', HObj [(''receive'', HInt 0), (''send'', HInt 0), (''wait'', HInt (cr_DurationMs req))])]"

definition har_limit :: "int \<Rightarrow> int" where
  "har_limit n = (if n \<le> 0 \<or> n > 5000 then 1000 else n)"

definition export_failure :: string where
  "export_failure = ''failed to query requests for HAR export''"

text \<open>\<open>Export\<close>: the whole log as a value.\<close>

definition Export ::
  "like_op \<Rightarrow> (instant option \<Rightarrow> string) \<Rightarrow> int \<Rightarrow> store \<Rightarrow> (app_error + har_json) \<times> store" where
  "Export like time_text n s =
     (case ListFull like [] [] [] False (har_limit n) 0 s of
        (Inl _, s) \<Rightarrow> (Inl (ErrInternal export_failure), s)
      | (Inr items, s) \<Rightarrow>
          (Inr (HObj [(''log'', HObj
             [(''creator'', HObj [(''name'', HStr ''PacketLab''), (''version'', HStr ''2.0'')]),
              (''entries'', HArr (map (buildHAREntry time_text) items)),
              (''version'', HStr ''1.2'')])]), s))"

text \<open>
  \<open>ExportTo\<close> writes the log piece by piece; \<open>Encode\<close> ends each entry with a newline. The writer
  returns its error, if any, and its next state. An error of the first and of the last write is
  returned as it is, one in between as an internal error.
\<close>

type_synonym 'w writer = "string \<Rightarrow> 'w \<Rightarrow> store_error option \<times> 'w"

definition har_quoted :: "string \<Rightarrow> string" where
  "har_quoted s = QUOTE # s @ [QUOTE]"

definition har_head :: string where
  "har_head = ''{'' @ har_quoted ''log'' @ '':{'' @ har_quoted ''version'' @ '':'' @ har_quoted ''1.2'' @ '','' @ har_quoted ''creator'' @ '':{'' @ har_quoted ''name'' @
     '':'' @ har_quoted ''PacketLab'' @ '','' @ har_quoted ''version'' @ '':'' @ har_quoted ''2.0'' @ ''},'' @ har_quoted ''entries'' @ '':[''"

definition export_entry ::
  "'w writer \<Rightarrow> (instant option \<Rightarrow> string) \<Rightarrow> captured_request \<Rightarrow> bool \<times> 'w \<Rightarrow> store_error option \<times> bool \<times> 'w" where
  "export_entry wr time_text req st =
     (case st of (first, w) \<Rightarrow>
      case (if first then (None, w) else wr '','' w) of
        (Some e, w) \<Rightarrow> (Some e, first, w)
      | (None, w) \<Rightarrow>
          (case wr (har_text (buildHAREntry time_text req) @ [LF]) w of (e, w) \<Rightarrow> (e, False, w)))"

definition ExportTo ::
  "'w writer \<Rightarrow> like_op \<Rightarrow> (instant option \<Rightarrow> string) \<Rightarrow> int \<Rightarrow> 'w \<Rightarrow> store \<Rightarrow>
   ((store_error + app_error) option \<times> 'w) \<times> store" where
  "ExportTo wr like time_text n w s =
     (case wr har_head w of
        (Some e, w) \<Rightarrow> ((Some (Inl e), w), s)
      | (None, w) \<Rightarrow>
          (case ForEachFull like [] [] [] False (har_limit n) 0 (export_entry wr time_text) (True, w) s of
             ((Some _, _, w), s) \<Rightarrow> ((Some (Inr (ErrInternal export_failure)), w), s)
           | ((None, _, w), s) \<Rightarrow> (case wr '']}}'' w of (e, w) \<Rightarrow> ((map_option Inl e, w), s))))"

section \<open>What is exported\<close>

definition export_items :: "int \<Rightarrow> store \<Rightarrow> captured_request list" where
  "export_items n s =
     map (\<lambda>row. (row_req row)\<lparr>cr_ID := row_id row\<rparr>) (sql_page (har_limit n) 0 (rows_by_id_desc (st_requests s)))"

lemma selected_all: "selected like (listWhere [] [] [] False) s = st_requests s"
  by (simp add: selected_def listWhere_def)

text \<open>A writer that keeps everything.\<close>

definition buffer :: "string writer" where
  "buffer bs w = (None, w @ bs)"

definition entry_texts :: "(instant option \<Rightarrow> string) \<Rightarrow> captured_request list \<Rightarrow> string list" where
  "entry_texts time_text items = map (\<lambda>req. har_text (buildHAREntry time_text req) @ [LF]) items"

lemma export_entry_buffer:
  "export_entry buffer time_text req (first, w) =
   (None, False, w @ (if first then [] else '','') @ har_text (buildHAREntry time_text req) @ [LF])"
  by (simp add: export_entry_def buffer_def)

lemma join_with_Cons: "join_with c (x # xs) = x @ (if xs = [] then [] else c # join_with c xs)"
  by (cases xs) simp_all

lemma each_row_buffer:
  "each_row (export_entry buffer time_text) rows (first, w) =
   (None, first \<and> rows = [],
    w @ (if rows = [] \<or> first then [] else '','') @
      join_with (CHR '','') (entry_texts time_text (map (\<lambda>row. (row_req row)\<lparr>cr_ID := row_id row\<rparr>) rows)))"
proof (induction rows arbitrary: first w)
  case (Cons row rows)
  then show ?case by (simp add: export_entry_buffer entry_texts_def join_with_Cons)
qed (simp add: entry_texts_def)

lemma each_row_append: "each_row (\<lambda>req items. (None, items @ [req])) rows xs =
   (None, xs @ map (\<lambda>row. (row_req row)\<lparr>cr_ID := row_id row\<rparr>) rows)"
  by (induction rows arbitrary: xs) simp_all

text \<open>C30: The streamed export and the export in memory hold the same entries: the newest requests up to the
  limit, each once, the streamed one with a comma between two of them and closed at the end.\<close>

theorem exports_agree:
  assumes "st_replies s = ExecOk a b # rest"
  shows "\<exists>log s'. Export like time_text n s = (Inr log, s') \<and>
      log = HObj [(''log'', HObj
             [(''creator'', HObj [(''name'', HStr ''PacketLab''), (''version'', HStr ''2.0'')]),
              (''entries'', HArr (map (buildHAREntry time_text) (export_items n s))),
              (''version'', HStr ''1.2'')])] \<and>
      ExportTo buffer like time_text n [] s =
        ((None, har_head @ join_with (CHR '','') (entry_texts time_text (export_items n s)) @ '']}}''), s')"
  using assms
  by (simp add: Export_def ExportTo_def ListFull_def ForEachFull_def next_reply_def selected_all each_row_append
      each_row_buffer export_items_def Let_def buffer_def)

theorem exports_agree_witness:
  "\<exists>log s'. Export like_match (\<lambda>_. []) 10 two_rows = (Inr log, s') \<and>
     ExportTo buffer like_match (\<lambda>_. []) 10 [] two_rows =
       ((None, har_head @ join_with (CHR '','') (entry_texts (\<lambda>_. []) (export_items 10 two_rows)) @ '']}}''), s') \<and>
     length (export_items 10 two_rows) = 2"
proof -
  have "st_replies two_rows = ExecOk 0 None # [ExecOk 0 None, ExecOk 0 None]" by (simp add: two_rows_def example_rows_def)
  from exports_agree [OF this, of like_match "\<lambda>_. []" 10]
  show ?thesis by (auto simp: export_items_def sql_page_def har_limit_def two_rows_def rows_by_id_desc_def)
qed

end
