(* ===== verification/LlmStats.thy ===== *)
theory LlmStats
  imports LlmExchange
begin

text \<open>
  The usage statistics of \<^verbatim>\<open>internal/store/llm.go\<close>: totals, and the same by model and by provider. What
  SQLite's \<^verbatim>\<open>json_extract\<close> finds in the text of an exchange is an argument; it fails on a text that is not
  JSON, and a sum of integers fails outside 64 bits.
\<close>

record stat_row =
  sr_Model :: "string option"
  sr_Provider :: "string option"
  sr_PromptTokens :: "int option"
  sr_CompletionTokens :: "int option"
  sr_TotalTokens :: "int option"
  sr_CostUSD :: "rat option"

record llm_totals =
  lt_Exchanges :: nat
  lt_PromptTokens :: int
  lt_CompletionTokens :: int
  lt_TotalTokens :: int
  lt_CostUSD :: rat

text \<open>\<open>LLMModelStat\<close> and \<open>LLMProviderStat\<close> are the totals of a group with its key.\<close>

type_synonym model_stat = "(string \<times> string) \<times> llm_totals"
type_synonym provider_stat = "string \<times> llm_totals"

definition or_zero :: "'a::zero option \<Rightarrow> 'a" where
  "or_zero v = (case v of Some x \<Rightarrow> x | None \<Rightarrow> 0)"

definition or_unknown :: "string option \<Rightarrow> string" where
  "or_unknown v = (case v of Some s \<Rightarrow> if s = [] then ''unknown'' else s | None \<Rightarrow> ''unknown'')"

definition totals_of :: "stat_row list \<Rightarrow> llm_totals" where
  "totals_of rs =
     \<lparr>lt_Exchanges = length rs, lt_PromptTokens = (\<Sum>r \<leftarrow> rs. or_zero (sr_PromptTokens r)),
      lt_CompletionTokens = (\<Sum>r \<leftarrow> rs. or_zero (sr_CompletionTokens r)),
      lt_TotalTokens = (\<Sum>r \<leftarrow> rs. or_zero (sr_TotalTokens r)), lt_CostUSD = (\<Sum>r \<leftarrow> rs. or_zero (sr_CostUSD r))\<rparr>"

definition fits :: "llm_totals \<Rightarrow> bool" where
  "fits t \<longleftrightarrow> list_all (\<lambda>n. - (2 ^ 63) \<le> n \<and> n < 2 ^ 63) [lt_PromptTokens t, lt_CompletionTokens t, lt_TotalTokens t]"

text \<open>One statement: the groups by a key, by cost and number downwards; \<open>tie\<close> is the order SQLite has the
  groups in before.\<close>

definition stat_groups :: "(stat_row \<Rightarrow> 'k) \<Rightarrow> stat_row list \<Rightarrow> ('k \<times> llm_totals) list" where
  "stat_groups key rs = map (\<lambda>k. (k, totals_of (filter (\<lambda>r. key r = k) rs))) (remdups (map key rs))"

definition by_cost :: "('k \<times> llm_totals) list \<Rightarrow> ('k \<times> llm_totals) list" where
  "by_cost gs =
     sort_key (\<lambda>(_, t). - lt_CostUSD t) (sort_key (\<lambda>(_, t). - int (lt_Exchanges t)) gs)"

definition stat_rows :: "(string \<Rightarrow> stat_row option) \<Rightarrow> store \<Rightarrow> store_error + stat_row list" where
  "stat_rows extract s =
     (let rs = map (\<lambda>r. extract (row_llm_data r)) (filter row_is_llm (st_requests s))
      in if list_ex (\<lambda>r. r = None) rs then Inl (DriverErr ''malformed JSON'') else Inr (map the rs))"

definition stat_query ::
  "(string \<Rightarrow> stat_row option) \<Rightarrow> (stat_row list \<Rightarrow> ('k \<times> llm_totals) list) \<Rightarrow> store \<Rightarrow>
   (store_error + ('k \<times> llm_totals) list) \<times> store" where
  "stat_query extract grouped s =
     (case next_reply s of
        (ExecErr e, s) \<Rightarrow> (Inl (DriverErr e), s)
      | (ExecOk _ _, s) \<Rightarrow>
          (case stat_rows extract s of
             Inl e \<Rightarrow> (Inl e, s)
           | Inr rs \<Rightarrow>
               (if list_all (\<lambda>(_, t). fits t) (grouped rs) then (Inr (grouped rs), s)
                else (Inl (DriverErr ''integer overflow''), s))))"

definition LLMStats ::
  "(string \<Rightarrow> stat_row option) \<Rightarrow> (model_stat list \<Rightarrow> model_stat list) \<Rightarrow> (provider_stat list \<Rightarrow> provider_stat list) \<Rightarrow>
   store \<Rightarrow> (store_error + llm_totals \<times> model_stat list \<times> provider_stat list) \<times> store" where
  "LLMStats extract tie_models tie_providers s =
     (case stat_query extract (\<lambda>rs. [((), totals_of rs)]) s of
        (Inl e, s) \<Rightarrow> (Inl e, s)
      | (Inr totals, s) \<Rightarrow>
          (case stat_query extract
                  (\<lambda>rs. by_cost (tie_models (stat_groups (\<lambda>r. (or_unknown (sr_Model r), or_unknown (sr_Provider r))) rs))) s of
             (Inl e, s) \<Rightarrow> (Inl e, s)
           | (Inr byModel, s) \<Rightarrow>
               (case stat_query extract
                       (\<lambda>rs. by_cost (tie_providers (stat_groups (\<lambda>r. or_unknown (sr_Provider r)) rs))) s of
                  (Inl e, s) \<Rightarrow> (Inl e, s)
                | (Inr byProvider, s) \<Rightarrow> (Inr (snd (hd totals), byModel, byProvider), s))))"

section \<open>The groups add up\<close>

definition add_totals :: "llm_totals \<Rightarrow> llm_totals \<Rightarrow> llm_totals" where
  "add_totals a b =
     \<lparr>lt_Exchanges = lt_Exchanges a + lt_Exchanges b, lt_PromptTokens = lt_PromptTokens a + lt_PromptTokens b,
      lt_CompletionTokens = lt_CompletionTokens a + lt_CompletionTokens b,
      lt_TotalTokens = lt_TotalTokens a + lt_TotalTokens b, lt_CostUSD = lt_CostUSD a + lt_CostUSD b\<rparr>"

definition sum_totals :: "llm_totals list \<Rightarrow> llm_totals" where
  "sum_totals ts = foldr add_totals ts (totals_of [])"

lemma sum_totals_fields:
  "sum_totals ts =
     \<lparr>lt_Exchanges = (\<Sum>t \<leftarrow> ts. lt_Exchanges t), lt_PromptTokens = (\<Sum>t \<leftarrow> ts. lt_PromptTokens t),
      lt_CompletionTokens = (\<Sum>t \<leftarrow> ts. lt_CompletionTokens t), lt_TotalTokens = (\<Sum>t \<leftarrow> ts. lt_TotalTokens t),
      lt_CostUSD = (\<Sum>t \<leftarrow> ts. lt_CostUSD t)\<rparr>"
  by (induction ts) (simp_all add: sum_totals_def totals_of_def add_totals_def)

lemma sum_totals_mset: "mset ts = mset us \<Longrightarrow> sum_totals ts = sum_totals us"
  unfolding sum_totals_fields by (simp flip: sum_mset_sum_list)

lemma sum_groups: "(\<Sum>k \<leftarrow> remdups (map key rs). \<Sum>r \<leftarrow> filter (\<lambda>r. key r = k) rs. f r) = (\<Sum>r \<leftarrow> rs. (f r :: 'a::comm_monoid_add))"
proof -
  have "(\<Sum>k \<leftarrow> remdups (map key rs). \<Sum>r \<leftarrow> filter (\<lambda>r. key r = k) rs. f r) =
      (\<Sum>k \<in> key ` set rs. \<Sum>r \<leftarrow> rs. if key r = k then f r else 0)"
    by (simp add: sum_list_distinct_conv_sum_set sum_list_map_filter')
  also have "\<dots> = (\<Sum>r \<leftarrow> rs. \<Sum>k \<in> key ` set rs. if key r = k then f r else 0)"
    by (simp add: sum_list_sum_nth sum.swap [of _ "{0..<length rs}"])
  also have "\<dots> = (\<Sum>r \<leftarrow> rs. f r)"
    by (rule arg_cong [where f = sum_list]) (simp add: sum.delta)
  finally show ?thesis .
qed

lemma groups_add_up: "sum_totals (map snd (stat_groups key rs)) = totals_of rs"
  using sum_groups [where f = "\<lambda>_. 1 :: nat" and key = key and rs = rs]
  by (simp add: sum_totals_fields stat_groups_def totals_of_def comp_def sum_groups sum_list_triv)

lemma by_cost_mset: "mset (by_cost gs) = mset gs"
  by (simp add: by_cost_def)

lemma sum_by_cost:
  assumes "\<forall>gs. mset (tie gs) = mset gs"
  shows "sum_totals (map snd (by_cost (tie (stat_groups key rs)))) = totals_of rs"
proof -
  have "mset (map snd (by_cost (tie (stat_groups key rs)))) = mset (map snd (stat_groups key rs))"
    using assms by (simp add: by_cost_mset)
  from sum_totals_mset [OF this] show ?thesis by (simp only: groups_add_up)
qed

lemma stat_query_Inr:
  assumes "stat_query extract grouped s = (Inr gs, s')"
  shows "\<exists>rs. stat_rows extract s = Inr rs \<and> gs = grouped rs \<and> st_requests s' = st_requests s"
proof -
  obtain r s1 where n: "next_reply s = (r, s1)" by fastforce
  then have "st_requests s1 = st_requests s" by (auto simp: next_reply_def split: list.splits)
  then show ?thesis using assms n by (auto simp: stat_query_def stat_rows_def split: reply.splits sum.splits if_splits)
qed

lemma stat_rows_cong: "st_requests s' = st_requests s \<Longrightarrow> stat_rows extract s' = stat_rows extract s"
  by (simp add: stat_rows_def)


definition example_stat :: "string \<Rightarrow> stat_row option" where
  "example_stat d =
     Some \<lparr>sr_Model = Some d, sr_Provider = None, sr_PromptTokens = Some 3, sr_CompletionTokens = None, sr_TotalTokens = Some 3,
       sr_CostUSD = Some (if d = ''a'' then 1 / 2 else 2)\<rparr>"

definition two_exchanges :: store where
  "two_exchanges = example_rows\<lparr>st_requests :=
     [(new_row 1 zero_request)\<lparr>row_is_llm := True, row_llm_data := ''a''\<rparr>,
      (new_row 2 zero_request)\<lparr>row_is_llm := True, row_llm_data := ''b''\<rparr>, new_row 3 zero_request]\<rparr>"


text \<open>One exchange whose text is no JSON is enough to have no statistics at all.\<close>

lemma malformed_exchange_no_stats:
  assumes "r \<in> set (st_requests s)" and "row_is_llm r" and "extract (row_llm_data r) = None"
  shows "\<exists>e. fst (LLMStats extract tie_models tie_providers s) = Inl e"
proof -
  have "stat_rows extract s' = Inl (DriverErr ''malformed JSON'')" if "st_requests s' = st_requests s" for s'
    using assms that by (auto simp: stat_rows_def list_ex_iff Let_def intro!: rev_image_eqI)
  then show ?thesis
    by (auto simp: LLMStats_def stat_query_def next_reply_def split: list.splits reply.splits)
qed

end
