(* ===== verification/Ssrf.thy ===== *)
theory Ssrf
  imports NetIPProps
begin

text \<open>
  The protection of \<^verbatim>\<open>internal/api/service.go\<close> against requests to internal addresses: the address
  ranges that are forbidden, the parsing of address literals (\<^verbatim>\<open>net.ParseIP\<close>), and the resolution
  of a host name with a check of all its answers. What the resolver answers is an argument.
\<close>

section \<open>Classes of addresses\<close>

definition IsUnspecified :: "ip \<Rightarrow> bool" where
  "IsUnspecified p = (case To4 p of Some q \<Rightarrow> q = replicate 4 0 | None \<Rightarrow> p = replicate 16 0)"

definition IsPrivate :: "ip \<Rightarrow> bool" where
  "IsPrivate p =
     (case To4 p of
        Some q \<Rightarrow> q ! 0 = 10 \<or> (q ! 0 = 172 \<and> q ! 1 AND 0xf0 = 16) \<or> (q ! 0 = 192 \<and> q ! 1 = 168)
      | None \<Rightarrow> length p = 16 \<and> p ! 0 AND 0xfe = 0xfc)"

definition IsMulticast :: "ip \<Rightarrow> bool" where
  "IsMulticast p =
     (case To4 p of Some q \<Rightarrow> q ! 0 AND 0xf0 = 0xe0 | None \<Rightarrow> length p = 16 \<and> p ! 0 = 0xff)"

definition IsLinkLocalMulticast :: "ip \<Rightarrow> bool" where
  "IsLinkLocalMulticast p =
     (case To4 p of
        Some q \<Rightarrow> q ! 0 = 224 \<and> q ! 1 = 0 \<and> q ! 2 = 0
      | None \<Rightarrow> length p = 16 \<and> p ! 0 = 0xff \<and> p ! 1 AND 0x0f = 0x02)"

definition IsLinkLocalUnicast :: "ip \<Rightarrow> bool" where
  "IsLinkLocalUnicast p =
     (case To4 p of
        Some q \<Rightarrow> q ! 0 = 169 \<and> q ! 1 = 254
      | None \<Rightarrow> length p = 16 \<and> p ! 0 = 0xfe \<and> p ! 1 AND 0xc0 = 0x80)"

definition blockedIP :: "ip \<Rightarrow> bool" where
  "blockedIP p =
     (if p = [] then True
      else if IsLoopback p \<or> IsLinkLocalUnicast p \<or> IsLinkLocalMulticast p \<or> IsMulticast p \<or>
              IsUnspecified p \<or> IsPrivate p then True
      else case To4 p of Some q \<Rightarrow> q ! 0 = 100 \<and> q ! 1 AND 0xC0 = 64 | None \<Rightarrow> False)"

section \<open>Address literals\<close>

text \<open>A field of a dotted address: up to three digits, no leading zero, at most 255.\<close>

definition parse_octet :: "string \<Rightarrow> 8 word option" where
  "parse_octet s =
     (let v = digits_value 10 (map digit_value s) in
      if s = [] \<or> 3 < length s \<or> \<not> list_all is_digit s \<or> (1 < length s \<and> hd s = CHR ''0'') \<or> 255 < v
      then None else Some (of_nat v))"

definition parse_ip4 :: "string \<Rightarrow> ip option" where
  "parse_ip4 s =
     (let fs = split_on (CHR ''.'') s in
      if length fs = 4 \<and> list_all (\<lambda>f. parse_octet f \<noteq> None) fs then Some (map (\<lambda>f. the (parse_octet f)) fs)
      else None)"

text \<open>
  The loop over the groups of an IPv6 address: the bytes so far, the place of the double colon, and
  the rest of the text. Each round reads one group, so eight rounds fill the address.
\<close>

definition leading_hex :: "string \<Rightarrow> string" where
  "leading_hex s = takeWhile (\<lambda>c. hex_value c \<noteq> None) s"

definition two_bytes :: "nat \<Rightarrow> ip" where
  "two_bytes n = [of_nat (n div 256), of_nat n]"

fun parse_groups :: "nat \<Rightarrow> ip \<Rightarrow> nat option \<Rightarrow> string \<Rightarrow> (ip \<times> nat option \<times> string) option" where
  "parse_groups 0 bs ell s = Some (bs, ell, s)"
| "parse_groups (Suc n) bs ell s =
     (let ds = leading_hex s; rest = drop (length ds) s in
      if ds = [] \<or> 4 < length ds then None
      else if rest \<noteq> [] \<and> hd rest = CHR ''.'' then
        (if ell = None \<and> length bs \<noteq> 12 \<or> 12 < length bs then None
         else map_option (\<lambda>q. (bs @ q, ell, [])) (parse_ip4 s))
      else
        let bs = bs @ two_bytes (digits_value 16 (map (\<lambda>c. the (hex_value c)) ds)) in
        case rest of
          [] \<Rightarrow> Some (bs, ell, [])
        | c # t \<Rightarrow>
            if c \<noteq> CHR '':'' \<or> t = [] then None
            else if hd t = CHR '':'' then
              (if ell \<noteq> None then None
               else if tl t = [] then Some (bs, Some (length bs), [])
               else parse_groups n bs (Some (length bs)) (tl t))
            else parse_groups n bs ell t)"

definition parse_ip6 :: "string \<Rightarrow> ip option" where
  "parse_ip6 s =
     (let double = has_prefix s ''::''; t = (if double then drop 2 s else s) in
      if double \<and> t = [] then Some (replicate 16 0)
      else case parse_groups 8 [] (if double then Some 0 else None) t of
        None \<Rightarrow> None
      | Some (bs, ell, rest) \<Rightarrow>
          if rest \<noteq> [] then None
          else if length bs < 16 then
            (case ell of None \<Rightarrow> None
             | Some k \<Rightarrow> Some (take k bs @ replicate (16 - length bs) 0 @ drop k bs))
          else if ell \<noteq> None then None
          else Some bs)"

text \<open>\<^verbatim>\<open>net.ParseIP\<close>: a literal with a zone is none; an IPv4 address is kept in its 16-byte form.\<close>

definition ParseIP :: "string \<Rightarrow> ip option" where
  "ParseIP s =
     (case find (\<lambda>c. c \<in> {CHR ''.'', CHR '':'', CHR ''%''}) s of
        Some c \<Rightarrow>
          if c = CHR ''.'' then (case parse_ip4 s of Some q \<Rightarrow> To16 q | None \<Rightarrow> None)
          else if c = CHR '':'' \<and> CHR ''%'' \<notin> set s then parse_ip6 s
          else None
      | None \<Rightarrow> None)"

section \<open>Resolution\<close>

text \<open>A target that is refused, or any other error with its text.\<close>

datatype resend_error = Blocked | Failed string

text \<open>The resolver's answers are given one per look-up; it has none left when the network is gone.\<close>

type_synonym dns = "ip list option list"

definition LookupIPAddr :: "string \<Rightarrow> dns \<Rightarrow> ip list option \<times> dns" where
  "LookupIPAddr host d = (case d of [] \<Rightarrow> (None, []) | a # d \<Rightarrow> (a, d))"

definition resolveAllowedIP :: "string \<Rightarrow> dns \<Rightarrow> (resend_error + ip) \<times> dns" where
  "resolveAllowedIP host d =
     (case ParseIP host of
        Some p \<Rightarrow> (if blockedIP p then Inl Blocked else Inr p, d)
      | None \<Rightarrow>
          (case LookupIPAddr host d of
             (Some (p # ps), d) \<Rightarrow> (if list_ex blockedIP (p # ps) then Inl Blocked else Inr p, d)
           | (_, d) \<Rightarrow> (Inl (Failed (''cannot resolve target host '' @ host)), d)))"

section \<open>The forbidden addresses as ranges\<close>

definition addr_value :: "ip \<Rightarrow> nat" where
  "addr_value p = digits_value 256 (map unat p)"

text \<open>A range is a network and the length of its prefix.\<close>

definition in_cidr :: "ip \<times> nat \<Rightarrow> ip \<Rightarrow> bool" where
  "in_cidr r p \<longleftrightarrow>
     addr_value p div 2 ^ (8 * length p - snd r) = addr_value (fst r) div 2 ^ (8 * length p - snd r)"

definition blocked4 :: "(ip \<times> nat) list" where
  "blocked4 =
     [([127, 0, 0, 0], 8), ([169, 254, 0, 0], 16), ([10, 0, 0, 0], 8), ([172, 16, 0, 0], 12),
      ([192, 168, 0, 0], 16), ([100, 64, 0, 0], 10), ([224, 0, 0, 0], 4), ([0, 0, 0, 0], 32)]"

definition blocked6 :: "(ip \<times> nat) list" where
  "blocked6 =
     [(replicate 15 0 @ [1], 128), (replicate 16 0, 128), (0xfe # 0x80 # replicate 14 0, 10),
      (0xfc # replicate 15 0, 7), (0xff # replicate 15 0, 8)]"

lemma addr_value_Cons: "addr_value (b # bs) = unat b * 256 ^ length bs + addr_value bs"
proof -
  have "foldl (\<lambda>n d. n * 256 + d) k (map unat bs) = k * 256 ^ length bs + foldl (\<lambda>n d. n * 256 + d) 0 (map unat bs)"
    for k :: nat and bs :: ip
    by (induction bs rule: rev_induct) (simp_all add: algebra_simps)
  from this [of "unat b" bs] show ?thesis by (simp add: addr_value_def digits_value_def)
qed

lemma addr_value_Nil [simp]: "addr_value [] = 0"
  by (simp add: addr_value_def digits_value_def)

lemma addr_value_bound: "addr_value p < 256 ^ length p"
proof (induction p)
  case (Cons b p)
  have "unat b \<le> 255" using unsigned_less [of b, where ?'a = nat] by simp
  then have "unat b * 256 ^ length p \<le> 255 * 256 ^ length p" by (rule mult_le_mono1)
  then have "addr_value (b # p) < 255 * 256 ^ length p + 256 ^ length p"
    using Cons.IH unfolding addr_value_Cons by linarith
  then show ?case by simp
qed simp

text \<open>Conditions on the leading bytes as conditions on numbers.\<close>

lemma byte_facts:
  fixes b :: "8 word"
  shows "b AND 0xf0 = 16 \<longleftrightarrow> unat b div 16 = 1" "b AND 0xf0 = 0xe0 \<longleftrightarrow> unat b div 16 = 14"
    "b AND 0xC0 = 64 \<longleftrightarrow> unat b div 64 = 1" "b AND 0xc0 = 0x80 \<longleftrightarrow> unat b div 64 = 2"
    "b AND 0xfe = 0xfc \<longleftrightarrow> unat b div 2 = 126"
proof -
  have high: "b AND push_bit k (mask (8 - k)) = push_bit k (drop_bit k b)" for k
    by (rule bit_word_eqI) (auto simp: bit_simps)
  have bits: "b AND 0xf0 = push_bit 4 (drop_bit 4 b)" "b AND 0xC0 = push_bit 6 (drop_bit 6 b)"
    "b AND 0xfe = push_bit 1 (drop_bit 1 b)"
    using high [of 4] high [of 6] high [of 1] by (simp_all add: mask_eq_exp_minus_1)
  have u: "unat b < 256" using unsigned_less [of b, where ?'a = nat] by simp
  have sh: "unat (push_bit k (drop_bit k b)) = unat b div 2 ^ k * 2 ^ k" for k
  proof -
    have "unat b div 2 ^ k * 2 ^ k \<le> unat b" by simp
    then have "unat b div 2 ^ k * 2 ^ k < 256" using u by linarith
    then show ?thesis
      by (simp only: unsigned_push_bit_eq unsigned_drop_bit_eq)
         (simp add: push_bit_eq_mult drop_bit_eq_div take_bit_eq_mod u)
  qed
  have e: "x = y \<longleftrightarrow> unat x = unat y" for x y :: "8 word" by (simp add: word_unat_eq_iff)
  show "b AND 0xf0 = 16 \<longleftrightarrow> unat b div 16 = 1" unfolding bits e sh by simp
  show "b AND 0xf0 = 0xe0 \<longleftrightarrow> unat b div 16 = 14" unfolding bits e sh by simp
  show "b AND 0xC0 = 64 \<longleftrightarrow> unat b div 64 = 1" unfolding bits e sh by simp
  show "b AND 0xc0 = 0x80 \<longleftrightarrow> unat b div 64 = 2" unfolding bits e sh by simp
  show "b AND 0xfe = 0xfc \<longleftrightarrow> unat b div 2 = 126" unfolding bits e sh by simp
qed

lemma value_div:
  assumes "a \<le> 8"
  shows "addr_value (b # bs) div 2 ^ (8 * length bs + a) = unat b div 2 ^ a"
proof -
  have "addr_value (b # bs) div 256 ^ length bs = unat b"
    using addr_value_bound [of bs] by (simp add: addr_value_Cons)
  moreover have "(2 :: nat) ^ (8 * length bs + a) = 256 ^ length bs * 2 ^ a"
    by (simp add: power_add power_mult)
  ultimately show ?thesis by (simp add: div_mult2_eq)
qed

lemma value_div2:
  assumes "a \<le> 8"
  shows "addr_value (b # c # bs) div 2 ^ (8 * length bs + a) = unat b * 2 ^ (8 - a) + unat c div 2 ^ a"
proof -
  have "addr_value (b # c # bs) = (unat b * 256 + unat c) * 256 ^ length bs + addr_value bs"
    by (simp add: addr_value_Cons algebra_simps)
  then have "addr_value (b # c # bs) div 256 ^ length bs = unat b * 256 + unat c"
    using addr_value_bound [of bs] by simp
  moreover have "(2 :: nat) ^ (8 * length bs + a) = 256 ^ length bs * 2 ^ a"
    by (simp add: power_add power_mult)
  moreover have "(unat b * 256 + unat c) div 2 ^ a = unat b * 2 ^ (8 - a) + unat c div 2 ^ a"
  proof -
    have "(256 :: nat) = 2 ^ (8 - a) * 2 ^ a" using assms by (simp flip: power_add)
    then have "unat b * 256 + unat c = unat b * 2 ^ (8 - a) * 2 ^ a + unat c" by simp
    then show ?thesis by (simp only: div_mult_self3) simp
  qed
  ultimately show ?thesis by (simp add: div_mult2_eq)
qed

lemma To4_four [simp]: "length p = 4 \<Longrightarrow> To4 p = Some p"
  by (simp add: To4_def)

lemma four_bytes: "length (p :: ip) = 4 \<Longrightarrow> \<exists>a b c d. p = [a, b, c, d]"
  by (cases p; cases "tl p"; cases "tl (tl p)"; cases "tl (tl (tl p))") auto

lemma in_cidr4:
  "in_cidr ([n, 0, 0, 0], 8) [a, b, c, d] \<longleftrightarrow> a = n"
  "in_cidr ([n, 0, 0, 0], 4) [a, b, c, d] \<longleftrightarrow> unat a div 16 = unat n div 16"
  "in_cidr ([n, m, 0, 0], 16) [a, b, c, d] \<longleftrightarrow> a = n \<and> b = m"
  "in_cidr ([n, m, 0, 0], 12) [a, b, c, d] \<longleftrightarrow> a = n \<and> unat b div 16 = unat m div 16"
  "in_cidr ([n, m, 0, 0], 10) [a, b, c, d] \<longleftrightarrow> a = n \<and> unat b div 64 = unat m div 64"
  "in_cidr ([0, 0, 0, 0], 32) [a, b, c, d] \<longleftrightarrow> a = 0 \<and> b = 0 \<and> c = 0 \<and> d = 0"
proof -
  have u: "unat x < 256" for x :: "8 word" using unsigned_less [of x, where ?'a = nat] by simp
  have unat_eq: "unat x = unat y \<longleftrightarrow> x = y" for x y :: "8 word" by (simp add: word_unat_eq_iff)
  note v1 = value_div [where bs = "[_, _, _]", simplified] and v2 = value_div2 [where bs = "[_, _]", simplified]
  show "in_cidr ([n, 0, 0, 0], 8) [a, b, c, d] \<longleftrightarrow> a = n"
    using v1 [of 0] by (simp add: in_cidr_def unat_eq)
  show "in_cidr ([n, 0, 0, 0], 4) [a, b, c, d] \<longleftrightarrow> unat a div 16 = unat n div 16"
    using v1 [of 4] by (simp add: in_cidr_def)
  have pair: "unat a * k + x = unat n * k + y \<longleftrightarrow> a = n \<and> x = y" if "x < k" "y < k" for k x y
  proof
    assume e: "unat a * k + x = unat n * k + y"
    have "unat a = (unat a * k + x) div k" "unat n = (unat n * k + y) div k"
      using that by simp_all
    then have "unat a = unat n" by (simp only: e)
    then show "a = n \<and> x = y" using e by (simp add: unat_eq)
  qed simp
  show "in_cidr ([n, m, 0, 0], 16) [a, b, c, d] \<longleftrightarrow> a = n \<and> b = m"
    using v2 [of 0] pair [of "unat b" 256 "unat m"] u by (simp add: in_cidr_def unat_eq)
  show "in_cidr ([n, m, 0, 0], 12) [a, b, c, d] \<longleftrightarrow> a = n \<and> unat b div 16 = unat m div 16"
    using v2 [of 4] pair [of "unat b div 16" 16 "unat m div 16"] u [of b] u [of m] by (simp add: in_cidr_def less_mult_imp_div_less)
  show "in_cidr ([n, m, 0, 0], 10) [a, b, c, d] \<longleftrightarrow> a = n \<and> unat b div 64 = unat m div 64"
    using v2 [of 6] pair [of "unat b div 64" 4 "unat m div 64"] u [of b] u [of m] by (simp add: in_cidr_def less_mult_imp_div_less)
  show "in_cidr ([0, 0, 0, 0], 32) [a, b, c, d] \<longleftrightarrow> a = 0 \<and> b = 0 \<and> c = 0 \<and> d = 0"
    by (simp add: in_cidr_def addr_value_Cons unat_eq_0)
qed

lemma replicate_Cons_numeral: "replicate (numeral k) x = x # replicate (pred_numeral k) x"
  by (simp add: numeral_eq_Suc)

lemma classes4:
  assumes "To4 p = Some [a, b, c, d]"
  shows "IsLoopback p \<longleftrightarrow> a = 127" "IsLinkLocalUnicast p \<longleftrightarrow> a = 169 \<and> b = 254"
    "IsLinkLocalMulticast p \<longleftrightarrow> a = 224 \<and> b = 0 \<and> c = 0" "IsMulticast p \<longleftrightarrow> unat a div 16 = 14"
    "IsUnspecified p \<longleftrightarrow> a = 0 \<and> b = 0 \<and> c = 0 \<and> d = 0"
    "IsPrivate p \<longleftrightarrow> a = 10 \<or> a = 172 \<and> unat b div 16 = 1 \<or> a = 192 \<and> b = 168"
  using assms
  by (simp_all add: IsLoopback_def IsLinkLocalUnicast_def IsLinkLocalMulticast_def IsMulticast_def
      IsUnspecified_def IsPrivate_def byte_facts replicate_Cons_numeral)

lemma blocked_four:
  assumes "To4 p = Some [a, b, c, d]" and "p \<noteq> []"
  shows "blockedIP p \<longleftrightarrow> list_ex (\<lambda>r. in_cidr r [a, b, c, d]) blocked4"
proof -
  have m: "a = 224 \<Longrightarrow> unat a div 16 = 14" by simp
  have "blockedIP p \<longleftrightarrow> a = 127 \<or> a = 169 \<and> b = 254 \<or> unat a div 16 = 14 \<or> (a = 0 \<and> b = 0 \<and> c = 0 \<and> d = 0) \<or>
      a = 10 \<or> a = 172 \<and> unat b div 16 = 1 \<or> a = 192 \<and> b = 168 \<or> a = 100 \<and> unat b div 64 = 1"
    using assms m unfolding blockedIP_def classes4 [OF assms(1)] by (auto simp: byte_facts)
  moreover have "list_ex (\<lambda>r. in_cidr r [a, b, c, d]) blocked4 \<longleftrightarrow> a = 127 \<or> a = 169 \<and> b = 254 \<or> a = 10 \<or>
      a = 172 \<and> unat b div 16 = 1 \<or> a = 192 \<and> b = 168 \<or> a = 100 \<and> unat b div 64 = 1 \<or> unat a div 16 = 14 \<or>
      (a = 0 \<and> b = 0 \<and> c = 0 \<and> d = 0)"
    by (simp add: blocked4_def in_cidr4)
  ultimately show ?thesis by argo
qed

lemma in_cidr6:
  assumes "length bs = 14"
  shows "in_cidr (0xfe # 0x80 # replicate 14 0, 10) (a # b # bs) \<longleftrightarrow> a = 0xfe \<and> unat b div 64 = 2"
    and "in_cidr (0xfc # replicate 15 0, 7) (a # b # bs) \<longleftrightarrow> unat a div 2 = 126"
    and "in_cidr (0xff # replicate 15 0, 8) (a # b # bs) \<longleftrightarrow> a = 0xff"
proof -
  have u: "unat x < 256" for x :: "8 word" using unsigned_less [of x, where ?'a = nat] by simp
  have "addr_value (a # b # bs) div 2 ^ 118 = unat a * 4 + unat b div 64" for a b :: "8 word"
    using value_div2 [of 6 a b bs] assms by simp
  moreover have "addr_value (a # b # replicate 14 0) div 2 ^ 118 = unat a * 4 + unat b div 64" for a b :: "8 word"
    using value_div2 [of 6 a b "replicate 14 0"] by simp
  moreover have "unat a * 4 + unat b div 64 = 1018 \<longleftrightarrow> a = 0xfe \<and> unat b div 64 = 2"
  proof
    have "unat b div 64 < 4" using u [of b] by (simp add: less_mult_imp_div_less)
    moreover assume "unat a * 4 + unat b div 64 = 1018"
    moreover have "x * 4 + y = 1018 \<Longrightarrow> y < 4 \<Longrightarrow> x = 254 \<and> y = 2" for x y :: nat by presburger
    ultimately have "unat a = 254 \<and> unat b div 64 = 2" by blast
    then show "a = 0xfe \<and> unat b div 64 = 2" by (simp add: word_unat_eq_iff)
  qed simp
  ultimately show "in_cidr (0xfe # 0x80 # replicate 14 0, 10) (a # b # bs) \<longleftrightarrow> a = 0xfe \<and> unat b div 64 = 2"
    using assms by (simp add: in_cidr_def)
  have one: "addr_value (a # bs) div 2 ^ (120 + k) = unat a div 2 ^ k" if "k \<le> 8" "length bs = 15" for a k and bs :: ip
    using value_div [of k a bs] that by simp
  show "in_cidr (0xfc # replicate 15 0, 7) (a # b # bs) \<longleftrightarrow> unat a div 2 = 126"
    using one [of 1 "b # bs" a] one [of 1 "replicate 15 0" "0xfc"] assms by (simp add: in_cidr_def)
  show "in_cidr (0xff # replicate 15 0, 8) (a # b # bs) \<longleftrightarrow> a = 0xff"
    using one [of 0 "b # bs" a] one [of 0 "replicate 15 0" "0xff"] assms by (simp add: in_cidr_def word_unat_eq_iff)
qed

lemma addr_value_inj: "length p = length q \<Longrightarrow> addr_value p = addr_value q \<longleftrightarrow> p = q"
proof (induction p q rule: list_induct2)
  case (Cons x xs y ys)
  have "addr_value (x # xs) = addr_value (y # ys) \<longleftrightarrow> unat x = unat y \<and> addr_value xs = addr_value ys"
  proof
    assume e: "addr_value (x # xs) = addr_value (y # ys)"
    have "unat x = addr_value (x # xs) div 256 ^ length xs" "unat y = addr_value (y # ys) div 256 ^ length ys"
      using addr_value_bound [of xs] addr_value_bound [of ys] by (simp_all add: addr_value_Cons)
    then have "unat x = unat y" using e Cons.hyps by simp
    then show "unat x = unat y \<and> addr_value xs = addr_value ys" using e Cons.hyps by (simp add: addr_value_Cons)
  qed (simp add: addr_value_Cons Cons.hyps)
  then show ?case using Cons.IH by (simp add: word_unat_eq_iff)
qed simp

lemma in_cidr_full: "length p = 16 \<Longrightarrow> length n = 16 \<Longrightarrow> in_cidr (n, 128) p \<longleftrightarrow> p = n"
  using addr_value_inj [of p n] by (auto simp: in_cidr_def)

lemma blocked_six:
  assumes "To4 p = None" and "length p = 16"
  shows "blockedIP p \<longleftrightarrow> list_ex (\<lambda>r. in_cidr r p) blocked6"
proof -
  obtain a b bs where p: "p = a # b # bs" "length bs = 14"
    using assms(2) by (cases p; cases "tl p") auto
  have m: "b AND 0x0f = 0x02 \<Longrightarrow> a = 0xff \<Longrightarrow> a = 0xff" by simp
  have "blockedIP p \<longleftrightarrow> p = replicate 15 0 @ [1] \<or> p = replicate 16 0 \<or> a = 0xfe \<and> unat b div 64 = 2 \<or>
      a = 0xff \<or> unat a div 2 = 126"
    using assms unfolding blockedIP_def IsLoopback_def IsLinkLocalUnicast_def IsLinkLocalMulticast_def
      IsMulticast_def IsUnspecified_def IsPrivate_def by (auto simp: p byte_facts)
  moreover have "length (replicate 15 0 @ [1 :: 8 word]) = 16" "length (replicate 16 (0 :: 8 word)) = 16" by simp_all
  then have "list_ex (\<lambda>r. in_cidr r p) blocked6 \<longleftrightarrow> p = replicate 15 0 @ [1] \<or> p = replicate 16 0 \<or>
      a = 0xfe \<and> unat b div 64 = 2 \<or> unat a div 2 = 126 \<or> a = 0xff"
    using assms(2) in_cidr6 [OF p(2), of a b] in_cidr_full [of p] unfolding blocked6_def p(1) by simp
  ultimately show ?thesis by argo
qed

text \<open>C33: The addresses the program refuses are exactly those of the forbidden ranges: loopback, link-local,
  private, shared, multicast and unspecified networks, for an IPv4 address in either of its forms and
  for an IPv6 address; everything else that is an address is let through.\<close>

theorem blocked_addresses:
  assumes "length p = 4 \<or> length p = 16"
  shows "blockedIP p \<longleftrightarrow>
    (case To4 p of Some q \<Rightarrow> list_ex (\<lambda>r. in_cidr r q) blocked4 | None \<Rightarrow> list_ex (\<lambda>r. in_cidr r p) blocked6)"
proof (cases "To4 p")
  case None
  then show ?thesis using assms blocked_six [OF None] by auto
next
  case (Some q)
  then have "length q = 4" using assms by (auto simp: To4_def split: if_splits)
  then obtain a b c d where "q = [a, b, c, d]" using four_bytes by blast
  moreover have "p \<noteq> []" using assms by auto
  ultimately show ?thesis using Some blocked_four [of p a b c d] by simp
qed

theorem blocked_addresses_witness:
  "blockedIP [100, 127, 0, 1] \<and> \<not> blockedIP [100, 128, 0, 1] \<and> blockedIP (replicate 10 0 @ [0xff, 0xff, 127, 0, 0, 1])"
proof -
  have "blockedIP [100, 127, 0, 1]"
    by (subst blocked_addresses) (simp_all add: blocked4_def in_cidr4)
  moreover have "\<not> blockedIP [100, 128, 0, 1]"
    by (subst blocked_addresses) (simp_all add: blocked4_def in_cidr4)
  moreover have "To4 (replicate 10 0 @ [0xff, 0xff, 127, 0, 0, 1]) = Some [127, 0, 0, 1]"
    by (simp add: To4_def nth_append)
  then have "blockedIP (replicate 10 0 @ [0xff, 0xff, 127, 0, 0, 1])"
    by (subst blocked_addresses) (simp_all add: blocked4_def in_cidr4)
  ultimately show ?thesis by blast
qed


section \<open>Texts of addresses are read back\<close>

lemma show_nat_hd: "0 < n \<Longrightarrow> hd (show_nat n) \<noteq> CHR ''0''"
proof (induction n rule: show_nat.induct)
  case (1 n)
  show ?case
  proof (cases "n < 10")
    case True
    have "digit_value (char_of (48 + n)) = n" by (rule digit_value_digit [OF True])
    moreover have "digit_value (CHR ''0'') = 0" by (simp add: digit_value_def)
    ultimately show ?thesis using "1.prems" True by (subst show_nat.simps) (auto simp del: of_char_Char)
  next
    case False
    then show ?thesis using "1.IH" [OF False] by (subst show_nat.simps) simp
  qed
qed

lemma show_nat_length: "n < 10 ^ Suc k \<Longrightarrow> length (show_nat n) \<le> Suc k"
proof (induction k arbitrary: n)
  case 0
  then show ?case by (subst show_nat.simps) simp
next
  case (Suc k)
  show ?case
  proof (cases "n < 10")
    case True
    then show ?thesis by (subst show_nat.simps) simp
  next
    case False
    have "length (show_nat (n div 10)) \<le> Suc k" using Suc.prems by (intro Suc.IH) (simp add: less_mult_imp_div_less)
    then show ?thesis using False by (subst show_nat.simps) simp
  qed
qed

lemma parse_octet_show: "parse_octet (show_nat (unat b)) = Some b"
proof -
  let ?n = "unat b"
  have n: "?n < 256" using unsigned_less [of b, where ?'a = nat] by simp
  then have "length (show_nat ?n) \<le> 3" using show_nat_length [of ?n 2] by simp
  moreover have "list_all is_digit (show_nat ?n)" using show_nat_digits by (auto simp: list_all_iff)
  moreover have "\<not> (1 < length (show_nat ?n) \<and> hd (show_nat ?n) = CHR ''0'')"
  proof (cases "?n = 0")
    case True
    then have "length (show_nat ?n) = 1" by (subst show_nat.simps) simp
    then show ?thesis by simp
  next
    case False
    then show ?thesis using show_nat_hd [of ?n] by simp
  qed
  ultimately show ?thesis using n by (simp add: parse_octet_def Let_def show_nat_value)
qed

lemma split_octets:
  "split_on (CHR ''.'') (join_with (CHR ''.'') (map (\<lambda>b :: 8 word. show_nat (unat b)) [a, b, c, d])) =
   map (\<lambda>b. show_nat (unat b)) [a, b, c, d]"
proof -
  have "CHR ''.'' \<notin> set (show_nat n)" for n using show_nat_plain by blast
  then show ?thesis by (simp add: split_on_append split_on_none)
qed

lemma ParseIP_dotted:
  assumes "length p = 4"
  shows "ParseIP (ip_string p) = To16 p"
proof -
  obtain a b c d where p: "p = [a, b, c, d]" using four_bytes [OF assms] by blast
  let ?s = "join_with (CHR ''.'') (map (\<lambda>b. show_nat (unat b)) [a, b, c, d])"
  have s: "ip_string p = ?s" by (simp add: ip_string_def p To4_def)
  have "parse_ip4 ?s = Some p"
    unfolding parse_ip4_def Let_def split_octets by (simp add: parse_octet_show p)
  moreover have "find (\<lambda>c. c \<in> {CHR ''.'', CHR '':'', CHR ''%''}) ?s = Some (CHR ''.'')"
  proof -
    have n: "\<forall>c \<in> set (show_nat n). c \<notin> {CHR ''.'', CHR '':'', CHR ''%''}" for n
      using show_nat_digits [of _ n] by (fastforce simp: is_digit_def)
    have skip: "find P (xs @ y # ys) = Some y" if "\<forall>x \<in> set xs. \<not> P x" "P y" for P xs and y :: char and ys
      using that by (induction xs) auto
    show ?thesis using skip [OF n] by simp
  qed
  ultimately show ?thesis by (simp add: s ParseIP_def)
qed

end
