(* ===== verification/Resend.thy ===== *)
theory Resend
  imports Ssrf ApiErrors PendingQueue Store
begin

text \<open>
  \<open>ResendService\<close> of \<^verbatim>\<open>internal/api/service.go\<close>: a recorded request is sent again. The network is a
  state: the answers of the resolver and of the servers, one per look-up and per exchange, and the
  connections opened so far. \<^verbatim>\<open>http.Client\<close> follows redirects as \<open>CheckRedirect\<close> allows;
  \<open>url.Parse\<close> and the quoting of \<open>%q\<close> are arguments.
\<close>

section \<open>The network\<close>

record resend_url = http_url +
  ru_Scheme :: string
  ru_Hostname :: string
  ru_Addr :: string \<comment> \<open>host and port to connect to\<close>

datatype answer = NoAnswer string | Redirect resend_url | Reply http_reply string

record network =
  nw_dns :: dns
  nw_web :: "answer list"
  nw_dialled :: "(string \<times> ip option) list" \<comment> \<open>address dialled, and the address it was checked as\<close>
  nw_sent :: "http_request list"

definition JoinHostPort :: "string \<Rightarrow> string \<Rightarrow> string" where
  "JoinHostPort host port =
     (if CHR '':'' \<in> set host then ''['' @ host @ '']:'' @ port else host @ '':'' @ port)"

text \<open>The dialler of the service: an untrusted address is resolved and checked, and that very address dialled.\<close>

definition resendDialContext :: "bool \<Rightarrow> string \<Rightarrow> network \<Rightarrow> resend_error option \<times> network" where
  "resendDialContext trusted addr nw =
     (case split_host_port addr of
        None \<Rightarrow> (Some (Failed ''address error''), nw)
      | Some (host, port) \<Rightarrow>
          if \<not> trusted then
            (case resolveAllowedIP host (nw_dns nw) of
               (Inl e, d) \<Rightarrow> (Some e, nw\<lparr>nw_dns := d\<rparr>)
             | (Inr p, d) \<Rightarrow>
                 (None, nw\<lparr>nw_dns := d, nw_dialled := nw_dialled nw @ [(JoinHostPort (ip_string p) port, Some p)]\<rparr>))
          else (None, nw\<lparr>nw_dialled := nw_dialled nw @ [(addr, None)]\<rparr>))"

definition checkResendTarget :: "resend_url \<Rightarrow> bool \<Rightarrow> dns \<Rightarrow> string option \<times> dns" where
  "checkResendTarget u trusted d =
     (if trusted then (None, d)
      else if ru_Hostname u = [] then (Some ''invalid URL: missing host'', d)
      else
        case resolveAllowedIP (ru_Hostname u) d of
          (Inl Blocked, d) \<Rightarrow>
            (Some (if ParseIP (ru_Hostname u) \<noteq> None
                   then ''target '' @ ru_Hostname u @ '' is a private/loopback address, resend blocked''
                   else ''target '' @ ru_Hostname u @ '' resolves to a private/loopback address, resend blocked''), d)
        | (Inl (Failed e), d) \<Rightarrow> (Some e, d)
        | (Inr _, d) \<Rightarrow> (None, d))"

text \<open>\<open>CheckRedirect\<close>, with the number of requests made before.\<close>

definition CheckRedirect ::
  "bool \<Rightarrow> string \<Rightarrow> resend_url \<Rightarrow> nat \<Rightarrow> dns \<Rightarrow> resend_error option \<times> dns" where
  "CheckRedirect trusted originalHost u via d =
     (if via > 10 then (Some (Failed ''stopped after 10 redirects''), d)
      else if url_Host u \<noteq> originalHost then (Some Blocked, d)
      else case checkResendTarget u trusted d of
        (Some _, d) \<Rightarrow> (Some Blocked, d)
      | (None, d) \<Rightarrow> (None, d))"

lemma CheckRedirect_bound: "CheckRedirect trusted h u via d = (None, d') \<Longrightarrow> via \<le> 10"
  by (simp add: CheckRedirect_def split: if_splits)

text \<open>\<open>client.Do\<close> from the request number \<open>via\<close> of a chain on.\<close>

function do_hops ::
  "bool \<Rightarrow> string \<Rightarrow> nat \<Rightarrow> resend_url \<Rightarrow> network \<Rightarrow> (resend_error + http_reply \<times> string) \<times> network" where
  "do_hops trusted originalHost via u nw =
     (case resendDialContext trusted (ru_Addr u) nw of
        (Some e, nw) \<Rightarrow> (Inl e, nw)
      | (None, nw) \<Rightarrow>
          (case nw_web nw of
             [] \<Rightarrow> (Inl (Failed ''EOF''), nw)
           | a # web \<Rightarrow>
               let nw = nw\<lparr>nw_web := web\<rparr> in
               case a of
                 NoAnswer e \<Rightarrow> (Inl (Failed e), nw)
               | Reply r proto \<Rightarrow> (Inr (r, proto), nw)
               | Redirect u' \<Rightarrow>
                   (case CheckRedirect trusted originalHost u' (Suc via) (nw_dns nw) of
                      (Some e, d) \<Rightarrow> (Inl e, nw\<lparr>nw_dns := d\<rparr>)
                    | (None, d) \<Rightarrow> do_hops trusted originalHost (Suc via) u' (nw\<lparr>nw_dns := d\<rparr>))))"
  by pat_completeness auto

termination
  by (relation "measure (\<lambda>(_, _, via, _, _). 11 - via)") (auto dest!: CheckRedirect_bound [OF sym])

declare do_hops.simps [simp del]

section \<open>Sending again\<close>

record resend_request =
  rq2_Method :: string
  rq2_URL :: string
  rq2_Headers :: header_map
  rq2_Body :: string

record resend_result =
  rr_ID :: int
  rr_StatusCode :: int
  rr_ResHeaders :: header_map
  rr_ResBody :: string
  rr_DurationMs :: int
  rr_SizeBytes :: int

definition maxRequestBodySize :: nat where "maxRequestBodySize = 10 * 1024 * 1024"

text \<open>The request of each attempt; \<open>None\<close> is an invalid method.\<close>

definition newRequest :: "(string \<Rightarrow> string + resend_url) \<Rightarrow> resend_request \<Rightarrow> http_request option" where
  "newRequest parse req =
     (let parse' = (\<lambda>s. case parse s of Inl _ \<Rightarrow> None | Inr u \<Rightarrow> Some (http_url.truncate u));
          body = (if rq2_Body req = [] then None else Some (rq2_Body req))
      in map_option (\<lambda>r.
             let r = r\<lparr>hr_Header := set_headers (rq2_Headers req) (hr_Header r)\<rparr> in
             if Header_Get (hr_Header r) ''User-Agent'' = []
             then r\<lparr>hr_Header := Header_Set (hr_Header r) ''User-Agent'' ''PacketLab/2.0''\<rparr> else r)
           (NewRequest parse' (rq2_Method req) (rq2_URL req) body (int (length (rq2_Body req)))))"

definition client_Do ::
  "bool \<Rightarrow> resend_url \<Rightarrow> http_request \<Rightarrow> network \<Rightarrow> (resend_error + http_reply \<times> string) \<times> network" where
  "client_Do trusted u r nw =
     do_hops trusted (url_Host u) 0 u (nw\<lparr>nw_sent := nw_sent nw @ [r]\<rparr>)"

text \<open>The attempts that are left; a refused target is not tried again.\<close>

fun send_retry ::
  "nat \<Rightarrow> bool \<Rightarrow> resend_url \<Rightarrow> http_request \<Rightarrow> network \<Rightarrow> (resend_error + http_reply \<times> string) \<times> network" where
  "send_retry 0 trusted u r nw = (Inl (Failed []), nw)"
| "send_retry (Suc k) trusted u r nw =
     (case client_Do trusted u r nw of
        (Inr p, nw) \<Rightarrow> (Inr p, nw)
      | (Inl Blocked, nw) \<Rightarrow> (Inl Blocked, nw)
      | (Inl (Failed e), nw) \<Rightarrow> if k = 0 then (Inl (Failed e), nw) else send_retry k trusted u r nw)"

text \<open>One more attempt when the server failed, whose answer replaces the first, if there is one.\<close>

definition retry_5xx ::
  "bool \<Rightarrow> resend_url \<Rightarrow> http_request \<Rightarrow> http_reply \<times> string \<Rightarrow> network \<Rightarrow> (http_reply \<times> string) \<times> network" where
  "retry_5xx trusted u r p nw =
     (if rp_StatusCode (fst p) \<ge> 500 \<and> rp_StatusCode (fst p) < 600 then
        (case client_Do trusted u r nw of
           (Inr p2, nw) \<Rightarrow> (p2, nw)
         | (Inl _, nw) \<Rightarrow> (p, nw))
      else (p, nw))"

text \<open>The record of an answer, and the answer to the caller.\<close>

definition resend_capture ::
  "resend_url \<Rightarrow> resend_request \<Rightarrow> instant \<Rightarrow> int \<Rightarrow> http_reply \<times> string \<Rightarrow> captured_request" where
  "resend_capture u req now ms p =
     (let body = take maxRequestBodySize (case rp_Body (fst p) of Some b \<Rightarrow> b | None \<Rightarrow> []) in
      zero_request
        \<lparr>cr_Method := rq2_Method req, cr_URL := rq2_URL req, cr_Host := url_Host u, cr_Path := url_Path u,
         cr_Protocol := snd p, cr_IsHTTPS := (ru_Scheme u = ''https''),
         cr_ReqHeaders := rq2_Headers req, cr_ReqBody := rq2_Body req,
         cr_StatusCode := rp_StatusCode (fst p), cr_ResHeaders := FlattenHeaders (rp_Header (fst p)),
         cr_ResBody := body, cr_DurationMs := ms, cr_SizeBytes := int (length body),
         cr_CapturedAt := Some now, cr_CaptureMode := ''resend''\<rparr>)"

definition result_of :: "int \<Rightarrow> captured_request \<Rightarrow> resend_result" where
  "result_of i c =
     \<lparr>rr_ID = i, rr_StatusCode = cr_StatusCode c, rr_ResHeaders = cr_ResHeaders c, rr_ResBody = cr_ResBody c,
      rr_DurationMs = cr_DurationMs c, rr_SizeBytes = cr_SizeBytes c\<rparr>"

text \<open>\<open>Resend\<close>: the result, the records broadcast, the store and the network afterwards.\<close>

definition Resend ::
  "(string \<Rightarrow> string + resend_url) \<Rightarrow> (string \<Rightarrow> string) \<Rightarrow> bool \<Rightarrow> instant \<Rightarrow> int \<Rightarrow> resend_request \<Rightarrow>
   store \<times> network \<Rightarrow> (app_error + resend_result) \<times> captured_request list \<times> store \<times> network" where
  "Resend parse quoted_text insecure now ms req w =
     (case w of (s, nw) \<Rightarrow>
      case parse (rq2_URL req) of
        Inl e \<Rightarrow> (Inl (ErrValidation (''invalid URL: '' @ e)), [], s, nw)
      | Inr u \<Rightarrow>
          if ru_Scheme u \<noteq> ''http'' \<and> ru_Scheme u \<noteq> ''https''
          then (Inl (ErrValidation (''unsupported scheme: '' @ ru_Scheme u)), [], s, nw)
          else
            case checkResendTarget u insecure (nw_dns nw) of
              (Some e, d) \<Rightarrow> (Inl (ErrValidation e), [], s, nw\<lparr>nw_dns := d\<rparr>)
            | (None, d) \<Rightarrow>
                let nw = nw\<lparr>nw_dns := d\<rparr> in
                case newRequest parse req of
                  None \<Rightarrow>
                    (Inl (ErrValidation (''create request: net/http: invalid method '' @ quoted_text (rq2_Method req))),
                     [], s, nw)
                | Some r \<Rightarrow>
                    (case send_retry 3 insecure u r nw of
                       (Inl Blocked, nw) \<Rightarrow>
                         (Inl (ErrValidation ''target not allowed (private/loopback address or cross-host redirect)''),
                          [], s, nw)
                     | (Inl (Failed e), nw) \<Rightarrow>
                         (Inl (ErrBadGateway (''send request after 3 retries: '' @ e)), [], s, nw)
                     | (Inr p, nw) \<Rightarrow>
                         (case retry_5xx insecure u r p nw of (p, nw) \<Rightarrow>
                            let c = resend_capture u req now ms p in
                            case Save now c s of
                              (Inl _, c, s) \<Rightarrow> (Inl (ErrInternal ''failed to save resend result''), [], s, nw)
                            | (Inr i, c, s) \<Rightarrow> (Inr (result_of i c), [c], s, nw))))"

section \<open>What is dialled\<close>

text \<open>A connection is safe when the very address it goes to was checked.\<close>

definition safe_dial :: "string \<times> ip option \<Rightarrow> bool" where
  "safe_dial x \<longleftrightarrow> (\<exists>ip port. snd x = Some ip \<and> \<not> blockedIP ip \<and> fst x = JoinHostPort (ip_string ip) port)"

text \<open>Between two states at most \<open>n\<close> requests were sent and \<open>m\<close> connections opened, all of them safe if untrusted.\<close>

definition dials :: "bool \<Rightarrow> nat \<Rightarrow> nat \<Rightarrow> network \<Rightarrow> network \<Rightarrow> bool" where
  "dials trusted n m nw nw' \<longleftrightarrow>
     (\<exists>new. nw_dialled nw' = nw_dialled nw @ new \<and> length new \<le> m \<and> (\<not> trusted \<longrightarrow> list_all safe_dial new)) \<and>
     length (nw_sent nw') \<le> length (nw_sent nw) + n"

lemma dials_same: "nw_dialled nw' = nw_dialled nw \<Longrightarrow> nw_sent nw' = nw_sent nw \<Longrightarrow> dials trusted n m nw nw'"
  by (simp add: dials_def)

lemma dials_trans:
  assumes "dials trusted n m nw1 nw2" and "dials trusted n' m' nw2 nw3"
  shows "dials trusted (n + n') (m + m') nw1 nw3"
proof -
  obtain a where "nw_dialled nw2 = nw_dialled nw1 @ a" "length a \<le> m" "\<not> trusted \<longrightarrow> list_all safe_dial a"
    using assms(1) unfolding dials_def by blast
  moreover obtain b where "nw_dialled nw3 = nw_dialled nw2 @ b" "length b \<le> m'" "\<not> trusted \<longrightarrow> list_all safe_dial b"
    using assms(2) unfolding dials_def by blast
  ultimately show ?thesis using assms by (auto simp: dials_def intro!: exI [of _ "a @ b"])
qed

lemma dials_mono: "dials trusted n m nw nw' \<Longrightarrow> n \<le> n' \<Longrightarrow> m \<le> m' \<Longrightarrow> dials trusted n' m' nw nw'"
  by (fastforce simp: dials_def)

lemma dials_frame [simp]:
  "dials trusted n m nw (nw'\<lparr>nw_dns := d\<rparr>) = dials trusted n m nw nw'"
  "dials trusted n m nw (nw'\<lparr>nw_web := a\<rparr>) = dials trusted n m nw nw'"
  "dials trusted n m (nw\<lparr>nw_dns := d\<rparr>) nw' = dials trusted n m nw nw'"
  "dials trusted n m (nw\<lparr>nw_web := a\<rparr>) nw' = dials trusted n m nw nw'"
  by (simp_all add: dials_def)

lemma resolveAllowedIP_allowed: "resolveAllowedIP host d = (Inr p, d') \<Longrightarrow> \<not> blockedIP p"
  by (auto simp: resolveAllowedIP_def split: option.splits list.splits prod.splits if_splits)

lemma resendDialContext_dials:
  assumes "resendDialContext trusted addr nw = (r, nw')"
  shows "dials trusted 0 1 nw nw'"
proof (cases "split_host_port addr")
  case None
  then show ?thesis using assms by (simp add: resendDialContext_def dials_same)
next
  case (Some hp)
  obtain host port where hp: "hp = (host, port)" by fastforce
  obtain x d where x: "resolveAllowedIP host (nw_dns nw) = (x, d)" by fastforce
  consider "trusted" | e where "\<not> trusted" "x = Inl e" | p where "\<not> trusted" "x = Inr p" by (cases x) auto
  then show ?thesis
  proof cases
    case 3
    then show ?thesis using assms Some x resolveAllowedIP_allowed [of host "nw_dns nw" p d]
      by (auto simp: resendDialContext_def hp dials_def safe_dial_def)
  qed (use assms Some x in \<open>auto simp: resendDialContext_def hp dials_def\<close>)
qed

text \<open>A chain of redirects opens one connection per request of it, eleven at most.\<close>

lemma do_hops_dials:
  "do_hops trusted h via u nw = (r, nw') \<Longrightarrow> via \<le> 10 \<Longrightarrow> dials trusted 0 (11 - via) nw nw'"
proof (induction trusted h via u nw arbitrary: r nw' rule: do_hops.induct)
  case (1 trusted h via u nw)
  obtain e nw1 where d: "resendDialContext trusted (ru_Addr u) nw = (e, nw1)" by fastforce
  have d1: "dials trusted 0 1 nw nw1" by (rule resendDialContext_dials [OF d])
  show ?case
  proof (cases "e = None \<and> (\<exists>u' web. nw_web nw1 = Redirect u' # web)")
    case False
    then have "nw_dialled nw' = nw_dialled nw1 \<and> nw_sent nw' = nw_sent nw1"
      using "1.prems"(1) d by (auto simp: do_hops.simps [of trusted h via u nw] Let_def split: option.splits list.splits answer.splits)
    then have "dials trusted 0 0 nw1 nw'" by (simp add: dials_same)
    from dials_trans [OF d1 this] show ?thesis by (rule dials_mono) (use "1.prems"(2) in simp_all)
  next
    case True
    then obtain u' web where e: "e = None" and w: "nw_web nw1 = Redirect u' # web" by blast
    obtain x ds where c: "CheckRedirect trusted h u' (Suc via) (nw_dns nw1) = (x, ds)" by fastforce
    show ?thesis
    proof (cases x)
      case (Some er)
      then have "nw' = nw1\<lparr>nw_web := web, nw_dns := ds\<rparr>"
        using "1.prems"(1) d e w c by (simp add: do_hops.simps [of trusted h via u nw] Let_def)
      then show ?thesis using d1 dials_mono [OF d1] "1.prems"(2) by simp
    next
      case None
      have b: "Suc via \<le> 10" using CheckRedirect_bound c None by blast
      have "do_hops trusted h (Suc via) u' (nw1\<lparr>nw_web := web, nw_dns := ds\<rparr>) = (r, nw')"
        using "1.prems"(1) d e w c None by (simp add: do_hops.simps [of trusted h via u nw] Let_def)
      from "1.IH" [OF d [symmetric] e w HOL.refl HOL.refl _ None this b] c
      have "dials trusted 0 (11 - Suc via) nw1 nw'" by simp
      from dials_trans [OF d1 this] show ?thesis by (rule dials_mono) (use b in simp_all)
    qed
  qed
qed

lemma client_Do_dials: "client_Do trusted u r nw = (x, nw') \<Longrightarrow> dials trusted 1 11 nw nw'"
  using do_hops_dials [of trusted "url_Host u" 0 u "nw\<lparr>nw_sent := nw_sent nw @ [r]\<rparr>" x nw']
  by (auto simp: client_Do_def dials_def)

lemma send_retry_dials:
  "send_retry k trusted u r nw = (x, nw') \<Longrightarrow> dials trusted k (11 * k) nw nw'"
proof (induction k trusted u r nw arbitrary: x nw' rule: send_retry.induct)
  case (2 k trusted u r nw)
  obtain y nw1 where c: "client_Do trusted u r nw = (y, nw1)" by fastforce
  note d = client_Do_dials [OF c]
  show ?case
  proof (cases "\<exists>e. y = Inl (Failed e) \<and> k \<noteq> 0")
    case True
    then have "dials trusted k (11 * k) nw1 nw'" using 2 c by auto
    from dials_trans [OF d this] show ?thesis by simp
  next
    case False
    then have "nw' = nw1" using "2.prems" c by (auto split: sum.splits resend_error.splits if_splits)
    then show ?thesis using dials_mono [OF d] by simp
  qed
qed (simp add: dials_same)

lemma retry_5xx_dials: "retry_5xx trusted u r p nw = (p', nw') \<Longrightarrow> dials trusted 1 11 nw nw'"
  using client_Do_dials [of trusted u r nw _ nw']
  by (auto simp: retry_5xx_def dials_same split: if_splits prod.splits sum.splits)

text \<open>C9: A request sent again reaches no internal address unless the user allowed it: however the resolver
  answers, and however often it changes its answers, however the servers redirect and fail, every
  connection that is opened goes to an address that was itself checked against the forbidden ranges;
  and at most four requests are sent over at most 44 connections.\<close>

theorem resend_contained:
  assumes "Resend parse q insecure now ms req (s, nw) = (res, calls, s', nw')"
  shows "\<exists>new. nw_dialled nw' = nw_dialled nw @ new \<and> length new \<le> 44 \<and>
      length (nw_sent nw') \<le> length (nw_sent nw) + 4 \<and>
      (insecure \<or> list_all safe_dial new)"
proof -
  have "dials insecure 4 44 nw nw'"
  proof (cases "parse (rq2_URL req)")
    case (Inl e)
    then show ?thesis using assms by (simp add: Resend_def dials_same)
  next
    case (Inr u)
    obtain c d where c: "checkResendTarget u insecure (nw_dns nw) = (c, d)" by fastforce
    show ?thesis
    proof (cases "(ru_Scheme u = ''http'' \<or> ru_Scheme u = ''https'') \<and> c = None \<and> newRequest parse req \<noteq> None")
      case False
      then show ?thesis
        using assms Inr c by (auto simp: Resend_def dials_same Let_def split: if_splits option.splits)
    next
      case True
      then obtain r where r: "newRequest parse req = Some r" by blast
      obtain y nw1 where y: "send_retry 3 insecure u r (nw\<lparr>nw_dns := d\<rparr>) = (y, nw1)" by fastforce
      note d1 = send_retry_dials [OF y, simplified]
      show ?thesis
      proof (cases y)
        case (Inl e)
        then have "nw' = nw1" using assms Inr c True r y by (cases e) (auto simp: Resend_def Let_def)
        then show ?thesis using dials_mono [OF d1] by simp
      next
        case (Inr p)
        obtain p2 nw2 where p2: "retry_5xx insecure u r p nw1 = (p2, nw2)" by fastforce
        have "nw' = nw2"
          using assms \<open>parse (rq2_URL req) = Inr u\<close> c True r y Inr p2
          by (auto simp: Resend_def Let_def split: prod.splits sum.splits)
        then show ?thesis using dials_trans [OF d1 retry_5xx_dials [OF p2]] by simp
      qed
    qed
  qed
  then show ?thesis by (auto simp: dials_def)
qed

text \<open>A name that is rebound to the loopback address between the check and the connection.\<close>

definition rebound_url :: resend_url where
  "rebound_url = \<lparr>url_String = ''http://a/'', url_Host = ''a'', url_Path = ''/'', ru_Scheme = ''http'',
     ru_Hostname = ''a'', ru_Addr = ''a:80''\<rparr>"

definition rebound_network :: network where
  "rebound_network = \<lparr>nw_dns = [Some [[93, 184, 215, 14]], Some [[127, 0, 0, 1]]], nw_web = [], nw_dialled = [], nw_sent = []\<rparr>"

definition empty_store :: store where
  "empty_store = \<lparr>st_requests = [], st_logs = [], st_settings = [], st_rules = [],
     st_hostCache = emptyHostCache, st_hostCacheTTL = 0, st_replies = []\<rparr>"

lemma byte_blocked: "\<not> blockedIP [93, 184, 215, 14]" "blockedIP [127, 0, 0, 1]"
  by (simp_all add: blocked_four blocked4_def in_cidr4)

theorem resend_contained_witness:
  "\<exists>res calls s' nw'.
     Resend (\<lambda>_. Inr rebound_url) (\<lambda>s. s) False 0 0 \<lparr>rq2_Method = ''GET'', rq2_URL = ''http://a/'', rq2_Headers = [], rq2_Body = []\<rparr>
       (empty_store, rebound_network) = (res, calls, s', nw') \<and>
     list_all safe_dial (nw_dialled nw') \<and> length (nw_dialled nw') \<le> 44"
proof -
  obtain res calls s' nw' where r: "Resend (\<lambda>_. Inr rebound_url) (\<lambda>s. s) False 0 0
      \<lparr>rq2_Method = ''GET'', rq2_URL = ''http://a/'', rq2_Headers = [], rq2_Body = []\<rparr>
      (empty_store, rebound_network) = (res, calls, s', nw')" by (metis prod_cases4)
  from resend_contained [OF r] r show ?thesis by (auto simp: rebound_network_def)
qed

text \<open>That connection is refused: nothing is dialled.\<close>

lemma rebinding_refused:
  "resendDialContext False ''a:80'' (rebound_network\<lparr>nw_dns := [Some [[127, 0, 0, 1]]]\<rparr>) =
   (Some Blocked, rebound_network\<lparr>nw_dns := []\<rparr>)"
proof -
  have "split_host_port ''a:80'' = Some (''a'', ''80'')"
    using split_host_port_plain [of "''a''" "''80''"] by simp
  then show ?thesis
    by (simp add: resendDialContext_def resolveAllowedIP_def ParseIP_def LookupIPAddr_def byte_blocked rebound_network_def)
qed

section \<open>What is recorded\<close>

lemma resend_record:
  assumes "Resend parse q insecure now ms req (s, nw) = (res, calls, s', nw')"
  shows "case res of
      Inr r \<Rightarrow> \<exists>u p. parse (rq2_URL req) = Inr u \<and> calls = [resend_capture u req now ms p] \<and>
        r = result_of (rr_ID r) (hd calls) \<and> st_requests s' = st_requests s @ [new_row (rr_ID r) (hd calls)] \<and>
        cr_ID (hd calls) = 0
    | Inl e \<Rightarrow> calls = [] \<and> (s' = s \<or> e = ErrInternal ''failed to save resend result'')"
proof (cases "parse (rq2_URL req)")
  case (Inl e)
  then show ?thesis using assms by (auto simp: Resend_def)
next
  case (Inr u)
  obtain c d where c: "checkResendTarget u insecure (nw_dns nw) = (c, d)" by fastforce
  show ?thesis
  proof (cases "(ru_Scheme u = ''http'' \<or> ru_Scheme u = ''https'') \<and> c = None \<and> newRequest parse req \<noteq> None")
    case False
    then show ?thesis using assms Inr c by (auto simp: Resend_def Let_def split: if_splits option.splits)
  next
    case True
    then obtain r where r: "newRequest parse req = Some r" by blast
    obtain y nw1 where y: "send_retry 3 insecure u r (nw\<lparr>nw_dns := d\<rparr>) = (y, nw1)" by fastforce
    show ?thesis
    proof (cases y)
      case (Inl e)
      then show ?thesis using assms Inr c True r y by (cases e) (auto simp: Resend_def Let_def)
    next
      case (Inr p)
      obtain a b nw2 where p2: "retry_5xx insecure u r p nw1 = ((a, b), nw2)" by (metis surj_pair)
      let ?c = "resend_capture u req now ms (a, b)"
      have st: "stamp now ?c = ?c" by (simp add: resend_capture_def Let_def stamp_def)
      have id: "cr_ID ?c = 0" by (simp add: resend_capture_def Let_def zero_request_def)
      have "(case Save now ?c s of
          (Inl _, c, s) \<Rightarrow> (Inl (ErrInternal ''failed to save resend result''), [], s, nw2)
        | (Inr i, c, s) \<Rightarrow> (Inr (result_of i c), [c], s, nw2)) = (res, calls, s', nw')"
        using assms \<open>parse (rq2_URL req) = Inr u\<close> c True r y Inr p2 by (auto simp: Resend_def Let_def)
      then show ?thesis
        using \<open>parse (rq2_URL req) = Inr u\<close> st id
        by (auto simp: Save_def Let_def next_reply_def result_of_def split: list.splits reply.splits option.splits)
           blast
    qed
  qed
qed



end
