(* ===== verification/ApiServer.thy ===== *)
theory ApiServer
  imports ApiMiddleware ApiMap Har LlmStats Resend WsHub Capture
begin

text \<open>
  The handlers of \<^verbatim>\<open>internal/api/server.go\<close>, on one state: the store and its notes, the interceptor, the
  network that the resend service sees, the hub and the capture engines. A handler is one step; the
  interleavings of the store, the interceptor and the hub are those of their own theories. A request
  reads the clock, the answers of the libraries and the driver's texts from \<open>api_env\<close>.
\<close>

section \<open>State and answers\<close>

text \<open>The engines ever made, each running or not, and the one the server knows.\<close>

record api_server =
  sv_store :: store
  sv_notes :: "api_note list"
  sv_interceptor :: "interceptor option"
  sv_network :: network
  sv_hub :: ws_hub
  sv_engines :: "bool list"
  sv_captureEngine :: "nat option"
  sv_proxyRunning :: bool
  sv_insecure :: bool \<comment> \<open>of the resend service\<close>

datatype api_data =
    Strings "(string \<times> string) list"
  | Readiness string "(string \<times> string) list"
  | Request_page "request_list_item list" nat int int
  | One_request captured_request
  | Starred_page "request_list_item list"
  | Starred int bool
  | Resent resend_result
  | Totals nat nat int
  | Proxy_status bool
  | Map_tree api_node
  | Hosts "string list" nat int
  | Noted api_note
  | Pending "pending_request list"
  | Rules "intercept_rule list"
  | One_rule intercept_rule
  | Logs "log_row list" nat int int
  | Capture_status bool bool
  | Interfaces "string list"
  | Capture_started string string
  | Cleaned nat nat int
  | Metrics string "bool option"
  | Llm_page "llm_item list" nat int
  | Llm_exchange int string
  | Llm_stats llm_totals "model_stat list" "provider_stat list"
  | Page string

record 'time api_env =
  ev_now :: instant
  ev_ms :: int
  ev_like :: like_op
  ev_log_text :: "instant \<Rightarrow> string"
  ev_text_le :: "string \<Rightarrow> string \<Rightarrow> bool"
  ev_hosts :: host_query
  ev_extract :: "string \<Rightarrow> string \<Rightarrow> string option"
  ev_dec_time :: "'time decoder"
  ev_time0 :: 'time
  ev_time_ok :: "json \<Rightarrow> bool"
  ev_parse :: "string \<Rightarrow> string + resend_url"
  ev_quote :: "string \<Rightarrow> string"
  ev_order :: "(string \<times> (string \<times> method_info) list) list \<Rightarrow> (string \<times> (string \<times> method_info) list) list"
  ev_morder :: "(string \<times> method_info) list \<Rightarrow> (string \<times> method_info) list"
  ev_devices :: "pcap_device list option"
  ev_devices_error :: string
  ev_start :: "string \<Rightarrow> string \<Rightarrow> string option" \<comment> \<open>the error of \<open>Start\<close> on an interface and a filter\<close>
  ev_upgrade :: "app_error option"
  ev_time_text :: "instant option \<Rightarrow> string"
  ev_llm_stats :: "string \<Rightarrow> stat_row option"
  ev_tie_models :: "model_stat list \<Rightarrow> model_stat list"
  ev_tie_providers :: "provider_stat list \<Rightarrow> provider_stat list"
  ev_metrics :: string
  ev_frontend :: "api_request \<Rightarrow> http_header \<Rightarrow> api_data outcome"

type_synonym server_handler = "(api_server, api_data) handler"

text \<open>A raw message must be JSON; everything else can be marshalled.\<close>

definition marshals :: "api_data \<Rightarrow> bool" where
  "marshals d \<longleftrightarrow> (case d of Llm_exchange i raw \<Rightarrow> parse_json raw \<noteq> None | _ \<Rightarrow> True)"

definition reply_json :: "http_header \<Rightarrow> int \<Rightarrow> api_data \<Rightarrow> api_data outcome" where
  "reply_json h status d = writeJSON marshals h status (Json_body d)"

section \<open>Reading a request\<close>

text \<open>
  \<^verbatim>\<open>json.NewDecoder(r.Body).Decode(&v)\<close> behind \<^verbatim>\<open>http.MaxBytesReader\<close>: the first JSON value of the body is
  read and what follows it is not; a value that goes beyond the limit, or needs the byte after it to
  be seen to end, fails.
\<close>

datatype 'a decoded = End_of_file | Malformed | Decoded 'a

definition first_value :: "string \<Rightarrow> (nat \<times> json) option" where
  "first_value s =
     (case find (\<lambda>n. parse_json (take n s) \<noteq> None) [0..<Suc (length s)] of
        None \<Rightarrow> None
      | Some n \<Rightarrow> map_option (\<lambda>j. (n, j)) (parse_json (take n s)))"

definition self_closing :: "json \<Rightarrow> bool" where
  "self_closing j \<longleftrightarrow> (case json_val j of JObj _ \<Rightarrow> True | JArr _ \<Rightarrow> True | _ \<Rightarrow> False)"

definition Decode :: "'a fields \<Rightarrow> 'a \<Rightarrow> api_request \<Rightarrow> 'a decoded" where
  "Decode fs z r =
     (let body = (case hr_Body r of Some b \<Rightarrow> b | None \<Rightarrow> []);
          whole = (length body \<le> maxRequestBodySize);
          seen = take maxRequestBodySize body
      in if whole \<and> list_all json_space body then End_of_file
         else case first_value seen of
           None \<Rightarrow> Malformed
         | Some (n, j) \<Rightarrow>
             if \<not> whole \<and> n = length seen \<and> \<not> self_closing j then Malformed
             else (case dec_struct fs j z of None \<Rightarrow> Malformed | Some x \<Rightarrow> Decoded x))"

text \<open>A map of strings: what an object repeats is overwritten, \<^verbatim>\<open>null\<close> is the empty string.\<close>

fun dec_entries :: "(string \<times> json) list \<Rightarrow> header_map \<Rightarrow> header_map option" where
  "dec_entries [] m = Some m"
| "dec_entries ((k, j) # ms) m =
     (case dec_string j [] of None \<Rightarrow> None | Some v \<Rightarrow> dec_entries ms (AList.update k v m))"

definition dec_map :: "header_map decoder" where
  "dec_map j old = (case json_val j of JObj ms \<Rightarrow> dec_entries ms old | JNull \<Rightarrow> Some [] | _ \<Rightarrow> None)"

text \<open>\<^verbatim>\<open>strconv.ParseInt(s, 10, 64)\<close>.\<close>

definition ParseInt :: "string \<Rightarrow> int option" where
  "ParseInt s =
     (if s \<noteq> [] \<and> hd s = CHR ''+''
      then (if tl s \<noteq> [] \<and> hd (tl s) = CHR ''-'' then None else parse_int64 (tl s))
      else parse_int64 s)"

text \<open>The path behind a prefix; a shorter path would panic.\<close>

definition path_after :: "string \<Rightarrow> api_request \<Rightarrow> string option" where
  "path_after pre r = (if length (ar_path r) < length pre then None else Some (drop (length pre) (ar_path r)))"

definition clampLimit :: "int \<Rightarrow> int" where
  "clampLimit n = (if n \<le> 0 then 50 else if n > 200 then 200 else n)"

definition not_allowed :: server_handler where
  "not_allowed r h sv = (writeAppError r h ErrMethodNotAllowed, sv)"

section \<open>Health\<close>

definition handleHealth :: server_handler where
  "handleHealth r h sv = (reply_json h 200 (Strings [(''status'', ''ok'')]), sv)"

definition handleReady :: server_handler where
  "handleReady r h sv =
     (case Stats (sv_store sv) of
        (Inl _, s) \<Rightarrow> (reply_json h 503 (Readiness ''error'' [(''database'', ''error'')]), sv\<lparr>sv_store := s\<rparr>)
      | (Inr _, s) \<Rightarrow> (reply_json h 200 (Readiness ''ok'' [(''database'', ''ok'')]), sv\<lparr>sv_store := s\<rparr>))"

section \<open>Requests\<close>

definition handleListRequests :: "'time api_env \<Rightarrow> server_handler" where
  "handleListRequests ev r h sv =
     (if hr_Method r \<noteq> ''GET'' then not_allowed r h sv
      else
        let most = clampLimit (atoi (query_get r ''limit''));
            skip = max 0 (atoi (query_get r ''offset''))
        in case List_requests (ev_like ev) (query_get r ''method'') (query_get r ''search'') (query_get r ''host'')
                  (query_get r ''error_only'' = ''true'') most skip (sv_store sv) of
             (Inl _, s) \<Rightarrow> (writeAppError r h (ErrInternal ''Failed to list requests''), sv\<lparr>sv_store := s\<rparr>)
           | (Inr (items, n), s) \<Rightarrow> (reply_json h 200 (Request_page items n most skip), sv\<lparr>sv_store := s\<rparr>))"

definition getRequest :: "int \<Rightarrow> server_handler" where
  "getRequest i r h sv =
     (case Get i (sv_store sv) of
        (Inl _, s) \<Rightarrow> (writeAppError r h (ErrNotFound ''Request'' (show_int i)), sv\<lparr>sv_store := s\<rparr>)
      | (Inr req, s) \<Rightarrow> (reply_json h 200 (One_request req), sv\<lparr>sv_store := s\<rparr>))"

definition deleteRequest :: "int \<Rightarrow> server_handler" where
  "deleteRequest i r h sv =
     (case Delete i (sv_store sv) of
        (Some _, s) \<Rightarrow> (writeAppError r h (ErrInternal ''Failed to delete request''), sv\<lparr>sv_store := s\<rparr>)
      | (None, s) \<Rightarrow> (reply_json h 200 (Strings [(''status'', ''deleted'')]), sv\<lparr>sv_store := s\<rparr>))"

definition handleRequestByID :: server_handler where
  "handleRequestByID r h sv =
     (case path_after ''/api/requests/'' r of
        None \<Rightarrow> (Panic h, sv)
      | Some i \<Rightarrow>
          if i = [] then (writeAppError r h (ErrValidation ''Missing id''), sv)
          else case ParseInt i of
            None \<Rightarrow> (writeAppError r h (ErrValidation ''Invalid id''), sv)
          | Some i \<Rightarrow>
              if hr_Method r = ''GET'' then getRequest i r h sv
              else if hr_Method r = ''DELETE'' then deleteRequest i r h sv
              else not_allowed r h sv)"

record starred_body =
  sb_ID :: int
  sb_Starred :: bool

definition starred_fields :: "starred_body fields" where
  "starred_fields = [field ''id'' sb_ID sb_ID_update dec_int, field ''starred'' sb_Starred sb_Starred_update dec_bool]"

definition handleStarred :: server_handler where
  "handleStarred r h sv =
     (if hr_Method r = ''GET'' then
        (case ListStarred (atoi (query_get r ''limit'')) (sv_store sv) of
           (Inl _, s) \<Rightarrow> (writeAppError r h (ErrInternal ''Failed to list starred''), sv\<lparr>sv_store := s\<rparr>)
         | (Inr rows, s) \<Rightarrow> (reply_json h 200 (Starred_page (map scanRequestListItem rows)), sv\<lparr>sv_store := s\<rparr>))
      else if hr_Method r = ''POST'' then
        (case Decode starred_fields \<lparr>sb_ID = 0, sb_Starred = False\<rparr> r of
           Decoded b \<Rightarrow>
             if sb_ID b \<le> 0 then (writeAppError r h (ErrValidation ''id required''), sv)
             else (case SetStarred (sb_ID b) (sb_Starred b) (sv_store sv) of
                     (Some (ErrRequestNotFound _), s) \<Rightarrow>
                       (writeAppError r h (ErrNotFound ''Request'' (show_int (sb_ID b))), sv\<lparr>sv_store := s\<rparr>)
                   | (Some (DriverErr _), s) \<Rightarrow>
                       (writeAppError r h (ErrInternal ''Failed to set starred''), sv\<lparr>sv_store := s\<rparr>)
                   | (None, s) \<Rightarrow> (reply_json h 200 (Starred (sb_ID b) (sb_Starred b)), sv\<lparr>sv_store := s\<rparr>))
         | _ \<Rightarrow> (writeAppError r h (ErrValidation ''Invalid JSON''), sv))
      else not_allowed r h sv)"

definition resend_fields :: "resend_request fields" where
  "resend_fields =
     [field ''method'' rq2_Method rq2_Method_update dec_string, field ''url'' rq2_URL rq2_URL_update dec_string,
      field ''headers'' rq2_Headers rq2_Headers_update dec_map, field ''body'' rq2_Body rq2_Body_update dec_string]"

text \<open>Every error of \<open>Resend\<close> is an application error.\<close>

definition handleResend :: "'time api_env \<Rightarrow> server_handler" where
  "handleResend ev r h sv =
     (if hr_Method r \<noteq> ''POST'' then not_allowed r h sv
      else case Decode resend_fields \<lparr>rq2_Method = [], rq2_URL = [], rq2_Headers = [], rq2_Body = []\<rparr> r of
        Decoded b \<Rightarrow>
          if rq2_Method b = [] then (writeAppError r h (ErrValidation ''Method is required''), sv)
          else if rq2_URL b = [] then (writeAppError r h (ErrValidation ''URL is required''), sv)
          else (case Resend (ev_parse ev) (ev_quote ev) (sv_insecure sv) (ev_now ev) (ev_ms ev) b (sv_store sv, sv_network sv) of
                  (Inl e, _, s, nw) \<Rightarrow> (writeAppError r h e, sv\<lparr>sv_store := s, sv_network := nw\<rparr>)
                | (Inr res, calls, s, nw) \<Rightarrow>
                    (reply_json h 200 (Resent res),
                     sv\<lparr>sv_store := s, sv_network := nw, sv_hub := fold broadcast calls (sv_hub sv)\<rparr>))
      | _ \<Rightarrow> (writeAppError r h (ErrValidation ''Invalid JSON or body too large (max 10MB)''), sv))"

definition handleClear :: server_handler where
  "handleClear r h sv =
     (if hr_Method r \<noteq> ''POST'' then not_allowed r h sv
      else case Clear (sv_store sv) of
        (Some _, s) \<Rightarrow> (writeAppError r h (ErrInternal ''Failed to clear''), sv\<lparr>sv_store := s\<rparr>)
      | (None, s) \<Rightarrow> (reply_json h 200 (Strings [(''status'', ''cleared'')]), sv\<lparr>sv_store := s\<rparr>))"

definition handleStats :: server_handler where
  "handleStats r h sv =
     (case Stats (sv_store sv) of
        (Inl _, s) \<Rightarrow> (writeAppError r h (ErrInternal ''Failed to get stats''), sv\<lparr>sv_store := s\<rparr>)
      | (Inr (n, errs, bytes), s) \<Rightarrow> (reply_json h 200 (Totals n errs bytes), sv\<lparr>sv_store := s\<rparr>))"

definition handleProxyStatus :: server_handler where
  "handleProxyStatus r h sv =
     (if hr_Method r \<noteq> ''GET'' then not_allowed r h sv
      else (reply_json h 200 (Proxy_status (sv_proxyRunning sv)), sv))"

section \<open>API map and notes\<close>

definition handleAPIMap :: "'time api_env \<Rightarrow> server_handler" where
  "handleAPIMap ev r h sv =
     (if hr_Method r \<noteq> ''GET'' then not_allowed r h sv
      else if query_get r ''host'' = [] then (writeAppError r h (ErrValidation ''host required''), sv)
      else case GetAPIMap (ev_like ev) (ev_order ev) (ev_morder ev) (query_get r ''host'') (sv_store sv, sv_notes sv) of
        (Inl _, s) \<Rightarrow> (writeAppError r h (ErrInternal ''Failed to build API map''), sv\<lparr>sv_store := s\<rparr>)
      | (Inr t, s) \<Rightarrow> (reply_json h 200 (Map_tree t), sv\<lparr>sv_store := s\<rparr>))"

definition handleAPIHosts :: "'time api_env \<Rightarrow> server_handler" where
  "handleAPIHosts ev r h sv =
     (if hr_Method r \<noteq> ''GET'' then not_allowed r h sv
      else
        let skip = max 0 (atoi (query_get r ''offset'')) in
        case ListHosts (ev_hosts ev) (ev_now ev) (query_get r ''search'') (atoi (query_get r ''limit'')) skip (sv_store sv) of
          (Inl _, s) \<Rightarrow> (writeAppError r h (ErrInternal ''Failed to list hosts''), sv\<lparr>sv_store := s\<rparr>)
        | (Inr (hosts, n), s) \<Rightarrow> (reply_json h 200 (Hosts hosts n skip), sv\<lparr>sv_store := s\<rparr>))"

record note_body =
  nb_Host :: string
  nb_Path :: string
  nb_Method :: string
  nb_Note :: string

definition note_fields :: "note_body fields" where
  "note_fields =
     [field ''host'' nb_Host nb_Host_update dec_string, field ''path'' nb_Path nb_Path_update dec_string,
      field ''method'' nb_Method nb_Method_update dec_string, field ''note'' nb_Note nb_Note_update dec_string]"

definition handleAPINotes :: "'time api_env \<Rightarrow> server_handler" where
  "handleAPINotes ev r h sv =
     (if hr_Method r \<noteq> ''POST'' then not_allowed r h sv
      else case Decode note_fields \<lparr>nb_Host = [], nb_Path = [], nb_Method = [], nb_Note = []\<rparr> r of
        Decoded b \<Rightarrow>
          if nb_Host b = [] then (writeAppError r h (ErrValidation ''host is required''), sv)
          else
            let note = \<lparr>an_ID = 0, an_Host = nb_Host b, an_Path = (if nb_Path b = [] then ''/'' else nb_Path b),
                        an_Method = nb_Method b, an_Note = nb_Note b, an_CreatedAt = 0, an_UpdatedAt = 0\<rparr>
            in case SaveAPINote (ev_now ev) note (sv_store sv, sv_notes sv) of
                 (Inl _, s, notes) \<Rightarrow>
                   (writeAppError r h (ErrInternal ''Failed to save note''), sv\<lparr>sv_store := s, sv_notes := notes\<rparr>)
               | (Inr i, s, notes) \<Rightarrow>
                   (reply_json h 200 (Noted (note\<lparr>an_ID := i\<rparr>)), sv\<lparr>sv_store := s, sv_notes := notes\<rparr>)
      | _ \<Rightarrow> (writeAppError r h (ErrValidation ''Invalid JSON''), sv))"

definition handleAPINoteByID :: server_handler where
  "handleAPINoteByID r h sv =
     (if hr_Method r \<noteq> ''DELETE'' then not_allowed r h sv
      else case path_after ''/api/apimap/notes/'' r of
        None \<Rightarrow> (Panic h, sv)
      | Some i \<Rightarrow>
          (case ParseInt i of
             None \<Rightarrow> (writeAppError r h (ErrValidation ''Invalid id''), sv)
           | Some i \<Rightarrow>
               (case DeleteAPINote i (sv_store sv, sv_notes sv) of
                  (Some _, s, notes) \<Rightarrow>
                    (writeAppError r h (ErrInternal ''Failed to delete note''), sv\<lparr>sv_store := s, sv_notes := notes\<rparr>)
                | (None, s, notes) \<Rightarrow>
                    (reply_json h 200 (Strings [(''status'', ''deleted'')]), sv\<lparr>sv_store := s, sv_notes := notes\<rparr>))))"

section \<open>Interception\<close>

record mode_body =
  mb_Mode :: string

definition mode_fields :: "mode_body fields" where
  "mode_fields = [field ''mode'' mb_Mode mb_Mode_update dec_string]"

definition handleInterceptMode :: server_handler where
  "handleInterceptMode r h sv =
     (case sv_interceptor sv of
        None \<Rightarrow> (writeAppError r h (ErrUnavailable ''Interceptor not available''), sv)
      | Some ic \<Rightarrow>
          if hr_Method r = ''GET'' then (reply_json h 200 (Strings [(''mode'', GetMode ic)]), sv)
          else if hr_Method r = ''POST'' then
            (case Decode mode_fields \<lparr>mb_Mode = []\<rparr> r of
               Decoded b \<Rightarrow>
                 if mb_Mode b \<noteq> ''auto'' \<and> mb_Mode b \<noteq> ''manual''
                 then (writeAppError r h (ErrValidation ''mode must be auto or manual''), sv)
                 else (reply_json h 200 (Strings [(''mode'', mb_Mode b)]),
                       sv\<lparr>sv_interceptor := Some (SetMode (mb_Mode b) ic),
                          sv_store := snd (SetSetting ''intercept_mode'' (mb_Mode b) (sv_store sv))\<rparr>)
             | _ \<Rightarrow> (writeAppError r h (ErrValidation ''Invalid JSON''), sv))
          else not_allowed r h sv)"

definition handleInterceptPending :: server_handler where
  "handleInterceptPending r h sv =
     (if hr_Method r \<noteq> ''GET'' then not_allowed r h sv
      else case sv_interceptor sv of
        None \<Rightarrow> (reply_json h 200 (Pending []), sv)
      | Some ic \<Rightarrow> (reply_json h 200 (Pending (GetPending ic)), sv))"

definition result_fields :: "intercept_result fields" where
  "result_fields =
     [field ''request_id'' ires_RequestID ires_RequestID_update dec_string,
      field ''action'' ires_Action ires_Action_update dec_string,
      field ''method'' ires_Method ires_Method_update dec_string,
      field ''url'' ires_URL ires_URL_update dec_string,
      field ''new_headers'' ires_NewHeaders ires_NewHeaders_update dec_map,
      field ''new_body'' ires_NewBody ires_NewBody_update dec_string,
      field ''status_code'' ires_StatusCode ires_StatusCode_update dec_int]"

definition zero_result :: intercept_result where
  "zero_result = \<lparr>ires_RequestID = [], ires_Action = [], ires_Method = [], ires_URL = [], ires_NewHeaders = [],
     ires_NewBody = [], ires_StatusCode = 0\<rparr>"

text \<open>\<open>Resolve\<close> as one step; the send does not block, since an entry is resolved once.\<close>

definition Resolve :: "string \<Rightarrow> intercept_result \<Rightarrow> interceptor \<Rightarrow> interceptor option" where
  "Resolve i result it =
     (case (map_of (it_pending it) i, Resolve_begin i result it) of
        (Some w, Some it) \<Rightarrow>
          (case Resolve_end w (result\<lparr>ires_RequestID := i\<rparr>) it of Some it \<Rightarrow> Some it | None \<Rightarrow> Some it)
      | _ \<Rightarrow> None)"

definition handleInterceptAction :: server_handler where
  "handleInterceptAction r h sv =
     (if hr_Method r \<noteq> ''POST'' then not_allowed r h sv
      else case sv_interceptor sv of
        None \<Rightarrow> (writeAppError r h (ErrUnavailable ''Interceptor not available''), sv)
      | Some ic \<Rightarrow>
          (case Decode result_fields zero_result r of
             Decoded res \<Rightarrow>
               (case Resolve (ires_RequestID res) res ic of
                  None \<Rightarrow> (writeAppError r h (ErrNotFound ''Pending request'' (ires_RequestID res)), sv)
                | Some ic \<Rightarrow>
                    (reply_json h 200 (Strings [(''status'', ''resolved'')]), sv\<lparr>sv_interceptor := Some ic\<rparr>))
           | _ \<Rightarrow> (writeAppError r h (ErrValidation ''Invalid JSON''), sv)))"

text \<open>The rules in force are read back from the store, unless that fails.\<close>

definition reload_rules :: "api_server \<Rightarrow> api_server" where
  "reload_rules sv =
     (case sv_interceptor sv of
        None \<Rightarrow> sv
      | Some ic \<Rightarrow>
          (case ListRules (sv_store sv) of
             (Inl _, s) \<Rightarrow> sv\<lparr>sv_store := s\<rparr>
           | (Inr rules, s) \<Rightarrow> sv\<lparr>sv_store := s, sv_interceptor := Some (SetRules rules ic)\<rparr>))"

definition rule_fields :: "'time api_env \<Rightarrow> intercept_rule fields" where
  "rule_fields ev =
     [field ''id'' ir_ID ir_ID_update dec_int, field ''pattern'' ir_Pattern ir_Pattern_update dec_string,
      field ''method'' ir_Method ir_Method_update dec_string, field ''action'' ir_Action ir_Action_update dec_string,
      field ''enabled'' ir_Enabled ir_Enabled_update dec_bool,
      (''created_at'', \<lambda>j rule. if ev_time_ok ev j then Some rule else None)]"

definition rule_methods :: "string list" where
  "rule_methods = [''GET'', ''POST'', ''PUT'', ''DELETE'', ''PATCH'', ''HEAD'', ''OPTIONS'']"

definition rule_error :: "intercept_rule \<Rightarrow> string option" where
  "rule_error rule =
     (if ir_Pattern rule = [] \<or> (ir_Action rule \<noteq> ''allow'' \<and> ir_Action rule \<noteq> ''block'')
      then Some ''pattern required, action must be allow or block''
      else if ir_Method rule \<noteq> [] \<and> \<not> list_ex (\<lambda>m. equal_fold (ir_Method rule) m) rule_methods
      then Some (''invalid method: '' @ ir_Method rule)
      else None)"

definition handleInterceptRules :: "'time api_env \<Rightarrow> server_handler" where
  "handleInterceptRules ev r h sv =
     (if hr_Method r = ''GET'' then
        (case ListRules (sv_store sv) of
           (Inl _, s) \<Rightarrow> (writeAppError r h (ErrInternal ''Failed to list rules''), sv\<lparr>sv_store := s\<rparr>)
         | (Inr rules, s) \<Rightarrow> (reply_json h 200 (Rules rules), sv\<lparr>sv_store := s\<rparr>))
      else if hr_Method r = ''POST'' then
        (case Decode (rule_fields ev) \<lparr>ir_ID = 0, ir_Pattern = [], ir_Method = [], ir_Action = [], ir_Enabled = False\<rparr> r of
           Decoded rule \<Rightarrow>
             (case rule_error rule of
                Some e \<Rightarrow> (writeAppError r h (ErrValidation e), sv)
              | None \<Rightarrow>
                  (case SaveRule rule (sv_store sv) of
                     (Inl _, s) \<Rightarrow> (writeAppError r h (ErrInternal ''Failed to save rule''), sv\<lparr>sv_store := s\<rparr>)
                   | (Inr i, s) \<Rightarrow>
                       (reply_json h 201 (One_rule (rule\<lparr>ir_ID := i\<rparr>)), reload_rules (sv\<lparr>sv_store := s\<rparr>))))
         | _ \<Rightarrow> (writeAppError r h (ErrValidation ''Invalid JSON''), sv))
      else not_allowed r h sv)"

record enabled_body =
  eb_Enabled :: bool

definition enabled_fields :: "enabled_body fields" where
  "enabled_fields = [field ''enabled'' eb_Enabled eb_Enabled_update dec_bool]"

definition handleInterceptRuleByID :: server_handler where
  "handleInterceptRuleByID r h sv =
     (case path_after ''/api/intercept/rules/'' r of
        None \<Rightarrow> (Panic h, sv)
      | Some i \<Rightarrow>
          (case ParseInt i of
             None \<Rightarrow> (writeAppError r h (ErrValidation ''Invalid id''), sv)
           | Some i \<Rightarrow>
               if hr_Method r = ''PUT'' then
                 (case Decode enabled_fields \<lparr>eb_Enabled = False\<rparr> r of
                    Decoded b \<Rightarrow>
                      (case UpdateRule i (eb_Enabled b) (sv_store sv) of
                         (Some _, s) \<Rightarrow> (writeAppError r h (ErrInternal ''Failed to update rule''), sv\<lparr>sv_store := s\<rparr>)
                       | (None, s) \<Rightarrow>
                           (reply_json h 200 (Strings [(''status'', ''updated'')]), reload_rules (sv\<lparr>sv_store := s\<rparr>)))
                  | _ \<Rightarrow> (writeAppError r h (ErrValidation ''Invalid JSON''), sv))
               else if hr_Method r = ''DELETE'' then
                 (case DeleteRule i (sv_store sv) of
                    (Some _, s) \<Rightarrow> (writeAppError r h (ErrInternal ''Failed to delete rule''), sv\<lparr>sv_store := s\<rparr>)
                  | (None, s) \<Rightarrow>
                      (reply_json h 200 (Strings [(''status'', ''deleted'')]), reload_rules (sv\<lparr>sv_store := s\<rparr>)))
               else not_allowed r h sv))"

definition handleInterceptLogs :: "'time api_env \<Rightarrow> server_handler" where
  "handleInterceptLogs ev r h sv =
     (if hr_Method r \<noteq> ''GET'' then not_allowed r h sv
      else
        let most = clampLimit (atoi (query_get r ''limit''));
            skip = max 0 (atoi (query_get r ''offset''))
        in case ListInterceptLogs (ev_like ev) (ev_log_text ev) (ev_text_le ev) (query_get r ''action'')
                  (query_get r ''since'') (query_get r ''host'') (query_get r ''pattern'') most skip (sv_store sv) of
             (Inl _, s) \<Rightarrow> (writeAppError r h (ErrInternal ''Failed to list intercept logs''), sv\<lparr>sv_store := s\<rparr>)
           | (Inr (logs, n), s) \<Rightarrow> (reply_json h 200 (Logs logs n most skip), sv\<lparr>sv_store := s\<rparr>))"

section \<open>Capture\<close>

definition engine_running :: "nat \<Rightarrow> api_server \<Rightarrow> bool" where
  "engine_running e sv \<longleftrightarrow> e < length (sv_engines sv) \<and> sv_engines sv ! e"

definition stop_engine :: "nat \<Rightarrow> api_server \<Rightarrow> api_server" where
  "stop_engine e sv = sv\<lparr>sv_engines := (sv_engines sv)[e := False]\<rparr>"

definition SetCaptureEngine :: "nat option \<Rightarrow> api_server \<Rightarrow> api_server" where
  "SetCaptureEngine ce sv = sv\<lparr>sv_captureEngine := ce\<rparr>"

definition handleCaptureStatus :: server_handler where
  "handleCaptureStatus r h sv =
     (if hr_Method r \<noteq> ''GET'' then not_allowed r h sv
      else case sv_captureEngine sv of
        None \<Rightarrow> (reply_json h 200 (Capture_status False False), sv)
      | Some e \<Rightarrow> (reply_json h 200 (Capture_status (engine_running e sv) True), sv))"

definition handleCaptureInterfaces :: "'time api_env \<Rightarrow> server_handler" where
  "handleCaptureInterfaces ev r h sv =
     (if hr_Method r \<noteq> ''GET'' then not_allowed r h sv
      else case ListInterfaces (ev_devices ev) of
        None \<Rightarrow> (writeAppError r h (ErrInternal (ev_devices_error ev)), sv)
      | Some ifs \<Rightarrow> (reply_json h 200 (Interfaces ifs), sv))"

record capture_body =
  cb_Interface :: string
  cb_BPF :: string

definition capture_fields :: "capture_body fields" where
  "capture_fields =
     [field ''interface'' cb_Interface cb_Interface_update dec_string, field ''bpf'' cb_BPF cb_BPF_update dec_string]"

text \<open>The critical section of \<open>captureMu\<close>: the new engine starts before the old one is stopped.\<close>

definition start_engine :: "string option \<Rightarrow> api_server \<Rightarrow> api_server" where
  "start_engine err sv =
     (let ce = length (sv_engines sv) in
      if err \<noteq> None then sv\<lparr>sv_engines := sv_engines sv @ [False]\<rparr>
      else
        let oldEngine = sv_captureEngine sv;
            sv = sv\<lparr>sv_engines := sv_engines sv @ [True]\<rparr>;
            sv = (case oldEngine of Some e \<Rightarrow> stop_engine e sv | None \<Rightarrow> sv)
        in SetCaptureEngine (Some ce) sv)"

definition handleCaptureStart :: "'time api_env \<Rightarrow> server_handler" where
  "handleCaptureStart ev r h sv =
     (if hr_Method r \<noteq> ''POST'' then not_allowed r h sv
      else
        let zero = \<lparr>cb_Interface = [], cb_BPF = []\<rparr>; d = Decode capture_fields zero r in
        if d = Malformed then (writeAppError r h (ErrValidation ''Invalid JSON''), sv)
        else
          let b = (case d of Decoded b \<Rightarrow> b | _ \<Rightarrow> zero);
              iface = (if cb_Interface b = [] then DetectInterface (ev_devices ev) else cb_Interface b);
              bpf = (if cb_BPF b = [] then ''tcp'' else cb_BPF b)
          in (case ev_start ev iface bpf of
                Some e \<Rightarrow> writeAppError r h (ErrInternal e)
              | None \<Rightarrow> reply_json h 200 (Capture_started iface bpf),
              start_engine (ev_start ev iface bpf) sv))"

text \<open>\<open>handleCaptureStop\<close> does not take the lock: it reads the engine, and later stops and forgets it.\<close>

definition capture_stop_end :: "nat \<Rightarrow> api_server \<Rightarrow> api_server" where
  "capture_stop_end ce sv = SetCaptureEngine None (stop_engine ce sv)"

definition handleCaptureStop :: server_handler where
  "handleCaptureStop r h sv =
     (if hr_Method r \<noteq> ''POST'' then not_allowed r h sv
      else case sv_captureEngine sv of
        None \<Rightarrow> (reply_json h 200 (Strings [(''status'', ''no engine'')]), sv)
      | Some ce \<Rightarrow> (reply_json h 200 (Strings [(''status'', ''stopped'')]), capture_stop_end ce sv))"

section \<open>Export, maintenance, metrics and exchanges\<close>

text \<open>The header is sent before the first entry is read: an error cuts the text short.\<close>

definition handleExportHAR :: "'time api_env \<Rightarrow> server_handler" where
  "handleExportHAR ev r h sv =
     (if hr_Method r \<noteq> ''GET'' then not_allowed r h sv
      else
        let n = atoi (query_get r ''limit'');
            most = (if query_get r ''limit'' \<noteq> [] \<and> n > 0 \<and> n \<le> 1000 then n else 500);
            h = Header_Set (Header_Set h ''Content-Type'' ''application/json'')
                  ''Content-Disposition'' ''attachment; filename=packetlab.har''
        in case ExportTo buffer (ev_like ev) (ev_time_text ev) most [] (sv_store sv) of
             ((_, w), s) \<Rightarrow>
               (Response \<lparr>as_Status = 200, as_Header = h, as_Body = Json_body (Page w)\<rparr>, sv\<lparr>sv_store := s\<rparr>))"

record cleanup_body =
  cu_RetentionDays :: int

definition cleanup_fields :: "cleanup_body fields" where
  "cleanup_fields = [field ''retention_days'' cu_RetentionDays cu_RetentionDays_update dec_int]"

definition handleMaintenanceCleanup :: "'time api_env \<Rightarrow> server_handler" where
  "handleMaintenanceCleanup ev r h sv =
     (if hr_Method r \<noteq> ''POST'' then not_allowed r h sv
      else
        let zero = \<lparr>cu_RetentionDays = 0\<rparr>; d = Decode cleanup_fields zero r in
        if d = Malformed then (writeAppError r h (ErrValidation ''Invalid JSON''), sv)
        else
          let b = (case d of Decoded b \<Rightarrow> b | _ \<Rightarrow> zero) in
          case Cleanup (ev_now ev) (cu_RetentionDays b) (sv_store sv) of
            ((n, m, days, Some _), s) \<Rightarrow> (writeAppError r h (ErrInternal ''Failed to cleanup''), sv\<lparr>sv_store := s\<rparr>)
          | ((n, m, days, None), s) \<Rightarrow> (reply_json h 200 (Cleaned n m days), sv\<lparr>sv_store := s\<rparr>))"

text \<open>The figures of the Go runtime are one text; those of the engine stand for its \<open>GetMetrics\<close>.\<close>

definition handleMetrics :: "'time api_env \<Rightarrow> server_handler" where
  "handleMetrics ev r h sv =
     (if hr_Method r \<noteq> ''GET'' then not_allowed r h sv
      else (reply_json h 200 (Metrics (ev_metrics ev) (map_option (\<lambda>e. engine_running e sv) (sv_captureEngine sv))), sv))"

definition handleLLMList :: "'time api_env \<Rightarrow> server_handler" where
  "handleLLMList ev r h sv =
     (if hr_Method r \<noteq> ''GET'' then not_allowed r h sv
      else
        let n = atoi (query_get r ''limit''); most = (if n \<le> 0 \<or> n > 500 then 100 else n);
            skip = max 0 (atoi (query_get r ''offset''));
            p = query_get r ''provider''; model = query_get r ''model''
        in case (if p = [] \<and> model = [] then ListLLM (ev_dec_time ev) (ev_time0 ev) most skip (sv_store sv)
                 else ListLLMFiltered (ev_extract ev) (ev_dec_time ev) (ev_time0 ev) p model most skip (sv_store sv)) of
             (Inl _, s) \<Rightarrow> (writeAppError r h (ErrInternal ''Failed to list LLM exchanges''), sv\<lparr>sv_store := s\<rparr>)
           | (Inr (items, k), s) \<Rightarrow> (reply_json h 200 (Llm_page items k most), sv\<lparr>sv_store := s\<rparr>))"

text \<open>The exchange is sent as the text that was stored.\<close>

definition handleLLMByID :: server_handler where
  "handleLLMByID r h sv =
     (if hr_Method r \<noteq> ''GET'' then not_allowed r h sv
      else
        let i = (if has_prefix (ar_path r) ''/api/llm/'' then drop 9 (ar_path r) else ar_path r) in
        if i = [] then (writeAppError r h (ErrValidation ''Missing LLM exchange ID''), sv)
        else case ParseInt i of
          None \<Rightarrow> (writeAppError r h (ErrValidation ''Invalid ID format''), sv)
        | Some n \<Rightarrow>
            (case GetLLMData n (sv_store sv) of
               (Inl e, s) \<Rightarrow>
                 (writeAppError r h (if e = DriverErr ''sql: no rows in result set'' then ErrNotFound ''LLM exchange'' i
                                     else ErrInternal ''Failed to get LLM data''), sv\<lparr>sv_store := s\<rparr>)
             | (Inr raw, s) \<Rightarrow>
                 (if raw = [] then writeAppError r h (ErrNotFound ''LLM exchange'' i)
                  else reply_json h 200 (Llm_exchange n raw), sv\<lparr>sv_store := s\<rparr>)))"

text \<open>\<open>LLMStats\<close> makes three queries; what they add up is an argument.\<close>

definition handleLLMStats :: "'time api_env \<Rightarrow> server_handler" where
  "handleLLMStats ev r h sv =
     (if hr_Method r \<noteq> ''GET'' then not_allowed r h sv
      else case LLMStats (ev_llm_stats ev) (ev_tie_models ev) (ev_tie_providers ev) (sv_store sv) of
        (Inl _, s) \<Rightarrow> (writeAppError r h (ErrInternal ''Failed to compute LLM stats''), sv\<lparr>sv_store := s\<rparr>)
      | (Inr (totals, byModel, byProvider), s) \<Rightarrow>
          (reply_json h 200 (Llm_stats totals byModel byProvider), sv\<lparr>sv_store := s\<rparr>))"

text \<open>
  The upgrade to a web socket is the websocket package's: it answers an error itself, else the
  handler makes a client (theory WsHub) and the connection has no further response.
\<close>

definition handle_ws :: "'time api_env \<Rightarrow> server_handler" where
  "handle_ws ev r h sv =
     (case ev_upgrade ev of
        Some e \<Rightarrow> (Response \<lparr>as_Status = ae_StatusCode e, as_Header = h, as_Body = Failure e\<rparr>, sv)
      | None \<Rightarrow> (Response \<lparr>as_Status = 101, as_Header = h, as_Body = Empty\<rparr>, sv\<lparr>sv_hub := handleWebSocket (sv_hub sv)\<rparr>))"

text \<open>The frontend is a handler the server is given: \<^verbatim>\<open>http.FileServer\<close> over the embedded files.\<close>

definition handle_static :: "'time api_env \<Rightarrow> server_handler" where
  "handle_static ev r h sv = (ev_frontend ev r h, sv)"

section \<open>The table of routes\<close>

definition route_table :: "'time api_env \<Rightarrow> (string \<times> server_handler) list" where
  "route_table ev =
     [(''/health'', handleHealth), (''/ready'', handleReady), (''/api/requests'', handleListRequests ev),
      (''/api/requests/'', handleRequestByID), (''/api/starred'', handleStarred), (''/api/resend'', handleResend ev),
      (''/api/clear'', handleClear), (''/api/stats'', handleStats), (''/api/proxy/status'', handleProxyStatus),
      (''/api/apimap'', handleAPIMap ev), (''/api/apimap/notes'', handleAPINotes ev),
      (''/api/apimap/notes/'', handleAPINoteByID), (''/api/apimap/hosts'', handleAPIHosts ev),
      (''/api/intercept/mode'', handleInterceptMode), (''/api/intercept/pending'', handleInterceptPending),
      (''/api/intercept/action'', handleInterceptAction), (''/api/intercept/rules'', handleInterceptRules ev),
      (''/api/intercept/rules/'', handleInterceptRuleByID), (''/api/intercept/logs'', handleInterceptLogs ev),
      (''/api/capture/status'', handleCaptureStatus), (''/api/capture/interfaces'', handleCaptureInterfaces ev),
      (''/api/capture/start'', handleCaptureStart ev), (''/api/capture/stop'', handleCaptureStop),
      (''/api/export/har'', handleExportHAR ev), (''/api/llm'', handleLLMList ev), (''/api/llm/stats'', handleLLMStats ev),
      (''/api/llm/'', handleLLMByID), (''/api/maintenance/cleanup'', handleMaintenanceCleanup ev),
      (''/api/metrics'', handleMetrics ev), (''/ws'', handle_ws ev), (''/'', handle_static ev)]"

definition api_handler :: "'time api_env \<Rightarrow> string \<Rightarrow> server_handler" where
  "api_handler ev pat = (case map_of (route_table ev) pat of Some f \<Rightarrow> f | None \<Rightarrow> handle_static ev)"

lemma route_table_routes: "map fst (route_table ev) = setupRoutes True"
  by (simp add: route_table_def setupRoutes_def api_routes_def)

end
