(* ===== verification/ApiServerProps.thy ===== *)
theory ApiServerProps
  imports ApiServer
begin

text \<open>
  Properties of the handlers behind the chain of middlewares: what a request that only reads can
  change, what a refused request can change, and the rules and engines after each handler.
\<close>

section \<open>Reading the store\<close>

definition tables :: "store \<Rightarrow> request_row list \<times> log_row list \<times> (string \<times> string) list \<times> intercept_rule list" where
  "tables s = (st_requests s, st_logs s, st_settings s, st_rules s)"

lemma tables_fields [simp]:
  "tables (s\<lparr>st_replies := rs\<rparr>) = tables s" "tables (s\<lparr>st_hostCache := c\<rparr>) = tables s"
  by (simp_all add: tables_def)

lemma next_reply_tables: "next_reply s = (x, s') \<Longrightarrow> tables s' = tables s"
  by (auto simp: next_reply_def split: list.splits)

lemma reads_keep_tables:
  "tables (snd (Stats s)) = tables s" "tables (snd (Get i s)) = tables s"
  "tables (snd (ListStarred n s)) = tables s" "tables (snd (ListRules s)) = tables s"
  "tables (snd (GetLLMData i s)) = tables s"
  "tables (snd (List_requests like m q hst e n k s)) = tables s"
  "tables (snd (ListInterceptLogs like tt le a b c d n k s)) = tables s"
  "tables (snd (list_llm rd P n k s)) = tables s"
  "tables (snd (ForEachFull like m q hst e n k f a0 s)) = tables s"
  by (auto simp: Stats_def Get_def ListStarred_def ListRules_def GetLLMData_def List_requests_def
      ListInterceptLogs_def list_llm_def ForEachFull_def Let_def dest!: next_reply_tables
      split: prod.splits reply.splits option.splits list.splits)

lemma ListHosts_tables: "tables (snd (ListHosts hq now search n k s)) = tables s"
  by (auto simp: ListHosts_def Let_def dest!: next_reply_tables split: prod.splits reply.splits option.splits list.splits)

lemma GetAPIMap_tables: "tables (snd (GetAPIMap like order morder host (s, notes))) = tables s"
  by (auto simp: GetAPIMap_def Let_def dest!: next_reply_tables split: prod.splits reply.splits option.splits)

lemma ListLLM_tables:
  "tables (snd (ListLLM dt t0 n k s)) = tables s" "tables (snd (ListLLMFiltered x dt t0 p m n k s)) = tables s"
  by (simp_all add: ListLLM_def ListLLMFiltered_def Let_def reads_keep_tables)

lemma ExportTo_tables: "tables (snd (ExportTo wr like tt n w s)) = tables s"
  using reads_keep_tables(9) [of like "[]" "[]" "[]" False "har_limit n" 0 "export_entry wr tt" "(True, snd (wr har_head w))" s]
  by (auto simp: ExportTo_def split: prod.splits option.splits)

lemma snd_tables: "tables (snd x) = tables s \<Longrightarrow> x = (y, s') \<Longrightarrow> tables s' = tables s"
  by simp

lemma stat_query_tables: "tables (snd (stat_query x g s)) = tables s"
  by (auto simp: stat_query_def dest!: next_reply_tables split: prod.splits reply.splits sum.splits)

lemma LLMStats_tables: "tables (snd (LLMStats x tm tp s)) = tables s"
  by (auto simp: LLMStats_def dest!: stat_query_tables [THEN snd_tables] split: prod.splits sum.splits)

lemmas read_tables = reads_keep_tables ListHosts_tables GetAPIMap_tables ListLLM_tables ExportTo_tables LLMStats_tables

section \<open>What stays after a restart or decides about the traffic\<close>

definition durable :: "api_server \<Rightarrow> (request_row list \<times> log_row list \<times> (string \<times> string) list \<times> intercept_rule list) \<times>
    api_note list \<times> interceptor option \<times> bool list \<times> nat option" where
  "durable sv = (tables (sv_store sv), sv_notes sv, sv_interceptor sv, sv_engines sv, sv_captureEngine sv)"

lemma durable_fields [simp]:
  "durable (sv\<lparr>sv_hub := x\<rparr>) = durable sv" "durable (sv\<lparr>sv_network := y\<rparr>) = durable sv"
  "durable (sv\<lparr>sv_proxyRunning := z\<rparr>) = durable sv"
  by (simp_all add: durable_def)

lemma durable_store: "tables s = tables (sv_store sv) \<Longrightarrow> durable (sv\<lparr>sv_store := s\<rparr>) = durable sv"
  by (simp add: durable_def)

lemmas read_dest = read_tables [THEN snd_tables]

named_theorems handler_defs \<open>the handlers and what they share\<close>

declare not_allowed_def [handler_defs] Let_def [handler_defs]

text \<open>The handlers that only read.\<close>

lemma handleHealth_reads: "durable (snd (handleHealth r h sv)) = durable sv"
  by (auto simp: handleHealth_def handler_defs dest!: read_dest next_reply_tables intro!: durable_store
      split: prod.split sum.split option.split reply.split)

lemma handleReady_reads: "durable (snd (handleReady r h sv)) = durable sv"
  by (auto simp: handleReady_def handler_defs dest!: read_dest next_reply_tables intro!: durable_store
      split: prod.split sum.split option.split reply.split)

lemma handleListRequests_reads: "durable (snd (handleListRequests ev r h sv)) = durable sv"
  by (auto simp: handleListRequests_def handler_defs dest!: read_dest next_reply_tables intro!: durable_store
      split: prod.split sum.split option.split reply.split)

lemma getRequest_reads: "durable (snd (getRequest i r h sv)) = durable sv"
  by (auto simp: getRequest_def handler_defs dest!: read_dest next_reply_tables intro!: durable_store
      split: prod.split sum.split option.split reply.split)

lemma handleStats_reads: "durable (snd (handleStats r h sv)) = durable sv"
  by (auto simp: handleStats_def handler_defs dest!: read_dest next_reply_tables intro!: durable_store
      split: prod.split sum.split option.split reply.split)

lemma handleProxyStatus_reads: "durable (snd (handleProxyStatus r h sv)) = durable sv"
  by (auto simp: handleProxyStatus_def handler_defs dest!: read_dest next_reply_tables intro!: durable_store
      split: prod.split sum.split option.split reply.split)

lemma handleAPIMap_reads: "durable (snd (handleAPIMap ev r h sv)) = durable sv"
  by (auto simp: handleAPIMap_def handler_defs dest!: read_dest next_reply_tables intro!: durable_store
      split: prod.split sum.split option.split reply.split)

lemma handleAPIHosts_reads: "durable (snd (handleAPIHosts ev r h sv)) = durable sv"
  by (auto simp: handleAPIHosts_def handler_defs dest!: read_dest next_reply_tables intro!: durable_store
      split: prod.split sum.split option.split reply.split)

lemma handleInterceptPending_reads: "durable (snd (handleInterceptPending r h sv)) = durable sv"
  by (auto simp: handleInterceptPending_def handler_defs dest!: read_dest next_reply_tables intro!: durable_store
      split: prod.split sum.split option.split reply.split)

lemma handleInterceptLogs_reads: "durable (snd (handleInterceptLogs ev r h sv)) = durable sv"
  by (auto simp: handleInterceptLogs_def handler_defs dest!: read_dest next_reply_tables intro!: durable_store
      split: prod.split sum.split option.split reply.split)

lemma handleCaptureStatus_reads: "durable (snd (handleCaptureStatus r h sv)) = durable sv"
  by (auto simp: handleCaptureStatus_def handler_defs dest!: read_dest next_reply_tables intro!: durable_store
      split: prod.split sum.split option.split reply.split)

lemma handleCaptureInterfaces_reads: "durable (snd (handleCaptureInterfaces ev r h sv)) = durable sv"
  by (auto simp: handleCaptureInterfaces_def handler_defs dest!: read_dest next_reply_tables intro!: durable_store
      split: prod.split sum.split option.split reply.split)

lemma handleExportHAR_reads: "durable (snd (handleExportHAR ev r h sv)) = durable sv"
  by (auto simp: handleExportHAR_def handler_defs dest!: read_dest next_reply_tables intro!: durable_store
      split: prod.split sum.split option.split reply.split)

lemma handleLLMList_reads: "durable (snd (handleLLMList ev r h sv)) = durable sv"
  by (auto simp: handleLLMList_def handler_defs dest!: read_dest next_reply_tables intro!: durable_store
      split: prod.split sum.split option.split reply.split)

lemma handleLLMByID_reads: "durable (snd (handleLLMByID r h sv)) = durable sv"
  by (auto simp: handleLLMByID_def handler_defs dest!: read_dest next_reply_tables intro!: durable_store
      split: prod.split sum.split option.split reply.split)

lemma handleLLMStats_reads: "durable (snd (handleLLMStats ev r h sv)) = durable sv"
  by (auto simp: handleLLMStats_def handler_defs dest!: read_dest next_reply_tables intro!: durable_store
      split: prod.split sum.split option.split reply.split)

lemma handleMetrics_reads: "durable (snd (handleMetrics ev r h sv)) = durable sv"
  by (auto simp: handleMetrics_def handler_defs dest!: read_dest next_reply_tables intro!: durable_store
      split: prod.split sum.split option.split reply.split)

lemma handle_ws_reads: "durable (snd (handle_ws ev r h sv)) = durable sv"
  by (auto simp: handle_ws_def handler_defs dest!: read_dest next_reply_tables intro!: durable_store
      split: prod.split sum.split option.split reply.split)

lemma handle_static_reads: "durable (snd (handle_static ev r h sv)) = durable sv"
  by (auto simp: handle_static_def handler_defs dest!: read_dest next_reply_tables intro!: durable_store
      split: prod.split sum.split option.split reply.split)

section \<open>Safe methods\<close>

text \<open>The handlers that write do so for other methods only.\<close>

lemma handleRequestByID_safe: "safe_method (hr_Method r) \<Longrightarrow> durable (snd (handleRequestByID r h sv)) = durable sv"
  by (auto simp: handleRequestByID_def safe_method_def handler_defs getRequest_reads dest!: read_dest intro!: durable_store
      split: prod.split sum.split option.split)

lemma handleStarred_safe: "safe_method (hr_Method r) \<Longrightarrow> durable (snd (handleStarred r h sv)) = durable sv"
  by (auto simp: handleStarred_def safe_method_def handler_defs dest!: read_dest intro!: durable_store
      split: prod.split sum.split option.split)

lemma handleResend_safe: "safe_method (hr_Method r) \<Longrightarrow> durable (snd (handleResend ev r h sv)) = durable sv"
  by (auto simp: handleResend_def safe_method_def handler_defs dest!: read_dest intro!: durable_store
      split: prod.split sum.split option.split)

lemma handleClear_safe: "safe_method (hr_Method r) \<Longrightarrow> durable (snd (handleClear r h sv)) = durable sv"
  by (auto simp: handleClear_def safe_method_def handler_defs dest!: read_dest intro!: durable_store
      split: prod.split sum.split option.split)

lemma handleAPINotes_safe: "safe_method (hr_Method r) \<Longrightarrow> durable (snd (handleAPINotes ev r h sv)) = durable sv"
  by (auto simp: handleAPINotes_def safe_method_def handler_defs dest!: read_dest intro!: durable_store
      split: prod.split sum.split option.split)

lemma handleAPINoteByID_safe: "safe_method (hr_Method r) \<Longrightarrow> durable (snd (handleAPINoteByID r h sv)) = durable sv"
  by (auto simp: handleAPINoteByID_def safe_method_def handler_defs dest!: read_dest intro!: durable_store
      split: prod.split sum.split option.split)

lemma handleInterceptMode_safe: "safe_method (hr_Method r) \<Longrightarrow> durable (snd (handleInterceptMode r h sv)) = durable sv"
  by (auto simp: handleInterceptMode_def safe_method_def handler_defs dest!: read_dest intro!: durable_store
      split: prod.split sum.split option.split)

lemma handleInterceptAction_safe: "safe_method (hr_Method r) \<Longrightarrow> durable (snd (handleInterceptAction r h sv)) = durable sv"
  by (auto simp: handleInterceptAction_def safe_method_def handler_defs dest!: read_dest intro!: durable_store
      split: prod.split sum.split option.split)

lemma handleInterceptRules_safe: "safe_method (hr_Method r) \<Longrightarrow> durable (snd (handleInterceptRules ev r h sv)) = durable sv"
  by (auto simp: handleInterceptRules_def safe_method_def handler_defs dest!: read_dest intro!: durable_store
      split: prod.split sum.split option.split)

lemma handleInterceptRuleByID_safe: "safe_method (hr_Method r) \<Longrightarrow> durable (snd (handleInterceptRuleByID r h sv)) = durable sv"
  by (auto simp: handleInterceptRuleByID_def safe_method_def handler_defs dest!: read_dest intro!: durable_store
      split: prod.split sum.split option.split)

lemma handleCaptureStart_safe: "safe_method (hr_Method r) \<Longrightarrow> durable (snd (handleCaptureStart ev r h sv)) = durable sv"
  by (auto simp: handleCaptureStart_def safe_method_def handler_defs dest!: read_dest intro!: durable_store
      split: prod.split sum.split option.split)

lemma handleCaptureStop_safe: "safe_method (hr_Method r) \<Longrightarrow> durable (snd (handleCaptureStop r h sv)) = durable sv"
  by (auto simp: handleCaptureStop_def safe_method_def handler_defs dest!: read_dest intro!: durable_store
      split: prod.split sum.split option.split)

lemma handleMaintenanceCleanup_safe: "safe_method (hr_Method r) \<Longrightarrow> durable (snd (handleMaintenanceCleanup ev r h sv)) = durable sv"
  by (auto simp: handleMaintenanceCleanup_def safe_method_def handler_defs dest!: read_dest intro!: durable_store
      split: prod.split sum.split option.split)

section \<open>Refused requests\<close>

text \<open>The status of an answer; a panic has none.\<close>

definition status_of :: "'j outcome \<Rightarrow> int" where
  "status_of a = (case a of Response x \<Rightarrow> as_Status x | Panic _ \<Rightarrow> 0)"

lemma status_simps [simp]:
  "status_of (writeAppError r h e) = ae_StatusCode e" "status_of (Panic h) = 0"
  "status_of (reply_json h n d) = (if marshals d then n else 500)"
  by (simp_all add: status_of_def writeAppError_def writeJSON_def reply_json_def Let_def)

lemma marshals_simps [simp]:
  "marshals (Strings m)" "marshals (Starred i b)" "marshals (Resent x)" "marshals (Noted n)" "marshals (One_rule rule)"
  "marshals (Rules rules)" "marshals (Starred_page p)" "marshals (One_request q)" "marshals (Capture_started iface bpf)"
  "marshals (Cleaned k1 k2 k3)"
  by (simp_all add: marshals_def)

definition refused :: "int \<Rightarrow> bool" where
  "refused n \<longleftrightarrow> 400 \<le> n \<and> n < 500"

lemma next_reply_Err: "next_reply s = (x, s') \<Longrightarrow> tables s' = tables s"
  by (rule next_reply_tables)

lemma SetStarred_unknown:
  "SetStarred i b s = (Some (ErrRequestNotFound k), s') \<Longrightarrow> tables s' = tables s"
  by (auto simp: SetStarred_def Let_def update_rows_def filter_empty_conv tables_def next_reply_def
      split: list.splits reply.splits option.splits if_splits intro!: map_idI)

lemma Resend_refused:
  assumes "Resend parse quote insecure now ms req (s, nw) = (Inl e, calls, s', nw')" and "ae_StatusCode e < 500"
  shows "s' = s"
  using resend_record [OF assms(1)] assms(2) by auto

text \<open>A writing handler that refuses changes nothing.\<close>

lemma handleRequestByID_refused: "refused (status_of (fst (handleRequestByID r h sv))) \<Longrightarrow> durable (snd (handleRequestByID r h sv)) = durable sv"
  by (auto simp: handleRequestByID_def refused_def handler_defs getRequest_reads deleteRequest_def dest!: read_dest intro!: durable_store
      split: prod.splits sum.splits option.splits decoded.splits store_error.splits if_splits)

lemma handleStarred_refused: "refused (status_of (fst (handleStarred r h sv))) \<Longrightarrow> durable (snd (handleStarred r h sv)) = durable sv"
proof -
  assume a: "refused (status_of (fst (handleStarred r h sv)))"
  show ?thesis
  proof (cases "\<exists>b. hr_Method r = ''POST'' \<and> Decode starred_fields \<lparr>sb_ID = 0, sb_Starred = False\<rparr> r = Decoded b \<and> 0 < sb_ID b")
    case False
    then show ?thesis
      by (auto simp: handleStarred_def handler_defs dest!: read_dest intro!: durable_store
          split: prod.split sum.split option.split decoded.split)
  next
    case True
    then obtain b where b: "hr_Method r = ''POST''" "Decode starred_fields \<lparr>sb_ID = 0, sb_Starred = False\<rparr> r = Decoded b"
      "0 < sb_ID b" by blast
    obtain x s where x: "SetStarred (sb_ID b) (sb_Starred b) (sv_store sv) = (x, s)" by fastforce
    then obtain k where "x = Some (ErrRequestNotFound k)"
      using a b by (cases x rule: option.exhaust [case_product store_error.exhaust])
        (auto simp: handleStarred_def refused_def split: store_error.splits)
    then show ?thesis using b x SetStarred_unknown [of "sb_ID b" "sb_Starred b" "sv_store sv"]
      by (auto simp: handleStarred_def intro!: durable_store)
  qed
qed

lemma handleResend_refused: "refused (status_of (fst (handleResend ev r h sv))) \<Longrightarrow> durable (snd (handleResend ev r h sv)) = durable sv"
proof -
  assume a: "refused (status_of (fst (handleResend ev r h sv)))"
  let ?z = "\<lparr>rq2_Method = [], rq2_URL = [], rq2_Headers = [], rq2_Body = []\<rparr>"
  show ?thesis
  proof (cases "\<exists>b. hr_Method r = ''POST'' \<and> Decode resend_fields ?z r = Decoded b \<and> rq2_Method b \<noteq> [] \<and> rq2_URL b \<noteq> []")
    case False
    then show ?thesis by (auto simp: handleResend_def handler_defs split: decoded.split)
  next
    case True
    then obtain b where b: "hr_Method r = ''POST''" "Decode resend_fields ?z r = Decoded b" "rq2_Method b \<noteq> []" "rq2_URL b \<noteq> []"
      by blast
    obtain x calls s nw where x: "Resend (ev_parse ev) (ev_quote ev) (sv_insecure sv) (ev_now ev) (ev_ms ev) b
        (sv_store sv, sv_network sv) = (x, calls, s, nw)"
      by (metis prod_cases4)
    then obtain e where e: "x = Inl e" "ae_StatusCode e < 500"
      using a b by (cases x) (auto simp: handleResend_def refused_def)
    from Resend_refused [OF x [unfolded e(1)] e(2)] show ?thesis
      using b x e by (simp add: handleResend_def durable_def)
  qed
qed

lemma handleClear_refused: "refused (status_of (fst (handleClear r h sv))) \<Longrightarrow> durable (snd (handleClear r h sv)) = durable sv"
  by (auto simp: handleClear_def refused_def handler_defs dest!: read_dest intro!: durable_store
      split: prod.splits sum.splits option.splits decoded.splits store_error.splits if_splits)

lemma handleAPINotes_refused: "refused (status_of (fst (handleAPINotes ev r h sv))) \<Longrightarrow> durable (snd (handleAPINotes ev r h sv)) = durable sv"
  by (auto simp: handleAPINotes_def refused_def handler_defs dest!: read_dest intro!: durable_store
      split: prod.splits sum.splits option.splits decoded.splits store_error.splits if_splits)

lemma handleAPINoteByID_refused: "refused (status_of (fst (handleAPINoteByID r h sv))) \<Longrightarrow> durable (snd (handleAPINoteByID r h sv)) = durable sv"
  by (auto simp: handleAPINoteByID_def refused_def handler_defs dest!: read_dest intro!: durable_store
      split: prod.splits sum.splits option.splits decoded.splits store_error.splits if_splits)

lemma handleInterceptMode_refused: "refused (status_of (fst (handleInterceptMode r h sv))) \<Longrightarrow> durable (snd (handleInterceptMode r h sv)) = durable sv"
  by (auto simp: handleInterceptMode_def refused_def handler_defs dest!: read_dest intro!: durable_store
      split: prod.splits sum.splits option.splits decoded.splits store_error.splits if_splits)

lemma handleInterceptAction_refused: "refused (status_of (fst (handleInterceptAction r h sv))) \<Longrightarrow> durable (snd (handleInterceptAction r h sv)) = durable sv"
  by (auto simp: handleInterceptAction_def refused_def handler_defs dest!: read_dest intro!: durable_store
      split: prod.splits sum.splits option.splits decoded.splits store_error.splits if_splits)

lemma handleInterceptRules_refused: "refused (status_of (fst (handleInterceptRules ev r h sv))) \<Longrightarrow> durable (snd (handleInterceptRules ev r h sv)) = durable sv"
  by (auto simp: handleInterceptRules_def refused_def handler_defs dest!: read_dest intro!: durable_store
      split: prod.splits sum.splits option.splits decoded.splits store_error.splits if_splits)

lemma handleInterceptRuleByID_refused: "refused (status_of (fst (handleInterceptRuleByID r h sv))) \<Longrightarrow> durable (snd (handleInterceptRuleByID r h sv)) = durable sv"
  by (auto simp: handleInterceptRuleByID_def refused_def handler_defs dest!: read_dest intro!: durable_store
      split: prod.splits sum.splits option.splits decoded.splits store_error.splits if_splits)

lemma handleCaptureStart_refused: "refused (status_of (fst (handleCaptureStart ev r h sv))) \<Longrightarrow> durable (snd (handleCaptureStart ev r h sv)) = durable sv"
  by (auto simp: handleCaptureStart_def refused_def handler_defs dest!: read_dest intro!: durable_store
      split: prod.splits sum.splits option.splits decoded.splits store_error.splits if_splits)

lemma handleCaptureStop_refused: "refused (status_of (fst (handleCaptureStop r h sv))) \<Longrightarrow> durable (snd (handleCaptureStop r h sv)) = durable sv"
  by (auto simp: handleCaptureStop_def refused_def handler_defs dest!: read_dest intro!: durable_store
      split: prod.splits sum.splits option.splits decoded.splits store_error.splits if_splits)

lemma handleMaintenanceCleanup_refused: "refused (status_of (fst (handleMaintenanceCleanup ev r h sv))) \<Longrightarrow> durable (snd (handleMaintenanceCleanup ev r h sv)) = durable sv"
  by (auto simp: handleMaintenanceCleanup_def refused_def handler_defs dest!: read_dest intro!: durable_store
      split: prod.splits sum.splits option.splits decoded.splits store_error.splits if_splits)

section \<open>All routes\<close>

lemma api_handler_all:
  assumes "list_all P (map snd (route_table ev))"
  shows "P (api_handler ev pat)"
proof (cases "map_of (route_table ev) pat")
  case None
  then show ?thesis using assms by (simp add: api_handler_def route_table_def)
next
  case (Some f)
  then show ?thesis using assms map_of_SomeD [OF Some] by (force simp: api_handler_def list_all_iff)
qed

lemmas all_reads = handleHealth_reads handleReady_reads handleListRequests_reads handleStats_reads
  handleProxyStatus_reads handleAPIMap_reads handleAPIHosts_reads handleInterceptPending_reads
  handleInterceptLogs_reads handleCaptureStatus_reads handleCaptureInterfaces_reads handleExportHAR_reads
  handleLLMList_reads handleLLMByID_reads handleLLMStats_reads handleMetrics_reads handle_ws_reads handle_static_reads

lemmas all_safe = handleRequestByID_safe handleStarred_safe handleResend_safe handleClear_safe handleAPINotes_safe
  handleAPINoteByID_safe handleInterceptMode_safe handleInterceptAction_safe handleInterceptRules_safe
  handleInterceptRuleByID_safe handleCaptureStart_safe handleCaptureStop_safe handleMaintenanceCleanup_safe

lemmas all_refused = handleRequestByID_refused handleStarred_refused handleResend_refused handleClear_refused
  handleAPINotes_refused handleAPINoteByID_refused handleInterceptMode_refused handleInterceptAction_refused
  handleInterceptRules_refused handleInterceptRuleByID_refused handleCaptureStart_refused handleCaptureStop_refused
  handleMaintenanceCleanup_refused

lemma safe_handlers: "safe_method (hr_Method r) \<Longrightarrow> durable (snd (api_handler ev pat r h sv)) = durable sv"
  by (rule api_handler_all [where P = "\<lambda>f. durable (snd (f r h sv)) = durable sv"])
     (simp only: route_table_def list.map snd_conv list.pred_inject simp_thms, intro conjI; (rule all_reads | erule all_safe))

lemma open_api_handler:
  "api_handler ev ''/health'' = handleHealth" "api_handler ev ''/ready'' = handleReady"
  "api_handler ev ''/'' = handle_static ev"
  by (simp_all add: api_handler_def route_table_def)

lemma open_handlers:
  assumes "open_route pat"
  shows "durable (snd (api_handler ev pat r h sv)) = durable sv"
proof -
  from assms consider "pat = ''/health''" | "pat = ''/ready''" | "pat = ''/''" unfolding open_route_def by blast
  then show ?thesis
    by cases (simp_all only: open_api_handler handleHealth_reads handleReady_reads handle_static_reads)
qed

text \<open>C11: A request answered with a status from 400 to 499, on whatever route, changes no request, log,
  setting, rule or note, neither the interceptor nor the capture engines.\<close>

theorem refused_changes_nothing:
  assumes "refused (status_of (fst (api_handler ev pat r h sv)))"
  shows "durable (snd (api_handler ev pat r h sv)) = durable sv"
proof -
  have "refused (status_of (fst (api_handler ev pat r h sv))) \<longrightarrow> durable (snd (api_handler ev pat r h sv)) = durable sv"
    by (rule api_handler_all [where P = "\<lambda>f. refused (status_of (fst (f r h sv))) \<longrightarrow> durable (snd (f r h sv)) = durable sv"])
       (simp only: route_table_def list.map snd_conv list.pred_inject simp_thms, intro conjI impI;
         (rule all_reads | erule all_refused))
  then show ?thesis using assms by blast
qed

definition quiet_env :: "unit api_env" where
  "quiet_env = \<lparr>ev_now = 0, ev_ms = 0, ev_like = like_match, ev_log_text = (\<lambda>_. []), ev_text_le = (\<lambda>_ _. True),
     ev_hosts = (\<lambda>_ _. []), ev_extract = (\<lambda>_ _. None), ev_dec_time = (\<lambda>j t. Some t), ev_time0 = (),
     ev_time_ok = (\<lambda>_. True), ev_parse = (\<lambda>_. Inl []), ev_quote = (\<lambda>s. s), ev_order = (\<lambda>x. x), ev_morder = (\<lambda>x. x),
     ev_devices = None, ev_devices_error = [], ev_start = (\<lambda>_ _. None), ev_upgrade = None,
     ev_time_text = (\<lambda>_. []), ev_llm_stats = (\<lambda>_. None), ev_tie_models = (\<lambda>x. x), ev_tie_providers = (\<lambda>x. x), ev_metrics = [], ev_frontend = (\<lambda>_ h. Response \<lparr>as_Status = 200, as_Header = h, as_Body = Empty\<rparr>)\<rparr>"

definition fresh_server :: api_server where
  "fresh_server = \<lparr>sv_store = empty_store, sv_notes = [], sv_interceptor = Some (NewInterceptor 0),
     sv_network = rebound_network, sv_hub = newWSHub, sv_engines = [], sv_captureEngine = None,
     sv_proxyRunning = True, sv_insecure = False\<rparr>"

definition api_call :: "string \<Rightarrow> string \<Rightarrow> string \<Rightarrow> http_header \<Rightarrow> api_request" where
  "api_call m path body hdrs =
     \<lparr>hr_Method = m, hr_URL = \<lparr>url_String = [], url_Host = [], url_Path = path\<rparr>, hr_Header = hdrs,
      hr_Body = Some body, hr_GetBody = None, hr_ContentLength = 0, ar_RemoteAddr = [], ar_Query = [],
      ar_ContextID = [], ar_WriterID = []\<rparr>"

theorem refused_changes_nothing_witness:
  "status_of (fst (api_handler quiet_env ''/api/clear'' (api_call ''PUT'' ''/api/clear'' [] []) [] fresh_server)) = 405 \<and>
   durable (snd (api_handler quiet_env ''/api/clear'' (api_call ''PUT'' ''/api/clear'' [] []) [] fresh_server)) = durable fresh_server"
proof -
  have s: "status_of (fst (api_handler quiet_env ''/api/clear'' (api_call ''PUT'' ''/api/clear'' [] []) [] fresh_server)) = 405"
    by (simp add: api_handler_def route_table_def handleClear_def api_call_def not_allowed_def)
  then have "refused (status_of (fst (api_handler quiet_env ''/api/clear'' (api_call ''PUT'' ''/api/clear'' [] []) [] fresh_server)))"
    by (simp add: refused_def)
  from refused_changes_nothing [OF this] s show ?thesis by blast
qed

text \<open>C14: The defence against requests that other sites make a browser send is complete: through the whole
  chain and router, a request that changes anything durable does not use GET, HEAD or OPTIONS, carries
  the header such a site cannot set, and presents the token if there is one.\<close>

theorem changes_need_header_and_token:
  assumes "api_chain hostname origins apiToken uuid now (serve_mux (setupRoutes f) (api_handler ev)) r h (rl, sv) = (a, rl', sv')"
    and "durable sv' \<noteq> durable sv"
  shows "\<not> safe_method (hr_Method r) \<and> Header_Get (hr_Header r) ''X-Requested-With'' = ''XMLHttpRequest'' \<and>
     (apiToken \<noteq> [] \<longrightarrow> presented_token r = apiToken)"
proof -
  obtain pat r' h' where a: "admitted apiToken pat r" and m: "same_message r r'" and s: "sv' = snd (api_handler ev pat r' h' sv)"
    using chain_guard [OF assms(1)] assms(2) by auto
  have "\<not> safe_method (hr_Method r')" "\<not> open_route pat"
    using safe_handlers [of r' ev pat h' sv] open_handlers [of pat ev r' h' sv] assms(2) s by auto
  then show ?thesis using a same_message_fields [OF m] by (auto simp: admitted_def)
qed

text \<open>A stop of the capture, asked for with the header and the token.\<close>

definition stop_call :: api_request where
  "stop_call = api_call ''POST'' ''/api/capture/stop'' []
     [(''X-Requested-With'', [''XMLHttpRequest'']), (''Authorization'', [''Bearer t''])]"

definition capturing :: api_server where
  "capturing = fresh_server\<lparr>sv_engines := [True], sv_captureEngine := Some 0\<rparr>"

lemma stop_call_routed:
  "cleanPath (ar_path stop_call) = ar_path stop_call"
  "mux_pattern (setupRoutes True) (ar_path stop_call) = Some ''/api/capture/stop''"
  by code_simp+

lemma stop_call_shows:
  "presented_token stop_call = ''t''" "Header_Get (hr_Header stop_call) ''X-Requested-With'' = ''XMLHttpRequest''"
  "hr_Method stop_call = ''POST''" "ar_path stop_call = ''/api/capture/stop''"
  by code_simp+

lemma same_message_refl: "same_message r r"
  unfolding same_message_def by (rule exI [of _ "ar_ContextID r"], rule exI [of _ "ar_WriterID r"]) simp

lemma same_message_ids:
  assumes "same_message r r'"
  shows "same_message r (r'\<lparr>ar_ContextID := c\<rparr>)" and "same_message r (r'\<lparr>ar_WriterID := w\<rparr>)"
proof -
  obtain c' w' where r': "r' = r\<lparr>ar_ContextID := c', ar_WriterID := w'\<rparr>" using assms unfolding same_message_def by blast
  have "r'\<lparr>ar_ContextID := c\<rparr> = r\<lparr>ar_ContextID := c, ar_WriterID := w'\<rparr>"
    "r'\<lparr>ar_WriterID := w\<rparr> = r\<lparr>ar_ContextID := c', ar_WriterID := w\<rparr>"
    unfolding r' by (cases r; simp)+
  then show "same_message r (r'\<lparr>ar_ContextID := c\<rparr>)" and "same_message r (r'\<lparr>ar_WriterID := w\<rparr>)"
    unfolding same_message_def by blast+
qed

text \<open>Every layer of the chain lets it through.\<close>

definition lets_stop :: "server_handler \<Rightarrow> bool" where
  "lets_stop f \<longleftrightarrow>
     (\<forall>r h. same_message stop_call r \<longrightarrow> (\<exists>x. f r h capturing = (Response x, capture_stop_end 0 capturing)))"

lemma lets_stop_mux: "lets_stop (serve_mux (setupRoutes True) (api_handler quiet_env))"
  unfolding lets_stop_def
proof (intro allI impI)
  fix r h assume "same_message stop_call r"
  from same_message_fields [OF this] have "ar_path r = ar_path stop_call" "hr_Method r = ''POST''"
    using stop_call_shows by auto
  moreover have "api_handler quiet_env ''/api/capture/stop'' = handleCaptureStop"
    by (simp add: api_handler_def route_table_def)
  ultimately show "\<exists>x. serve_mux (setupRoutes True) (api_handler quiet_env) r h capturing = (Response x, capture_stop_end 0 capturing)"
    using stop_call_routed
    by (simp add: serve_mux_def handleCaptureStop_def capturing_def reply_json_def writeJSON_def marshals_def)
qed

lemma stop_call_same:
  "same_message stop_call r \<Longrightarrow> presented_token r = ''t''"
  "same_message stop_call r \<Longrightarrow> Header_Get (hr_Header r) ''X-Requested-With'' = ''XMLHttpRequest''"
  "same_message stop_call r \<Longrightarrow> hr_Method r \<noteq> ''OPTIONS''"
  using same_message_fields [of stop_call r] stop_call_shows by auto

lemma lets_stop_auth: "lets_stop f \<Longrightarrow> lets_stop (authMiddleware ''t'' f)"
  unfolding lets_stop_def authMiddleware_def by (simp add: stop_call_same)

lemma lets_stop_ids: "lets_stop f \<Longrightarrow> lets_stop (requestIDMiddleware uuid (requestIDInjectorMiddleware f))"
  unfolding lets_stop_def requestIDMiddleware_def requestIDInjectorMiddleware_def Let_def
  using same_message_ids by blast

lemma lets_stop_recovery:
  assumes "lets_stop f"
  shows "lets_stop (recoveryMiddleware f)"
  unfolding lets_stop_def
proof (intro allI impI)
  fix r h assume "same_message stop_call r"
  then obtain x where "f r h capturing = (Response x, capture_stop_end 0 capturing)" using assms unfolding lets_stop_def by blast
  then show "\<exists>x. recoveryMiddleware f r h capturing = (Response x, capture_stop_end 0 capturing)"
    by (simp add: recoveryMiddleware_def)
qed

lemma lets_stop_outer:
  "lets_stop f \<Longrightarrow> lets_stop (securityHeadersMiddleware (corsMiddleware hostname origins (csrfMiddleware f)))"
  unfolding lets_stop_def securityHeadersMiddleware_def corsMiddleware_def csrfMiddleware_def Let_def
  by (simp add: stop_call_same)

theorem changes_need_header_and_token_witness:
  "\<exists>a rl' sv'. api_chain (\<lambda>_. None) [] ''t'' ''0123456789abcdef'' 0 (serve_mux (setupRoutes True) (api_handler quiet_env))
       stop_call [] (newRateLimiter 120 60, capturing) = (a, rl', sv') \<and> durable sv' \<noteq> durable capturing \<and>
     presented_token stop_call = ''t''"
proof -
  let ?in = "securityHeadersMiddleware (corsMiddleware (\<lambda>_. None) [] (csrfMiddleware (recoveryMiddleware
      (requestIDMiddleware ''0123456789abcdef'' (requestIDInjectorMiddleware (authMiddleware ''t''
        (serve_mux (setupRoutes True) (api_handler quiet_env))))))))"
  have "lets_stop ?in"
    by (intro lets_stop_outer lets_stop_recovery lets_stop_ids lets_stop_auth lets_stop_mux)
  then obtain x where x: "?in stop_call [] capturing = (Response x, capture_stop_end 0 capturing)"
    using same_message_refl unfolding lets_stop_def by blast
  have "\<exists>rl. allow 0 k (newRateLimiter 120 60) = (True, rl)" for k
    by (simp add: allow_def newRateLimiter_def Let_def)
  then obtain rl where rl: "allow 0 (case split_host_port (ar_RemoteAddr stop_call) of
      Some (host, _) \<Rightarrow> if host = [] then ar_RemoteAddr stop_call else host | None \<Rightarrow> ar_RemoteAddr stop_call)
      (newRateLimiter 120 60) = (True, rl)"
    by blast
  have r: "api_chain (\<lambda>_. None) [] ''t'' ''0123456789abcdef'' 0 (serve_mux (setupRoutes True) (api_handler quiet_env))
      stop_call [] (newRateLimiter 120 60, capturing) = (Response x, rl, capture_stop_end 0 capturing)"
    unfolding api_chain_def rateLimitMiddleware_def Let_def prod.case rl x using stop_call_shows by simp
  moreover have d: "durable (capture_stop_end 0 capturing) \<noteq> durable capturing"
    by (simp add: durable_def capture_stop_end_def SetCaptureEngine_def stop_engine_def capturing_def)
  ultimately show ?thesis using changes_need_header_and_token [OF r d] by simp
qed

section \<open>Rules\<close>

lemma reload_rules_ok:
  "sv_interceptor sv = Some ic \<Longrightarrow> st_replies (sv_store sv) = ExecOk a b # rest \<Longrightarrow>
   \<exists>ic'. sv_interceptor (reload_rules sv) = Some ic' \<and>
     it_rules ic' = sort_key ir_ID (st_rules (sv_store (reload_rules sv)))"
  by (simp add: reload_rules_def ListRules_def next_reply_def SetRules_def)


definition two_rules :: api_server where
  "two_rules = fresh_server\<lparr>sv_store := empty_store\<lparr>st_rules :=
       [\<lparr>ir_ID = 2, ir_Pattern = ''b'', ir_Method = [], ir_Action = ''block'', ir_Enabled = True\<rparr>,
        \<lparr>ir_ID = 1, ir_Pattern = ''a'', ir_Method = [], ir_Action = ''allow'', ir_Enabled = True\<rparr>],
     st_replies := [ExecOk 0 None, ExecOk 0 None]\<rparr>\<rparr>"


text \<open>If the second statement fails, the answer is a success and the rule is not in force.\<close>

lemma rule_created_not_in_force:
  assumes "sv_interceptor sv = Some ic" and "st_replies (sv_store sv) = [ExecOk i None]" and "hr_Method r = ''POST''"
    and "Decode (rule_fields ev) \<lparr>ir_ID = 0, ir_Pattern = [], ir_Method = [], ir_Action = [], ir_Enabled = False\<rparr> r = Decoded rule"
    and "rule_error rule = None"
  shows "status_of (fst (handleInterceptRules ev r h sv)) = 201 \<and> sv_interceptor (snd (handleInterceptRules ev r h sv)) = Some ic \<and>
    st_rules (sv_store (snd (handleInterceptRules ev r h sv))) = st_rules (sv_store sv) @ [rule\<lparr>ir_ID := i\<rparr>]"
  using assms by (simp add: handleInterceptRules_def SaveRule_def next_reply_def reload_rules_def ListRules_def)

section \<open>Capture engines\<close>

text \<open>At most one engine runs, and it is the one the server knows.\<close>

definition one_engine :: "api_server \<Rightarrow> bool" where
  "one_engine sv \<longleftrightarrow> (\<forall>e. engine_running e sv \<longrightarrow> sv_captureEngine sv = Some e)"

lemma stopped_nth: "i < length xs \<Longrightarrow> xs[e := False] ! i \<longleftrightarrow> i \<noteq> e \<and> xs ! i"
  by (cases "e = i") auto

lemma start_engine_one:
  assumes "one_engine sv"
  shows "one_engine (start_engine err sv)"
proof (cases "err = None")
  case False
  then show ?thesis using assms by (auto simp: one_engine_def engine_running_def start_engine_def nth_append less_Suc_eq)
next
  case True
  have old: "xs[e := False] ! i \<longrightarrow> i = length (sv_engines sv)"
    if "sv_captureEngine sv = Some e" "i < length xs" "xs = sv_engines sv @ [True]" for i e xs
    using assms that by (auto simp: one_engine_def engine_running_def stopped_nth nth_append less_Suc_eq)
  have none: "\<not> sv_engines sv ! i" if "sv_captureEngine sv = None" "i < length (sv_engines sv)" for i
    using assms that by (auto simp: one_engine_def engine_running_def)
  show ?thesis
    using True old none
    by (auto simp: one_engine_def engine_running_def start_engine_def SetCaptureEngine_def stop_engine_def Let_def
        nth_append less_Suc_eq split: option.splits)
qed

lemma capture_stop_one: "one_engine sv \<Longrightarrow> sv_captureEngine sv = Some e \<Longrightarrow> one_engine (capture_stop_end e sv)"
  by (auto simp: one_engine_def engine_running_def capture_stop_end_def SetCaptureEngine_def stop_engine_def stopped_nth)

text \<open>
  A stop that read the engine before a start and goes on after it forgets the new engine, which runs
  on: the API can neither see nor stop it.
\<close>

lemma capture_stop_loses_engine:
  assumes "sv_captureEngine sv = Some ce" and "ce < length (sv_engines sv)"
  shows "sv_captureEngine (capture_stop_end ce (start_engine None sv)) = None \<and>
    engine_running (length (sv_engines sv)) (capture_stop_end ce (start_engine None sv))"
  using assms
  by (simp add: capture_stop_end_def start_engine_def SetCaptureEngine_def stop_engine_def engine_running_def Let_def nth_append nth_list_update)

end
