(* ===== verification/Config.thy ===== *)
theory Config
  imports ApiMiddleware Store
begin

text \<open>
  The configuration of \<^verbatim>\<open>internal/config/config.go\<close>: \<open>Load\<close> checks the values of the command line, fills in
  the defaults, makes the directories and, when no token was given, writes a random one to a file. The
  operating system is a record of functions; what \<open>Load\<close> does to the file system is a list of effects.
\<close>

section \<open>Paths (Unix)\<close>

text \<open>\<open>filepath.Clean\<close>: in a relative path leading double dots stay.\<close>

fun relative_segments :: "string list \<Rightarrow> string list \<Rightarrow> string list" where
  "relative_segments acc [] = acc"
| "relative_segments acc (x # xs) =
     (if x = [] \<or> x = ''.'' then relative_segments acc xs
      else if x = ''..'' \<and> acc \<noteq> [] \<and> last acc \<noteq> ''..'' then relative_segments (butlast acc) xs
      else relative_segments (acc @ [x]) xs)"

definition file_clean :: "string \<Rightarrow> string" where
  "file_clean p =
     (if p = [] then ''.''
      else if hd p = CHR ''/'' then CHR ''/'' # join_with (CHR ''/'') (clean_segments [] (split_on (CHR ''/'') p))
      else let r = join_with (CHR ''/'') (relative_segments [] (split_on (CHR ''/'') p))
           in if r = [] then ''.'' else r)"

definition file_join :: "string list \<Rightarrow> string" where
  "file_join es =
     (case filter (\<lambda>e. e \<noteq> []) es of [] \<Rightarrow> [] | es \<Rightarrow> file_clean (join_with (CHR ''/'') es))"

definition file_dir :: "string \<Rightarrow> string" where
  "file_dir p = file_clean (case last_index_byte p (CHR ''/'') of None \<Rightarrow> [] | Some i \<Rightarrow> take (Suc i) p)"

section \<open>The configuration\<close>

record config =
  cf_ProxyPort :: int
  cf_APIPort :: int
  cf_APIHost :: string
  cf_APIToken :: string
  cf_DBPath :: string
  cf_NoProxy :: bool
  cf_NoMitm :: bool
  cf_Insecure :: bool
  cf_BaseDir :: string
  cf_CertDir :: string
  cf_Capture :: bool
  cf_CaptureIface :: string
  cf_CaptureBPF :: string
  cf_CaptureNoProc :: bool
  cf_CaptureStreamTimeoutMin :: int
  cf_CaptureRingEntries :: int
  cf_MaxStreams :: int
  cf_MaxReqBodyKB :: int
  cf_MaxResBodyKB :: int
  cf_AllowOrigins :: "string list"
  cf_InterceptPendingTimeout :: instant
  cf_CleanupRetentionDays :: int
  cf_CleanupInterval :: instant
  cf_LLMEndpoints :: "string list"

definition DefaultMaxReqBodyKB :: int where "DefaultMaxReqBodyKB = 2048"
definition DefaultMaxResBodyKB :: int where "DefaultMaxResBodyKB = 4096"
definition DefaultStreamTimeoutMin :: int where "DefaultStreamTimeoutMin = 2"
definition DefaultCaptureRingEntries :: int where "DefaultCaptureRingEntries = 262144"
definition DefaultMaxStreams :: int where "DefaultMaxStreams = 1000"
definition DefaultInterceptPendingTimeout :: instant where "DefaultInterceptPendingTimeout = 15 * seconds"
definition DefaultCleanupInterval :: instant where "DefaultCleanupInterval = 6 * 3600 * seconds"

lemmas default_defs = DefaultMaxReqBodyKB_def DefaultMaxResBodyKB_def DefaultStreamTimeoutMin_def
  DefaultCaptureRingEntries_def DefaultMaxStreams_def DefaultInterceptPendingTimeout_def DefaultCleanupInterval_def

text \<open>The arguments of \<open>Load\<close>.\<close>

record load_args =
  la_proxyPort :: int
  la_apiPort :: int
  la_dbPath :: string
  la_noProxy :: bool
  la_noMitm :: bool
  la_insecure :: bool
  la_apiHost :: string
  la_apiToken :: string
  la_capture :: bool
  la_captureIface :: string
  la_captureBPF :: string
  la_captureNoProc :: bool
  la_streamTimeoutMin :: int
  la_maxReqBodyKB :: int
  la_maxResBodyKB :: int
  la_captureRingEntries :: int
  la_maxStreams :: int
  la_interceptPendingTimeout :: instant
  la_cleanupRetentionDays :: int
  la_cleanupInterval :: instant
  la_llmEndpoints :: "string list"

text \<open>The operating system: the home directory, making a directory, 32 random bytes, writing a file.\<close>

record load_env =
  le_UserHomeDir :: "string + string"
  le_MkdirAll :: "string \<Rightarrow> string option"
  le_Read :: "string + 8 word list"
  le_WriteFile :: "string \<Rightarrow> string \<Rightarrow> string option"

datatype file_effect = Made string | Wrote string string

datatype config_error =
    No_home string
  | Invalid_proxy_port int
  | Invalid_api_port int
  | Ports_equal int
  | No_base_directory string string
  | No_cert_directory string string
  | No_DB_directory string string
  | No_token string
  | Negative_max_req_body int
  | Negative_max_res_body int
  | Negative_stream_timeout int
  | Negative_ring_entries int
  | Negative_max_streams int
  | Max_streams_too_small int
  | Pending_timeout_out_of_range instant
  | Negative_retention_days int
  | Cleanup_interval_too_short instant

section \<open>Load\<close>

definition hex_digit :: "nat \<Rightarrow> char" where
  "hex_digit n = ''0123456789abcdef'' ! n"

definition hex_encode :: "8 word list \<Rightarrow> string" where
  "hex_encode bs = concat (map (\<lambda>b. [hex_digit (unat b div 16), hex_digit (unat b mod 16)]) bs)"

definition generateAPIToken :: "load_env \<Rightarrow> string + string" where
  "generateAPIToken env = (case le_Read env of Inl e \<Rightarrow> Inl e | Inr buf \<Rightarrow> Inr (hex_encode buf))"

text \<open>A token that cannot be written to the file is a warning only.\<close>

definition load_token :: "load_env \<Rightarrow> string \<Rightarrow> string \<Rightarrow> (config_error + string) \<times> file_effect list" where
  "load_token env baseDir apiToken =
     (if apiToken = [] then
        (case generateAPIToken env of
           Inl e \<Rightarrow> (Inl (No_token e), [])
         | Inr t \<Rightarrow>
             let tokenPath = file_join [baseDir, ''token''] in
             (Inr t, if le_WriteFile env tokenPath (t @ [CHR 0x0A]) = None then [Wrote tokenPath (t @ [CHR 0x0A])] else []))
      else (Inr apiToken, []))"

definition or_default :: "int \<Rightarrow> int \<Rightarrow> int" where
  "or_default n d = (if n = 0 then d else n)"

text \<open>The limits and intervals, checked after the token was made.\<close>

definition load_limits :: "load_args \<Rightarrow> string \<Rightarrow> string \<Rightarrow> string \<Rightarrow> string \<Rightarrow> config_error + config" where
  "load_limits a baseDir dbPath apiHost apiToken =
     (if la_maxReqBodyKB a < 0 then Inl (Negative_max_req_body (la_maxReqBodyKB a))
      else if la_maxResBodyKB a < 0 then Inl (Negative_max_res_body (la_maxResBodyKB a))
      else
        let maxReqBodyKB = or_default (la_maxReqBodyKB a) DefaultMaxReqBodyKB;
            maxResBodyKB = or_default (la_maxResBodyKB a) DefaultMaxResBodyKB
        in if la_streamTimeoutMin a < 0 then Inl (Negative_stream_timeout (la_streamTimeoutMin a))
      else
        let streamTimeoutMin = or_default (la_streamTimeoutMin a) DefaultStreamTimeoutMin
        in if la_captureRingEntries a < 0 then Inl (Negative_ring_entries (la_captureRingEntries a))
      else
        let captureRingEntries = or_default (la_captureRingEntries a) DefaultCaptureRingEntries
        in if la_maxStreams a < 0 then Inl (Negative_max_streams (la_maxStreams a))
      else
        let maxStreams = or_default (la_maxStreams a) DefaultMaxStreams
        in if maxStreams > 0 \<and> maxStreams < 64 then Inl (Max_streams_too_small maxStreams)
      else
        let timeout = or_default (la_interceptPendingTimeout a) DefaultInterceptPendingTimeout
        in if timeout < seconds \<or> timeout > 10 * 60 * seconds then Inl (Pending_timeout_out_of_range timeout)
      else if la_cleanupRetentionDays a < 0 then Inl (Negative_retention_days (la_cleanupRetentionDays a))
      else
        let interval = or_default (la_cleanupInterval a) DefaultCleanupInterval
        in if interval < 60 * seconds then Inl (Cleanup_interval_too_short interval)
      else Inr
        \<lparr>cf_ProxyPort = la_proxyPort a, cf_APIPort = la_apiPort a, cf_APIHost = apiHost, cf_APIToken = apiToken,
         cf_DBPath = dbPath, cf_NoProxy = la_noProxy a, cf_NoMitm = la_noMitm a, cf_Insecure = la_insecure a,
         cf_BaseDir = baseDir, cf_CertDir = file_join [baseDir, ''certs''], cf_Capture = la_capture a,
         cf_CaptureIface = la_captureIface a, cf_CaptureBPF = la_captureBPF a, cf_CaptureNoProc = la_captureNoProc a,
         cf_CaptureStreamTimeoutMin = streamTimeoutMin, cf_CaptureRingEntries = captureRingEntries,
         cf_MaxStreams = maxStreams, cf_MaxReqBodyKB = maxReqBodyKB, cf_MaxResBodyKB = maxResBodyKB,
         cf_AllowOrigins = [], cf_InterceptPendingTimeout = timeout,
         cf_CleanupRetentionDays = la_cleanupRetentionDays a, cf_CleanupInterval = interval,
         cf_LLMEndpoints = la_llmEndpoints a\<rparr>)"

definition Load :: "load_env \<Rightarrow> load_args \<Rightarrow> (config_error + config) \<times> file_effect list" where
  "Load env a =
     (case le_UserHomeDir env of
        Inl e \<Rightarrow> (Inl (No_home e), [])
      | Inr home \<Rightarrow>
        let baseDir = file_join [home, ''.packetlab''];
            dbPath = (if la_dbPath a = [] then file_join [baseDir, ''data.db''] else la_dbPath a);
            apiHost = (if la_apiHost a = [] then ''127.0.0.1'' else la_apiHost a)
        in if la_proxyPort a \<le> 0 \<or> la_proxyPort a > 65535 then (Inl (Invalid_proxy_port (la_proxyPort a)), [])
      else if la_apiPort a \<le> 0 \<or> la_apiPort a > 65535 then (Inl (Invalid_api_port (la_apiPort a)), [])
      else if la_proxyPort a = la_apiPort a then (Inl (Ports_equal (la_proxyPort a)), [])
      else case le_MkdirAll env baseDir of
        Some e \<Rightarrow> (Inl (No_base_directory baseDir e), [])
      | None \<Rightarrow>
        let certDir = file_join [baseDir, ''certs''] in
        case le_MkdirAll env certDir of
          Some e \<Rightarrow> (Inl (No_cert_directory certDir e), [Made baseDir])
        | None \<Rightarrow>
          case le_MkdirAll env (file_dir dbPath) of
            Some e \<Rightarrow> (Inl (No_DB_directory (file_dir dbPath) e), [Made baseDir, Made certDir])
          | None \<Rightarrow>
            let made = [Made baseDir, Made certDir, Made (file_dir dbPath)] in
            case load_token env baseDir (la_apiToken a) of
              (Inl e, fx) \<Rightarrow> (Inl e, made @ fx)
            | (Inr apiToken, fx) \<Rightarrow> (load_limits a baseDir dbPath apiHost apiToken, made @ fx))"

definition ProxyAddr :: "config \<Rightarrow> string" where
  "ProxyAddr c = '':'' @ show_int (cf_ProxyPort c)"

definition APIAddr :: "config \<Rightarrow> string" where
  "APIAddr c = cf_APIHost c @ '':'' @ show_int (cf_APIPort c)"

section \<open>What is accepted\<close>

text \<open>What the values of an accepted command line satisfy, and what a configuration does.\<close>

definition acceptable :: "load_args \<Rightarrow> bool" where
  "acceptable a \<longleftrightarrow>
     la_proxyPort a \<in> {1..65535} \<and> la_apiPort a \<in> {1..65535} \<and> la_proxyPort a \<noteq> la_apiPort a \<and>
     0 \<le> la_maxReqBodyKB a \<and> 0 \<le> la_maxResBodyKB a \<and> 0 \<le> la_streamTimeoutMin a \<and>
     0 \<le> la_captureRingEntries a \<and> (la_maxStreams a = 0 \<or> 64 \<le> la_maxStreams a) \<and>
     (la_interceptPendingTimeout a = 0 \<or> la_interceptPendingTimeout a \<in> {seconds..600 * seconds}) \<and>
     0 \<le> la_cleanupRetentionDays a \<and> (la_cleanupInterval a = 0 \<or> 60 * seconds \<le> la_cleanupInterval a)"

definition valid_config :: "config \<Rightarrow> bool" where
  "valid_config c \<longleftrightarrow>
     cf_ProxyPort c \<in> {1..65535} \<and> cf_APIPort c \<in> {1..65535} \<and> cf_ProxyPort c \<noteq> cf_APIPort c \<and>
     cf_APIToken c \<noteq> [] \<and> cf_APIHost c \<noteq> [] \<and> cf_DBPath c \<noteq> [] \<and>
     0 < cf_MaxReqBodyKB c \<and> 0 < cf_MaxResBodyKB c \<and> 0 < cf_CaptureStreamTimeoutMin c \<and>
     0 < cf_CaptureRingEntries c \<and> 64 \<le> cf_MaxStreams c \<and>
     cf_InterceptPendingTimeout c \<in> {seconds..600 * seconds} \<and>
     0 \<le> cf_CleanupRetentionDays c \<and> 60 * seconds \<le> cf_CleanupInterval c"

definition working :: "load_env \<Rightarrow> bool" where
  "working env \<longleftrightarrow> (\<exists>home. le_UserHomeDir env = Inr home) \<and> (\<forall>d. le_MkdirAll env d = None) \<and>
     (\<exists>buf. le_Read env = Inr buf \<and> length buf = 32)"

text \<open>The hypothesis on the random source: it fills the buffer or fails.\<close>

definition fills_buffer :: "load_env \<Rightarrow> bool" where
  "fills_buffer env \<longleftrightarrow> (\<forall>buf. le_Read env = Inr buf \<longrightarrow> length buf = 32)"

lemma seconds_pos [simp]: "0 < seconds"
  by (simp add: seconds_def)

lemma hex_encode_length: "length (hex_encode bs) = 2 * length bs"
  by (induction bs) (simp_all add: hex_encode_def)

lemma generated_token: "fills_buffer env \<Longrightarrow> generateAPIToken env = Inr t \<Longrightarrow> length t = 64"
  by (auto simp: generateAPIToken_def fills_buffer_def hex_encode_length split: sum.splits)

lemma load_token_nonempty: "fills_buffer env \<Longrightarrow> load_token env base given = (Inr t, fx) \<Longrightarrow> t \<noteq> []"
  using generated_token [of env] by (fastforce simp: load_token_def Let_def split: if_splits sum.splits)

lemma load_token_works: "le_Read env = Inr buf \<Longrightarrow> \<exists>t fx. load_token env base given = (Inr t, fx)"
  by (simp add: load_token_def generateAPIToken_def Let_def)

lemma or_default_cases:
  "0 < d \<Longrightarrow> (or_default n d < lo) = (if n = 0 then d < lo else n < lo)"
  "0 < d \<Longrightarrow> (or_default n d > hi) = (if n = 0 then d > hi else n > hi)"
  by (simp_all add: or_default_def)

lemma check_passed:
  "(\<exists>c. (if A then Inl e else x) = Inr c) \<longleftrightarrow> \<not> A \<and> (\<exists>c. x = Inr c)" "\<exists>c. Inr y = Inr c"
  "(if A then Inl e else x) = Inr c \<longleftrightarrow> \<not> A \<and> x = Inr c"
  by auto

lemma load_limits_Inr:
  "load_limits a base db host token = Inr c \<Longrightarrow>
   cf_ProxyPort c = la_proxyPort a \<and> cf_APIPort c = la_apiPort a \<and> cf_APIHost c = host \<and> cf_APIToken c = token \<and>
   cf_DBPath c = db \<and> cf_BaseDir c = base \<and> 0 < cf_MaxReqBodyKB c \<and> 0 < cf_MaxResBodyKB c \<and>
   0 < cf_CaptureStreamTimeoutMin c \<and> 0 < cf_CaptureRingEntries c \<and> 64 \<le> cf_MaxStreams c \<and>
   cf_InterceptPendingTimeout c \<in> {seconds..600 * seconds} \<and> 0 \<le> cf_CleanupRetentionDays c \<and>
   cf_CleanupRetentionDays c = la_cleanupRetentionDays a \<and> 60 * seconds \<le> cf_CleanupInterval c"
  unfolding load_limits_def Let_def check_passed sum.inject
  by (elim conjE, hypsubst) (cases "la_maxStreams a = 0"; simp add: or_default_cases or_default_def default_defs seconds_def)

lemma load_limits_accepts:
  assumes "la_proxyPort a \<in> {1..65535}" and "la_apiPort a \<in> {1..65535}" and "la_proxyPort a \<noteq> la_apiPort a"
  shows "(\<exists>c. load_limits a base db host token = Inr c) \<longleftrightarrow> acceptable a"
proof -
  have "(\<exists>c. load_limits a base db host token = Inr c) \<longleftrightarrow>
      0 \<le> la_maxReqBodyKB a \<and> 0 \<le> la_maxResBodyKB a \<and> 0 \<le> la_streamTimeoutMin a \<and> 0 \<le> la_captureRingEntries a \<and>
      0 \<le> la_maxStreams a \<and> \<not> (or_default (la_maxStreams a) DefaultMaxStreams > 0 \<and>
        or_default (la_maxStreams a) DefaultMaxStreams < 64) \<and>
      \<not> (or_default (la_interceptPendingTimeout a) DefaultInterceptPendingTimeout < seconds \<or>
        or_default (la_interceptPendingTimeout a) DefaultInterceptPendingTimeout > 10 * 60 * seconds) \<and>
      0 \<le> la_cleanupRetentionDays a \<and> \<not> or_default (la_cleanupInterval a) DefaultCleanupInterval < 60 * seconds"
    unfolding load_limits_def Let_def check_passed(1,2) not_less by blast
  also have "\<dots> \<longleftrightarrow> acceptable a"
    using assms by (simp add: acceptable_def or_default_cases or_default_def [of "la_maxStreams a"] default_defs seconds_def) auto
  finally show ?thesis .
qed

lemma file_clean_nonempty: "file_clean p \<noteq> []"
  by (simp add: file_clean_def Let_def)

lemma Load_Inr:
  assumes "Load env a = (Inr c, fx)"
  shows "\<exists>base db host token fx'. load_limits a base db host token = Inr c \<and> host \<noteq> [] \<and> db \<noteq> [] \<and>
    load_token env base (la_apiToken a) = (Inr token, fx') \<and>
    la_proxyPort a \<in> {1..65535} \<and> la_apiPort a \<in> {1..65535} \<and> la_proxyPort a \<noteq> la_apiPort a \<and>
    set [Made base, Made (cf_CertDir c), Made (file_dir db)] \<subseteq> set fx"
proof -
  have "cf_CertDir c' = file_join [base, ''certs'']" if "load_limits a base db host token = Inr c'" for base db host token c'
    using that by (auto simp: load_limits_def Let_def split: if_splits)
  moreover have "file_join [base, ''data.db''] \<noteq> []" for base
    by (simp add: file_join_def file_clean_nonempty)
  ultimately show ?thesis
    using assms by (fastforce simp: Load_def Let_def split: sum.splits if_splits option.splits prod.splits)
qed

lemma Load_token: "Load env a = (Inr c, fx) \<Longrightarrow> fills_buffer env \<Longrightarrow> cf_APIToken c \<noteq> []"
  using Load_Inr [of env a c fx] load_token_nonempty load_limits_Inr by metis

text \<open>C28: On a system that works, \<open>Load\<close> accepts exactly the command lines whose values are in their
  ranges, zero standing for a default, and what it returns is always a valid configuration: different
  ports, limits in their bounds, and a token.\<close>

theorem config_accepted_iff_valid:
  assumes "working env"
  shows "(case fst (Load env a) of Inr c \<Rightarrow> acceptable a \<and> valid_config c | Inl _ \<Rightarrow> \<not> acceptable a)"
proof (cases "la_proxyPort a \<in> {1..65535} \<and> la_apiPort a \<in> {1..65535} \<and> la_proxyPort a \<noteq> la_apiPort a")
  case False
  then show ?thesis using assms by (auto simp: Load_def working_def acceptable_def Let_def)
next
  case True
  have f: "fills_buffer env" using assms by (auto simp: working_def fills_buffer_def)
  obtain home buf where h: "le_UserHomeDir env = Inr home" and b: "le_Read env = Inr buf"
    using assms by (auto simp: working_def)
  have m: "le_MkdirAll env d = None" for d using assms by (simp add: working_def)
  obtain base db host token fx where l: "fst (Load env a) = load_limits a base db host token"
    and t: "load_token env base (la_apiToken a) = (Inr token, fx)" and "host \<noteq> []" "db \<noteq> []"
  proof -
    let ?base = "file_join [home, ''.packetlab'']"
    obtain token fx where t: "load_token env ?base (la_apiToken a) = (Inr token, fx)"
      using load_token_works [OF b] by blast
    show thesis
      by (rule that [OF _ t, of "if la_dbPath a = [] then file_join [?base, ''data.db''] else la_dbPath a"
            "if la_apiHost a = [] then ''127.0.0.1'' else la_apiHost a"])
         (use True h m t in \<open>auto simp: Load_def Let_def file_join_def file_clean_nonempty\<close>)
  qed
  show ?thesis
  proof (cases "load_limits a base db host token")
    case (Inl e)
    then show ?thesis using l load_limits_accepts [of a base db host token] True by auto
  next
    case (Inr c)
    then have "acceptable a" using load_limits_accepts [of a base db host token] True by blast
    then show ?thesis
      using l Inr load_limits_Inr [OF Inr] load_token_nonempty [OF f t] \<open>host \<noteq> []\<close> \<open>db \<noteq> []\<close> True
      by (auto simp: valid_config_def)
  qed
qed

definition example_env :: load_env where
  "example_env = \<lparr>le_UserHomeDir = Inr ''/home/u'', le_MkdirAll = (\<lambda>_. None), le_Read = Inr (replicate 32 0x1F),
     le_WriteFile = (\<lambda>_ _. None)\<rparr>"

definition example_args :: load_args where
  "example_args = \<lparr>la_proxyPort = 8080, la_apiPort = 9090, la_dbPath = [], la_noProxy = False, la_noMitm = False,
     la_insecure = False, la_apiHost = [], la_apiToken = [], la_capture = False, la_captureIface = [],
     la_captureBPF = ''tcp'', la_captureNoProc = False, la_streamTimeoutMin = 0, la_maxReqBodyKB = 0,
     la_maxResBodyKB = 0, la_captureRingEntries = 0, la_maxStreams = 64, la_interceptPendingTimeout = 0,
     la_cleanupRetentionDays = 0, la_cleanupInterval = 0, la_llmEndpoints = []\<rparr>"

lemma config_accepted_example: "\<exists>c. fst (Load example_env example_args) = Inr c"
  by (simp add: Load_def example_env_def example_args_def load_token_def generateAPIToken_def load_limits_def or_default_def
      default_defs seconds_def Let_def)

theorem config_accepted_iff_valid_witness:
  "(\<exists>c. fst (Load example_env example_args) = Inr c \<and> valid_config c) \<and>
   (\<exists>e. fst (Load example_env (example_args\<lparr>la_maxStreams := 63\<rparr>)) = Inl e)"
proof -
  have w: "working example_env" by (simp add: working_def example_env_def)
  have "acceptable example_args" and n: "\<not> acceptable (example_args\<lparr>la_maxStreams := 63\<rparr>)"
    by (simp_all add: acceptable_def example_args_def)
  with config_accepted_iff_valid [OF w, of example_args] config_accepted_iff_valid [OF w, of "example_args\<lparr>la_maxStreams := 63\<rparr>"]
  show ?thesis by (auto split: sum.splits)
qed

text \<open>The checks of the limits come after the token file: a command line that is refused has already
  replaced the token of a server that runs.\<close>

lemma refused_load_replaces_token:
  assumes "working env" and "la_proxyPort a \<in> {1..65535}" and "la_apiPort a \<in> {1..65535}"
    and "la_proxyPort a \<noteq> la_apiPort a" and "la_apiToken a = []" and "la_cleanupRetentionDays a < 0"
    and "\<forall>p t. le_WriteFile env p t = None"
  shows "\<exists>e. fst (Load env a) = Inl e" and "\<exists>p t. Wrote p t \<in> set (snd (Load env a))"
proof -
  have "\<not> acceptable a" using assms(6) by (simp add: acceptable_def)
  then have "\<exists>e. load_limits a base db host token = Inl e" for base db host token
    using load_limits_accepts [OF assms(2-4), of base db host token] by (metis obj_sumE)
  then show "\<exists>e. fst (Load env a) = Inl e"
    using assms by (auto simp: Load_def working_def load_token_def generateAPIToken_def Let_def)
  show "\<exists>p t. Wrote p t \<in> set (snd (Load env a))"
    using assms by (auto simp: Load_def working_def load_token_def generateAPIToken_def Let_def)
qed

end
