(* ===== verification/Startup.thy ===== *)
theory Startup
  imports ApiServerProps Config LlmProvider
begin

text \<open>
  The program entry \<^verbatim>\<open>cmd/proxy/main.go\<close> and the constructor and setters of the API server
  (\<^verbatim>\<open>internal/api/server.go\<close>): how the parts are made from the configuration, the background cleanup and
  the shutdown. The proxy's own parts are in ProxyHooks; here only whether it was made.
\<close>

section \<open>The command line\<close>

text \<open>One \<open>--llm-endpoint\<close>: a host and, after the first equals sign, a name.\<close>

definition endpoint_spec :: "string \<Rightarrow> string \<times> string" where
  "endpoint_spec spec =
     (let (host, name) =
        (case index_byte spec (CHR ''='') of
           Some i \<Rightarrow> if i > 0 then (take i spec, drop (Suc i) spec) else (spec, [])
         | None \<Rightarrow> (spec, []))
      in (trim_space host, trim_space name))"

definition register_endpoints :: "string list \<Rightarrow> custom_endpoint list \<Rightarrow> custom_endpoint list" where
  "register_endpoints specs eps =
     fold (\<lambda>spec eps.
       case endpoint_spec spec of (host, name) \<Rightarrow>
         if host = [] then eps
         else RegisterCustomEndpoint \<lparr>ep_Host = host, ep_Path = [], ep_Name = name\<rparr> eps) specs eps"

definition origins_of :: "string \<Rightarrow> config \<Rightarrow> config" where
  "origins_of apiAllowOrigins cfg =
     (if apiAllowOrigins \<noteq> []
      then cfg\<lparr>cf_AllowOrigins := filter (\<lambda>o'. o' \<noteq> []) (map trim_space (split_on (CHR '','') apiAllowOrigins))\<rparr>
      else cfg)"

section \<open>The server\<close>

text \<open>\<open>New\<close>, with the rate limiter beside the state of the handlers.\<close>

definition New_api :: "network \<Rightarrow> store \<times> api_note list \<Rightarrow> bool \<Rightarrow> rate_limiter \<times> api_server" where
  "New_api nw w insecure =
     (newRateLimiter 120 (60 * seconds),
      \<lparr>sv_store = fst w, sv_notes = snd w, sv_interceptor = None, sv_network = nw, sv_hub = newWSHub, sv_engines = [],
       sv_captureEngine = None, sv_proxyRunning = False, sv_insecure = insecure\<rparr>)"

definition SetInterceptor :: "interceptor option \<Rightarrow> api_server \<Rightarrow> api_server" where
  "SetInterceptor it sv = sv\<lparr>sv_interceptor := it\<rparr>"

definition SetProxyRunning :: "bool \<Rightarrow> api_server \<Rightarrow> api_server" where
  "SetProxyRunning running sv = sv\<lparr>sv_proxyRunning := running\<rparr>"

definition Stop_api :: "rate_limiter \<times> api_server \<Rightarrow> rate_limiter \<times> api_server" where
  "Stop_api st = (rate_limiter_stop (fst st), (snd st)\<lparr>sv_hub := hub_Stop (sv_hub (snd st))\<rparr>)"

text \<open>The interceptor gets the stored mode, \<open>auto\<close> if there is none, and the stored rules.\<close>

definition make_interceptor :: "config \<Rightarrow> api_server \<Rightarrow> api_server" where
  "make_interceptor cfg sv =
     (case GetSetting ''intercept_mode'' (sv_store sv) of
        (v, s) \<Rightarrow>
          let mode = (case v of Inr v \<Rightarrow> v | Inl _ \<Rightarrow> []);
              it = SetMode (if mode = [] then ''auto'' else mode) (NewInterceptor (cf_InterceptPendingTimeout cfg))
          in case ListRules s of
               (Inr rules, s) \<Rightarrow> SetInterceptor (Some (SetRules rules it)) (sv\<lparr>sv_store := s\<rparr>)
             | (Inl _, s) \<Rightarrow> SetInterceptor (Some it) (sv\<lparr>sv_store := s\<rparr>))"

text \<open>The engine of the command line; \<open>main\<close> keeps it to stop it at the end.\<close>

definition make_engine :: "'time api_env \<Rightarrow> config \<Rightarrow> api_server \<Rightarrow> nat option \<times> api_server" where
  "make_engine ev cfg sv =
     (if cf_Capture cfg then
        let iface = (if cf_CaptureIface cfg = [] then DetectInterface (ev_devices ev) else cf_CaptureIface cfg);
            ce = length (sv_engines sv)
        in case ev_start ev iface (cf_CaptureBPF cfg) of
             Some e \<Rightarrow> (None, sv\<lparr>sv_engines := sv_engines sv @ [False]\<rparr>)
           | None \<Rightarrow> (Some ce, SetCaptureEngine (Some ce) (sv\<lparr>sv_engines := sv_engines sv @ [True]\<rparr>))
      else (None, sv))"

definition setup_server ::
  "'time api_env \<Rightarrow> network \<Rightarrow> store \<times> api_note list \<Rightarrow> config \<Rightarrow> nat option \<times> rate_limiter \<times> api_server" where
  "setup_server ev nw w cfg =
     (case New_api nw w (cf_Insecure cfg) of (rl, sv) \<Rightarrow>
      case make_engine ev cfg (make_interceptor cfg sv) of (capEngine, sv) \<Rightarrow>
        (capEngine, rl, SetProxyRunning (\<not> cf_NoProxy cfg) sv))"

text \<open>What the proxy and the capture hand to the browsers: the updates of an event stream that has its id,
  else a new request.\<close>

definition onCapture :: "captured_request \<Rightarrow> ws_hub \<Rightarrow> ws_hub" where
  "onCapture req hub = (if cr_IsSSE req \<and> cr_ID req > 0 then BroadcastUpdate req hub else broadcast req hub)"

section \<open>Background cleanup\<close>

text \<open>\<open>startAutoCleanup\<close>: the period of the ticker, if the goroutine was started.\<close>

definition startAutoCleanup :: "int \<Rightarrow> instant \<Rightarrow> store \<Rightarrow> instant option \<times> store" where
  "startAutoCleanup retentionDays interval s =
     (let s = (case GetSetting ''retention_days'' s of
                 (Inr existing, s) \<Rightarrow>
                   if existing = [] then snd (SetSetting ''retention_days'' (show_int retentionDays) s) else s
               | (Inl _, s) \<Rightarrow> s)
      in (if retentionDays \<le> 0 then None else Some interval, s))"

text \<open>The ticks of the goroutine, at the given instants; an error is a warning.\<close>

definition cleanup_ticks :: "instant list \<Rightarrow> store \<Rightarrow> store" where
  "cleanup_ticks ts s = fold (\<lambda>now s. snd (Cleanup now 0 s)) ts s"

section \<open>Shutdown\<close>

definition shutdown :: "nat option \<Rightarrow> rate_limiter \<times> api_server \<Rightarrow> rate_limiter \<times> api_server" where
  "shutdown capEngine st =
     (case st of (rl, sv) \<Rightarrow>
      let sv = (case capEngine of Some e \<Rightarrow> stop_engine e sv | None \<Rightarrow> sv);
          sv = sv\<lparr>sv_interceptor := map_option it_Stop (sv_interceptor sv)\<rparr>
      in Stop_api (rl, sv))"

text \<open>The shutdown stops the engine of the command line, not one that was started over the API: its packets and
  unfinished messages are lost.\<close>

lemma shutdown_leaves_engine:
  assumes "capEngine = None \<or> (\<exists>e < length (sv_engines sv). capEngine = Some e)"
    and "\<forall>e. sv_captureEngine sv = Some e \<longrightarrow> e < length (sv_engines sv)"
  shows "engine_running (length (sv_engines sv)) (snd (shutdown capEngine (rl, start_engine None sv)))"
proof -
  have "engine_running (length (sv_engines sv)) (start_engine None sv)"
    using assms(2) by (auto simp: engine_running_def start_engine_def SetCaptureEngine_def stop_engine_def Let_def
        stopped_nth split: option.split)
  then show ?thesis
    using assms(1) by (auto simp: shutdown_def Stop_api_def Let_def engine_running_def stop_engine_def stopped_nth)
qed

section \<open>Without the token\<close>

text \<open>A handler is blind on a message if neither its answer nor the state after it depends on the state.\<close>

definition blind :: "('s, 'j) handler \<Rightarrow> api_request \<Rightarrow> bool" where
  "blind f r \<longleftrightarrow> (\<forall>r' h. same_message r r' \<longrightarrow> (\<exists>a. \<forall>s. f r' h s = (a, s)))"

lemma blindD: "blind f r \<Longrightarrow> same_message r r' \<Longrightarrow> \<exists>a. \<forall>s. f r' h s = (a, s)"
  by (simp add: blind_def)

lemma blind_requestIDInjector: "blind f r \<Longrightarrow> blind (requestIDInjectorMiddleware f) r"
  unfolding blind_def requestIDInjectorMiddleware_def using same_message_ids(2) by blast

lemma blind_requestID: "blind f r \<Longrightarrow> blind (requestIDMiddleware uuid f) r"
  unfolding blind_def requestIDMiddleware_def Let_def using same_message_ids(1) by blast

lemma blind_recovery:
  assumes "blind f r"
  shows "blind (recoveryMiddleware f) r"
  unfolding blind_def
proof (intro allI impI)
  fix r' h assume "same_message r r'"
  then obtain a where "\<forall>s. f r' h s = (a, s)" using blindD [OF assms] by blast
  then show "\<exists>a. \<forall>s. recoveryMiddleware f r' h s = (a, s)" by (cases a) (simp_all add: recoveryMiddleware_def)
qed

lemma blind_csrf:
  assumes "blind f r"
  shows "blind (csrfMiddleware f) r"
  unfolding blind_def
proof (intro allI impI)
  fix r' h assume "same_message r r'"
  note f = blindD [OF assms this]
  show "\<exists>a. \<forall>s. csrfMiddleware f r' h s = (a, s)"
    by (cases "safe_method (hr_Method r')"; cases "Header_Get (hr_Header r') ''X-Requested-With'' = ''XMLHttpRequest''")
       (simp_all add: csrfMiddleware_def f)
qed

lemma blind_cors:
  assumes "blind f r"
  shows "blind (corsMiddleware hostname origins f) r"
  unfolding blind_def
proof (intro allI impI)
  fix r' h assume "same_message r r'"
  note f = blindD [OF assms this]
  show "\<exists>a. \<forall>s. corsMiddleware hostname origins f r' h s = (a, s)"
    by (cases "hr_Method r' = ''OPTIONS''") (simp_all add: corsMiddleware_def Let_def f)
qed

lemma blind_security: "blind f r \<Longrightarrow> blind (securityHeadersMiddleware f) r"
  unfolding blind_def securityHeadersMiddleware_def by blast

lemma blind_rateLimit:
  assumes "blind f r"
  shows "\<exists>a rl'. \<forall>s. rateLimitMiddleware now f r h (rl, s) = (a, rl', s)"
proof -
  obtain a where "\<forall>s. f r h s = (a, s)" using blindD [OF assms same_message_refl] by blast
  moreover obtain ok rl2 where "allow now (case split_host_port (ar_RemoteAddr r) of
      Some (host, _) \<Rightarrow> if host = [] then ar_RemoteAddr r else host | None \<Rightarrow> ar_RemoteAddr r) rl = (ok, rl2)"
    by fastforce
  ultimately show ?thesis
    by (cases "hr_Method r = ''OPTIONS'' \<or> ar_path r = ''/ws''"; cases ok) (simp_all add: rateLimitMiddleware_def Let_def)
qed

lemma open_api_blind:
  "pat = ''/health'' \<or> pat = ''/'' \<Longrightarrow> \<exists>a. \<forall>sv. api_handler ev pat r h sv = (a, sv)"
  using open_api_handler [of ev] by (auto simp: handleHealth_def handle_static_def)

lemma blind_auth:
  assumes "tok \<noteq> []" and "presented_token r \<noteq> tok" and "ar_path r \<noteq> ''/ready''"
  shows "blind (authMiddleware tok (serve_mux (setupRoutes f) (api_handler ev))) r"
  unfolding blind_def
proof (intro allI impI)
  fix r' h assume "same_message r r'"
  from same_message_fields [OF this] have r': "presented_token r' \<noteq> tok" "ar_path r' \<noteq> ''/ready''"
    using assms by auto
  show "\<exists>a. \<forall>sv. authMiddleware tok (serve_mux (setupRoutes f) (api_handler ev)) r' h sv = (a, sv)"
  proof (cases "ar_path r' = ''/health'' \<or> isStaticPath (ar_path r')")
    case False
    then show ?thesis using assms(1) r' by (simp add: authMiddleware_def)
  next
    case True
    then have a: "authMiddleware tok (serve_mux (setupRoutes f) (api_handler ev)) r' h sv =
        serve_mux (setupRoutes f) (api_handler ev) r' h sv" for sv
      by (auto simp: authMiddleware_def)
    show ?thesis
    proof (cases "mux_pattern (setupRoutes f) (ar_path r')")
      case None
      then show ?thesis
        by (cases "hr_Method r' \<noteq> ''CONNECT'' \<and> cleanPath (ar_path r') \<noteq> ar_path r'") (auto simp: a serve_mux_def)
    next
      case (Some pat)
      note m = mux_pattern_matches [OF Some]
      have "open_route pat" using protected_route [OF conjunct1 [OF m] conjunct2 [OF m]] True by blast
      moreover have "pat \<noteq> ''/ready''" using m r'(2) by (auto simp: pattern_matches_def)
      ultimately have "pat = ''/health'' \<or> pat = ''/''" unfolding open_route_def by blast
      from open_api_blind [OF this, of ev r' h] Some show ?thesis
        by (cases "hr_Method r' \<noteq> ''CONNECT'' \<and> cleanPath (ar_path r') \<noteq> ar_path r'") (auto simp: a serve_mux_def)
    qed
  qed
qed

text \<open>C4: Who does not know the token learns nothing: a server made from an accepted configuration has a
  token, and a request that does not present it is answered the same whatever the server holds, and
  leaves the server as it was. Only \<^verbatim>\<open>/ready\<close> tells whether the database answers.\<close>

theorem no_token_no_information:
  assumes "Load env args = (Inr c, fx)" and "fills_buffer env"
    and "presented_token r \<noteq> cf_APIToken c" and "ar_path r \<noteq> ''/ready''"
  shows "\<exists>ans rl'. \<forall>sv. api_chain hostname (cf_AllowOrigins c) (cf_APIToken c) uuid now
     (serve_mux (setupRoutes f) (api_handler ev)) r h (rl, sv) = (ans, rl', sv)"
proof -
  have "cf_APIToken c \<noteq> []" by (rule Load_token [OF assms(1,2)])
  from blind_auth [OF this assms(3,4)] show ?thesis
    unfolding api_chain_def
    by (intro blind_rateLimit blind_security blind_cors blind_csrf blind_recovery blind_requestID blind_requestIDInjector)
qed

theorem no_token_no_information_witness:
  "\<exists>c ans rl'. fst (Load example_env example_args) = Inr c \<and>
     (\<forall>sv. api_chain (\<lambda>_. None) (cf_AllowOrigins c) (cf_APIToken c) ''0123456789abcdef'' 0
        (serve_mux (setupRoutes True) (api_handler quiet_env)) (api_call ''GET'' ''/api/requests'' [] []) []
        (newRateLimiter 120 60, sv) = (ans, rl', sv))"
proof -
  obtain c fx where l: "Load example_env example_args = (Inr c, fx)"
    using config_accepted_example by (metis prod.collapse)
  have f: "fills_buffer example_env" by (simp add: fills_buffer_def example_env_def)
  have "presented_token (api_call ''GET'' ''/api/requests'' [] []) = []"
    by (simp add: presented_token_def api_call_def Header_Get_def query_get_def Let_def has_prefix_def)
  then have "presented_token (api_call ''GET'' ''/api/requests'' [] []) \<noteq> cf_APIToken c" using Load_token [OF l f] by simp
  moreover have "ar_path (api_call ''GET'' ''/api/requests'' [] []) \<noteq> ''/ready''" by (simp add: ar_path_def api_call_def)
  ultimately show ?thesis using no_token_no_information [OF l f] l by (metis fst_conv)
qed

section \<open>The period of the cleanup\<close>

definition ok_replies :: "nat \<Rightarrow> store \<Rightarrow> bool" where
  "ok_replies n s \<longleftrightarrow> n \<le> length (st_replies s) \<and> (\<forall>r \<in> set (st_replies s). \<exists>i a. r = ExecOk i a)"

lemma ok_repliesE:
  assumes "ok_replies (Suc n) s"
  obtains i a s' where "next_reply s = (ExecOk i a, s')" "ok_replies n s'" "st_requests s' = st_requests s"
    "st_logs s' = st_logs s" "st_settings s' = st_settings s"
proof -
  from assms obtain i a rs where r: "st_replies s = ExecOk i a # rs" and n: "n \<le> length rs"
    and o: "\<forall>r \<in> set rs. \<exists>i a. r = ExecOk i a"
    by (cases "st_replies s") (auto simp: ok_replies_def)
  show thesis
    by (rule that [of i a "s\<lparr>st_replies := rs\<rparr>"]) (use r n o in \<open>simp_all add: next_reply_def ok_replies_def\<close>)
qed

lemma atoi_show_int:
  assumes "1 \<le> d" and "d < 2 ^ 63"
  shows "atoi (show_int d) = d"
proof -
  let ?s = "show_nat (nat d)"
  have d: "\<forall>c \<in> set ?s. is_digit c" using show_nat_digits by blast
  then have "is_digit (hd ?s)" by simp
  then have h: "hd ?s \<noteq> CHR ''-''" "hd ?s \<noteq> CHR ''+''" by (auto simp: is_digit_def)
  show ?thesis
    using assms d h by (simp add: atoi_def show_int_def show_nat_value list_all_iff)
qed

definition kept :: "int \<Rightarrow> instant list \<Rightarrow> request_row \<Rightarrow> bool" where
  "kept d ts r \<longleftrightarrow> (\<forall>t \<in> set ts. \<not> row_older (whole_seconds (t - d * day)) r)"

definition log_kept :: "int \<Rightarrow> instant list \<Rightarrow> log_row \<Rightarrow> bool" where
  "log_kept d ts l \<longleftrightarrow> (\<forall>t \<in> set ts. whole_seconds (t - d * day) \<le> log_created_at l)"

lemma cleanup_tick_effect:
  assumes "ok_replies (3 + n) s" and "map_of (st_settings s) ''retention_days'' = Some v" and "atoi v = d" and "1 \<le> d" "d \<le> 36500"
  shows "\<exists>s'. snd (Cleanup now 0 s) = s' \<and> ok_replies n s' \<and> st_settings s' = st_settings s \<and>
    st_requests s' = filter (kept d [now]) (st_requests s) \<and> st_logs s' = filter (log_kept d [now]) (st_logs s)"
proof -
  obtain i a s1 where s1: "next_reply s = (ExecOk i a, s1)" "ok_replies (2 + n) s1" "st_requests s1 = st_requests s"
    "st_logs s1 = st_logs s" "st_settings s1 = st_settings s"
    using ok_repliesE [of "2 + n" s] assms(1) by (auto simp: eval_nat_numeral)
  obtain i' a' s2 where s2: "next_reply s1 = (ExecOk i' a', s2)" "ok_replies (1 + n) s2" "st_requests s2 = st_requests s"
    "st_logs s2 = st_logs s" "st_settings s2 = st_settings s"
    using ok_repliesE [of "1 + n" s1] s1 by (auto simp: eval_nat_numeral)
  define s3 where "s3 = s2\<lparr>st_requests := filter (\<lambda>r. \<not> row_older (whole_seconds (now - d * day)) r) (st_requests s)\<rparr>"
  have "ok_replies (1 + n) s3" using s2(2) by (simp add: s3_def ok_replies_def)
  then obtain i'' a'' s4 where s4: "next_reply s3 = (ExecOk i'' a'', s4)" "ok_replies n s4" "st_requests s4 = st_requests s3"
    "st_logs s4 = st_logs s3" "st_settings s4 = st_settings s3"
    using ok_repliesE [of n s3] by (auto simp: eval_nat_numeral)
  have "retention_days 0 s = (d, s1)"
    using assms s1 by (simp add: retention_days_def GetSetting_def maxRetentionDays_def)
  then have "snd (Cleanup now 0 s) =
      s4\<lparr>st_logs := filter (\<lambda>l. \<not> log_created_at l < whole_seconds (now - d * day)) (st_logs s4), st_hostCache := emptyHostCache\<rparr>"
    using assms(4) s2 s4(1,4) by (simp add: Cleanup_def Let_def s3_def)
  moreover have "kept d [now] = (\<lambda>r. \<not> row_older (whole_seconds (now - d * day)) r)"
    "log_kept d [now] = (\<lambda>l. whole_seconds (now - d * day) \<le> log_created_at l)"
    by (simp_all add: fun_eq_iff kept_def log_kept_def)
  ultimately show ?thesis
    using s4 s2 by (auto simp: s3_def ok_replies_def not_less)
qed

lemma cleanup_ticks_effect:
  assumes "ok_replies (3 * length ts) s" and "map_of (st_settings s) ''retention_days'' = Some v" and "atoi v = d" and "1 \<le> d" "d \<le> 36500"
  shows "st_requests (cleanup_ticks ts s) = filter (kept d ts) (st_requests s) \<and>
    st_logs (cleanup_ticks ts s) = filter (log_kept d ts) (st_logs s)"
  using assms(1,2)
proof (induction ts arbitrary: s)
  case Nil
  then show ?case by (simp add: cleanup_ticks_def kept_def log_kept_def)
next
  case (Cons t ts)
  have "ok_replies (3 + 3 * length ts) s" using Cons.prems(1) by simp
  from cleanup_tick_effect [OF this Cons.prems(2) assms(3-5), of t] obtain s' where
    s': "snd (Cleanup t 0 s) = s'" "ok_replies (3 * length ts) s'" "st_settings s' = st_settings s"
    "st_requests s' = filter (kept d [t]) (st_requests s)" "st_logs s' = filter (log_kept d [t]) (st_logs s)"
    by blast
  have "cleanup_ticks (t # ts) s = cleanup_ticks ts s'" by (simp add: cleanup_ticks_def s'(1))
  then show ?case
    using Cons.IH [of s'] s' Cons.prems(2) by (simp add: kept_def log_kept_def conj_commute)
qed

text \<open>C27: The background cleanup keeps its promise: with the stored period if there is one, else with the one
  of the command line, which it stores, the ticks delete exactly the requests and logs that are older
  than the period at one of them, when the database answers.\<close>

theorem auto_cleanup_keeps_period:
  assumes "map_of (st_settings s) ''retention_days'' = None \<and> d = days \<or>
     (\<exists>v. map_of (st_settings s) ''retention_days'' = Some v \<and> v \<noteq> [] \<and> d = atoi v)"
    and "1 \<le> days" and "1 \<le> d" and "d \<le> 36500" and "ok_replies (2 + 3 * length ts) s"
    and "startAutoCleanup days interval s = (period, s1)"
  shows "period = Some interval \<and> st_requests (cleanup_ticks ts s1) = filter (kept d ts) (st_requests s) \<and>
     st_logs (cleanup_ticks ts s1) = filter (log_kept d ts) (st_logs s)"
proof -
  obtain i a s0 where s0: "next_reply s = (ExecOk i a, s0)" "ok_replies (1 + 3 * length ts) s0" "st_requests s0 = st_requests s"
    "st_logs s0 = st_logs s" "st_settings s0 = st_settings s"
    using ok_repliesE [of "1 + 3 * length ts" s] assms(5) by (auto simp: eval_nat_numeral)
  obtain i' a' s' where s': "next_reply s0 = (ExecOk i' a', s')" "ok_replies (3 * length ts) s'" "st_requests s' = st_requests s"
    "st_logs s' = st_logs s" "st_settings s' = st_settings s"
    using ok_repliesE [of "3 * length ts" s0] s0 by auto
  have "ok_replies (3 * length ts) s0" using s0(2) by (simp add: ok_replies_def)
  have "\<exists>v. map_of (st_settings s1) ''retention_days'' = Some v \<and> atoi v = d \<and> ok_replies (3 * length ts) s1 \<and>
      st_requests s1 = st_requests s \<and> st_logs s1 = st_logs s \<and> period = Some interval"
    using assms(1)
  proof
    assume n: "map_of (st_settings s) ''retention_days'' = None \<and> d = days"
    then have "atoi (show_int days) = d" using atoi_show_int [of days] assms(3,4) by simp
    moreover have "s1 = s'\<lparr>st_settings := AList.update ''retention_days'' (show_int days) (st_settings s')\<rparr>" "period = Some interval"
      using assms(2,6) n s0 s' by (auto simp: startAutoCleanup_def GetSetting_def SetSetting_def)
    ultimately show ?thesis using s' by (auto simp: update_conv' ok_replies_def)
  next
    assume "\<exists>v. map_of (st_settings s) ''retention_days'' = Some v \<and> v \<noteq> [] \<and> d = atoi v"
    then obtain v where v: "map_of (st_settings s) ''retention_days'' = Some v" "v \<noteq> []" "d = atoi v" by blast
    then have "s1 = s0" "period = Some interval"
      using assms(2,6) s0 by (auto simp: startAutoCleanup_def GetSetting_def)
    then show ?thesis using v s0 \<open>ok_replies (3 * length ts) s0\<close> by auto
  qed
  then obtain v where "map_of (st_settings s1) ''retention_days'' = Some v" "atoi v = d" "ok_replies (3 * length ts) s1"
    "st_requests s1 = st_requests s" "st_logs s1 = st_logs s" "period = Some interval" by blast
  then show ?thesis using cleanup_ticks_effect [of ts s1 v d] assms(3,4) by simp
qed

definition week_old :: store where
  "week_old = example_rows\<lparr>st_requests := [new_row 1 (zero_request\<lparr>cr_CapturedAt := Some 0\<rparr>),
      new_row 2 (zero_request\<lparr>cr_CapturedAt := Some (9 * day)\<rparr>)], st_replies := replicate 8 (ExecOk 0 None)\<rparr>"

theorem auto_cleanup_keeps_period_witness:
  "\<exists>period s1. startAutoCleanup 7 (6 * 3600 * seconds) week_old = (period, s1) \<and> period = Some (6 * 3600 * seconds) \<and>
     map row_id (st_requests (cleanup_ticks [5 * day, 10 * day] s1)) = [2]"
proof -
  obtain period s1 where s: "startAutoCleanup 7 (6 * 3600 * seconds) week_old = (period, s1)" by fastforce
  have "map_of (st_settings week_old) ''retention_days'' = None \<and> (7::int) = 7 \<or>
     (\<exists>v. map_of (st_settings week_old) ''retention_days'' = Some v \<and> v \<noteq> [] \<and> (7::int) = atoi v)"
    by (simp add: week_old_def example_rows_def)
  moreover have "ok_replies (2 + 3 * length [5 * day, 10 * day]) week_old"
    by (simp add: ok_replies_def week_old_def)
  ultimately have "period = Some (6 * 3600 * seconds) \<and>
      st_requests (cleanup_ticks [5 * day, 10 * day] s1) = filter (kept 7 [5 * day, 10 * day]) (st_requests week_old)"
    using auto_cleanup_keeps_period [OF _ _ _ _ _ s, of 7 "[5 * day, 10 * day]"] by simp
  moreover have "map row_id (filter (kept 7 [5 * day, 10 * day]) (st_requests week_old)) = [2]"
    by (simp add: week_old_def new_row_def insert_columns_def kept_def row_older_def whole_seconds_def day_def seconds_def)
  ultimately show ?thesis using s by auto
qed

end
